(* ===== verification/Prelude.thy ===== *)
theory Prelude
  imports Main "HOL-Library.Word"
begin

text \<open>
  Shared vocabulary of the development: the machine integer types of
  \<^verbatim>\<open>webrtc/base/basictypes.h\<close>, the big-endian view of a word as a byte list, the theorem
  collections the component theories extend, and generic facts on lists and words.

  \<^item> \<open>net_simps\<close> collects the equations that turn a byte-level accessor of the program
    (\<open>GetBE16\<close>, \<open>SetBE32\<close>, ...) into \<open>be_word\<close> and \<open>be_bytes\<close>;
  \<^item> \<open>buf_simps\<close> collects what every operation of a buffer does to its abstract contents;
  \<^item> \<open>inv_intros\<close> collects that every operation keeps its component's invariant.
\<close>

unbundle bit_operations_syntax

named_theorems net_simps
named_theorems buf_simps
named_theorems inv_intros

type_synonym uint8 = "8 word"
type_synonym uint16 = "16 word"
type_synonym uint32 = "32 word"
type_synonym uint64 = "64 word"
type_synonym bytes = "8 word list"

section \<open>Big-endian byte lists\<close>

text \<open>
  \<open>be_bytes n v\<close> is the \<open>n\<close> least significant bytes of \<open>v\<close>, most significant first;
  \<open>be_word bs\<close> reads such a list back.
\<close>

fun be_bytes :: "nat \<Rightarrow> 'a::len word \<Rightarrow> bytes" where
  "be_bytes 0 v = []"
| "be_bytes (Suc n) v = ucast (drop_bit (8 * n) v) # be_bytes n v"

fun be_word :: "bytes \<Rightarrow> 'a::len word" where
  "be_word [] = 0"
| "be_word (b # bs) = push_bit (8 * length bs) (ucast b) OR be_word bs"

lemma length_be_bytes [simp]: "length (be_bytes n v) = n"
  by (induction n) auto

lemma be_word_be_bytes_take_bit:
  "be_word (be_bytes n v) = take_bit (8 * n) (v :: 'a::len word)"
proof (induction n)
  case (Suc n)
  show ?case
    by (rule bit_word_eqI) (auto simp: Suc.IH bit_simps not_less)
qed simp

lemma be_word_be_bytes [simp]:
  "LENGTH('a) \<le> 8 * n \<Longrightarrow> be_word (be_bytes n v) = (v :: 'a::len word)"
  by (simp add: be_word_be_bytes_take_bit take_bit_word_eq_self)

lemma bit_be_word_imp: "bit (be_word bs :: 'a::len word) k \<Longrightarrow> k < 8 * length bs"
proof (induction bs)
  case (Cons b bs)
  then show ?case
    using bit_imp_le_length [of b "k - 8 * length bs"] by (auto simp: bit_simps)
qed simp

lemma be_bytes_cong:
  "(\<And>k. k < 8 * n \<Longrightarrow> bit v k = bit w k) \<Longrightarrow> be_bytes n v = be_bytes n (w :: 'a::len word)"
proof (induction n)
  case (Suc n)
  have "ucast (drop_bit (8 * n) v) = (ucast (drop_bit (8 * n) w) :: uint8)"
    by (rule bit_word_eqI) (auto simp: bit_simps Suc.prems)
  with Suc show ?case by simp
qed simp

lemma be_bytes_be_word_length:
  "8 * length bs \<le> LENGTH('a) \<Longrightarrow> be_bytes (length bs) (be_word bs :: 'a::len word) = bs"
proof (induction bs)
  case (Cons b bs)
  have hd: "ucast (drop_bit (8 * length bs) (be_word (b # bs) :: 'a word)) = b"
  proof (rule bit_word_eqI)
    fix k assume "k < LENGTH(8)"
    with Cons.prems
    show "bit (ucast (drop_bit (8 * length bs) (be_word (b # bs) :: 'a word)) :: uint8) k = bit b k"
      using bit_be_word_imp [of bs "8 * length bs + k", where 'a = 'a] by (auto simp: bit_simps)
  qed
  have "be_bytes (length bs) (be_word (b # bs) :: 'a word)
      = be_bytes (length bs) (be_word bs :: 'a word)"
    by (rule be_bytes_cong) (auto simp: bit_simps)
  with Cons hd show ?case by simp
qed simp

lemma be_bytes_be_word [simp]:
  "length bs = n \<Longrightarrow> 8 * n \<le> LENGTH('a) \<Longrightarrow> be_bytes n (be_word bs :: 'a::len word) = bs"
  using be_bytes_be_word_length by blast

lemma be_bytes_explicit:
  "be_bytes 2 v = [ucast (drop_bit 8 v), ucast v]"
  "be_bytes 4 v = [ucast (drop_bit 24 v), ucast (drop_bit 16 v), ucast (drop_bit 8 v), ucast v]"
  "be_bytes 8 v = [ucast (drop_bit 56 v), ucast (drop_bit 48 v), ucast (drop_bit 40 v),
     ucast (drop_bit 32 v), ucast (drop_bit 24 v), ucast (drop_bit 16 v), ucast (drop_bit 8 v), ucast v]"
  by (simp_all add: eval_nat_numeral)

lemma be_bytes_drop1: "drop (Suc 0) (be_bytes 4 v) = be_bytes 3 v"
  by (simp add: eval_nat_numeral)

lemma be_bytes_inject:
  "LENGTH('a) \<le> 8 * n \<Longrightarrow> be_bytes n v = be_bytes n w \<longleftrightarrow> v = (w :: 'a::len word)"
  by (metis be_word_be_bytes)

section \<open>Words\<close>

lemma unat_of_nat_small: "n < 2 ^ LENGTH('a) \<Longrightarrow> unat (of_nat n :: 'a::len word) = n"
  by (simp add: unat_of_nat take_bit_nat_eq_self_iff)

lemma word_xor_self_inverse [simp]: "(x XOR k) XOR k = (x :: 'a::len word)"
  by (simp add: xor.assoc)

lemma word_xor_left_cancel: "c XOR a = c XOR b \<longleftrightarrow> a = (b :: 'a::len word)"
proof
  assume "c XOR a = c XOR b"
  then have "c XOR (c XOR a) = c XOR (c XOR b)" by (rule arg_cong)
  then show "a = b" by (simp add: xor.assoc [symmetric])
qed simp

lemma word_xor_right_cancel: "a XOR c = b XOR c \<longleftrightarrow> a = (b :: 'a::len word)"
  by (simp only: xor.commute [of _ c] word_xor_left_cancel)

lemma ucast_up_down:
  "LENGTH('a) \<le> LENGTH('b) \<Longrightarrow> ucast (ucast (x :: 'a::len word) :: 'b::len word) = x"
  by (rule bit_word_eqI) (auto simp: bit_simps dest: bit_imp_le_length)

lemma ucast_up_inject:
  "LENGTH('a) \<le> LENGTH('b) \<Longrightarrow> (ucast (x :: 'a::len word) :: 'b::len word) = ucast y \<longleftrightarrow> x = y"
  by (metis ucast_up_down)

section \<open>Lists\<close>

lemma bit_uint8D: "bit (x :: uint8) n \<Longrightarrow> n < 8"
  using bit_imp_le_length [of x n] by simp

lemma not_bit_uint8 [simp]: "8 \<le> n \<Longrightarrow> \<not> bit (x :: uint8) n"
  by (auto dest: bit_uint8D)

lemma length_Let: "length (Let e f) = Let e (\<lambda>x. length (f x))"
  by simp

lemma Let_const: "Let e (\<lambda>_. c) = c"
  by simp

lemma take_add_drop: "take n xs @ take m (drop n xs) = take (n + m) xs"
  by (simp add: take_add)

lemma list_update_prefix:
  "i < length xs \<Longrightarrow> (xs @ ys)[i := v] = xs[i := v] @ ys"
  by (simp add: list_update_append)

lemma list_eq_take_drop_nth2: "2 \<le> length m \<Longrightarrow> m = m ! 0 # m ! 1 # drop 2 m"
  by (cases m; cases "tl m") auto

text \<open>
  Writing a block into an array at an offset, the shape of every \<^verbatim>\<open>memcpy\<close> in the program.
\<close>

definition blit :: "'a list \<Rightarrow> nat \<Rightarrow> 'a list \<Rightarrow> 'a list" where
  "blit m off xs = take off m @ xs @ drop (off + length xs) m"

lemma length_blit [simp]:
  "off + length xs \<le> length m \<Longrightarrow> length (blit m off xs) = length m"
  by (simp add: blit_def)

lemma take_blit [simp]: "n \<le> off \<Longrightarrow> off \<le> length m \<Longrightarrow> take n (blit m off xs) = take n m"
  by (simp add: blit_def min_def)

lemma drop_take_blit:
  "off \<le> length m \<Longrightarrow> take (length xs) (drop off (blit m off xs)) = xs"
  by (simp add: blit_def)

lemma take_blit_append:
  "off \<le> length m \<Longrightarrow> take (off + length xs) (blit m off xs) = take off m @ xs"
  by (simp add: blit_def)

lemma take_drop_blit_append:
  assumes "st \<le> off" and "off + length xs \<le> length m"
  shows "take (off + length xs - st) (drop st (blit m off xs)) = take (off - st) (drop st m) @ xs"
proof -
  have "drop st (blit m off xs) = take (off - st) (drop st m) @ xs @ drop (off + length xs) m"
    using assms by (simp add: blit_def drop_take)
  moreover have "length (take (off - st) (drop st m) @ xs) = off + length xs - st"
    using assms by simp
  ultimately show ?thesis
    by (metis append.assoc append_eq_conv_conj)
qed

section \<open>Character literals\<close>

definition ascii_char :: "char \<Rightarrow> uint8" where
  "ascii_char c = of_char c"

definition ascii :: "string \<Rightarrow> bytes" where
  "ascii s = map ascii_char s"

text \<open>A failed assertion of the program ends the computation.\<close>

definition assert_opt :: "bool \<Rightarrow> unit option" where
  "assert_opt c = (if c then Some () else None)"

end
