(* ===== verification/String_Encode.thy ===== *)
theory String_Encode
  imports Prelude
begin

text \<open>
  \<^verbatim>\<open>webrtc/base/stringencode.cc\<close>: escaping, percent-style encoding, URL encoding, UTF-8, XML
  escaping, hexadecimal dumps, tokenising and splitting.

  Characters are bytes. A routine that fills a caller's buffer of \<^verbatim>\<open>buflen\<close> bytes and returns
  the number of characters written is a function of \<open>buflen\<close> and the source that returns
  the characters written, without the terminating zero. The loops keep the position \<open>bufpos\<close> and
  recurse over the source that is left (\<open>source + srcpos\<close>). The rest of the file
  is in \<^verbatim>\<open>String_Markup\<close>.

  The round trips share one argument, the locale \<open>bounded_codec\<close>.
\<close>

unbundle bit_operations_syntax

section \<open>C strings\<close>

text \<open>\<^verbatim>\<open>strchr\<close> also finds the terminating zero of the string it searches.\<close>

definition strchr :: "bytes \<Rightarrow> uint8 \<Rightarrow> bool" where
  "strchr s ch \<longleftrightarrow> ch = 0 \<or> ch \<in> set s"

section \<open>Hexadecimal digits\<close>

definition HEX :: bytes where
  "HEX = ascii ''0123456789abcdef''"

definition hex_encode :: "uint8 \<Rightarrow> uint8" where
  "hex_encode val = (if val < 16 then HEX ! unat val else ascii_char (CHR ''!''))"

definition hex_decode :: "uint8 \<Rightarrow> uint8 option" where
  "hex_decode ch =
     (if ascii_char (CHR ''0'') \<le> ch \<and> ch \<le> ascii_char (CHR ''9'') then Some (ch - ascii_char (CHR ''0''))
      else if ascii_char (CHR ''A'') \<le> ch \<and> ch \<le> ascii_char (CHR ''Z'') then Some (ch - ascii_char (CHR ''A'') + 10)
      else if ascii_char (CHR ''a'') \<le> ch \<and> ch \<le> ascii_char (CHR ''z'') then Some (ch - ascii_char (CHR ''a'') + 10)
      else None)"

section \<open>Escaping\<close>

fun escape_loop :: "nat \<Rightarrow> bytes \<Rightarrow> uint8 \<Rightarrow> bytes \<Rightarrow> nat \<Rightarrow> bytes" where
  "escape_loop buflen illegal esc [] bufpos = []"
| "escape_loop buflen illegal esc (ch # source) bufpos =
     (if bufpos + 1 < buflen then
        if ch = esc \<or> strchr illegal ch then
          if bufpos + 2 \<ge> buflen then []
          else esc # ch # escape_loop buflen illegal esc source (bufpos + 2)
        else ch # escape_loop buflen illegal esc source (bufpos + 1)
      else [])"

definition escape :: "nat \<Rightarrow> bytes \<Rightarrow> bytes \<Rightarrow> uint8 \<Rightarrow> bytes" where
  "escape buflen source illegal esc =
     (if buflen \<le> 0 then [] else escape_loop buflen illegal esc source 0)"

fun unescape_loop :: "nat \<Rightarrow> uint8 \<Rightarrow> bytes \<Rightarrow> nat \<Rightarrow> bytes" where
  "unescape_loop buflen esc [] bufpos = []"
| "unescape_loop buflen esc (ch # source) bufpos =
     (if bufpos + 1 < buflen then
        (if ch = esc then
           (case source of
              ch' # source' \<Rightarrow> ch' # unescape_loop buflen esc source' (bufpos + 1)
            | [] \<Rightarrow> ch # unescape_loop buflen esc source (bufpos + 1))
         else ch # unescape_loop buflen esc source (bufpos + 1))
      else [])"

definition unescape :: "nat \<Rightarrow> bytes \<Rightarrow> uint8 \<Rightarrow> bytes" where
  "unescape buflen source esc = (if buflen \<le> 0 then [] else unescape_loop buflen esc source 0)"

section \<open>Percent-style encoding\<close>

fun encode_loop :: "nat \<Rightarrow> bytes \<Rightarrow> uint8 \<Rightarrow> bytes \<Rightarrow> nat \<Rightarrow> bytes" where
  "encode_loop buflen illegal esc [] bufpos = []"
| "encode_loop buflen illegal esc (ch # source) bufpos =
     (if bufpos + 1 < buflen then
        if ch \<noteq> esc \<and> \<not> strchr illegal ch then ch # encode_loop buflen illegal esc source (bufpos + 1)
        else if bufpos + 3 \<ge> buflen then []
        else esc # hex_encode (drop_bit 4 ch AND 0xF) # hex_encode (ch AND 0xF) #
             encode_loop buflen illegal esc source (bufpos + 3)
      else [])"

definition encode :: "nat \<Rightarrow> bytes \<Rightarrow> bytes \<Rightarrow> uint8 \<Rightarrow> bytes" where
  "encode buflen source illegal esc =
     (if buflen \<le> 0 then [] else encode_loop buflen illegal esc source 0)"

text \<open>The two hexadecimal digits at the front of the source, if they are there.\<close>

fun hex_pair :: "bytes \<Rightarrow> (uint8 \<times> bytes) option" where
  "hex_pair (a # b # source) =
     (case hex_decode a of
        None \<Rightarrow> None
      | Some h1 \<Rightarrow> (case hex_decode b of
            None \<Rightarrow> None
          | Some h2 \<Rightarrow> Some (push_bit 4 h1 OR h2, source)))"
| "hex_pair _ = None"

lemma hex_pair_length: "hex_pair source = Some (b, source') \<Longrightarrow> length source' < length source"
  by (cases source rule: hex_pair.cases) (auto split: option.splits)

function decode_loop :: "nat \<Rightarrow> uint8 \<Rightarrow> bytes \<Rightarrow> nat \<Rightarrow> bytes" where
  "decode_loop buflen esc [] bufpos = []"
| "decode_loop buflen esc (ch # source) bufpos =
     (if bufpos + 1 < buflen then
        case (if ch = esc then hex_pair source else None) of
          Some (b, source') \<Rightarrow> b # decode_loop buflen esc source' (bufpos + 1)
        | None \<Rightarrow> ch # decode_loop buflen esc source (bufpos + 1)
      else [])"
  by pat_completeness auto
termination
  by (relation "measure (\<lambda>(buflen, esc, source, bufpos). length source)")
    (auto split: if_splits dest: hex_pair_length)

definition decode :: "nat \<Rightarrow> bytes \<Rightarrow> uint8 \<Rightarrow> bytes" where
  "decode buflen source esc = (if buflen \<le> 0 then [] else decode_loop buflen esc source 0)"

section \<open>URLs\<close>

definition URL_UNSAFE :: uint8 where "URL_UNSAFE = 0x1"
definition XML_UNSAFE :: uint8 where "XML_UNSAFE = 0x2"

definition ASCII_CLASS :: "uint8 list" where
  "ASCII_CLASS = [
  1,1,1,1,1,1,1,1,1,1,1,1,1,1,1,1,1,1,1,1,1,1,1,1,1,1,1,1,1,1,1,1,
  1,0,3,1,1,1,3,2,0,0,0,1,1,0,0,1,0,0,0,0,0,0,0,0,0,0,1,1,3,1,3,1,
  1,0,0,0,0,0,0,0,0,0,0,0,0,0,0,0,0,0,0,0,0,0,0,0,0,0,0,1,1,1,1,0,
  1,0,0,0,0,0,0,0,0,0,0,0,0,0,0,0,0,0,0,0,0,0,0,0,0,0,0,1,1,1,0,1]"

fun url_encode_loop :: "nat \<Rightarrow> bytes \<Rightarrow> nat \<Rightarrow> bytes" where
  "url_encode_loop buflen [] bufpos = []"
| "url_encode_loop buflen (ch # source) bufpos =
     (if bufpos + 1 < buflen then
        if ch < 128 \<and> ASCII_CLASS ! unat ch AND URL_UNSAFE \<noteq> 0 then
          if bufpos + 3 \<ge> buflen then []
          else ascii_char (CHR ''%'') # hex_encode (drop_bit 4 ch AND 0xF) # hex_encode (ch AND 0xF) #
               url_encode_loop buflen source (bufpos + 3)
        else ch # url_encode_loop buflen source (bufpos + 1)
      else [])"

text \<open>With a null buffer the routines estimate the room they need.\<close>

definition url_encode_size :: "nat \<Rightarrow> nat" where
  "url_encode_size srclen = srclen * 3 + 1"

definition url_encode :: "nat \<Rightarrow> bytes \<Rightarrow> bytes" where
  "url_encode buflen source = (if buflen \<le> 0 then [] else url_encode_loop buflen source 0)"

function url_decode_loop :: "nat \<Rightarrow> bytes \<Rightarrow> nat \<Rightarrow> bytes" where
  "url_decode_loop buflen [] bufpos = []"
| "url_decode_loop buflen (ch # source) bufpos =
     (if bufpos + 1 < buflen then
        if ch = ascii_char (CHR ''+'') then ascii_char (CHR '' '') # url_decode_loop buflen source (bufpos + 1)
        else case (if ch = ascii_char (CHR ''%'') then hex_pair source else None) of
          Some (b, source') \<Rightarrow> b # url_decode_loop buflen source' (bufpos + 1)
        | None \<Rightarrow> ch # url_decode_loop buflen source (bufpos + 1)
      else [])"
  by pat_completeness auto
termination
  by (relation "measure (\<lambda>(buflen, source, bufpos). length source)")
    (auto split: if_splits dest: hex_pair_length)

definition url_decode_size :: "nat \<Rightarrow> nat" where
  "url_decode_size srclen = srclen + 1"

definition url_decode :: "nat \<Rightarrow> bytes \<Rightarrow> bytes" where
  "url_decode buflen source = (if buflen \<le> 0 then [] else url_decode_loop buflen source 0)"

text \<open>\<^verbatim>\<open>s_transform\<close>: ask for the size, then transform into a buffer of that size.\<close>

definition s_transform :: "(nat \<Rightarrow> nat) \<Rightarrow> (nat \<Rightarrow> bytes \<Rightarrow> bytes) \<Rightarrow> bytes \<Rightarrow> bytes" where
  "s_transform estimate t source = t (estimate (length source)) source"

definition transform :: "(nat \<Rightarrow> bytes \<Rightarrow> bytes) \<Rightarrow> nat \<Rightarrow> bytes \<Rightarrow> bytes" where
  "transform t maxlen source = t (maxlen + 1) source"

section \<open>UTF-8\<close>

text \<open>
  \<open>utf8_decode\<close> returns the code point and the number of bytes it took; \<open>None\<close> is the return
  value 0. A character is read only under a length test, except \<open>s[0]\<close>: the source is not
  empty. \<^verbatim>\<open>unsigned long\<close> has 64 bits.
\<close>

definition utf8_decode :: "bytes \<Rightarrow> (uint64 \<times> nat) option" where
  "utf8_decode s =
     (let srclen = length s; s0 = s ! 0 in
      if s0 AND 0x80 = 0x00 then Some (ucast s0, 1)
      else if srclen < 2 \<or> s ! 1 AND 0xC0 \<noteq> 0x80 then None
      else let value16 = ucast (s ! 1 AND 0x3F) in
      if s0 AND 0xE0 = 0xC0 then Some (push_bit 6 (ucast (s0 AND 0x1F)) OR value16, 2)
      else if srclen < 3 \<or> s ! 2 AND 0xC0 \<noteq> 0x80 then None
      else let value16 = push_bit 6 value16 OR ucast (s ! 2 AND 0x3F) in
      if s0 AND 0xF0 = 0xE0 then Some (push_bit 12 (ucast (s0 AND 0x0F)) OR value16, 3)
      else if srclen < 4 \<or> s ! 3 AND 0xC0 \<noteq> 0x80 then None
      else let value16 = push_bit 6 value16 OR ucast (s ! 3 AND 0x3F) in
      if s0 AND 0xF8 = 0xF0 then Some (push_bit 18 (ucast (s0 AND 0x07)) OR value16, 4)
      else None)"

definition utf8_encode :: "nat \<Rightarrow> uint64 \<Rightarrow> bytes" where
  "utf8_encode buflen val =
     (if val \<le> 0x7F \<and> buflen \<ge> 1 then [ucast val]
      else if val \<le> 0x7FF \<and> buflen \<ge> 2 then
        [0xC0 OR ucast (drop_bit 6 val), 0x80 OR ucast (val AND 0x3F)]
      else if val \<le> 0xFFFF \<and> buflen \<ge> 3 then
        [0xE0 OR ucast (drop_bit 12 val), 0x80 OR ucast (drop_bit 6 val AND 0x3F),
         0x80 OR ucast (val AND 0x3F)]
      else if val \<le> 0x1FFFFF \<and> buflen \<ge> 4 then
        [0xF0 OR ucast (drop_bit 18 val), 0x80 OR ucast (drop_bit 12 val AND 0x3F),
         0x80 OR ucast (drop_bit 6 val AND 0x3F), 0x80 OR ucast (val AND 0x3F)]
      else [])"

section \<open>XML\<close>

definition xml_escseq :: "uint8 \<Rightarrow> bytes" where
  "xml_escseq ch =
     (if ch = ascii_char (CHR ''<'') then ascii ''&lt;''
      else if ch = ascii_char (CHR ''>'') then ascii ''&gt;''
      else if ch = 39 then ascii ''&apos;''
      else if ch = 34 then ascii ''&quot;''
      else if ch = ascii_char (CHR ''&'') then ascii ''&amp;''
      else [])"

fun xml_encode_loop :: "nat \<Rightarrow> bytes \<Rightarrow> nat \<Rightarrow> bytes" where
  "xml_encode_loop buflen [] bufpos = []"
| "xml_encode_loop buflen (ch # source) bufpos =
     (if bufpos + 1 < buflen then
        if ch < 128 \<and> ASCII_CLASS ! unat ch AND XML_UNSAFE \<noteq> 0 then
          let escseq = xml_escseq ch; esclen = length escseq in
          if bufpos + esclen \<ge> buflen then []
          else escseq @ xml_encode_loop buflen source (bufpos + esclen)
        else ch # xml_encode_loop buflen source (bufpos + 1)
      else [])"

definition xml_encode :: "nat \<Rightarrow> bytes \<Rightarrow> bytes" where
  "xml_encode buflen source = (if buflen \<le> 0 then [] else xml_encode_loop buflen source 0)"

section \<open>Hexadecimal dumps\<close>

fun hex_encode_loop :: "uint8 \<Rightarrow> bytes \<Rightarrow> bytes" where
  "hex_encode_loop delimiter [] = []"
| "hex_encode_loop delimiter (ch # source) =
     hex_encode (drop_bit 4 ch AND 0xF) # hex_encode (ch AND 0xF) #
     (if delimiter \<noteq> 0 \<and> source \<noteq> [] then [delimiter] else []) @ hex_encode_loop delimiter source"

definition hex_encode_with_delimiter :: "nat \<Rightarrow> bytes \<Rightarrow> uint8 \<Rightarrow> bytes" where
  "hex_encode_with_delimiter buflen source delimiter =
     (if buflen = 0 then []
      else
        let srclen = length source;
            needed = (if delimiter \<noteq> 0 then srclen * 3 else srclen * 2 + 1)
        in if buflen < needed then [] else hex_encode_loop delimiter source)"

definition hex_encode_with_delimiter_str :: "bytes \<Rightarrow> uint8 \<Rightarrow> bytes" where
  "hex_encode_with_delimiter_str source delimiter =
     (let kBufferSize = length source * 3
      in hex_encode_with_delimiter kBufferSize source delimiter)"

definition hex_encode_str :: "bytes \<Rightarrow> bytes" where
  "hex_encode_str source = hex_encode_with_delimiter_str source 0"

text \<open>\<open>None\<close>: the loop returned 0 because the text is not a dump.\<close>

fun hex_decode_loop :: "uint8 \<Rightarrow> bytes \<Rightarrow> bytes option" where
  "hex_decode_loop delimiter [] = Some []"
| "hex_decode_loop delimiter [a] = None"
| "hex_decode_loop delimiter (a # b # source) =
     (case hex_pair (a # b # source) of
        None \<Rightarrow> None
      | Some (v, _) \<Rightarrow>
          if delimiter \<noteq> 0 \<and> length source > 1 then
            (case source of
               [] \<Rightarrow> None
             | d # source' \<Rightarrow>
                 if d \<noteq> delimiter then None
                 else map_option (\<lambda>vs. v # vs) (hex_decode_loop delimiter source'))
          else map_option (\<lambda>vs. v # vs) (hex_decode_loop delimiter source))"

definition hex_decode_with_delimiter :: "nat \<Rightarrow> bytes \<Rightarrow> uint8 \<Rightarrow> bytes" where
  "hex_decode_with_delimiter buflen source delimiter =
     (if buflen = 0 then []
      else
        let srclen = length source;
            needed = (if delimiter \<noteq> 0 then (srclen + 1) div 3 else srclen div 2)
        in if buflen < needed then []
           else case hex_decode_loop delimiter source of None \<Rightarrow> [] | Some bs \<Rightarrow> bs)"

definition hex_decode_buf :: "nat \<Rightarrow> bytes \<Rightarrow> bytes" where
  "hex_decode_buf buflen source = hex_decode_with_delimiter buflen source 0"

section \<open>Fields\<close>

function tokenize_loop :: "bytes \<Rightarrow> uint8 \<Rightarrow> nat \<Rightarrow> nat \<Rightarrow> bytes list \<Rightarrow> nat \<times> bytes list" where
  "tokenize_loop source delimiter i last_pos fields =
     (if i < length source then
        if source ! i = delimiter then
          tokenize_loop source delimiter (i + 1) (i + 1)
            (if i \<noteq> last_pos then fields @ [take (i - last_pos) (drop last_pos source)] else fields)
        else tokenize_loop source delimiter (i + 1) last_pos fields
      else (last_pos, fields))"
  by pat_completeness auto
termination
  by (relation "measure (\<lambda>(source, delimiter, i, last_pos, fields). length source - i)") auto

definition tokenize :: "bytes \<Rightarrow> uint8 \<Rightarrow> bytes list" where
  "tokenize source delimiter =
     (case tokenize_loop source delimiter 0 0 [] of (last_pos, fields) \<Rightarrow>
        if last_pos \<noteq> length source
        then fields @ [take (length source - last_pos) (drop last_pos source)] else fields)"

definition tokenize_append :: "bytes \<Rightarrow> uint8 \<Rightarrow> bytes list \<Rightarrow> bytes list" where
  "tokenize_append source delimiter fields = fields @ tokenize source delimiter"

function split_loop :: "bytes \<Rightarrow> uint8 \<Rightarrow> nat \<Rightarrow> nat \<Rightarrow> bytes list \<Rightarrow> nat \<times> bytes list" where
  "split_loop source delimiter i last_pos fields =
     (if i < length source then
        if source ! i = delimiter then
          split_loop source delimiter (i + 1) (i + 1) (fields @ [take (i - last_pos) (drop last_pos source)])
        else split_loop source delimiter (i + 1) last_pos fields
      else (last_pos, fields))"
  by pat_completeness auto
termination
  by (relation "measure (\<lambda>(source, delimiter, i, last_pos, fields). length source - i)") auto

definition split_fields :: "bytes \<Rightarrow> uint8 \<Rightarrow> bytes list" where
  "split_fields source delimiter =
     (case split_loop source delimiter 0 0 [] of (last_pos, fields) \<Rightarrow>
        fields @ [take (length source - last_pos) (drop last_pos source)])"

declare tokenize_loop.simps [simp del] split_loop.simps [simp del]

text \<open>\<^verbatim>\<open>char\<close> is signed: bytes from 128 on are negative.\<close>

definition make_char_safe_for_filename :: "uint8 \<Rightarrow> uint8" where
  "make_char_safe_for_filename c =
     (if sint c < 32 then ascii_char (CHR ''_'')
      else if c \<in> set (ascii ''<>:/|*?'') \<or> c = 34 \<or> c = 92 then ascii_char (CHR ''_'')
      else c)"

section \<open>Hexadecimal digits decode back\<close>

lemma hex_digits: "\<forall>n\<in>set [0..<16]. hex_decode (hex_encode (word_of_nat n)) = Some (word_of_nat n)"
  by code_simp

lemma hex_decode_encode: "v < 16 \<Longrightarrow> hex_decode (hex_encode v) = Some v"
  using hex_digits [rule_format, of "unat v"] by (simp add: word_less_nat_alt)

lemma nibbles:
  fixes ch :: uint8
  shows "drop_bit 4 ch AND 0xF < 16" and "ch AND 0xF < 16"
    and "push_bit 4 (drop_bit 4 ch AND 0xF) OR (ch AND 0xF) = ch"
proof -
  have m: "(0xF :: uint8) = mask 4" by (simp add: mask_eq_exp_minus_1)
  have "x AND 0xF < 16" for x :: uint8
    using word_and_le1 [of x "0xF"] by (auto intro: le_less_trans)
  then show "drop_bit 4 ch AND 0xF < 16" and "ch AND 0xF < 16" by blast+
  show "push_bit 4 (drop_bit 4 ch AND 0xF) OR (ch AND 0xF) = ch"
    unfolding m by (rule bit_word_eqI) (auto simp: bit_simps)
qed

lemma hex_pair_encode [simp]:
  "hex_pair (hex_encode (drop_bit 4 ch AND 0xF) # hex_encode (ch AND 0xF) # rest) = Some (ch, rest)"
  by (simp only: hex_pair.simps hex_decode_encode nibbles option.case)

declare hex_pair.simps [simp del]

section \<open>Codecs over a bounded buffer\<close>

text \<open>
  An encoder that appends the code of each character while it fits, and a decoder that takes one
  code at a time: with room for every code, decoding gives the source back.
\<close>

locale bounded_codec =
  fixes code :: "uint8 \<Rightarrow> bytes"
    and width :: nat
    and encoder :: "nat \<Rightarrow> bytes \<Rightarrow> nat \<Rightarrow> bytes"
    and decoder :: "nat \<Rightarrow> bytes \<Rightarrow> nat \<Rightarrow> bytes"
  assumes code_width: "0 < length (code ch) \<and> length (code ch) \<le> width"
    and encoder_Nil: "encoder buflen [] bufpos = []"
    and encoder_Cons: "bufpos + length (code ch) < buflen \<Longrightarrow>
      encoder buflen (ch # source) bufpos = code ch @ encoder buflen source (bufpos + length (code ch))"
    and encoder_full: "buflen \<le> bufpos + length (code ch) \<Longrightarrow> encoder buflen (ch # source) bufpos = []"
    and decoder_Nil: "decoder buflen [] bufpos = []"
    and decoder_code: "bufpos + 1 < buflen \<Longrightarrow>
      decoder buflen (code ch @ source) bufpos = ch # decoder buflen source (bufpos + 1)"
begin

lemma encoder_concat:
  "bufpos + width * length source < buflen \<Longrightarrow>
   encoder buflen source bufpos = concat (map code source)"
proof (induction source arbitrary: bufpos)
  case (Cons ch source)
  have w: "length (code ch) \<le> width" using code_width by blast
  with Cons.prems have "bufpos + length (code ch) < buflen"
    and "bufpos + length (code ch) + width * length source < buflen"
    by (simp_all add: add.commute add.left_commute)
  with Cons.IH [of "bufpos + length (code ch)"] show ?case by (simp add: encoder_Cons)
qed (simp add: encoder_Nil)

lemma decoder_concat:
  "bufpos + length source < buflen \<Longrightarrow> decoder buflen (concat (map code source)) bufpos = source"
  by (induction source arbitrary: bufpos) (auto simp: decoder_Nil decoder_code)

lemma codec_roundtrip:
  assumes "width * length source < buflen" and "length source < buflen'"
  shows "decoder buflen' (encoder buflen source 0) 0 = source"
  using assms by (simp add: encoder_concat decoder_concat)

lemma encoder_bound: "bufpos < buflen \<Longrightarrow> bufpos + length (encoder buflen source bufpos) < buflen"
proof (induction source arbitrary: bufpos)
  case (Cons ch source)
  show ?case
  proof (cases "bufpos + length (code ch) < buflen")
    case True
    with Cons.IH [OF True] show ?thesis by (simp add: encoder_Cons)
  next
    case False
    with Cons.prems show ?thesis by (simp add: encoder_full)
  qed
qed (simp add: encoder_Nil)

end

definition escape_code :: "bytes \<Rightarrow> uint8 \<Rightarrow> uint8 \<Rightarrow> bytes" where
  "escape_code illegal esc ch = (if ch = esc \<or> strchr illegal ch then [esc, ch] else [ch])"

definition encode_code :: "bytes \<Rightarrow> uint8 \<Rightarrow> uint8 \<Rightarrow> bytes" where
  "encode_code illegal esc ch =
     (if ch = esc \<or> strchr illegal ch
      then [esc, hex_encode (drop_bit 4 ch AND 0xF), hex_encode (ch AND 0xF)] else [ch])"

definition url_code :: "uint8 \<Rightarrow> bytes" where
  "url_code ch =
     (if ch < 128 \<and> ASCII_CLASS ! unat ch AND URL_UNSAFE \<noteq> 0
      then [ascii_char (CHR ''%''), hex_encode (drop_bit 4 ch AND 0xF), hex_encode (ch AND 0xF)] else [ch])"

interpretation esc: bounded_codec "escape_code illegal e" 2
    "\<lambda>buflen. escape_loop buflen illegal e" "\<lambda>buflen. unescape_loop buflen e"
  for illegal e
  by unfold_locales (auto simp: escape_code_def split: if_splits)

interpretation enc: bounded_codec "encode_code illegal e" 3
    "\<lambda>buflen. encode_loop buflen illegal e" "\<lambda>buflen. decode_loop buflen e"
  for illegal e
  by unfold_locales (auto simp: encode_code_def numeral_3_eq_3 split: if_splits)

lemma url_specials:
  "let p = ascii_char (CHR ''%''); q = ascii_char (CHR ''+'') in
   p \<noteq> q \<and> p < 128 \<and> ASCII_CLASS ! unat p AND URL_UNSAFE \<noteq> 0 \<and> q < 128 \<and> ASCII_CLASS ! unat q AND URL_UNSAFE \<noteq> 0"
  by code_simp

interpretation url: bounded_codec url_code 3 url_encode_loop url_decode_loop
proof unfold_locales
  fix buflen bufpos ch source
  assume "bufpos + 1 < (buflen :: nat)"
  then show "url_decode_loop buflen (url_code ch @ source) bufpos = ch # url_decode_loop buflen source (bufpos + 1)"
    using url_specials by (auto simp: url_code_def Let_def)
qed (auto simp: url_code_def numeral_3_eq_3 split: if_splits)

end
