(* ===== verification/String_Correct.thy ===== *)
theory String_Correct
  imports String_Encode
begin

text \<open>
  The promises of \<^verbatim>\<open>stringencode.cc\<close>: decoders invert encoders, encoders never overrun the buffer
  they are given, splitting and tokenising lose nothing but delimiters, and UTF-8 code points
  survive encoding.
\<close>

unbundle bit_operations_syntax

section \<open>Hexadecimal dumps\<close>

lemma hex_decode_encode_loop: "hex_decode_loop d (hex_encode_loop d source) = Some source"
proof (induction source)
  case (Cons ch source)
  show ?case
  proof (cases source)
    case (Cons ch' source')
    with \<open>hex_decode_loop d (hex_encode_loop d source) = Some source\<close> show ?thesis by (cases "d = 0") auto
  qed simp
qed simp

lemma length_hex_encode_loop:
  "length (hex_encode_loop d source) = (if d \<noteq> 0 then 3 * length source - 1 else 2 * length source)"
  by (induction source) auto

section \<open>Fields\<close>

definition join_fields :: "uint8 \<Rightarrow> bytes list \<Rightarrow> bytes" where
  "join_fields d fields = (case fields of [] \<Rightarrow> [] | f # fs \<Rightarrow> f @ concat (map ((#) d) fs))"

text \<open>The reference: cut at every delimiter.\<close>

fun split_at :: "uint8 \<Rightarrow> bytes \<Rightarrow> bytes list" where
  "split_at d [] = [[]]"
| "split_at d (c # cs) =
     (if c = d then [] # split_at d cs
      else case split_at d cs of [] \<Rightarrow> [[c]] | f # fs \<Rightarrow> (c # f) # fs)"

lemma split_at_not_Nil: "split_at d s \<noteq> []"
  by (cases s) (auto split: list.splits)

lemma join_split_at: "join_fields d (split_at d s) = s"
proof (induction s)
  case (Cons c s)
  obtain f fs where f: "split_at d s = f # fs" using split_at_not_Nil [of d s] by (cases "split_at d s") auto
  with Cons show ?case by (auto simp: join_fields_def)
qed (simp add: join_fields_def)

lemma split_at_fields: "f \<in> set (split_at d s) \<Longrightarrow> d \<notin> set f"
  by (induction s arbitrary: f) (auto split: list.splits if_splits)

lemma length_split_at: "length (split_at d s) = Suc (count_list s d)"
  by (induction s) (auto split: list.splits simp: split_at_not_Nil)

lemma split_at_append_field: "d \<notin> set xs \<Longrightarrow> split_at d (xs @ d # ys) = xs # split_at d ys"
  by (induction xs) auto

lemma split_at_field: "d \<notin> set xs \<Longrightarrow> split_at d xs = [xs]"
  by (induction xs) auto

text \<open>Both loops, started in the middle: \<open>xs\<close> is the field collected so far.\<close>

definition close_fields :: "bytes \<Rightarrow> nat \<times> bytes list \<Rightarrow> bytes list" where
  "close_fields source r = (case r of (p, fields) \<Rightarrow> fields @ [take (length source - p) (drop p source)])"

lemma field_grows:
  "p \<le> i \<Longrightarrow> i < length source \<Longrightarrow>
   take (i + 1 - p) (drop p source) = take (i - p) (drop p source) @ [source ! i]"
  by (simp add: take_Suc_conv_app_nth Suc_diff_le)

lemma split_loop_correct:
  assumes "p \<le> i" and "i \<le> length source" and "d \<notin> set (take (i - p) (drop p source))"
  shows "close_fields source (split_loop source d i p fields) = fields @ split_at d (drop p source)"
  using assms
proof (induction source d i p fields rule: split_loop.induct)
  case (1 source d i p fields)
  let ?f = "take (i - p) (drop p source)"
  show ?case
  proof (cases "i < length source")
    case False
    with "1.prems" have "i = length source" by simp
    with "1.prems" show ?thesis
      by (simp add: split_loop.simps [of source d "length source"] close_fields_def split_at_field)
  next
    case True
    have cut: "drop p source = ?f @ source ! i # drop (i + 1) source"
      using "1.prems" True by (metis Cons_nth_drop_Suc Suc_eq_plus1 append_take_drop_id drop_drop le_add_diff_inverse2)
    show ?thesis
    proof (cases "source ! i = d")
      case d: True
      have "split_at d (drop p source) = ?f # split_at d (drop (i + 1) source)"
        using split_at_append_field [OF "1.prems"(3), of "drop (i + 1) source"] cut d by simp
      with "1.IH"(1) [OF True d] True d show ?thesis
        by (simp add: split_loop.simps [of source d i])
    next
      case d: False
      from "1.prems"(1) True have "take (i + 1 - p) (drop p source) = ?f @ [source ! i]" by (rule field_grows)
      with "1.IH"(2) [OF True d] "1.prems" True d show ?thesis
        by (simp add: split_loop.simps [of source d i])
    qed
  qed
qed

lemma split_fields_eq: "split_fields source d = split_at d source"
  using split_loop_correct [of 0 0 source d "[]"] by (simp add: split_fields_def close_fields_def)

definition close_tokens :: "bytes \<Rightarrow> nat \<times> bytes list \<Rightarrow> bytes list" where
  "close_tokens source r = (case r of (p, fields) \<Rightarrow>
     if p \<noteq> length source then fields @ [take (length source - p) (drop p source)] else fields)"

lemma tokenize_loop_correct:
  assumes "p \<le> i" and "i \<le> length source" and "d \<notin> set (take (i - p) (drop p source))"
  shows "close_tokens source (tokenize_loop source d i p fields) =
    fields @ filter (\<lambda>f. f \<noteq> []) (split_at d (drop p source))"
  using assms
proof (induction source d i p fields rule: tokenize_loop.induct)
  case (1 source d i p fields)
  let ?f = "take (i - p) (drop p source)"
  show ?case
  proof (cases "i < length source")
    case False
    with "1.prems" have "i = length source" by simp
    with "1.prems" show ?thesis
      by (auto simp: tokenize_loop.simps [of source d "length source"] close_tokens_def split_at_field)
  next
    case True
    have cut: "drop p source = ?f @ source ! i # drop (i + 1) source"
      using "1.prems" True by (metis Cons_nth_drop_Suc Suc_eq_plus1 append_take_drop_id drop_drop le_add_diff_inverse2)
    show ?thesis
    proof (cases "source ! i = d")
      case d: True
      have split: "split_at d (drop p source) = ?f # split_at d (drop (i + 1) source)"
        using split_at_append_field [OF "1.prems"(3), of "drop (i + 1) source"] cut d by simp
      have "?f \<noteq> [] \<longleftrightarrow> i \<noteq> p" using "1.prems" True by auto
      with "1.IH"(1) [OF True d] True d split show ?thesis
        by (simp add: tokenize_loop.simps [of source d i])
    next
      case d: False
      from "1.prems"(1) True have "take (i + 1 - p) (drop p source) = ?f @ [source ! i]" by (rule field_grows)
      with "1.IH"(2) [OF True d] "1.prems" True d show ?thesis
        by (simp add: tokenize_loop.simps [of source d i])
    qed
  qed
qed

lemma tokenize_eq: "tokenize source d = filter (\<lambda>f. f \<noteq> []) (split_at d source)"
  using tokenize_loop_correct [of 0 0 source d "[]"] by (simp add: tokenize_def close_tokens_def split: prod.splits)

section \<open>XML text\<close>

lemma xml_encode_bound: "bufpos < buflen \<Longrightarrow> bufpos + length (xml_encode_loop buflen source bufpos) < buflen"
proof (induction source arbitrary: bufpos)
  case (Cons ch source)
  have "bufpos + length (xml_escseq ch) < buflen \<Longrightarrow>
      bufpos + length (xml_escseq ch) + length (xml_encode_loop buflen source (bufpos + length (xml_escseq ch))) < buflen"
    using Cons.IH by blast
  moreover have "bufpos + 1 < buflen \<Longrightarrow> bufpos + 1 + length (xml_encode_loop buflen source (bufpos + 1)) < buflen"
    using Cons.IH by blast
  ultimately show ?case using Cons.prems by (auto simp: Let_def)
qed simp

section \<open>URLs\<close>

lemma length_url_code: "length s \<le> length (concat (map url_code s))"
proof (induction s)
  case (Cons ch s)
  have "0 < length (url_code ch)" using url.code_width by blast
  with Cons show ?case unfolding list.map concat.simps length_append list.size by linarith
qed simp

section \<open>UTF-8\<close>

lemma bit_small:
  fixes v :: uint64
  assumes "unat v < 2 ^ k" and "bit v n"
  shows "n < k"
proof (rule ccontr)
  assume "\<not> n < k"
  then have "unat v < 2 ^ n" using assms(1) by (meson less_le_trans not_less one_le_numeral power_increasing)
  moreover have "bit (unat v) n" using assms(2) by (simp add: bit_simps)
  ultimately show False by (metis bit_take_bit_iff less_irrefl take_bit_nat_eq_self_iff)
qed

lemma utf8_masks:
  "(0x3F :: uint8) = mask 6" "(0x3F :: uint64) = mask 6" "(0x1F :: uint8) = mask 5" "(0x0F :: uint8) = mask 4"
  "(0x07 :: uint8) = mask 3" "(0xC0 :: uint8) = push_bit 6 (mask 2)" "(0xE0 :: uint8) = push_bit 5 (mask 3)"
  "(0xF0 :: uint8) = push_bit 4 (mask 4)" "(0xF8 :: uint8) = push_bit 3 (mask 5)"
  by (simp_all add: mask_eq_exp_minus_1)

lemma bit_0x80: "bit (0x80 :: int) n \<longleftrightarrow> n = 7"
proof -
  have "(0x80 :: int) = push_bit 7 1" by simp
  then show ?thesis by (simp only: bit_push_bit_iff bit_1_iff) auto
qed

text \<open>Lead bytes and trailers are told apart by their top bits.\<close>

lemma utf8_trailer:
  fixes v :: uint64
  shows "(0x80 OR ucast (v AND 0x3F) :: uint8) AND 0xC0 = 0x80"
    and "(0x80 OR ucast (v AND 0x3F) :: uint8) AND 0x3F = ucast (v AND 0x3F)"
  unfolding utf8_masks by (rule bit_word_eqI; auto simp: bit_simps bit_0x80)+

lemma utf8_lead:
  fixes v :: uint64
  assumes "\<And>n. bit v n \<Longrightarrow> n < k"
  shows "k = 7 \<Longrightarrow> (ucast v :: uint8) AND 0x80 = 0"
    and "k = 5 \<Longrightarrow> (0xC0 OR ucast v :: uint8) AND 0xE0 = 0xC0"
    and "k = 5 \<Longrightarrow> (0xC0 OR ucast v :: uint8) AND 0x1F = ucast v"
    and "k = 4 \<Longrightarrow> (0xE0 OR ucast v :: uint8) AND 0xF0 = 0xE0"
    and "k = 4 \<Longrightarrow> (0xE0 OR ucast v :: uint8) AND 0x0F = ucast v"
    and "k = 3 \<Longrightarrow> (0xF0 OR ucast v :: uint8) AND 0xF8 = 0xF0"
    and "k = 3 \<Longrightarrow> (0xF0 OR ucast v :: uint8) AND 0x07 = ucast v"
  unfolding utf8_masks by (rule bit_word_eqI; auto simp: bit_simps bit_0x80 dest: assms)+

lemma utf8_lead_not_shorter:
  "(0xC0 OR x :: uint8) AND 0x80 \<noteq> 0" "(0xE0 OR x :: uint8) AND 0x80 \<noteq> 0" "(0xF0 OR x :: uint8) AND 0x80 \<noteq> 0"
  "(0xE0 OR x :: uint8) AND 0xE0 \<noteq> 0xC0" "(0xF0 OR x :: uint8) AND 0xE0 \<noteq> 0xC0" "(0xF0 OR x :: uint8) AND 0xF0 \<noteq> 0xE0"
proof -
  have "bit ((0xC0 OR x) AND 0x80) 7" "bit ((0xE0 OR x) AND 0x80) 7" "bit ((0xF0 OR x) AND 0x80) 7"
    "bit ((0xE0 OR x) AND 0xE0) 5" "bit ((0xF0 OR x) AND 0xE0) 5" "bit ((0xF0 OR x) AND 0xF0) 4"
    by (simp_all add: bit_simps)
  moreover have "\<not> bit (0 :: uint8) 7" "\<not> bit (0xC0 :: uint8) 5" "\<not> bit (0xE0 :: uint8) 4" by simp_all
  ultimately show
    "(0xC0 OR x :: uint8) AND 0x80 \<noteq> 0" "(0xE0 OR x :: uint8) AND 0x80 \<noteq> 0" "(0xF0 OR x :: uint8) AND 0x80 \<noteq> 0"
    "(0xE0 OR x :: uint8) AND 0xE0 \<noteq> 0xC0" "(0xF0 OR x :: uint8) AND 0xE0 \<noteq> 0xC0" "(0xF0 OR x :: uint8) AND 0xF0 \<noteq> 0xE0"
    by metis+
qed

lemma utf8_assemble:
  fixes v :: uint64
  assumes "\<And>n. bit v n \<Longrightarrow> n < k"
  shows "k = 7 \<Longrightarrow> (ucast (ucast v :: uint8) :: uint64) = v"
    and "k = 11 \<Longrightarrow> push_bit 6 (ucast (ucast (drop_bit 6 v) :: uint8)) OR ucast (ucast (v AND 0x3F) :: uint8) = v"
  unfolding utf8_masks by (rule bit_word_eqI; auto simp: bit_simps dest: assms)+

lemma utf8_assemble34:
  fixes v :: uint64
  assumes "\<And>n. bit v n \<Longrightarrow> n < k"
  shows "k = 16 \<Longrightarrow> push_bit 12 (ucast (ucast (drop_bit 12 v) :: uint8)) OR
      (push_bit 6 (ucast (ucast (drop_bit 6 v AND 0x3F) :: uint8)) OR ucast (ucast (v AND 0x3F) :: uint8)) = v"
    and "k = 21 \<Longrightarrow> push_bit 18 (ucast (ucast (drop_bit 18 v) :: uint8)) OR
      (push_bit 12 (ucast (ucast (drop_bit 12 v AND 0x3F) :: uint8)) OR
        push_bit 6 (ucast (ucast (drop_bit 6 v AND 0x3F) :: uint8))) OR ucast (ucast (v AND 0x3F) :: uint8) = v"
  unfolding utf8_masks
proof -
  have ranges: "n < 6 \<or> 6 \<le> n \<and> n < 12 \<or> 12 \<le> n \<and> n < 18 \<or> 18 \<le> n" for n :: nat by linarith
  assume k: "k = 16"
  show "push_bit 12 (ucast (ucast (drop_bit 12 v) :: uint8)) OR
      (push_bit 6 (ucast (ucast (drop_bit 6 v AND mask 6) :: uint8)) OR ucast (ucast (v AND mask 6) :: uint8)) = v" (is "?l = v")
  proof (rule bit_word_eqI)
    fix n
    show "bit ?l n = bit v n"
      using ranges [of n] k by (elim disjE conjE) (auto simp: bit_simps dest: assms)
  qed
next
  have ranges: "n < 6 \<or> 6 \<le> n \<and> n < 12 \<or> 12 \<le> n \<and> n < 18 \<or> 18 \<le> n" for n :: nat by linarith
  assume k: "k = 21"
  show "push_bit 18 (ucast (ucast (drop_bit 18 v) :: uint8)) OR
      (push_bit 12 (ucast (ucast (drop_bit 12 v AND mask 6) :: uint8)) OR
        push_bit 6 (ucast (ucast (drop_bit 6 v AND mask 6) :: uint8))) OR ucast (ucast (v AND mask 6) :: uint8) = v" (is "?l = v")
  proof (rule bit_word_eqI)
    fix n
    show "bit ?l n = bit v n"
      using ranges [of n] k by (elim disjE conjE) (auto simp: bit_simps dest: assms)
  qed
qed

lemma bit_small_drop: "(\<And>n. bit v n \<Longrightarrow> n < k + m) \<Longrightarrow> bit (drop_bit k (v :: uint64)) n \<Longrightarrow> n < m"
  by (fastforce simp: bit_simps)

section \<open>Properties\<close>

text \<open>C32: With room for the worst case, unescaping inverts escaping and decoding inverts encoding, for
  any escape character and any set of illegal characters. URL decoding inverts URL encoding of
  every string, in the buffers that the size estimates of the two routines ask for.\<close>

theorem string_codecs_roundtrip:
  assumes "2 * length s < n" and "3 * length s < m" and "length s < k"
  shows "unescape k (escape n s illegal e) e = s \<and> decode k (encode m s illegal e) e = s \<and>
    s_transform url_decode_size url_decode (s_transform url_encode_size url_encode s) = s"
proof (intro conjI)
  show "unescape k (escape n s illegal e) e = s"
    using esc.codec_roundtrip [OF assms(1,3)] assms by (auto simp: escape_def unescape_def)
  show "decode k (encode m s illegal e) e = s"
    using enc.codec_roundtrip [OF assms(2,3)] assms by (auto simp: encode_def decode_def)
  let ?enc = "url_encode_loop (length s * 3 + 1) s 0"
  have "?enc = concat (map url_code s)" by (rule url.encoder_concat) simp
  with length_url_code [of s] have "url_decode_loop (length ?enc + 1) ?enc 0 = s"
    using url.decoder_concat [of 0 s "length ?enc + 1"] by simp
  then show "s_transform url_decode_size url_decode (s_transform url_encode_size url_encode s) = s"
    by (simp add: s_transform_def url_decode_size_def url_decode_def url_encode_size_def url_encode_def)
qed

theorem string_codecs_roundtrip_witness:
  "unescape 4 (escape 7 [97, 92, 98] [98] 92) 92 = [97, 92, 98] \<and>
   decode 4 (encode 10 [97, 37, 98] [98] 37) 37 = [97, 37, 98]"
  using string_codecs_roundtrip [of "[97, 92, 98]" 7 10 4 "[98]" 92]
    string_codecs_roundtrip [of "[97, 37, 98]" 7 10 4 "[98]" 37] by simp



text \<open>A hexadecimal dump, with or without a delimiter, decodes to the bytes it was made from.\<close>

theorem hex_dump_roundtrip:
  "hex_decode_with_delimiter (length s) (hex_encode_with_delimiter_str s d) d = s"
  by (cases "s = []") (auto simp: hex_encode_with_delimiter_str_def hex_encode_with_delimiter_def
      hex_decode_with_delimiter_def Let_def length_hex_encode_loop hex_decode_encode_loop)

text \<open>\<open>split\<close> cuts the source at every delimiter and loses nothing: joining the fields gives the
  source back, no field contains the delimiter, and there is one more field than delimiters.
  \<open>tokenize\<close> returns the same fields without the empty ones.\<close>

theorem split_and_tokenize:
  "join_fields d (split_fields s d) = s \<and> (\<forall>f. f \<in> set (split_fields s d) \<longrightarrow> d \<notin> set f) \<and>
   length (split_fields s d) = Suc (count_list s d) \<and>
   tokenize s d = filter (\<lambda>f. f \<noteq> []) (split_fields s d)"
  by (auto simp: split_fields_eq tokenize_eq join_split_at length_split_at dest: split_at_fields)

theorem split_and_tokenize_witness:
  "tokenize [44, 97, 44, 44, 98] 44 = [[97], [98]] \<and> [97] \<in> set (split_fields [44, 97, 44, 44, 98] 44) \<and>
   44 \<notin> set [97 :: uint8]"
proof -
  have "split_fields [44, 97, 44, 44, 98] 44 = [[], [97], [], [98]]" by (simp add: split_fields_eq)
  with split_and_tokenize [of 44 "[44, 97, 44, 44, 98]"] show ?thesis by simp
qed

text \<open>\<open>utf8_decode\<close> reads back the code point that \<open>utf8_encode\<close> wrote, whatever follows it, and
  says how many bytes it took. This covers every value up to 21 bits.\<close>

theorem utf8_roundtrip:
  assumes "v \<le> 0x1FFFFF"
  shows "utf8_decode (utf8_encode 4 v @ rest) = Some (v, length (utf8_encode 4 v))"
proof -
  have "\<And>n. bit v n \<Longrightarrow> n < 7" if "v \<le> 0x7F" using bit_small [of v 7] that by (simp add: word_le_nat_alt)
  moreover have "\<And>n. bit v n \<Longrightarrow> n < 11" if "v \<le> 0x7FF" using bit_small [of v 11] that by (simp add: word_le_nat_alt)
  moreover have "\<And>n. bit v n \<Longrightarrow> n < 16" if "v \<le> 0xFFFF" using bit_small [of v 16] that by (simp add: word_le_nat_alt)
  moreover have "\<And>n. bit v n \<Longrightarrow> n < 21" using bit_small [of v 21] assms by (simp add: word_le_nat_alt)
  ultimately consider "v \<le> 0x7F" "\<And>n. bit v n \<Longrightarrow> n < 7" 
    | "\<not> v \<le> 0x7F" "v \<le> 0x7FF" "\<And>n. bit v n \<Longrightarrow> n < 11"
    | "\<not> v \<le> 0x7F" "\<not> v \<le> 0x7FF" "v \<le> 0xFFFF" "\<And>n. bit v n \<Longrightarrow> n < 16"
    | "\<not> v \<le> 0x7F" "\<not> v \<le> 0x7FF" "\<not> v \<le> 0xFFFF" "\<And>n. bit v n \<Longrightarrow> n < 21"
    by blast
  then show ?thesis
  proof cases
    case 1
    note b = utf8_lead [OF 1(2)] utf8_assemble [OF 1(2)]
    show ?thesis using 1(1) unfolding utf8_decode_def utf8_encode_def Let_def by (simp add: b)
  next
    case 2
    have "\<And>n. bit (drop_bit 6 v) n \<Longrightarrow> n < 5" using bit_small_drop [of v 6 5] 2(3) by simp
    note b = utf8_lead(2,3) [OF this] utf8_assemble(2) [OF 2(3)] utf8_trailer utf8_lead_not_shorter
    show ?thesis using 2(1,2) unfolding utf8_decode_def utf8_encode_def Let_def by (simp add: b)
  next
    case 3
    have "\<And>n. bit (drop_bit 12 v) n \<Longrightarrow> n < 4" using bit_small_drop [of v 12 4] 3(4) by simp
    note b = utf8_lead(4,5) [OF this] utf8_assemble34(1) [OF 3(4)] utf8_trailer utf8_lead_not_shorter
    show ?thesis using 3(1,2,3) unfolding utf8_decode_def utf8_encode_def Let_def by (simp add: b)
  next
    case 4
    have "\<And>n. bit (drop_bit 18 v) n \<Longrightarrow> n < 3" using bit_small_drop [of v 18 3] 4(4) by simp
    note b = utf8_lead(6,7) [OF this] utf8_assemble34(2) [OF 4(4)] utf8_trailer utf8_lead_not_shorter
    show ?thesis using 4(1,2,3) assms unfolding utf8_decode_def utf8_encode_def Let_def by (simp add: b)
  qed
qed

theorem utf8_roundtrip_witness:
  "utf8_decode (utf8_encode 4 0x20AC @ [65]) = Some (0x20AC, length (utf8_encode 4 0x20AC))"
  by (rule utf8_roundtrip) simp

end
