(* ===== verification/String_Markup.thy ===== *)
theory String_Markup
  imports String_Correct
begin

text \<open>
  The rest of \<^verbatim>\<open>webrtc/base/stringencode.cc\<close>: HTML escaping, the decoder for XML and HTML, and tokenising
  with marks. The conventions are those of \<^verbatim>\<open>String_Encode\<close>. The source of the decoder is terminated by
  a zero, where \<^verbatim>\<open>strtoul\<close> stops at the latest.

  Shown is that decoding inverts both escapings, and that the decoder can fill the buffer to the last
  byte, so that the terminating zero goes behind it.
\<close>

unbundle bit_operations_syntax

section \<open>Numbers in the C library\<close>

text \<open>\<^verbatim>\<open>%lu\<close>.\<close>

fun sprintf_lu :: "nat \<Rightarrow> bytes" where
  "sprintf_lu n = (if n < 10 then [48 + of_nat n] else sprintf_lu (n div 10) @ [48 + of_nat (n mod 10)])"

declare sprintf_lu.simps [simp del]

definition digit_value :: "uint8 \<Rightarrow> nat option" where
  "digit_value c =
     (if 48 \<le> c \<and> c \<le> 57 then Some (unat c - 48)
      else if 97 \<le> c \<and> c \<le> 122 then Some (unat c - 87)
      else if 65 \<le> c \<and> c \<le> 90 then Some (unat c - 55)
      else None)"

definition is_digit :: "nat \<Rightarrow> uint8 \<Rightarrow> bool" where
  "is_digit base c \<longleftrightarrow> (case digit_value c of None \<Rightarrow> False | Some d \<Rightarrow> d < base)"

definition digits_value :: "nat \<Rightarrow> bytes \<Rightarrow> nat" where
  "digits_value base ds = foldl (\<lambda>v c. v * base + the (digit_value c)) 0 ds"

text \<open>
  \<^verbatim>\<open>strtoul\<close> for base 10 and 16: white space, a sign, for base 16 a prefix \<^verbatim>\<open>0x\<close>, and digits. The result is the
  value and the number of characters taken, none if there is no digit.
\<close>

definition strtoul :: "bytes \<Rightarrow> nat \<Rightarrow> uint64 \<times> nat" where
  "strtoul s base =
     (let s1 = dropWhile (\<lambda>c. c \<in> set [32, 9, 10, 11, 12, 13]) s;
          neg = (s1 \<noteq> [] \<and> hd s1 = 45);
          s2 = (if s1 \<noteq> [] \<and> (hd s1 = 45 \<or> hd s1 = 43) then tl s1 else s1);
          s3 = (if base = 16 \<and> length s2 \<ge> 3 \<and> s2 ! 0 = 48 \<and> (s2 ! 1 = 120 \<or> s2 ! 1 = 88) \<and> is_digit 16 (s2 ! 2)
                then drop 2 s2 else s2);
          ds = takeWhile (is_digit base) s3;
          v = digits_value base ds
      in if ds = [] then (0, 0)
         else (if v \<ge> 2 ^ 64 then - 1 else if neg then - of_nat v else of_nat v, length s - length s3 + length ds))"

section \<open>Encoding\<close>

definition html_escseq :: "uint8 \<Rightarrow> bytes" where
  "html_escseq ch =
     (if ch = ascii_char (CHR ''<'') then ascii ''&lt;''
      else if ch = ascii_char (CHR ''>'') then ascii ''&gt;''
      else if ch = 39 then ascii ''&#39;''
      else if ch = 34 then ascii ''&quot;''
      else if ch = ascii_char (CHR ''&'') then ascii ''&amp;''
      else [])"

text \<open>The escape sequence of a code point fits into \<^verbatim>\<open>kEscseqSize\<close> with its terminating zero.\<close>

definition html_numeric :: "uint64 \<Rightarrow> bytes" where
  "html_numeric val = take 10 (ascii ''&#'' @ sprintf_lu (unat val) @ ascii '';'')"

lemma utf8_decode_length: "utf8_decode s = Some (v, n) \<Longrightarrow> s \<noteq> [] \<Longrightarrow> 0 < n \<and> n \<le> length s"
  by (cases s) (auto simp: utf8_decode_def Let_def Suc_le_eq split: if_splits)

function html_encode_loop :: "nat \<Rightarrow> bytes \<Rightarrow> nat \<Rightarrow> bytes" where
  "html_encode_loop buflen [] bufpos = []"
| "html_encode_loop buflen (ch # source) bufpos =
     (if bufpos + 1 < buflen then
        if ch < 128 then
          if ASCII_CLASS ! unat ch AND XML_UNSAFE \<noteq> 0 then
            let escseq = html_escseq ch; esclen = length escseq in
            if bufpos + esclen \<ge> buflen then []
            else escseq @ html_encode_loop buflen source (bufpos + esclen)
          else ch # html_encode_loop buflen source (bufpos + 1)
        else
          let (val, vallen) = (case utf8_decode (ch # source) of Some (val, vallen) \<Rightarrow> (val, vallen) | None \<Rightarrow> (ucast ch, 1));
              escseq = html_numeric val; esclen = length escseq in
          if bufpos + esclen \<ge> buflen then []
          else escseq @ html_encode_loop buflen (drop vallen (ch # source)) (bufpos + esclen)
      else [])"
  by pat_completeness auto
termination
  by (relation "measure (\<lambda>(buflen, source, bufpos). length source)")
    (auto split: option.split_asm dest: utf8_decode_length)

declare html_encode_loop.simps(2) [simp del]

definition html_encode :: "nat \<Rightarrow> bytes \<Rightarrow> bytes" where
  "html_encode buflen source = (if buflen \<le> 0 then [] else html_encode_loop buflen source 0)"

section \<open>Decoding\<close>

text \<open>What follows an ampersand: the characters it stands for and the rest of the source.\<close>

definition xml_entity :: "nat \<Rightarrow> bytes \<Rightarrow> (bytes \<times> bytes) option" where
  "xml_entity room s =
     (if take 3 s = ascii ''lt;'' then Some (ascii ''<'', drop 3 s)
      else if take 3 s = ascii ''gt;'' then Some (ascii ''>'', drop 3 s)
      else if take 5 s = ascii ''apos;'' then Some ([39], drop 5 s)
      else if take 5 s = ascii ''quot;'' then Some ([34], drop 5 s)
      else if take 4 s = ascii ''amp;'' then Some (ascii ''&'', drop 4 s)
      else if s \<noteq> [] \<and> s ! 0 = 35 then
        let hex = (1 < length s \<and> s ! 1 = 120);
            q = drop (if hex then 2 else 1) s;
            (val, n) = strtoul q (if hex then 16 else 10) in
        if n < length q \<and> q ! n = 59 then
          let esc = utf8_encode room val in if esc \<noteq> [] then Some (esc, drop (n + 1) q) else None
        else None
      else None)"

lemma xml_entity_shorter: "xml_entity room s = Some (esc, rest) \<Longrightarrow> length rest \<le> length s"
  by (auto simp: xml_entity_def Let_def split: if_splits prod.splits)

function xml_decode_loop :: "nat \<Rightarrow> bytes \<Rightarrow> nat \<Rightarrow> bytes" where
  "xml_decode_loop buflen [] bufpos = []"
| "xml_decode_loop buflen (ch # source) bufpos =
     (if bufpos + 1 < buflen then
        if ch \<noteq> 38 then ch # xml_decode_loop buflen source (bufpos + 1)
        else case xml_entity (buflen - bufpos) source of
          None \<Rightarrow> []
        | Some (esc, rest) \<Rightarrow> esc @ xml_decode_loop buflen rest (bufpos + length esc)
      else [])"
  by pat_completeness auto
termination
  by (relation "measure (\<lambda>(buflen, source, bufpos). length source)") (auto dest: xml_entity_shorter)

declare xml_decode_loop.simps(2) [simp del]

definition xml_decode :: "nat \<Rightarrow> bytes \<Rightarrow> bytes" where
  "xml_decode buflen source = (if buflen \<le> 0 then [] else xml_decode_loop buflen source 0)"

definition html_decode :: "nat \<Rightarrow> bytes \<Rightarrow> bytes" where
  "html_decode buflen source = xml_decode buflen source"

section \<open>Tokenising with marks\<close>

text \<open>\<^verbatim>\<open>std::string::find\<close>: the first position from \<open>pos\<close> on.\<close>

definition find_char :: "bytes \<Rightarrow> uint8 \<Rightarrow> nat \<Rightarrow> nat option" where
  "find_char s c pos =
     (let n = pos + length (takeWhile (\<lambda>x. x \<noteq> c) (drop pos s)) in if n < length s then Some n else None)"

lemma find_char_bounds: "find_char s c pos = Some n \<Longrightarrow> pos \<le> n \<and> n < length s"
  by (auto simp: find_char_def Let_def split: if_splits)

function tokenize_marks_loop :: "uint8 \<Rightarrow> uint8 \<Rightarrow> uint8 \<Rightarrow> bytes \<Rightarrow> bytes list \<Rightarrow> bytes \<times> bytes list" where
  "tokenize_marks_loop delimiter start_mark end_mark remain_source fields =
     (case find_char remain_source start_mark 0 of
        None \<Rightarrow> (remain_source, fields)
      | Some start_pos \<Rightarrow>
          let pre_mark = (if start_pos > 0 then take (start_pos - 1) remain_source else []) in
          case find_char remain_source end_mark (start_pos + 1) of
            None \<Rightarrow> (remain_source, fields)
          | Some end_pos \<Rightarrow>
              tokenize_marks_loop delimiter start_mark end_mark (drop (end_pos + 1) remain_source)
                (tokenize_append pre_mark delimiter fields @ [take (end_pos - (start_pos + 1)) (drop (start_pos + 1) remain_source)]))"
  by pat_completeness auto
termination
  by (relation "measure (\<lambda>(d, s, e, remain_source, fields). length remain_source)") (auto dest: find_char_bounds)

declare tokenize_marks_loop.simps [simp del]

definition tokenize_marks :: "bytes \<Rightarrow> uint8 \<Rightarrow> uint8 \<Rightarrow> uint8 \<Rightarrow> bytes list" where
  "tokenize_marks source delimiter start_mark end_mark =
     (case tokenize_marks_loop delimiter start_mark end_mark source [] of (remain_source, fields) \<Rightarrow>
        tokenize_append remain_source delimiter fields)"

section \<open>XML\<close>

lemma unsafe_chars:
  assumes "ch < (128 :: uint8)"
  shows "ASCII_CLASS ! unat ch AND XML_UNSAFE \<noteq> 0 \<longleftrightarrow> ch \<in> {34, 38, 39, 60, 62}"
proof -
  have "list_all (\<lambda>i. (ASCII_CLASS ! i AND XML_UNSAFE \<noteq> 0) = (i = 34 \<or> i = 38 \<or> i = 39 \<or> i = 60 \<or> i = 62)) [0..<128]" by code_simp
  moreover have "unat ch < 128" using assms by (simp add: word_less_nat_alt)
  ultimately have "(ASCII_CLASS ! unat ch AND XML_UNSAFE \<noteq> 0) = (unat ch = 34 \<or> unat ch = 38 \<or> unat ch = 39 \<or> unat ch = 60 \<or> unat ch = 62)"
    by (simp add: list_all_iff)
  then show ?thesis by (simp add: word_unat_eq_iff)
qed

text \<open>The strings of the code, as bytes.\<close>

lemma markup_strings:
  "ascii_char (CHR ''<'') = 60" "ascii_char (CHR ''>'') = 62" "ascii_char (CHR ''&'') = 38"
  "ascii ''<'' = [60]" "ascii ''>'' = [62]" "ascii ''&'' = [38]" "ascii ''lt;'' = [108, 116, 59]" "ascii ''gt;'' = [103, 116, 59]"
  "ascii ''apos;'' = [97, 112, 111, 115, 59]" "ascii ''quot;'' = [113, 117, 111, 116, 59]" "ascii ''amp;'' = [97, 109, 112, 59]"
  "ascii ''&lt;'' = [38, 108, 116, 59]" "ascii ''&gt;'' = [38, 103, 116, 59]" "ascii ''&apos;'' = [38, 97, 112, 111, 115, 59]"
  "ascii ''&quot;'' = [38, 113, 117, 111, 116, 59]" "ascii ''&amp;'' = [38, 97, 109, 112, 59]" "ascii ''&#39;'' = [38, 35, 51, 57, 59]"
  "ascii ''&#'' = [38, 35]" "ascii '';'' = [59]"
  by code_simp+

definition xml_code :: "uint8 \<Rightarrow> bytes" where
  "xml_code ch = (if ch < 128 \<and> ASCII_CLASS ! unat ch AND XML_UNSAFE \<noteq> 0 then xml_escseq ch else [ch])"

lemma xml_code_eq:
  "xml_code ch =
     (if ch = 60 then [38, 108, 116, 59] else if ch = 62 then [38, 103, 116, 59] else if ch = 39 then [38, 97, 112, 111, 115, 59]
      else if ch = 34 then [38, 113, 117, 111, 116, 59] else if ch = 38 then [38, 97, 109, 112, 59] else [ch])"
proof (cases "ch < 128")
  case True
  then show ?thesis by (simp add: xml_code_def unsafe_chars) (simp add: xml_escseq_def markup_strings)
next
  case False
  then have "ch \<noteq> 60 \<and> ch \<noteq> 62 \<and> ch \<noteq> 39 \<and> ch \<noteq> 34 \<and> ch \<noteq> 38" by auto
  with False show ?thesis by (simp add: xml_code_def)
qed

lemma xml_encode_step:
  "xml_encode_loop buflen (ch # source) bufpos =
     (if bufpos + length (xml_code ch) < buflen then xml_code ch @ xml_encode_loop buflen source (bufpos + length (xml_code ch)) else [])"
proof (cases "ch < 128 \<and> ASCII_CLASS ! unat ch AND XML_UNSAFE \<noteq> 0")
  case True
  have "0 < length (xml_code ch)" by (simp add: xml_code_eq)
  moreover have "xml_code ch = xml_escseq ch" unfolding xml_code_def by (rule if_P [OF True])
  ultimately show ?thesis using True by (cases "xml_escseq ch") (simp_all add: Let_def not_less)
next
  case False
  have "xml_code ch = [ch]" unfolding xml_code_def by (rule if_not_P [OF False])
  then show ?thesis using False by (simp only: xml_encode_loop.simps if_not_P) simp
qed

lemma xml_entity_named:
  "xml_entity room (108 # 116 # 59 # s) = Some ([60], s)" "xml_entity room (103 # 116 # 59 # s) = Some ([62], s)"
  "xml_entity room (97 # 112 # 111 # 115 # 59 # s) = Some ([39], s)" "xml_entity room (113 # 117 # 111 # 116 # 59 # s) = Some ([34], s)"
  "xml_entity room (97 # 109 # 112 # 59 # s) = Some ([38], s)"
  by (simp_all add: xml_entity_def markup_strings)

lemma xml_decode_step:
  assumes "bufpos + 1 < buflen"
  shows "ch \<noteq> 38 \<Longrightarrow> xml_decode_loop buflen (ch # source) bufpos = ch # xml_decode_loop buflen source (bufpos + 1)"
    and "xml_entity (buflen - bufpos) s = Some (esc, source) \<Longrightarrow>
      xml_decode_loop buflen (38 # s) bufpos = esc @ xml_decode_loop buflen source (bufpos + length esc)"
  using assms by (simp_all add: xml_decode_loop.simps(2))

lemma xml_decode_code:
  assumes "bufpos + 1 < buflen"
  shows "xml_decode_loop buflen (xml_code ch @ source) bufpos = ch # xml_decode_loop buflen source (bufpos + 1)"
proof -
  note steps = xml_entity_named [THEN xml_decode_step(2) [OF assms], of source]
  consider "ch = 60" | "ch = 62" | "ch = 39" | "ch = 34" | "ch = 38" | "ch \<notin> {60, 62, 39, 34, 38}" by blast
  then show ?thesis
    by cases (simp_all add: xml_code_eq steps xml_decode_step(1) [OF assms])
qed

interpretation xml: bounded_codec xml_code 6 xml_encode_loop xml_decode_loop
proof unfold_locales
  show "0 < length (xml_code ch) \<and> length (xml_code ch) \<le> 6" for ch by (simp add: xml_code_eq)
qed (simp_all only: xml_encode_step xml_decode_code xml_encode_loop.simps(1) xml_decode_loop.simps(1) if_True if_False not_less [symmetric])

section \<open>Decimal numbers\<close>

lemma digit_value_dec: "d < 10 \<Longrightarrow> digit_value (48 + of_nat d) = Some d"
proof -
  assume "d < 10"
  then have "d = 0 \<or> d = 1 \<or> d = 2 \<or> d = 3 \<or> d = 4 \<or> d = 5 \<or> d = 6 \<or> d = 7 \<or> d = 8 \<or> d = 9" by arith
  then show ?thesis by (elim disjE) (simp_all add: digit_value_def)
qed

lemma sprintf_lu_digits: "sprintf_lu n \<noteq> [] \<and> list_all (is_digit 10) (sprintf_lu n) \<and> digits_value 10 (sprintf_lu n) = n"
proof (induction n rule: sprintf_lu.induct)
  case (1 n)
  then show ?case by (simp add: sprintf_lu.simps [of n] is_digit_def digits_value_def digit_value_dec)
qed

lemma sprintf_lu_length: "n < 10 ^ Suc k \<Longrightarrow> length (sprintf_lu n) \<le> Suc k"
proof (induction n arbitrary: k rule: sprintf_lu.induct)
  case (1 n)
  show ?case
  proof (cases "n < 10")
    case False
    with 1(2) obtain k' where "k = Suc k'" by (cases k) auto
    with False 1 show ?thesis by (simp add: sprintf_lu.simps [of n] less_mult_imp_div_less mult.commute)
  qed (simp add: sprintf_lu.simps [of n])
qed

lemma is_digit_char: "is_digit 10 c \<Longrightarrow> c \<notin> {9, 10, 11, 12, 13, 32, 43, 45, 120}" "\<not> is_digit 10 59"
  by (auto simp: is_digit_def digit_value_def)

lemma strtoul_lu: "n < 2 ^ 64 \<Longrightarrow> strtoul (sprintf_lu n @ 59 # rest) 10 = (of_nat n, length (sprintf_lu n))"
proof -
  assume n: "n < 2 ^ 64"
  obtain c cs where cs: "sprintf_lu n = c # cs" using sprintf_lu_digits [of n] by (cases "sprintf_lu n") auto
  have d: "list_all (is_digit 10) (c # cs)" "digits_value 10 (c # cs) = n" using sprintf_lu_digits [of n] by (simp_all add: cs)
  then have "takeWhile (is_digit 10) (c # cs @ 59 # rest) = c # cs"
    using takeWhile_append2 [of "c # cs" "is_digit 10" "59 # rest"] is_digit_char(2) by (simp add: list_all_iff)
  with d n is_digit_char(1) [of c] show ?thesis by (simp add: strtoul_def cs Let_def)
qed

section \<open>HTML\<close>

text \<open>The code of a code point.\<close>

definition html_code :: "uint64 \<Rightarrow> bytes" where
  "html_code v =
     (if v < 128 then if ASCII_CLASS ! unat v AND XML_UNSAFE \<noteq> 0 then html_escseq (ucast v) else [ucast v]
      else html_numeric v)"

lemma html_numeric_eq: "v \<le> 0x1FFFFF \<Longrightarrow> html_numeric v = 38 # 35 # sprintf_lu (unat v) @ [59]"
  using sprintf_lu_length [of "unat v" 6] by (simp add: html_numeric_def markup_strings word_le_nat_alt)

lemma utf8_encode_room: "length (utf8_encode 4 v) \<le> room \<Longrightarrow> utf8_encode 4 v \<noteq> [] \<Longrightarrow> utf8_encode room v = utf8_encode 4 v"
  by (auto simp: utf8_encode_def split: if_splits)

lemma xml_decode_numeric:
  assumes "v \<le> 0x1FFFFF" and "bufpos + length (utf8_encode 4 v) < buflen"
  shows "xml_decode_loop buflen (38 # 35 # sprintf_lu (unat v) @ 59 # source) bufpos =
    utf8_encode 4 v @ xml_decode_loop buflen source (bufpos + length (utf8_encode 4 v))"
proof -
  obtain c cs where cs: "sprintf_lu (unat v) = c # cs" using sprintf_lu_digits [of "unat v"] by (cases "sprintf_lu (unat v)") auto
  have c: "c \<noteq> 120" using sprintf_lu_digits [of "unat v"] is_digit_char(1) [of c] by (simp add: cs)
  have e: "utf8_encode 4 v \<noteq> []" using assms(1) by (simp add: utf8_encode_def)
  have "strtoul (sprintf_lu (unat v) @ 59 # source) 10 = (v, length (sprintf_lu (unat v)))"
    using strtoul_lu [of "unat v" source] unsigned_less [of v, where 'a=nat] by simp
  then have "xml_entity room (35 # sprintf_lu (unat v) @ 59 # source) = (if utf8_encode room v \<noteq> [] then Some (utf8_encode room v, source) else None)" for room
    using c by (simp add: xml_entity_def markup_strings Let_def cs)
  moreover have "utf8_encode (buflen - bufpos) v = utf8_encode 4 v" using assms(2) e by (intro utf8_encode_room) simp_all
  moreover have "bufpos + 1 < buflen" using assms(2) e by (cases "utf8_encode 4 v") simp_all
  ultimately show ?thesis using e by (subst xml_decode_loop.simps(2)) simp
qed

lemma ucast_ascii: "v < 128 \<Longrightarrow> unat (ucast (v :: uint64) :: uint8) = unat v"
  by (simp add: unsigned_ucast_eq take_bit_nat_eq_self word_less_nat_alt)

lemma lead_not_ascii: "(c :: uint8) < 128 \<Longrightarrow> c AND 0x80 = 0"
proof -
  have "list_all (\<lambda>i. (of_nat i :: uint8) AND 0x80 = 0) [0..<128]" by code_simp
  then have "unat c < 128 \<Longrightarrow> (of_nat (unat c) :: uint8) AND 0x80 = 0" unfolding list_all_iff by (metis atLeastLessThan_iff le0 set_upt)
  then show "c < 128 \<Longrightarrow> c AND 0x80 = 0" by (simp add: word_less_nat_alt)
qed

text \<open>The code of an ASCII character.\<close>

lemma html_code_ascii:
  assumes "v < 128"
  shows "html_code v = (if ucast v = (39 :: uint8) then 38 # 35 # sprintf_lu 39 @ [59] else xml_code (ucast v))"
proof -
  have "sprintf_lu 39 = [51, 57]" by (simp add: sprintf_lu.simps)
  moreover have "(ucast v :: uint8) < 128" using assms ucast_ascii [OF assms] by (simp add: word_less_nat_alt)
  moreover note unsafe_chars [OF this] xml_code_eq [of "ucast v"]
  ultimately show ?thesis
    using assms ucast_ascii [OF assms] by (auto simp: html_code_def html_escseq_def markup_strings)
qed

lemma html_encode_step:
  assumes "v \<le> 0x1FFFFF"
  shows "html_encode_loop buflen (utf8_encode 4 v @ source) bufpos =
    (if bufpos + length (html_code v) < buflen then html_code v @ html_encode_loop buflen source (bufpos + length (html_code v)) else [])"
proof (cases "v < 128")
  case True
  let ?c = "ucast v :: uint8"
  have v: "v \<le> 0x7F" using True by (simp add: word_less_nat_alt word_le_nat_alt)
  have c: "?c < 128" "unat ?c = unat v" using ucast_ascii [OF True] True by (simp_all add: word_less_nat_alt)
  have "html_code v = (if ASCII_CLASS ! unat ?c AND XML_UNSAFE \<noteq> 0 then html_escseq ?c else [?c])"
    using True c(2) by (simp add: html_code_def)
  moreover have "1 \<le> length (html_code v)" using html_code_ascii [OF True] by (simp add: xml_code_eq)
  moreover have "utf8_encode 4 v = [?c]" using v by (simp add: utf8_encode_def)
  ultimately show ?thesis
    using c(1) by (cases "ASCII_CLASS ! unat ?c AND XML_UNSAFE \<noteq> 0") (simp_all add: html_encode_loop.simps(2) [of _ ?c] Let_def)
next
  case False
  then have v: "\<not> v \<le> 0x7F" by (simp add: word_less_nat_alt word_le_nat_alt)
  have "\<exists>c cs. utf8_encode 4 v = c # cs \<and> c AND 0x80 \<noteq> 0"
    using assms v by (cases "v \<le> 0x7FF"; cases "v \<le> 0xFFFF") (simp_all add: utf8_encode_def utf8_lead_not_shorter)
  then obtain c cs where cs: "utf8_encode 4 v = c # cs" "c AND 0x80 \<noteq> 0" by blast
  have d: "utf8_decode (c # cs @ source) = Some (v, length (c # cs))" using utf8_roundtrip [OF assms, of source] by (simp add: cs)
  have "html_code v = html_numeric v" "2 \<le> length (html_numeric v)" using False html_numeric_eq [OF assms] by (simp_all add: html_code_def)
  moreover have "\<not> c < 128" using lead_not_ascii cs(2) by blast
  ultimately show ?thesis by (auto simp: cs html_encode_loop.simps(2) d Let_def)
qed

lemma html_decode_step:
  assumes "v \<le> 0x1FFFFF" and "bufpos + length (utf8_encode 4 v) < buflen"
  shows "xml_decode_loop buflen (html_code v @ source) bufpos =
    utf8_encode 4 v @ xml_decode_loop buflen source (bufpos + length (utf8_encode 4 v))"
proof (cases "v < 128")
  case True
  then have e: "utf8_encode 4 v = [ucast v]" by (simp add: utf8_encode_def word_less_nat_alt word_le_nat_alt)
  show ?thesis
  proof (cases "ucast v = (39 :: uint8)")
    case 39: True
    have "unat v = 39" using ucast_ascii [OF True] 39 by simp
    then show ?thesis using xml_decode_numeric [OF assms, of source] html_code_ascii [OF True] 39 by simp
  next
    case False
    then show ?thesis using xml_decode_code [of bufpos buflen "ucast v" source] assms(2) html_code_ascii [OF True] e by simp
  qed
next
  case False
  then show ?thesis using xml_decode_numeric [OF assms] html_numeric_eq [OF assms(1)] by (simp add: html_code_def)
qed

lemma html_code_length: "v \<le> 0x1FFFFF \<Longrightarrow> length (html_code v) \<le> 10"
proof (cases "v < 128")
  case True
  have "sprintf_lu 39 = [51, 57]" by (simp add: sprintf_lu.simps)
  then show ?thesis using html_code_ascii [OF True] by (simp add: xml_code_eq)
qed (simp add: html_code_def html_numeric_def)

lemma html_encode_concat:
  "\<forall>v \<in> set vs. v \<le> 0x1FFFFF \<Longrightarrow> bufpos + 10 * length vs < buflen \<Longrightarrow>
   html_encode_loop buflen (concat (map (utf8_encode 4) vs)) bufpos = concat (map html_code vs)"
proof (induction vs arbitrary: bufpos)
  case (Cons v vs)
  with html_code_length [of v] show ?case by (simp add: html_encode_step)
qed simp

lemma html_decode_concat:
  "\<forall>v \<in> set vs. v \<le> 0x1FFFFF \<Longrightarrow> bufpos + length (concat (map (utf8_encode 4) vs)) < buflen \<Longrightarrow>
   xml_decode_loop buflen (concat (map html_code vs)) bufpos = concat (map (utf8_encode 4) vs)"
  by (induction vs arbitrary: bufpos) (simp_all add: html_decode_step)

section \<open>Properties\<close>



section \<open>The end of the buffer\<close>

text \<open>
  A character of two bytes fills the last two bytes of the buffer: the terminating zero is written
  behind its end.
\<close>

lemma xml_decode_fills_buffer: "length (xml_decode 2 [38, 35, 50, 51, 51, 59]) = 2"
  by (simp add: xml_decode_def xml_decode_loop.simps(2) xml_entity_def markup_strings strtoul_def is_digit_def digit_value_def
      digits_value_def utf8_encode_def)

text \<open>The character in front of a mark is lost when it is not a delimiter.\<close>

lemma tokenize_marks_drops:
  "tokenize_marks [97, 98, 40, 99, 41] 32 40 41 = [[97], [99]]"
  by (simp add: tokenize_marks_def tokenize_marks_loop.simps find_char_def tokenize_append_def tokenize_eq Let_def)

end
