(* ===== verification/Fifo_Buffer.thy ===== *)
theory Fifo_Buffer
  imports Prelude
begin

text \<open>
  \<^verbatim>\<open>rtc::FifoBuffer\<close> of \<^verbatim>\<open>webrtc/base/stream.{h,cc}\<close>: a byte queue of fixed capacity in a ring
  buffer, with reads and writes at an offset that do not move the queue. The lock is not
  modelled: every operation is one step. Events posted to the owner thread are collected in
  \<open>fb_events\<close>. \<open>size_t\<close> is \<open>nat\<close>. An \<open>ASSERT\<close> that does not hold and a division by a capacity of
  zero are \<open>None\<close>; a pointer into the buffer is its offset.
\<close>

section \<open>The code\<close>

datatype StreamState = SS_CLOSED | SS_OPENING | SS_OPEN

datatype StreamResult = SR_ERROR | SR_SUCCESS | SR_BLOCK | SR_EOS

datatype StreamEvent = SE_OPEN | SE_READ | SE_WRITE | SE_CLOSE

record FifoBuffer =
  fb_state :: StreamState
  fb_buffer :: bytes
  fb_buffer_length :: nat
  fb_data_length :: nat
  fb_read_position :: nat
  fb_events :: "StreamEvent list"

definition FifoBuffer_new :: "nat \<Rightarrow> FifoBuffer" where
  "FifoBuffer_new len = \<lparr>fb_state = SS_OPEN, fb_buffer = replicate len 0, fb_buffer_length = len,
     fb_data_length = 0, fb_read_position = 0, fb_events = []\<rparr>"

definition PostEvent :: "StreamEvent \<Rightarrow> FifoBuffer \<Rightarrow> FifoBuffer" where
  "PostEvent ev b = b\<lparr>fb_events := fb_events b @ [ev]\<rparr>"

definition GetBuffered :: "FifoBuffer \<Rightarrow> nat" where
  "GetBuffered b = fb_data_length b"

definition SetCapacity :: "nat \<Rightarrow> FifoBuffer \<Rightarrow> bool \<times> FifoBuffer" where
  "SetCapacity len b =
     (if fb_data_length b > len then (False, b)
      else if len \<noteq> fb_buffer_length b then
        let copy = fb_data_length b;
            tail_copy = min copy (fb_buffer_length b - fb_read_position b);
            buffer = replicate len 0;
            buffer = blit buffer 0 (take tail_copy (drop (fb_read_position b) (fb_buffer b)));
            buffer = blit buffer tail_copy (take (copy - tail_copy) (fb_buffer b))
        in (True, b\<lparr>fb_buffer := buffer, fb_read_position := 0, fb_buffer_length := len\<rparr>)
      else (True, b))"

definition ReadOffsetLocked :: "nat \<Rightarrow> nat \<Rightarrow> FifoBuffer \<Rightarrow> StreamResult \<times> bytes" where
  "ReadOffsetLocked n offset b =
     (if offset \<ge> fb_data_length b then (if fb_state b \<noteq> SS_CLOSED then SR_BLOCK else SR_EOS, [])
      else
        let available = fb_data_length b - offset;
            read_position = (fb_read_position b + offset) mod fb_buffer_length b;
            copy = min n available;
            tail_copy = min copy (fb_buffer_length b - read_position)
        in (SR_SUCCESS, take tail_copy (drop read_position (fb_buffer b)) @ take (copy - tail_copy) (fb_buffer b)))"

definition WriteOffsetLocked :: "bytes \<Rightarrow> nat \<Rightarrow> FifoBuffer \<Rightarrow> StreamResult \<times> nat \<times> FifoBuffer" where
  "WriteOffsetLocked p offset b =
     (if fb_state b = SS_CLOSED then (SR_EOS, 0, b)
      else if fb_data_length b + offset \<ge> fb_buffer_length b then (SR_BLOCK, 0, b)
      else
        let available = fb_buffer_length b - fb_data_length b - offset;
            write_position = (fb_read_position b + fb_data_length b + offset) mod fb_buffer_length b;
            copy = min (length p) available;
            tail_copy = min copy (fb_buffer_length b - write_position);
            buffer = blit (fb_buffer b) write_position (take tail_copy p);
            buffer = blit buffer 0 (take (copy - tail_copy) (drop tail_copy p))
        in (SR_SUCCESS, copy, b\<lparr>fb_buffer := buffer\<rparr>))"

definition ReadOffset :: "nat \<Rightarrow> nat \<Rightarrow> FifoBuffer \<Rightarrow> StreamResult \<times> bytes" where
  "ReadOffset n offset b = ReadOffsetLocked n offset b"

definition WriteOffset :: "bytes \<Rightarrow> nat \<Rightarrow> FifoBuffer \<Rightarrow> StreamResult \<times> nat \<times> FifoBuffer" where
  "WriteOffset p offset b = WriteOffsetLocked p offset b"

definition FifoBuffer_GetState :: "FifoBuffer \<Rightarrow> StreamState" where
  "FifoBuffer_GetState b = fb_state b"

definition FifoBuffer_Read :: "nat \<Rightarrow> FifoBuffer \<Rightarrow> StreamResult \<times> bytes \<times> FifoBuffer" where
  "FifoBuffer_Read n b =
     (let was_writable = fb_data_length b < fb_buffer_length b in
      case ReadOffsetLocked n 0 b of (result, data) \<Rightarrow>
        if result = SR_SUCCESS then
          let copy = length data;
              b = b\<lparr>fb_read_position := (fb_read_position b + copy) mod fb_buffer_length b,
                    fb_data_length := fb_data_length b - copy\<rparr>
          in (result, data, if \<not> was_writable \<and> copy > 0 then PostEvent SE_WRITE b else b)
        else (result, [], b))"

definition FifoBuffer_Write :: "bytes \<Rightarrow> FifoBuffer \<Rightarrow> StreamResult \<times> nat \<times> FifoBuffer" where
  "FifoBuffer_Write p b =
     (let was_readable = fb_data_length b > 0 in
      case WriteOffsetLocked p 0 b of (result, copy, b) \<Rightarrow>
        if result = SR_SUCCESS then
          let b = b\<lparr>fb_data_length := fb_data_length b + copy\<rparr>
          in (result, copy, if \<not> was_readable \<and> copy > 0 then PostEvent SE_READ b else b)
        else (result, 0, b))"

definition FifoBuffer_Close :: "FifoBuffer \<Rightarrow> FifoBuffer" where
  "FifoBuffer_Close b = b\<lparr>fb_state := SS_CLOSED\<rparr>"

definition GetReadData :: "FifoBuffer \<Rightarrow> nat \<times> nat" where
  "GetReadData b =
     (fb_read_position b,
      if fb_read_position b + fb_data_length b \<le> fb_buffer_length b
      then fb_data_length b else fb_buffer_length b - fb_read_position b)"

definition ConsumeReadData :: "nat \<Rightarrow> FifoBuffer \<Rightarrow> FifoBuffer option" where
  "ConsumeReadData len b =
     (if len > fb_data_length b \<or> fb_buffer_length b = 0 then None
      else
        let was_writable = fb_data_length b < fb_buffer_length b;
            b = b\<lparr>fb_read_position := (fb_read_position b + len) mod fb_buffer_length b,
                  fb_data_length := fb_data_length b - len\<rparr>
        in Some (if \<not> was_writable \<and> len > 0 then PostEvent SE_WRITE b else b))"

text \<open>\<open>GetWriteBuffer\<close> returns the offset and the size of the block, or nothing when closed.\<close>

definition GetWriteBuffer :: "FifoBuffer \<Rightarrow> ((nat \<times> nat) option \<times> FifoBuffer) option" where
  "GetWriteBuffer b =
     (if fb_state b = SS_CLOSED then Some (None, b)
      else if fb_buffer_length b = 0 then None
      else
        let b = (if fb_data_length b = 0 then b\<lparr>fb_read_position := 0\<rparr> else b);
            write_position = (fb_read_position b + fb_data_length b) mod fb_buffer_length b;
            len = (if write_position > fb_read_position b \<or> fb_data_length b = 0
                    then fb_buffer_length b - write_position else fb_read_position b - write_position)
        in Some (Some (write_position, len), b))"

definition ConsumeWriteBuffer :: "nat \<Rightarrow> FifoBuffer \<Rightarrow> FifoBuffer option" where
  "ConsumeWriteBuffer len b =
     (if len > fb_buffer_length b - fb_data_length b then None
      else
        let was_readable = fb_data_length b > 0;
            b = b\<lparr>fb_data_length := fb_data_length b + len\<rparr>
        in Some (if \<not> was_readable \<and> len > 0 then PostEvent SE_READ b else b))"

definition GetWriteRemaining :: "FifoBuffer \<Rightarrow> nat" where
  "GetWriteRemaining b = fb_buffer_length b - fb_data_length b"

section \<open>The ring as a list\<close>

definition fb_inv :: "FifoBuffer \<Rightarrow> bool" where
  "fb_inv b \<longleftrightarrow> length (fb_buffer b) = fb_buffer_length b \<and> fb_data_length b \<le> fb_buffer_length b \<and>
     (fb_read_position b < fb_buffer_length b \<or> fb_read_position b = 0 \<and> fb_buffer_length b = 0)"

text \<open>The whole ring from the read position on; the queue is its front part.\<close>

definition fb_ring :: "FifoBuffer \<Rightarrow> bytes" where
  "fb_ring b = rotate (fb_read_position b) (fb_buffer b)"

definition fb_contents :: "FifoBuffer \<Rightarrow> bytes" where
  "fb_contents b = take (fb_data_length b) (fb_ring b)"

lemma length_fb_ring [simp]: "fb_inv b \<Longrightarrow> length (fb_ring b) = fb_buffer_length b"
  by (simp add: fb_ring_def fb_inv_def)

lemma length_fb_contents [simp]: "fb_inv b \<Longrightarrow> length (fb_contents b) = fb_data_length b"
  by (simp add: fb_contents_def) (simp add: fb_inv_def)

lemma fb_ring_PostEvent [simp]:
  "fb_ring (PostEvent ev b) = fb_ring b" "fb_contents (PostEvent ev b) = fb_contents b"
  "fb_inv (PostEvent ev b) = fb_inv b" "fb_data_length (PostEvent ev b) = fb_data_length b"
  "fb_buffer_length (PostEvent ev b) = fb_buffer_length b" "fb_state (PostEvent ev b) = fb_state b"
  "fb_events (PostEvent ev b) = fb_events b @ [ev]"
  by (simp_all add: PostEvent_def fb_ring_def fb_contents_def fb_inv_def)

text \<open>The two \<^verbatim>\<open>memcpy\<close> calls of a read that may wrap around.\<close>

lemma ring_read:
  assumes "r < length buf" and "n \<le> length buf"
  shows "take (min n (length buf - r)) (drop r buf) @ take (n - min n (length buf - r)) buf = take n (rotate r buf)"
proof (cases "n \<le> length buf - r")
  case True
  with assms show ?thesis by (simp add: rotate_drop_take)
next
  case False
  with assms show ?thesis by (auto simp: rotate_drop_take min_def)
qed

text \<open>The two \<^verbatim>\<open>memcpy\<close> calls of a write that may wrap around.\<close>

lemma ring_write:
  assumes "w < length buf" and "length xs \<le> length buf"
  defines "k \<equiv> min (length xs) (length buf - w)"
  shows "rotate w (blit (blit buf w (take k xs)) 0 (drop k xs)) = xs @ drop (length xs) (rotate w buf)"
    and "length (blit (blit buf w (take k xs)) 0 (drop k xs)) = length buf"
proof -
  have k: "k \<le> length xs" "w + k \<le> length buf" using assms by auto
  show len: "length (blit (blit buf w (take k xs)) 0 (drop k xs)) = length buf"
    using assms(2) k by simp
  show "rotate w (blit (blit buf w (take k xs)) 0 (drop k xs)) = xs @ drop (length xs) (rotate w buf)"
  proof (cases "length xs \<le> length buf - w")
    case True
    then have "k = length xs" by (simp add: k_def)
    with assms(1) True len show ?thesis
      by (simp add: rotate_drop_take blit_def add.commute)
  next
    case False
    then have "k = length buf - w" by (simp add: k_def)
    with assms(1,2) False len show ?thesis
      by (simp add: rotate_drop_take blit_def drop_Cons' min_def)
  qed
qed

lemma rotate_mod_add: "length xs = n \<Longrightarrow> rotate ((r + a) mod n) xs = rotate a (rotate r xs)"
  using rotate_conv_mod [of "a + r" xs] by (simp add: rotate_rotate add.commute)

lemma ring_write_at:
  assumes "length buf = n" and "r < n" and "a < n" and "a + length xs \<le> n"
  defines "w \<equiv> (r + a) mod n"
  defines "k \<equiv> min (length xs) (n - w)"
  shows "rotate r (blit (blit buf w (take k xs)) 0 (drop k xs)) =
      take a (rotate r buf) @ xs @ drop (a + length xs) (rotate r buf)"
    and "length (blit (blit buf w (take k xs)) 0 (drop k xs)) = n"
proof -
  define buf' where "buf' = blit (blit buf w (take k xs)) 0 (drop k xs)"
  let ?R = "rotate r buf" and ?R' = "rotate r buf'"
  have "w < n" using assms(2) by (simp add: w_def)
  then have w: "w < length buf" "length xs \<le> length buf" using assms(1,4) by simp_all
  have rw: "rotate w buf' = xs @ drop (length xs) (rotate w buf)" and len: "length buf' = n"
    using ring_write [OF w] unfolding buf'_def k_def assms(1) .
  have rot: "rotate a ys = drop a ys @ take a ys" if "length ys = n" for ys :: "'a list"
    using that assms(3) by (simp add: rotate_drop_take)
  have "drop a ?R' @ take a ?R' = xs @ drop (a + length xs) ?R @ take a ?R"
    using rw assms(1,4) len unfolding w_def rotate_mod_add [OF len] rotate_mod_add [OF assms(1)]
    by (simp add: rot add.commute)
  then have "drop a ?R' = xs @ drop (a + length xs) ?R \<and> take a ?R' = take a ?R"
    using append_eq_append_conv [of "drop a ?R'" "xs @ drop (a + length xs) ?R"] len assms(1,4) by simp
  then show "rotate r (blit (blit buf w (take k xs)) 0 (drop k xs)) = take a ?R @ xs @ drop (a + length xs) ?R"
    unfolding buf'_def [symmetric] by (metis append_take_drop_id)
  show "length (blit (blit buf w (take k xs)) 0 (drop k xs)) = n"
    using len by (simp add: buf'_def)
qed

lemma ring_read_at:
  assumes "length buf = n" and "r < n" and "a + k \<le> n"
  defines "q \<equiv> (r + a) mod n"
  shows "take (min k (n - q)) (drop q buf) @ take (k - min k (n - q)) buf = take k (drop a (rotate r buf))"
proof -
  have "q < n" using assms(2) by (simp add: q_def)
  then have "take (min k (n - q)) (drop q buf) @ take (k - min k (n - q)) buf = take k (rotate q buf)"
    using ring_read [of q buf k] assms(1,3) by simp
  also have "\<dots> = take k (rotate a (rotate r buf))" by (simp only: q_def rotate_mod_add [OF assms(1)])
  also have "\<dots> = take k (drop a (rotate r buf))"
  proof (cases "a < n")
    case True
    with assms(1,3) show ?thesis by (simp add: rotate_drop_take)
  next
    case False
    with assms(3) have "k = 0" by linarith
    then show ?thesis by simp
  qed
  finally show ?thesis .
qed

section \<open>What the operations do to the queue\<close>

lemma ReadOffset_success:
  assumes "fb_inv b" and "offset < fb_data_length b"
  shows "ReadOffsetLocked n offset b = (SR_SUCCESS, take n (drop offset (fb_contents b)))"
proof -
  let ?k = "min n (fb_data_length b - offset)"
  have b: "length (fb_buffer b) = fb_buffer_length b" "fb_read_position b < fb_buffer_length b"
    "fb_data_length b \<le> fb_buffer_length b" using assms by (auto simp: fb_inv_def)
  have "offset + ?k \<le> fb_buffer_length b" using b(3) assms(2) by (auto simp: min_def)
  from ring_read_at [OF b(1,2) this] assms(2)
  have "ReadOffsetLocked n offset b = (SR_SUCCESS, take ?k (drop offset (fb_ring b)))"
    by (simp add: ReadOffsetLocked_def Let_def fb_ring_def)
  also have "take ?k (drop offset (fb_ring b)) = take n (drop offset (fb_contents b))"
    by (simp add: fb_contents_def drop_take)
  finally show ?thesis .
qed

lemma ReadOffset_blocked:
  "fb_data_length b \<le> offset \<Longrightarrow>
   ReadOffsetLocked n offset b = (if fb_state b \<noteq> SS_CLOSED then SR_BLOCK else SR_EOS, [])"
  by (simp add: ReadOffsetLocked_def)

lemma WriteOffset_success:
  fixes p :: bytes and offset :: nat
  assumes "fb_inv b" and "fb_state b \<noteq> SS_CLOSED" and "fb_data_length b + offset < fb_buffer_length b"
  defines "k \<equiv> min (length p) (fb_buffer_length b - fb_data_length b - offset)"
    and "a \<equiv> fb_data_length b + offset"
  obtains buffer where "WriteOffsetLocked p offset b = (SR_SUCCESS, k, b\<lparr>fb_buffer := buffer\<rparr>)"
    and "fb_inv (b\<lparr>fb_buffer := buffer\<rparr>)"
    and "fb_ring (b\<lparr>fb_buffer := buffer\<rparr>) = take a (fb_ring b) @ take k p @ drop (a + k) (fb_ring b)"
proof -
  let ?n = "fb_buffer_length b"
  let ?w = "(fb_read_position b + a) mod ?n"
  define t where "t = min k (?n - ?w)"
  define buffer where "buffer = blit (blit (fb_buffer b) ?w (take t (take k p))) 0 (drop t (take k p))"
  have b: "length (fb_buffer b) = ?n" "fb_read_position b < ?n" "a < ?n" using assms(1,3) by (auto simp: fb_inv_def a_def)
  have k: "length (take k p) = k" "a + k \<le> ?n" using assms(3) by (auto simp: k_def a_def)
  have tk: "take t (take k p) = take t p" by (simp add: t_def min.absorb1)
  note rw = ring_write_at [OF b, of "take k p", unfolded k(1), OF k(2)]
  have dt: "drop t (take k p) = take (k - t) (drop t p)" by (rule drop_take)
  have "\<not> ?n \<le> fb_data_length b + offset" using assms(3) by simp
  then have "WriteOffsetLocked p offset b = (SR_SUCCESS, k, b\<lparr>fb_buffer := buffer\<rparr>)"
    using assms(2) unfolding WriteOffsetLocked_def Let_def buffer_def tk dt unfolding t_def k_def a_def add.assoc
    by (simp only: if_False simp_thms)
  moreover have "fb_inv (b\<lparr>fb_buffer := buffer\<rparr>)"
    using rw(2) assms(1) by (simp add: fb_inv_def buffer_def t_def)
  moreover have "fb_ring (b\<lparr>fb_buffer := buffer\<rparr>) = take a (fb_ring b) @ take k p @ drop (a + k) (fb_ring b)"
    using rw(1) by (simp add: fb_ring_def buffer_def t_def)
  ultimately show thesis by (rule that)
qed

text \<open>The part of the ring behind the queue, where \<^verbatim>\<open>WriteOffset\<close> puts data that is not yet in order.\<close>

definition fb_ahead :: "FifoBuffer \<Rightarrow> bytes" where
  "fb_ahead b = drop (fb_data_length b) (fb_ring b)"

lemma fb_ring_split: "fb_ring b = fb_contents b @ fb_ahead b"
  by (simp add: fb_contents_def fb_ahead_def)

lemma fb_ring_front_moved:
  assumes "fb_inv b" and "0 < fb_buffer_length b" and "k \<le> fb_data_length b"
  defines "b' \<equiv> b\<lparr>fb_read_position := (fb_read_position b + k) mod fb_buffer_length b,
      fb_data_length := fb_data_length b - k\<rparr>"
  shows "fb_inv b'" and "fb_contents b' = drop k (fb_contents b)"
    and "fb_ahead b' = fb_ahead b @ take k (fb_contents b)"
proof -
  have len: "length (fb_buffer b) = fb_buffer_length b" "fb_data_length b \<le> fb_buffer_length b"
    using assms(1) by (auto simp: fb_inv_def)
  show "fb_inv b'" using assms by (auto simp: fb_inv_def b'_def)
  have "fb_ring b' = rotate k (fb_ring b)"
    by (simp add: fb_ring_def b'_def rotate_mod_add [OF len(1)])
  also have "\<dots> = drop k (fb_ring b) @ take k (fb_ring b)"
  proof (cases "k < fb_buffer_length b")
    case True
    with assms(1) show ?thesis by (simp add: rotate_drop_take)
  next
    case False
    with assms(3) len(2) have "k = length (fb_ring b)" using assms(1) by simp
    then show ?thesis by (simp add: rotate_drop_take)
  qed
  finally have ring: "fb_ring b' = drop k (fb_contents b) @ fb_ahead b @ take k (fb_contents b)"
    using assms(1,3) by (simp add: fb_ring_split)
  then show "fb_contents b' = drop k (fb_contents b)" and "fb_ahead b' = fb_ahead b @ take k (fb_contents b)"
    unfolding fb_contents_def [of b'] fb_ahead_def [of b'] ring using assms(1) by (simp_all add: b'_def)
qed

lemma fb_ring_grown:
  assumes "fb_inv b" and "k \<le> fb_buffer_length b - fb_data_length b"
  defines "b' \<equiv> b\<lparr>fb_data_length := fb_data_length b + k\<rparr>"
  shows "fb_inv b'" and "fb_contents b' = fb_contents b @ take k (fb_ahead b)"
    and "fb_ahead b' = drop k (fb_ahead b)"
  using assms(1,2) unfolding b'_def
  by (auto simp: fb_inv_def fb_contents_def fb_ahead_def fb_ring_def take_add add.commute [of k])

lemma length_fb_ahead [simp]: "fb_inv b \<Longrightarrow> length (fb_ahead b) = fb_buffer_length b - fb_data_length b"
  by (simp add: fb_ahead_def)

lemma fb_ahead_PostEvent [simp]: "fb_ahead (PostEvent ev b) = fb_ahead b"
  by (simp add: fb_ahead_def)

lemma WriteOffset_ahead:
  fixes p :: bytes and offset :: nat
  assumes "fb_inv b" and "fb_state b \<noteq> SS_CLOSED" and "offset < fb_buffer_length b - fb_data_length b"
  defines "k \<equiv> min (length p) (fb_buffer_length b - fb_data_length b - offset)"
  obtains buffer where "WriteOffsetLocked p offset b = (SR_SUCCESS, k, b\<lparr>fb_buffer := buffer\<rparr>)"
    and "fb_inv (b\<lparr>fb_buffer := buffer\<rparr>)" and "fb_contents (b\<lparr>fb_buffer := buffer\<rparr>) = fb_contents b"
    and "fb_ahead (b\<lparr>fb_buffer := buffer\<rparr>) = blit (fb_ahead b) offset (take k p)"
proof -
  have "fb_data_length b + offset < fb_buffer_length b" using assms(3) by linarith
  from WriteOffset_success [OF assms(1,2) this, of p]
  obtain buffer where b: "WriteOffsetLocked p offset b = (SR_SUCCESS, k, b\<lparr>fb_buffer := buffer\<rparr>)"
    "fb_inv (b\<lparr>fb_buffer := buffer\<rparr>)"
    and ring: "fb_ring (b\<lparr>fb_buffer := buffer\<rparr>) = take (fb_data_length b + offset) (fb_ring b) @
      take k p @ drop (fb_data_length b + offset + k) (fb_ring b)"
    unfolding k_def by metis
  have d: "fb_data_length (b\<lparr>fb_buffer := buffer\<rparr>) = fb_data_length b" by simp
  have "fb_data_length b \<le> fb_buffer_length b" using assms(1) by (simp add: fb_inv_def)
  then have "fb_contents (b\<lparr>fb_buffer := buffer\<rparr>) = fb_contents b"
    unfolding fb_contents_def d ring using assms(1) by (simp add: min.absorb1)
  moreover have "fb_ahead (b\<lparr>fb_buffer := buffer\<rparr>) = blit (fb_ahead b) offset (take k p)"
    unfolding fb_ahead_def d ring using assms(1,3)
    by (simp add: blit_def k_def drop_take min.absorb1 min.absorb2 ac_simps)
  ultimately show thesis using b that by blast
qed

section \<open>The stream operations\<close>

lemma Read_success:
  assumes "fb_inv b" and "0 < fb_data_length b"
  obtains b' where "FifoBuffer_Read n b = (SR_SUCCESS, take n (fb_contents b), b')"
    and "fb_inv b'" and "fb_contents b' = drop n (fb_contents b)"
    and "fb_ahead b' = fb_ahead b @ take n (fb_contents b)"
    and "fb_buffer_length b' = fb_buffer_length b" and "fb_state b' = fb_state b"
    and "fb_events b' = fb_events b @ (if fb_data_length b = fb_buffer_length b \<and> 0 < n then [SE_WRITE] else [])"
proof -
  let ?k = "min n (fb_data_length b)"
  define b\<^sub>1 where "b\<^sub>1 = b\<lparr>fb_read_position := (fb_read_position b + ?k) mod fb_buffer_length b,
      fb_data_length := fb_data_length b - ?k\<rparr>"
  then have b\<^sub>1: "fb_buffer_length b\<^sub>1 = fb_buffer_length b" "fb_state b\<^sub>1 = fb_state b" "fb_events b\<^sub>1 = fb_events b"
    by simp_all
  let ?b' = "if fb_data_length b = fb_buffer_length b \<and> 0 < n then PostEvent SE_WRITE b\<^sub>1 else b\<^sub>1"
  have pos: "0 < fb_buffer_length b" "fb_data_length b \<le> fb_buffer_length b"
    using assms by (auto simp: fb_inv_def)
  have k: "take ?k (fb_contents b) = take n (fb_contents b)" "drop ?k (fb_contents b) = drop n (fb_contents b)"
    using assms(1) by (auto simp: min_def)
  then have moved: "fb_inv b\<^sub>1" "fb_contents b\<^sub>1 = drop n (fb_contents b)"
    "fb_ahead b\<^sub>1 = fb_ahead b @ take n (fb_contents b)"
    using fb_ring_front_moved [OF assms(1) pos(1), of ?k] by (simp_all add: b\<^sub>1_def)
  have "FifoBuffer_Read n b = (SR_SUCCESS, take n (fb_contents b), ?b')"
    using ReadOffset_success [OF assms(1,2), of n] pos(2) assms(2)
    unfolding FifoBuffer_Read_def Let_def using length_fb_contents [OF assms(1)]
    by (auto simp: min.commute b\<^sub>1_def)
  then show thesis by (rule that) (use moved b\<^sub>1 in simp_all)
qed

lemma Read_empty:
  assumes "fb_data_length b = 0"
  shows "FifoBuffer_Read n b = (if fb_state b = SS_CLOSED then SR_EOS else SR_BLOCK, [], b)"
  using assms by (simp add: FifoBuffer_Read_def ReadOffset_blocked)

lemma Write_success:
  fixes p :: bytes
  assumes "fb_inv b" and "fb_state b \<noteq> SS_CLOSED" and "fb_data_length b < fb_buffer_length b"
  defines "k \<equiv> min (length p) (fb_buffer_length b - fb_data_length b)"
  obtains b' where "FifoBuffer_Write p b = (SR_SUCCESS, k, b')"
    and "fb_inv b'" and "fb_contents b' = fb_contents b @ take k p"
    and "fb_buffer_length b' = fb_buffer_length b" and "fb_state b' = fb_state b"
    and "fb_events b' = fb_events b @ (if fb_data_length b = 0 \<and> p \<noteq> [] then [SE_READ] else [])"
proof -
  have 0: "0 < fb_buffer_length b - fb_data_length b" using assms(3) by simp
  from WriteOffset_ahead [OF assms(1,2) 0, of p] obtain buffer
    where w: "WriteOffsetLocked p 0 b = (SR_SUCCESS, k, b\<lparr>fb_buffer := buffer\<rparr>)"
      and inv: "fb_inv (b\<lparr>fb_buffer := buffer\<rparr>)" and c: "fb_contents (b\<lparr>fb_buffer := buffer\<rparr>) = fb_contents b"
      and a: "fb_ahead (b\<lparr>fb_buffer := buffer\<rparr>) = blit (fb_ahead b) 0 (take k p)"
    unfolding k_def by auto
  define b\<^sub>1 where "b\<^sub>1 = b\<lparr>fb_buffer := buffer, fb_data_length := fb_data_length b + k\<rparr>"
  then have b\<^sub>1: "fb_buffer_length b\<^sub>1 = fb_buffer_length b" "fb_state b\<^sub>1 = fb_state b" "fb_events b\<^sub>1 = fb_events b"
    by simp_all
  let ?b' = "if fb_data_length b = 0 \<and> p \<noteq> [] then PostEvent SE_READ b\<^sub>1 else b\<^sub>1"
  have k: "k \<le> fb_buffer_length (b\<lparr>fb_buffer := buffer\<rparr>) - fb_data_length (b\<lparr>fb_buffer := buffer\<rparr>)"
    by (simp add: k_def)
  have len: "length (take k p) = k" by (simp add: k_def)
  then have ahead: "take k (blit (fb_ahead b) 0 (take k p)) = take k p" by (simp add: blit_def)
  have grown: "fb_inv b\<^sub>1" "fb_contents b\<^sub>1 = fb_contents b @ take k p"
    using fb_ring_grown [OF inv k, unfolded c a ahead] by (simp_all add: b\<^sub>1_def)
  have "0 < k \<longleftrightarrow> p \<noteq> []" using assms(3) by (simp add: k_def)
  then have "FifoBuffer_Write p b = (SR_SUCCESS, k, ?b')"
    unfolding FifoBuffer_Write_def w by (simp add: Let_def b\<^sub>1_def)
  then show thesis by (rule that) (use grown b\<^sub>1 in simp_all)
qed

lemma Write_full:
  assumes "fb_state b \<noteq> SS_CLOSED" and "fb_buffer_length b \<le> fb_data_length b"
  shows "FifoBuffer_Write p b = (SR_BLOCK, 0, b)"
  using assms by (simp add: FifoBuffer_Write_def WriteOffsetLocked_def)

lemma Write_closed: "fb_state b = SS_CLOSED \<Longrightarrow> FifoBuffer_Write p b = (SR_EOS, 0, b)"
  by (simp add: FifoBuffer_Write_def WriteOffsetLocked_def)

end
