(* ===== verification/Fifo_Correct.thy ===== *)
theory Fifo_Correct
  imports Fifo_Buffer
begin

text \<open>
  The ring buffer of \<^verbatim>\<open>webrtc/base/stream.cc\<close> is a bounded first-in-first-out queue. The contract is
  the locale \<open>bounded_fifo\<close>, interpreted on the operations \<^verbatim>\<open>Write\<close> and \<^verbatim>\<open>Read\<close> of an open buffer and
  on the pointer interface \<^verbatim>\<open>GetWriteBuffer\<close>/\<^verbatim>\<open>ConsumeWriteBuffer\<close>, \<^verbatim>\<open>GetReadData\<close>/\<^verbatim>\<open>ConsumeReadData\<close>.
\<close>

section \<open>The remaining operations\<close>

lemma ConsumeReadData_success:
  assumes "fb_inv b" and "0 < fb_buffer_length b" and "k \<le> fb_data_length b"
  obtains b' where "ConsumeReadData k b = Some b'" and "fb_inv b'" and "fb_contents b' = drop k (fb_contents b)"
    and "fb_ahead b' = fb_ahead b @ take k (fb_contents b)"
    and "fb_buffer_length b' = fb_buffer_length b" and "fb_state b' = fb_state b"
    and "fb_events b' = fb_events b @ (if fb_data_length b = fb_buffer_length b \<and> 0 < k then [SE_WRITE] else [])"
proof -
  define b\<^sub>1 where "b\<^sub>1 = b\<lparr>fb_read_position := (fb_read_position b + k) mod fb_buffer_length b,
      fb_data_length := fb_data_length b - k\<rparr>"
  then have b\<^sub>1: "fb_buffer_length b\<^sub>1 = fb_buffer_length b" "fb_state b\<^sub>1 = fb_state b" "fb_events b\<^sub>1 = fb_events b"
    by simp_all
  have "fb_data_length b \<le> fb_buffer_length b" using assms(1) by (simp add: fb_inv_def)
  then have "ConsumeReadData k b =
      Some (if fb_data_length b = fb_buffer_length b \<and> 0 < k then PostEvent SE_WRITE b\<^sub>1 else b\<^sub>1)"
    using assms(2,3) by (auto simp: ConsumeReadData_def Let_def b\<^sub>1_def)
  then show thesis
    by (rule that) (use fb_ring_front_moved [OF assms, folded b\<^sub>1_def] b\<^sub>1 in simp_all)
qed

lemma ConsumeWriteBuffer_success:
  assumes "fb_inv b" and "k \<le> fb_buffer_length b - fb_data_length b"
  obtains b' where "ConsumeWriteBuffer k b = Some b'" and "fb_inv b'"
    and "fb_contents b' = fb_contents b @ take k (fb_ahead b)" and "fb_ahead b' = drop k (fb_ahead b)"
    and "fb_buffer_length b' = fb_buffer_length b" and "fb_state b' = fb_state b"
    and "fb_events b' = fb_events b @ (if fb_data_length b = 0 \<and> 0 < k then [SE_READ] else [])"
proof -
  define b\<^sub>1 where "b\<^sub>1 = b\<lparr>fb_data_length := fb_data_length b + k\<rparr>"
  then have b\<^sub>1: "fb_buffer_length b\<^sub>1 = fb_buffer_length b" "fb_state b\<^sub>1 = fb_state b" "fb_events b\<^sub>1 = fb_events b"
    by simp_all
  have "ConsumeWriteBuffer k b =
      Some (if fb_data_length b = 0 \<and> 0 < k then PostEvent SE_READ b\<^sub>1 else b\<^sub>1)"
    using assms(2) by (auto simp: ConsumeWriteBuffer_def Let_def b\<^sub>1_def)
  then show thesis
    by (rule that) (use fb_ring_grown [OF assms, folded b\<^sub>1_def] b\<^sub>1 in simp_all)
qed

lemma SetCapacity_success:
  assumes "fb_inv b" and "fb_data_length b \<le> len"
  obtains b' where "SetCapacity len b = (True, b')" and "fb_inv b'" and "fb_contents b' = fb_contents b"
    and "fb_buffer_length b' = len" and "fb_state b' = fb_state b" and "fb_events b' = fb_events b"
    and "fb_ahead b' = (if len = fb_buffer_length b then fb_ahead b else replicate (len - fb_data_length b) 0)"
proof (cases "len = fb_buffer_length b")
  case True
  with assms show thesis by (intro that [of b]) (simp_all add: SetCapacity_def)
next
  case False
  let ?d = "fb_data_length b" and ?t = "min (fb_data_length b) (fb_buffer_length b - fb_read_position b)"
  define buffer where "buffer = blit (blit (replicate len (0 :: uint8)) 0
    (take ?t (drop (fb_read_position b) (fb_buffer b)))) ?t (take (?d - ?t) (fb_buffer b))"
  define b\<^sub>1 where "b\<^sub>1 = b\<lparr>fb_buffer := buffer, fb_read_position := 0, fb_buffer_length := len\<rparr>"
  have l: "length (fb_buffer b) = fb_buffer_length b" "?d \<le> fb_buffer_length b" using assms(1) by (auto simp: fb_inv_def)
  have c: "take ?t (drop (fb_read_position b) (fb_buffer b)) @ take (?d - ?t) (fb_buffer b) = fb_contents b"
  proof (cases "fb_buffer_length b = 0")
    case True
    with l show ?thesis by (simp add: fb_contents_def fb_ring_def)
  next
    case False
    with assms(1) have "fb_read_position b < length (fb_buffer b)" by (auto simp: fb_inv_def)
    from ring_read [OF this, of ?d] l show ?thesis by (simp add: fb_contents_def fb_ring_def)
  qed
  have len: "length (take ?t (drop (fb_read_position b) (fb_buffer b))) = ?t" using l by simp
  have "buffer = (take ?t (drop (fb_read_position b) (fb_buffer b)) @ take (?d - ?t) (fb_buffer b)) @ replicate (len - ?d) 0"
    using assms(2) len l by (simp add: buffer_def blit_def)
  then have buf: "buffer = fb_contents b @ replicate (len - ?d) 0" unfolding c .
  have "SetCapacity len b = (True, b\<^sub>1)"
    using False assms(2) by (simp add: SetCapacity_def Let_def b\<^sub>1_def buffer_def)
  moreover have ring: "fb_ring b\<^sub>1 = fb_contents b @ replicate (len - ?d) 0" and d: "fb_data_length b\<^sub>1 = ?d"
    by (simp_all add: b\<^sub>1_def fb_ring_def buf)
  moreover have "fb_inv b\<^sub>1"
    using assms by (cases "len = 0") (simp_all add: b\<^sub>1_def buf fb_inv_def [of "b\<lparr>fb_buffer := _, fb_read_position := _, fb_buffer_length := _\<rparr>"])
  moreover have "fb_contents b\<^sub>1 = fb_contents b" "fb_ahead b\<^sub>1 = replicate (len - ?d) 0"
    unfolding fb_contents_def [of b\<^sub>1] fb_ahead_def [of b\<^sub>1] ring d using assms(1) by simp_all
  ultimately show thesis using False by (intro that [of b\<^sub>1]) (simp_all add: b\<^sub>1_def)
qed

lemma GetReadData_block:
  assumes "fb_inv b" and "GetReadData b = (pos, n)"
  shows "take n (drop pos (fb_buffer b)) = take n (fb_contents b)" and "n \<le> fb_data_length b"
    and "n = 0 \<longleftrightarrow> fb_data_length b = 0" and "pos + n \<le> fb_buffer_length b"
proof -
  have l: "length (fb_buffer b) = fb_buffer_length b" using assms(1) by (simp add: fb_inv_def)
  show n: "n \<le> fb_data_length b" "n = 0 \<longleftrightarrow> fb_data_length b = 0" "pos + n \<le> fb_buffer_length b"
    using assms by (auto simp: GetReadData_def fb_inv_def split: if_splits)
  have "pos = fb_read_position b" using assms(2) by (auto simp: GetReadData_def)
  with n(3) l have "take n (rotate pos (fb_buffer b)) = take n (drop pos (fb_buffer b))"
    by (cases "pos < fb_buffer_length b") (simp_all add: rotate_drop_take)
  with n(1) \<open>pos = _\<close> show "take n (drop pos (fb_buffer b)) = take n (fb_contents b)"
    by (simp add: fb_contents_def fb_ring_def min.absorb1)
qed

text \<open>A caller of \<^verbatim>\<open>GetWriteBuffer\<close> stores bytes through the pointer it gets.\<close>

definition fb_store :: "nat \<Rightarrow> bytes \<Rightarrow> FifoBuffer \<Rightarrow> FifoBuffer" where
  "fb_store pos xs b = b\<lparr>fb_buffer := blit (fb_buffer b) pos xs\<rparr>"

lemma GetWriteBuffer_block:
  assumes "fb_inv b" and "fb_state b \<noteq> SS_CLOSED" and "0 < fb_buffer_length b"
  obtains pos n b\<^sub>1 where "GetWriteBuffer b = Some (Some (pos, n), b\<^sub>1)"
    and "fb_inv b\<^sub>1" and "fb_contents b\<^sub>1 = fb_contents b" and "fb_data_length b\<^sub>1 = fb_data_length b"
    and "fb_buffer_length b\<^sub>1 = fb_buffer_length b" and "fb_state b\<^sub>1 = fb_state b" and "fb_events b\<^sub>1 = fb_events b"
    and "pos = (fb_read_position b\<^sub>1 + fb_data_length b) mod fb_buffer_length b"
    and "pos + n \<le> fb_buffer_length b" and "n \<le> fb_buffer_length b - fb_data_length b"
    and "n = 0 \<longleftrightarrow> fb_data_length b = fb_buffer_length b"
proof -
  define b\<^sub>1 where "b\<^sub>1 = (if fb_data_length b = 0 then b\<lparr>fb_read_position := 0\<rparr> else b)"
  let ?r = "fb_read_position b\<^sub>1" and ?d = "fb_data_length b" and ?N = "fb_buffer_length b"
  have b\<^sub>1: "fb_inv b\<^sub>1" "fb_contents b\<^sub>1 = fb_contents b" "fb_data_length b\<^sub>1 = ?d" "fb_buffer_length b\<^sub>1 = ?N"
    "fb_state b\<^sub>1 = fb_state b" "fb_events b\<^sub>1 = fb_events b"
    using assms(1) by (auto simp: b\<^sub>1_def fb_inv_def fb_contents_def)
  define pos where "pos = (?r + ?d) mod ?N"
  define n where "n = (if pos > ?r \<or> ?d = 0 then ?N - pos else ?r - pos)"
  have "?r < ?N" "?d \<le> ?N" "?d = 0 \<Longrightarrow> ?r = 0" using assms by (auto simp: b\<^sub>1_def fb_inv_def)
  then have pos: "pos = (if ?r + ?d < ?N then ?r + ?d else ?r + ?d - ?N)"
    by (simp add: pos_def mod_if)
  have "GetWriteBuffer b = Some (Some (pos, n), b\<^sub>1)"
    using assms(2,3) b\<^sub>1(3,4) unfolding GetWriteBuffer_def b\<^sub>1_def [symmetric] Let_def pos_def n_def by simp
  moreover have "pos + n \<le> ?N" "n \<le> ?N - ?d" "n = 0 \<longleftrightarrow> ?d = ?N"
    using \<open>?r < ?N\<close> \<open>?d \<le> ?N\<close> pos \<open>?d = 0 \<Longrightarrow> ?r = 0\<close> by (auto simp: n_def split: if_splits)
  ultimately show thesis using b\<^sub>1 that pos_def by blast
qed

lemma blit_Nil [simp]: "blit m n [] = m"
  by (simp add: blit_def)

lemma store_consume:
  assumes "fb_inv b" and "fb_data_length b < fb_buffer_length b"
    and "pos = (fb_read_position b + fb_data_length b) mod fb_buffer_length b"
    and "pos + length xs \<le> fb_buffer_length b" and "length xs \<le> fb_buffer_length b - fb_data_length b"
  obtains b' where "ConsumeWriteBuffer (length xs) (fb_store pos xs b) = Some b'" and "fb_inv b'"
    and "fb_contents b' = fb_contents b @ xs" and "fb_buffer_length b' = fb_buffer_length b"
    and "fb_state b' = fb_state b"
proof -
  let ?d = "fb_data_length b" and ?N = "fb_buffer_length b" and ?s = "fb_store pos xs b"
  have b: "length (fb_buffer b) = ?N" "fb_read_position b < ?N" using assms(1,2) by (auto simp: fb_inv_def)
  have s: "fb_data_length ?s = ?d" "fb_buffer_length ?s = ?N" "fb_state ?s = fb_state b" by (simp_all add: fb_store_def)
  have k: "min (length xs) (?N - pos) = length xs" and d: "?d + length xs \<le> ?N" using assms(2,4,5) by auto
  note rw = ring_write_at [OF b assms(2) d, folded assms(3), unfolded k, simplified]
  have ring: "fb_ring ?s = fb_contents b @ xs @ drop (?d + length xs) (fb_ring b)"
    using rw(1) by (simp add: fb_ring_def fb_store_def fb_contents_def)
  have inv: "fb_inv ?s" using rw(2) assms(1) by (simp add: fb_inv_def fb_store_def)
  have "fb_contents ?s = fb_contents b" "take (length xs) (fb_ahead ?s) = xs"
    unfolding fb_contents_def [of ?s] fb_ahead_def s(1) ring using assms(1) by simp_all
  with ConsumeWriteBuffer_success [OF inv, of "length xs"] assms(5) s show thesis by (metis that)
qed

section \<open>The contract of a bounded queue\<close>

datatype 'a fifo_op = Put "'a list" | Get nat | Resize nat

text \<open>A run of a client: what the queue accepted, what it delivered, and its state afterwards.\<close>

fun fifo_run :: "('a list \<Rightarrow> 's \<Rightarrow> nat \<times> 's) \<Rightarrow> (nat \<Rightarrow> 's \<Rightarrow> 'a list \<times> 's) \<Rightarrow> (nat \<Rightarrow> 's \<Rightarrow> 's) \<Rightarrow>
    'a fifo_op list \<Rightarrow> 's \<Rightarrow> 'a list \<times> 'a list \<times> 's" where
  "fifo_run put get resize [] s = ([], [], s)"
| "fifo_run put get resize (Put xs # ops) s =
     (case put xs s of (k, s) \<Rightarrow> case fifo_run put get resize ops s of (a, d, s) \<Rightarrow> (take k xs @ a, d, s))"
| "fifo_run put get resize (Get n # ops) s =
     (case get n s of (xs, s) \<Rightarrow> case fifo_run put get resize ops s of (a, d, s) \<Rightarrow> (a, xs @ d, s))"
| "fifo_run put get resize (Resize n # ops) s = fifo_run put get resize ops (resize n s)"

locale bounded_fifo =
  fixes inv :: "'s \<Rightarrow> bool"
    and contents :: "'s \<Rightarrow> 'a list"
    and capacity :: "'s \<Rightarrow> nat"
    and put :: "'a list \<Rightarrow> 's \<Rightarrow> nat \<times> 's"
    and get :: "nat \<Rightarrow> 's \<Rightarrow> 'a list \<times> 's"
    and resize :: "nat \<Rightarrow> 's \<Rightarrow> 's"
  assumes bounded: "inv s \<Longrightarrow> length (contents s) \<le> capacity s"
    and put_law: "inv s \<Longrightarrow> put xs s = (k, s') \<Longrightarrow> inv s' \<and> contents s' = contents s @ take k xs \<and>
      capacity s' = capacity s \<and> k = min (length xs) (capacity s - length (contents s))"
    and get_law: "inv s \<Longrightarrow> get n s = (xs, s') \<Longrightarrow> inv s' \<and> contents s = xs @ contents s' \<and>
      capacity s' = capacity s \<and> length xs = min n (length (contents s))"
    and resize_law: "inv s \<Longrightarrow> inv (resize n s) \<and> contents (resize n s) = contents s \<and>
      capacity (resize n s) = (if length (contents s) \<le> n then n else capacity s)"
begin

lemma run_first_in_first_out:
  "inv s \<Longrightarrow> fifo_run put get resize ops s = (a, d, s') \<Longrightarrow> inv s' \<and> contents s @ a = d @ contents s'"
proof (induction ops arbitrary: s a d s')
  case (Cons oper ops)
  show ?case
  proof (cases oper)
    case (Put xs)
    obtain k s\<^sub>1 a\<^sub>1 where p: "put xs s = (k, s\<^sub>1)" and r: "fifo_run put get resize ops s\<^sub>1 = (a\<^sub>1, d, s')"
      and a: "a = take k xs @ a\<^sub>1"
      using Cons.prems(2) Put by (auto split: prod.splits)
    with put_law [OF Cons.prems(1) p] Cons.IH [OF _ r] show ?thesis by auto
  next
    case (Get n)
    obtain xs s\<^sub>1 d\<^sub>1 where p: "get n s = (xs, s\<^sub>1)" and r: "fifo_run put get resize ops s\<^sub>1 = (a, d\<^sub>1, s')"
      and d: "d = xs @ d\<^sub>1"
      using Cons.prems(2) Get by (auto split: prod.splits)
    with get_law [OF Cons.prems(1) p] Cons.IH [OF _ r] show ?thesis by auto
  next
    case (Resize n)
    with Cons.prems resize_law [of s n] Cons.IH show ?thesis by fastforce
  qed
qed simp

text \<open>A put accepts everything when there is room, and a get on a non-empty queue delivers.\<close>

lemma put_get_progress:
  assumes "inv s"
  shows "length (contents s) < capacity s \<Longrightarrow> xs \<noteq> [] \<Longrightarrow> 0 < fst (put xs s)"
    and "contents s \<noteq> [] \<Longrightarrow> 0 < n \<Longrightarrow> fst (get n s) \<noteq> []"
proof -
  have p: "fst (put xs s) = min (length xs) (capacity s - length (contents s))"
    and g: "length (fst (get n s)) = min n (length (contents s))"
    using put_law [OF assms prod.collapse [symmetric]] get_law [OF assms prod.collapse [symmetric]] by blast+
  show "length (contents s) < capacity s \<Longrightarrow> xs \<noteq> [] \<Longrightarrow> 0 < fst (put xs s)" unfolding p by simp
  show "contents s \<noteq> [] \<Longrightarrow> 0 < n \<Longrightarrow> fst (get n s) \<noteq> []" using g by (auto simp: min_def split: if_splits)
qed

end

section \<open>The ring buffer keeps the contract\<close>

definition fb_open :: "FifoBuffer \<Rightarrow> bool" where
  "fb_open b \<longleftrightarrow> fb_inv b \<and> fb_state b = SS_OPEN"

definition fb_put :: "bytes \<Rightarrow> FifoBuffer \<Rightarrow> nat \<times> FifoBuffer" where
  "fb_put p b = (case FifoBuffer_Write p b of (_, k, b) \<Rightarrow> (k, b))"

definition fb_get :: "nat \<Rightarrow> FifoBuffer \<Rightarrow> bytes \<times> FifoBuffer" where
  "fb_get n b = (case FifoBuffer_Read n b of (_, xs, b) \<Rightarrow> (xs, b))"

definition fb_resize :: "nat \<Rightarrow> FifoBuffer \<Rightarrow> FifoBuffer" where
  "fb_resize n b = snd (SetCapacity n b)"

lemma fb_put_law:
  assumes "fb_open b" and "fb_put p b = (k, b')"
  shows "fb_open b' \<and> fb_contents b' = fb_contents b @ take k p \<and> fb_buffer_length b' = fb_buffer_length b \<and>
     k = min (length p) (fb_buffer_length b - length (fb_contents b))"
    and "fb_events b' = fb_events b @ (if fb_contents b = [] \<and> 0 < k then [SE_READ] else [])"
proof -
  have inv: "fb_inv b" and st: "fb_state b \<noteq> SS_CLOSED" "fb_state b = SS_OPEN" using assms(1) by (auto simp: fb_open_def)
  have len: "length (fb_contents b) = fb_data_length b" "fb_data_length b \<le> fb_buffer_length b"
    using inv by (simp_all add: fb_inv_def)
  have "(fb_open b' \<and> fb_contents b' = fb_contents b @ take k p \<and> fb_buffer_length b' = fb_buffer_length b \<and>
     k = min (length p) (fb_buffer_length b - length (fb_contents b))) \<and>
     fb_events b' = fb_events b @ (if fb_contents b = [] \<and> 0 < k then [SE_READ] else [])"
  proof (cases "fb_data_length b < fb_buffer_length b")
    case True
    let ?k = "min (length p) (fb_buffer_length b - fb_data_length b)"
    obtain c where c: "FifoBuffer_Write p b = (SR_SUCCESS, ?k, c)" "fb_inv c" "fb_contents c = fb_contents b @ take ?k p"
      "fb_buffer_length c = fb_buffer_length b" "fb_state c = fb_state b"
      "fb_events c = fb_events b @ (if fb_data_length b = 0 \<and> p \<noteq> [] then [SE_READ] else [])"
      by (rule Write_success [OF inv st(1) True, of p])
    have "k = ?k" "b' = c" using assms(2) by (simp_all add: fb_put_def c(1))
    moreover have "fb_contents b = [] \<longleftrightarrow> fb_data_length b = 0" using len(1) by auto
    ultimately show ?thesis using c(2-) len st(2) True by (simp add: fb_open_def)
  next
    case False
    with assms len show ?thesis by (auto simp: fb_put_def Write_full [OF st(1)])
  qed
  then show "fb_open b' \<and> fb_contents b' = fb_contents b @ take k p \<and> fb_buffer_length b' = fb_buffer_length b \<and>
     k = min (length p) (fb_buffer_length b - length (fb_contents b))"
    and "fb_events b' = fb_events b @ (if fb_contents b = [] \<and> 0 < k then [SE_READ] else [])" by blast+
qed

lemma fb_get_law:
  assumes "fb_open b" and "fb_get n b = (xs, b')"
  shows "fb_open b' \<and> fb_contents b = xs @ fb_contents b' \<and> fb_buffer_length b' = fb_buffer_length b \<and>
     length xs = min n (length (fb_contents b))"
    and "fb_events b' = fb_events b @ (if length (fb_contents b) = fb_buffer_length b \<and> xs \<noteq> [] then [SE_WRITE] else [])"
proof -
  have inv: "fb_inv b" and st: "fb_state b = SS_OPEN" using assms(1) by (auto simp: fb_open_def)
  have len: "length (fb_contents b) = fb_data_length b" using inv by simp
  have "(fb_open b' \<and> fb_contents b = xs @ fb_contents b' \<and> fb_buffer_length b' = fb_buffer_length b \<and>
     length xs = min n (length (fb_contents b))) \<and>
     fb_events b' = fb_events b @ (if length (fb_contents b) = fb_buffer_length b \<and> xs \<noteq> [] then [SE_WRITE] else [])"
  proof (cases "0 < fb_data_length b")
    case True
    obtain c where c: "FifoBuffer_Read n b = (SR_SUCCESS, take n (fb_contents b), c)" "fb_inv c"
      "fb_contents c = drop n (fb_contents b)" "fb_buffer_length c = fb_buffer_length b" "fb_state c = fb_state b"
      "fb_events c = fb_events b @ (if fb_data_length b = fb_buffer_length b \<and> 0 < n then [SE_WRITE] else [])"
      by (rule Read_success [OF inv True, of n])
    have "xs = take n (fb_contents b)" "b' = c" using assms(2) by (simp_all add: fb_get_def c(1))
    moreover from this have "xs \<noteq> [] \<longleftrightarrow> 0 < n" using True len by auto
    ultimately show ?thesis using c(2-) len st by (simp add: fb_open_def min.commute)
  next
    case False
    with assms len show ?thesis by (auto simp: fb_get_def Read_empty)
  qed
  then show "fb_open b' \<and> fb_contents b = xs @ fb_contents b' \<and> fb_buffer_length b' = fb_buffer_length b \<and>
     length xs = min n (length (fb_contents b))"
    and "fb_events b' = fb_events b @ (if length (fb_contents b) = fb_buffer_length b \<and> xs \<noteq> [] then [SE_WRITE] else [])"
    by blast+
qed

lemma fb_resize_law:
  assumes "fb_open b"
  shows "fb_open (fb_resize n b) \<and> fb_contents (fb_resize n b) = fb_contents b \<and>
    fb_buffer_length (fb_resize n b) = (if length (fb_contents b) \<le> n then n else fb_buffer_length b)"
proof (cases "fb_data_length b \<le> n")
  case True
  have inv: "fb_inv b" using assms by (simp add: fb_open_def)
  obtain c where "SetCapacity n b = (True, c)" "fb_inv c" "fb_contents c = fb_contents b" "fb_buffer_length c = n"
    "fb_state c = fb_state b" by (rule SetCapacity_success [OF inv True])
  with assms inv True show ?thesis by (simp add: fb_resize_def fb_open_def)
next
  case False
  with assms show ?thesis by (simp add: fb_resize_def SetCapacity_def fb_open_def)
qed

interpretation fbq: bounded_fifo fb_open fb_contents fb_buffer_length fb_put fb_get fb_resize
proof
  show "length (fb_contents b) \<le> fb_buffer_length b" if "fb_open b" for b
    using that by (simp add: fb_open_def) (simp add: fb_inv_def)
qed (rule fb_put_law(1) fb_get_law(1) fb_resize_law; assumption)+

lemma fb_open_new [simp]: "fb_open (FifoBuffer_new n)" "fb_contents (FifoBuffer_new n) = []"
  by (auto simp: fb_open_def FifoBuffer_new_def fb_inv_def fb_contents_def)

section \<open>Writes ahead of the queue\<close>

text \<open>Pieces of a stream \<open>S\<close>, each an offset and a length, written in any order.\<close>

definition write_piece :: "bytes \<Rightarrow> FifoBuffer \<Rightarrow> nat \<times> nat \<Rightarrow> FifoBuffer" where
  "write_piece S b = (\<lambda>(off, len). snd (snd (WriteOffset (take len (drop off S)) off b)))"

lemma nth_blit: "off + length xs \<le> length m \<Longrightarrow> i < length m \<Longrightarrow>
    blit m off xs ! i = (if off \<le> i \<and> i < off + length xs then xs ! (i - off) else m ! i)"
  by (auto simp: blit_def nth_append)

lemma write_piece_agrees:
  assumes "fb_open b" and "off + len \<le> length S" and "length S \<le> fb_buffer_length b - fb_data_length b"
  defines "b' \<equiv> write_piece S b (off, len)"
  shows "fb_open b'" and "fb_contents b' = fb_contents b" and "fb_data_length b' = fb_data_length b"
    and "fb_buffer_length b' = fb_buffer_length b"
    and "\<And>i. i < length S \<Longrightarrow> fb_ahead b' ! i = (if off \<le> i \<and> i < off + len then S ! i else fb_ahead b ! i)"
proof -
  have inv: "fb_inv b" and st: "fb_state b \<noteq> SS_CLOSED" using assms(1) by (auto simp: fb_open_def)
  let ?p = "take len (drop off S)"
  have p: "length ?p = len" using assms(2) by simp
  have "fb_open b' \<and> fb_contents b' = fb_contents b \<and> fb_data_length b' = fb_data_length b \<and>
    fb_buffer_length b' = fb_buffer_length b \<and>
    (\<forall>i<length S. fb_ahead b' ! i = (if off \<le> i \<and> i < off + len then S ! i else fb_ahead b ! i))"
  proof (cases "off < fb_buffer_length b - fb_data_length b")
    case True
    let ?k = "min (length ?p) (fb_buffer_length b - fb_data_length b - off)"
    obtain buffer where w: "WriteOffsetLocked ?p off b = (SR_SUCCESS, ?k, b\<lparr>fb_buffer := buffer\<rparr>)"
      and c: "fb_inv (b\<lparr>fb_buffer := buffer\<rparr>)" "fb_contents (b\<lparr>fb_buffer := buffer\<rparr>) = fb_contents b"
        "fb_ahead (b\<lparr>fb_buffer := buffer\<rparr>) = blit (fb_ahead b) off (take ?k ?p)"
      by (rule WriteOffset_ahead [OF inv st True])
    have k: "?k = len" using p assms(2,3) by (simp del: length_take length_drop)
    have b': "b' = b\<lparr>fb_buffer := buffer\<rparr>" by (simp add: b'_def write_piece_def WriteOffset_def w)
    have "take ?k ?p = ?p" unfolding k by simp
    then have "fb_ahead b' = blit (fb_ahead b) off ?p" using c(3) b' by simp
    moreover have "off + length ?p \<le> length (fb_ahead b)" unfolding p using inv assms(2,3) by simp
    ultimately have "fb_ahead b' ! i = (if off \<le> i \<and> i < off + len then S ! i else fb_ahead b ! i)"
      if "i < length S" for i
      using that p nth_blit [of off ?p "fb_ahead b" i] inv assms(2,3) by (auto simp del: length_take length_drop)
    with c b' assms(1) show ?thesis by (simp add: fb_open_def)
  next
    case False
    with assms(2,3) have "len = 0" "fb_buffer_length b \<le> fb_data_length b + off" by auto
    then have "b' = b" using st by (simp add: b'_def write_piece_def WriteOffset_def WriteOffsetLocked_def)
    with assms(1) \<open>len = 0\<close> show ?thesis by auto
  qed
  then show "fb_open b'" and "fb_contents b' = fb_contents b" and "fb_data_length b' = fb_data_length b"
    and "fb_buffer_length b' = fb_buffer_length b"
    and "\<And>i. i < length S \<Longrightarrow> fb_ahead b' ! i = (if off \<le> i \<and> i < off + len then S ! i else fb_ahead b ! i)"
    by simp_all
qed

lemma write_pieces_agree:
  assumes "fb_open b" and "\<forall>(off, len) \<in> set ps. off + len \<le> length S"
    and "length S \<le> fb_buffer_length b - fb_data_length b"
  defines "b' \<equiv> foldl (write_piece S) b ps"
  shows "fb_open b' \<and> fb_contents b' = fb_contents b \<and> fb_data_length b' = fb_data_length b \<and>
    fb_buffer_length b' = fb_buffer_length b \<and>
    (\<forall>i<length S. fb_ahead b' ! i = (if i \<in> (\<Union>(off, len) \<in> set ps. {off..<off + len}) then S ! i else fb_ahead b ! i))"
  using assms(1-3) unfolding b'_def
proof (induction ps arbitrary: b)
  case (Cons p ps)
  obtain off len where p: "p = (off, len)" by (cases p)
  from Cons.prems(2) p have "off + len \<le> length S" by simp
  note one = write_piece_agrees [OF Cons.prems(1) this Cons.prems(3)]
  from Cons.IH [OF one(1)] Cons.prems(2,3) one show ?case by (auto simp: p)
qed simp

section \<open>Properties\<close>

text \<open>C12: The ring buffer is a first-in-first-out queue of bounded size. Whatever sequence of writes,
  reads and capacity changes a client performs on a new buffer, the bytes the writes accepted are
  the bytes the reads delivered followed by what is still queued, in this order, with no byte lost,
  duplicated or reordered, and the queue never exceeds the capacity.
\<close>

theorem fifo_first_in_first_out:
  "case fifo_run fb_put fb_get fb_resize ops (FifoBuffer_new n) of
     (accepted, delivered, b) \<Rightarrow> accepted = delivered @ fb_contents b \<and>
       length (fb_contents b) \<le> fb_buffer_length b \<and> fb_inv b"
proof (cases "fifo_run fb_put fb_get fb_resize ops (FifoBuffer_new n)")
  case (fields a d b)
  note run = fbq.run_first_in_first_out [OF fb_open_new(1) fields]
  then have "length (fb_contents b) \<le> fb_buffer_length b" by (blast intro: fbq.bounded)
  with run show ?thesis by (simp add: fields fb_open_def)
qed

text \<open>Bytes move only through the events: leaving the full or the empty state is announced.\<close>

definition wakes :: "FifoBuffer \<Rightarrow> FifoBuffer \<Rightarrow> StreamEvent list \<Rightarrow> bool" where
  "wakes b b' evs \<longleftrightarrow>
     (length (fb_contents b) = fb_buffer_length b \<and> length (fb_contents b') < fb_buffer_length b' \<longrightarrow> SE_WRITE \<in> set evs) \<and>
     (fb_contents b = [] \<and> fb_contents b' \<noteq> [] \<longrightarrow> SE_READ \<in> set evs)"

lemma fb_put_wakes:
  assumes "fb_open b" and "fb_put xs b = (k, b\<^sub>1)" and "wakes b\<^sub>1 b' evs"
  shows "wakes b b' ((if fb_contents b = [] \<and> 0 < k then [SE_READ] else []) @ evs)"
proof (cases "k = 0")
  case True
  with fb_put_law(1) [OF assms(1,2)] have "fb_contents b\<^sub>1 = fb_contents b" "fb_buffer_length b\<^sub>1 = fb_buffer_length b"
    by simp_all
  with assms(3) True show ?thesis by (simp add: wakes_def)
next
  case False
  with fb_put_law(1) [OF assms(1,2)] have "length (fb_contents b) \<noteq> fb_buffer_length b" by auto
  with False show ?thesis by (simp add: wakes_def)
qed

lemma fb_get_wakes:
  assumes "fb_open b" and "fb_get n b = (xs, b\<^sub>1)" and "wakes b\<^sub>1 b' evs"
  shows "wakes b b' ((if length (fb_contents b) = fb_buffer_length b \<and> xs \<noteq> [] then [SE_WRITE] else []) @ evs)"
proof (cases "xs = []")
  case True
  with fb_get_law(1) [OF assms(1,2)] have "fb_contents b\<^sub>1 = fb_contents b" "fb_buffer_length b\<^sub>1 = fb_buffer_length b"
    by simp_all
  with assms(3) True show ?thesis by (simp add: wakes_def)
next
  case False
  with fb_get_law(1) [OF assms(1,2)] have "fb_contents b \<noteq> []" by auto
  with False show ?thesis by (simp add: wakes_def)
qed

lemma fifo_run_wakes:
  assumes "fb_open b" and "\<forall>n. Resize n \<notin> set ops" and "fifo_run fb_put fb_get fb_resize ops b = (a, d, b')"
  shows "\<exists>evs. fb_events b' = fb_events b @ evs \<and> wakes b b' evs"
  using assms
proof (induction ops arbitrary: b a d)
  case (Cons oper ops)
  show ?case
  proof (cases oper)
    case (Put xs)
    obtain k b\<^sub>1 a\<^sub>1 where p: "fb_put xs b = (k, b\<^sub>1)" and r: "fifo_run fb_put fb_get fb_resize ops b\<^sub>1 = (a\<^sub>1, d, b')"
      using Cons.prems(3) Put by (auto split: prod.splits)
    note law = fb_put_law [OF Cons.prems(1) p]
    from Cons.IH [OF _ _ r] law(1) Cons.prems(2) obtain evs where "fb_events b' = fb_events b\<^sub>1 @ evs" "wakes b\<^sub>1 b' evs"
      by auto
    with fb_put_wakes [OF Cons.prems(1) p] law(2) show ?thesis by (metis append.assoc)
  next
    case (Get n)
    obtain xs b\<^sub>1 d\<^sub>1 where p: "fb_get n b = (xs, b\<^sub>1)" and r: "fifo_run fb_put fb_get fb_resize ops b\<^sub>1 = (a, d\<^sub>1, b')"
      using Cons.prems(3) Get by (auto split: prod.splits)
    note law = fb_get_law [OF Cons.prems(1) p]
    from Cons.IH [OF _ _ r] law(1) Cons.prems(2) obtain evs where "fb_events b' = fb_events b\<^sub>1 @ evs" "wakes b\<^sub>1 b' evs"
      by auto
    with fb_get_wakes [OF Cons.prems(1) p] law(2) show ?thesis by (metis append.assoc)
  next
    case (Resize n)
    with Cons.prems(2) show ?thesis by auto
  qed
qed (simp add: wakes_def)


definition full_buffer :: FifoBuffer where
  "full_buffer = \<lparr>fb_state = SS_OPEN, fb_buffer = [7, 8], fb_buffer_length = 2, fb_data_length = 2,
     fb_read_position = 0, fb_events = [SE_READ]\<rparr>"


text \<open>C35: Data written ahead of the queue is reassembled. When pieces of a stream \<open>S\<close> are stored with
  \<^verbatim>\<open>WriteOffset\<close> at their offsets, in any order, overlapping or not, and the pieces cover the first \<open>m\<close>
  bytes, then \<^verbatim>\<open>ConsumeWriteBuffer m\<close> appends exactly these \<open>m\<close> bytes of the stream to the queue.
\<close>

theorem fifo_reassembly:
  assumes "fb_open b" and "\<forall>(off, len) \<in> set ps. off + len \<le> length S"
    and "length S \<le> fb_buffer_length b - fb_data_length b"
    and "{..<m} \<subseteq> (\<Union>(off, len) \<in> set ps. {off..<off + len})"
  shows "\<exists>b'. ConsumeWriteBuffer m (foldl (write_piece S) b ps) = Some b' \<and> fb_open b' \<and>
    fb_contents b' = fb_contents b @ take m S"
proof -
  define b\<^sub>1 where "b\<^sub>1 = foldl (write_piece S) b ps"
  note agree = write_pieces_agree [OF assms(1-3), folded b\<^sub>1_def]
  have m: "m \<le> length S"
  proof (rule ccontr)
    assume "\<not> m \<le> length S"
    then have "length S \<in> {..<m}" by simp
    with assms(4) have "length S \<in> (\<Union>(off, len) \<in> set ps. {off..<off + len})" by blast
    with assms(2) show False by fastforce
  qed
  have inv: "fb_inv b\<^sub>1" and room: "m \<le> fb_buffer_length b\<^sub>1 - fb_data_length b\<^sub>1" using agree m assms(3) by (auto simp: fb_open_def)
  have "take m (fb_ahead b\<^sub>1) = take m S"
  proof (rule nth_equalityI)
    show "length (take m (fb_ahead b\<^sub>1)) = length (take m S)" using inv room m by simp
    fix i assume "i < length (take m (fb_ahead b\<^sub>1))"
    then have "i < m" by simp
    with assms(4) have "i \<in> (\<Union>(off, len) \<in> set ps. {off..<off + len})" by blast
    with agree m \<open>i < m\<close> show "take m (fb_ahead b\<^sub>1) ! i = take m S ! i" by simp
  qed
  moreover obtain b' where "ConsumeWriteBuffer m b\<^sub>1 = Some b'" "fb_inv b'" "fb_contents b' = fb_contents b\<^sub>1 @ take m (fb_ahead b\<^sub>1)"
    "fb_state b' = fb_state b\<^sub>1"
    by (rule ConsumeWriteBuffer_success [OF inv room])
  ultimately show ?thesis using agree by (auto simp: fb_open_def b\<^sub>1_def)
qed

theorem fifo_reassembly_witness:
  "\<exists>b'. ConsumeWriteBuffer 3 (foldl (write_piece [10, 11, 12]) (FifoBuffer_new 4) [(2, 1), (0, 2)]) = Some b' \<and>
     fb_open b' \<and> fb_contents b' = [10, 11, 12]"
proof -
  have "{..<3} \<subseteq> (\<Union>(off, len) \<in> set [(2 :: nat, 1 :: nat), (0, 2)]. {off..<off + len})" by auto
  moreover have "length [10 :: uint8, 11, 12] \<le> fb_buffer_length (FifoBuffer_new 4) - fb_data_length (FifoBuffer_new 4)"
    by (simp add: FifoBuffer_new_def)
  ultimately show ?thesis using fifo_reassembly [OF fb_open_new(1), of "[(2, 1), (0, 2)]" "[10, 11, 12]" 4 3] by simp
qed

end
