(* ===== verification/Time_Utils.thy ===== *)
theory Time_Utils
  imports Prelude
begin

text \<open>
  The 32-bit millisecond clock of \<^verbatim>\<open>webrtc/base/timeutils.{h,cc}\<close>: comparison and difference of time
  stamps that wrap around, in the compiled variant and in the reference variant of the same file,
  and the unwrapping of a 32-bit time stamp to 64 bits. The value of \<^verbatim>\<open>Time()\<close> is an argument \<open>now\<close>;
  \<open>int32\<close> results are integers read with \<open>sint\<close>; a failed \<^verbatim>\<open>DCHECK\<close> is \<open>None\<close>.
\<close>

section \<open>The code\<close>

abbreviation HALF :: uint32 where "HALF \<equiv> 0x80000000"

definition TimeAfter :: "uint32 \<Rightarrow> int \<Rightarrow> uint32 option" where
  "TimeAfter now elapsed =
     (if elapsed \<ge> 0 \<and> (of_int elapsed :: uint32) < HALF then Some (now + of_int elapsed) else None)"

definition TimeIsBetween :: "uint32 \<Rightarrow> uint32 \<Rightarrow> uint32 \<Rightarrow> bool" where
  "TimeIsBetween earlier middle later =
     (if earlier \<le> later then earlier \<le> middle \<and> middle \<le> later
      else \<not> (later < middle \<and> middle < earlier))"

definition TimeIsLaterOrEqual :: "uint32 \<Rightarrow> uint32 \<Rightarrow> bool" where
  "TimeIsLaterOrEqual earlier later =
     (let diff = sint (later - earlier) in diff \<ge> 0 \<and> (of_int diff :: uint32) < HALF)"

definition TimeIsLaterOrEqual_ref :: "uint32 \<Rightarrow> uint32 \<Rightarrow> bool" where
  "TimeIsLaterOrEqual_ref earlier later = TimeIsBetween earlier later (earlier + HALF)"

definition TimeIsLater :: "uint32 \<Rightarrow> uint32 \<Rightarrow> bool" where
  "TimeIsLater earlier later =
     (let diff = sint (later - earlier) in diff > 0 \<and> (of_int diff :: uint32) < HALF)"

definition TimeIsLater_ref :: "uint32 \<Rightarrow> uint32 \<Rightarrow> bool" where
  "TimeIsLater_ref earlier later = (\<not> TimeIsBetween later earlier (later + HALF))"

definition TimeDiff :: "uint32 \<Rightarrow> uint32 \<Rightarrow> int" where
  "TimeDiff later earlier = sint (later - earlier)"

text \<open>The reference variant computes in \<^verbatim>\<open>long\<close> and converts to \<^verbatim>\<open>int32\<close> on return.\<close>

definition TimeDiff_ref :: "uint32 \<Rightarrow> uint32 \<Rightarrow> int" where
  "TimeDiff_ref later earlier =
     (let diff :: int =
        (if TimeIsBetween earlier later (earlier + HALF) then
           if earlier \<le> later then uint (later - earlier)
           else uint (later + (0xFFFFFFFF - earlier) + 1)
         else if later \<le> earlier then - uint (earlier - later)
         else - uint (earlier + (0xFFFFFFFF - later) + 1))
      in sint (of_int diff :: uint32))"

definition TimeMax :: "uint32 \<Rightarrow> uint32 \<Rightarrow> uint32" where
  "TimeMax ts1 ts2 = (if TimeIsLaterOrEqual ts1 ts2 then ts2 else ts1)"

definition TimeMin :: "uint32 \<Rightarrow> uint32 \<Rightarrow> uint32" where
  "TimeMin ts1 ts2 = (if TimeIsLaterOrEqual ts1 ts2 then ts1 else ts2)"

definition TimeSince :: "uint32 \<Rightarrow> uint32 \<Rightarrow> int" where
  "TimeSince now earlier = TimeDiff now earlier"

definition TimeUntil :: "uint32 \<Rightarrow> uint32 \<Rightarrow> int" where
  "TimeUntil now later = TimeDiff later now"

record TimestampWrapAroundHandler =
  last_ts :: uint32
  num_wrap :: "64 word"

definition TimestampWrapAroundHandler_new :: TimestampWrapAroundHandler where
  "TimestampWrapAroundHandler_new = \<lparr>last_ts = 0, num_wrap = 0\<rparr>"

definition Unwrap :: "uint32 \<Rightarrow> TimestampWrapAroundHandler \<Rightarrow> int \<times> TimestampWrapAroundHandler" where
  "Unwrap ts h =
     (let h = (if ts < last_ts h \<and> last_ts h > 0xf0000000 \<and> ts < 0x0fffffff
               then h\<lparr>num_wrap := num_wrap h + 1\<rparr> else h);
          h = h\<lparr>last_ts := ts\<rparr>
      in (sint (ucast ts + push_bit 32 (num_wrap h)), h))"

section \<open>Differences of wrapped times\<close>

lemma sint_uint32: "sint (w :: uint32) = (if uint w < 2 ^ 31 then uint w else uint w - 2 ^ 32)"
proof -
  have "0 \<le> uint w" "uint w < 4294967296" using uint_lt2p [of w] by simp_all
  then show ?thesis
    unfolding sint_uint signed_take_bit_eq_take_bit_shift take_bit_eq_mod
    by (cases "uint w < 2147483648") (simp_all add: mod_pos_pos_trivial mod_pos_geq)
qed

lemma sint_of_int_uint32: "- (2 ^ 31) \<le> d \<Longrightarrow> d < 2 ^ 31 \<Longrightarrow> sint (of_int d :: uint32) = d"
  by (simp add: signed_of_int signed_take_bit_int_eq_self)

lemma TimeIsLater_diff: "TimeIsLaterOrEqual a b \<longleftrightarrow> 0 \<le> TimeDiff b a" "TimeIsLater a b \<longleftrightarrow> 0 < TimeDiff b a"
proof -
  have "(of_int (sint w) :: uint32) < HALF" if "0 \<le> sint w" for w :: uint32
    using that uint_lt2p [of w] by (simp add: sint_uint32 word_less_def split: if_splits)
  then show "TimeIsLaterOrEqual a b \<longleftrightarrow> 0 \<le> TimeDiff b a" "TimeIsLater a b \<longleftrightarrow> 0 < TimeDiff b a"
    by (auto simp: TimeIsLaterOrEqual_def TimeIsLater_def TimeDiff_def Let_def)
qed

lemma TimeDiff_of_int:
  "- (2 ^ 31) \<le> x - y \<Longrightarrow> x - y < 2 ^ 31 \<Longrightarrow> TimeDiff (of_int x) (of_int y) = x - y"
  unfolding TimeDiff_def of_int_diff [symmetric] by (rule sint_of_int_uint32)

lemma between_half:
  fixes A B C D :: int
  assumes "0 \<le> A" and "A < 4294967296" and "0 \<le> B" and "B < 4294967296"
    and "C = (if A < 2147483648 then A + 2147483648 else A - 2147483648)"
    and "D = (if A \<le> B then B - A else B - A + 4294967296)"
  shows "(if A \<le> C then A \<le> B \<and> B \<le> C else \<not> (C < B \<and> B < A)) \<longleftrightarrow> D \<le> 2147483648"
  unfolding assms(5,6) using assms(1-4) by auto

lemma TimeIsBetween_HALF: "TimeIsBetween a b (a + HALF) \<longleftrightarrow> b - a \<le> HALF"
proof -
  have a: "0 \<le> uint a" "uint a < 4294967296" and b: "0 \<le> uint b" "uint b < 4294967296"
    using uint_lt2p [of a] uint_lt2p [of b] by simp_all
  have h: "uint (a + HALF) = (if uint a < 2147483648 then uint a + 2147483648 else uint a - 2147483648)"
    using a mod_pos_geq [of 4294967296 "uint a + 2147483648"] by (simp add: uint_word_ariths mod_pos_pos_trivial)
  have d: "uint (b - a) = (if uint a \<le> uint b then uint b - uint a else uint b - uint a + 4294967296)"
  proof (cases "uint a \<le> uint b")
    case True
    have "(uint b - uint a) mod 4294967296 = uint b - uint a"
      by (rule mod_pos_pos_trivial) (use a b True in linarith)+
    with True show ?thesis by (simp add: uint_word_ariths)
  next
    case False
    have "(uint b - uint a + 4294967296) mod 4294967296 = uint b - uint a + 4294967296"
      by (rule mod_pos_pos_trivial) (use a b False in linarith)+
    with False show ?thesis by (simp add: uint_word_ariths)
  qed
  have "uint HALF = 2147483648" by simp
  then show ?thesis unfolding TimeIsBetween_def word_le_def word_less_def
    by (simp only: between_half [OF a b h d])
qed

lemma TimeDiff_ref_eq: "TimeDiff_ref later earlier = TimeDiff later earlier"
proof -
  have z: "(4294967296 :: uint32) = 0" by simp
  have wrap: "a + (0xFFFFFFFF - b) + 1 = a - b" for a b :: uint32
  proof -
    have "a + (0xFFFFFFFF - b) + 1 = a - b + 4294967296" by simp
    then show ?thesis by (simp only: z add_0_right)
  qed
  show ?thesis unfolding TimeDiff_ref_def TimeDiff_def Let_def wrap by simp
qed

section \<open>Unwrapping\<close>

fun unwrap_run :: "TimestampWrapAroundHandler \<Rightarrow> uint32 list \<Rightarrow> int list" where
  "unwrap_run h [] = []"
| "unwrap_run h (ts # tss) = (case Unwrap ts h of (t, h') \<Rightarrow> t # unwrap_run h' tss)"

definition unwrap_at :: "int \<Rightarrow> TimestampWrapAroundHandler" where
  "unwrap_at x = \<lparr>last_ts = of_int x, num_wrap = of_int (x div 2 ^ 32)\<rparr>"

lemma sint_uint64_int: "0 \<le> x \<Longrightarrow> x < 2 ^ 63 \<Longrightarrow> sint (of_int x :: 64 word) = x"
  by (simp add: signed_of_int signed_take_bit_int_eq_self)

lemma unwrap_value: "(ucast (of_int x :: uint32) :: 64 word) + push_bit 32 (of_int (x div 2 ^ 32)) = of_int x"
proof -
  have "ucast (of_int x :: uint32) = (of_int (x mod 2 ^ 32) :: 64 word)"
    by (simp add: unsigned_of_int take_bit_eq_mod)
  moreover have "push_bit 32 (of_int (x div 2 ^ 32)) = (of_int (x div 2 ^ 32 * 2 ^ 32) :: 64 word)"
    by (simp add: push_bit_eq_mult)
  ultimately have "(ucast (of_int x :: uint32) :: 64 word) + push_bit 32 (of_int (x div 2 ^ 32)) =
      of_int (x mod 2 ^ 32 + x div 2 ^ 32 * 2 ^ 32)" unfolding of_int_add by presburger
  then show ?thesis unfolding mod_div_mult_eq .
qed

lemma of_int_less_uint32: "(of_int x :: uint32) < of_int y \<longleftrightarrow> x mod 2 ^ 32 < y mod 2 ^ 32"
  by (simp add: word_less_def uint_word_of_int take_bit_eq_mod)

lemma div_step:
  fixes x y M :: int
  assumes "0 < M" and "x \<le> y" and "y - x < M"
  shows "y div M = (if y mod M < x mod M then x div M + 1 else x div M)"
proof -
  let ?s = "x mod M + (y - x)"
  have x: "x = x div M * M + x mod M" "0 \<le> x mod M" "x mod M < M" using assms(1) by simp_all
  have "y = x div M * M + ?s" using x(1) by linarith
  then have y: "y div M = x div M + ?s div M" "y mod M = ?s mod M"
    using assms(1) by (metis div_mult_self3 less_irrefl, metis mod_mult_self3)
  show ?thesis
  proof (cases "?s < M")
    case True
    with x(2) assms(2) have "?s div M = 0" "?s mod M = ?s" by (simp_all add: div_pos_pos_trivial mod_pos_pos_trivial)
    with y assms(2) show ?thesis by simp
  next
    case False
    have "(?s - M) div M = 0" "(?s - M) mod M = ?s - M"
      using False x(3) assms(3) by (intro div_pos_pos_trivial mod_pos_pos_trivial; linarith)+
    then have "?s div M = 1" "?s mod M = ?s - M" 
      using False assms(1) div_pos_geq [of M ?s] mod_pos_geq [of M ?s] by linarith+
    with y assms(3) show ?thesis by simp
  qed
qed

lemma wrap_bounds:
  fixes x y q r s :: int
  assumes "x = q * 2 ^ 32 + r" and "y = (q + 1) * 2 ^ 32 + s" and "r < 2 ^ 32" and "0 \<le> s" and "y - x < 0xfffffff"
  shows "0xf0000000 < r \<and> s < 0x0fffffff"
proof -
  have "y - x = 2 ^ 32 + s - r" unfolding assms(1,2) by (simp add: algebra_simps)
  with assms(3-5) show ?thesis by auto
qed

lemma Unwrap_step:
  assumes "0 \<le> x" and "x \<le> y" and "y - x < 0xfffffff" and "y < 2 ^ 63"
  shows "Unwrap (of_int y) (unwrap_at x) = (y, unwrap_at y)"
proof -
  let ?M = "2 ^ 32 :: int"
  have x: "0 \<le> x mod ?M" "x mod ?M < ?M" "0 \<le> y mod ?M" "y mod ?M < ?M" by simp_all
  have e: "x = x div ?M * ?M + x mod ?M" "y = y div ?M * ?M + y mod ?M" by simp_all
  have st: "y div ?M = (if y mod ?M < x mod ?M then x div ?M + 1 else x div ?M)"
    by (rule div_step) (use assms in auto)
  have "(0xf0000000 :: uint32) = of_int 0xf0000000" "(0x0fffffff :: uint32) = of_int 0x0fffffff" by simp_all
  moreover have "x mod ?M > 0xf0000000 \<and> y mod ?M < 0x0fffffff" if "y mod ?M < x mod ?M"
    by (rule wrap_bounds [OF e(1), of y]) (use that st e(2) x assms(3) in \<open>simp_all only: if_True\<close>)
  ultimately have wrap: "((of_int y :: uint32) < of_int x \<and> of_int x > (0xf0000000 :: uint32) \<and>
      of_int y < (0x0fffffff :: uint32)) \<longleftrightarrow> y mod ?M < x mod ?M"
    by (simp only: of_int_less_uint32) auto
  have "(num_wrap (unwrap_at x) + (if y mod ?M < x mod ?M then 1 else 0)) = of_int (y div ?M)"
    unfolding st by (simp add: unwrap_at_def)
  then show ?thesis
    using wrap unwrap_value [of y] sint_uint64_int [of y] assms
    unfolding Unwrap_def Let_def unwrap_at_def by (auto split: if_splits)
qed

lemma unwrap_run_at:
  assumes "0 \<le> x" and "sorted (x # xs)" and "\<forall>i<length xs. xs ! i - (x # xs) ! i < 0xfffffff" and "\<forall>y\<in>set xs. y < 2 ^ 63"
  shows "unwrap_run (unwrap_at x) (map of_int xs) = xs"
  using assms
proof (induction xs arbitrary: x)
  case (Cons y ys)
  have "y - x < 0xfffffff" using Cons.prems(3) by fastforce
  then have "Unwrap (of_int y) (unwrap_at x) = (y, unwrap_at y)"
    using Cons.prems by (intro Unwrap_step) auto
  moreover have "\<forall>i<length ys. ys ! i - (y # ys) ! i < 0xfffffff"
    using Cons.prems(3) by fastforce
  then have "unwrap_run (unwrap_at y) (map of_int ys) = ys"
    using Cons.prems by (intro Cons.IH) auto
  ultimately show ?case by simp
qed simp

section \<open>Properties\<close>

text \<open>Time stamps compare and subtract across the wrap of the 32-bit clock. For any two points in
  time less than 2^31 milliseconds apart, \<^verbatim>\<open>TimeDiff\<close> of their 32-bit stamps is the true signed
  difference, the comparisons are the true comparisons, \<^verbatim>\<open>TimeMax\<close> and \<^verbatim>\<open>TimeMin\<close> pick the later and
  the earlier stamp, and the two variants of the code in the file agree.
\<close>

theorem time_stamps_wrap:
  assumes "- (2 ^ 31) < x - y" and "x - y < 2 ^ 31"
  shows "TimeDiff (of_int x) (of_int y) = x - y \<and>
    (TimeIsLaterOrEqual (of_int y) (of_int x) \<longleftrightarrow> y \<le> x) \<and> (TimeIsLater (of_int y) (of_int x) \<longleftrightarrow> y < x) \<and>
    TimeMax (of_int x) (of_int y) = of_int (max x y) \<and> TimeMin (of_int x) (of_int y) = of_int (min x y) \<and>
    TimeIsLaterOrEqual_ref (of_int y) (of_int x) = TimeIsLaterOrEqual (of_int y) (of_int x) \<and>
    TimeIsLater_ref (of_int y) (of_int x) = TimeIsLater (of_int y) (of_int x) \<and>
    TimeDiff_ref (of_int x) (of_int y) = TimeDiff (of_int x) (of_int y)"
proof -
  have xy: "TimeDiff (of_int x) (of_int y) = x - y" and yx: "TimeDiff (of_int y) (of_int x) = y - x"
    using assms by (simp_all add: TimeDiff_of_int)
  have le: "(of_int d :: uint32) \<le> HALF \<longleftrightarrow> 0 \<le> d" if "- (2 ^ 31) < d" "d < 2 ^ 31" for d
  proof -
    have "uint (of_int d :: uint32) = (if 0 \<le> d then d else d + 2 ^ 32)"
      using that mod_pos_pos_trivial [of "d + 4294967296" 4294967296]
      by (simp add: uint_word_of_int take_bit_eq_mod mod_pos_pos_trivial)
    with that show ?thesis by (simp add: word_le_def split: if_splits)
  qed
  have "TimeIsLaterOrEqual_ref (of_int y) (of_int x) \<longleftrightarrow> y \<le> x" "TimeIsLater_ref (of_int y) (of_int x) \<longleftrightarrow> y < x"
    unfolding TimeIsLaterOrEqual_ref_def TimeIsLater_ref_def TimeIsBetween_HALF of_int_diff [symmetric]
    using assms by (subst le; auto)+
  with xy yx show ?thesis unfolding TimeDiff_ref_eq by (auto simp: TimeIsLater_diff TimeMax_def TimeMin_def max_def min_def)
qed

theorem time_stamps_wrap_witness:
  "TimeDiff (of_int (2 ^ 32 + 5)) (of_int (2 ^ 32 - 10)) = 15 \<and> TimeIsLater (of_int (2 ^ 32 - 10)) (of_int (2 ^ 32 + 5))"
  using time_stamps_wrap [of "2 ^ 32 + 5" "2 ^ 32 - 10"] by simp

text \<open>C36: The unwrapper recovers the 64-bit time line. Fed with the 32-bit stamps of a non-decreasing
  sequence of times that starts in the first epoch and advances by less than 0xfffffff at a time,
  a new \<^verbatim>\<open>TimestampWrapAroundHandler\<close> returns exactly the original times, over any number of wraps.
\<close>

theorem unwrap_recovers_time_line:
  assumes "sorted (x # xs)" and "0 \<le> x" and "x < 2 ^ 32" and "\<forall>i<length xs. xs ! i - (x # xs) ! i < 0xfffffff"
    and "\<forall>y\<in>set xs. y < 2 ^ 63"
  shows "unwrap_run TimestampWrapAroundHandler_new (map of_int (x # xs)) = x # xs"
proof -
  have div: "x div 2 ^ 32 = 0" using assms(2,3) by (rule div_pos_pos_trivial)
  have "Unwrap (of_int x) TimestampWrapAroundHandler_new = (x, unwrap_at x)"
    using unwrap_value [of x] sint_uint64_int [of x] assms(2,3) unfolding div
    by (simp add: Unwrap_def TimestampWrapAroundHandler_new_def unwrap_at_def div)
  with unwrap_run_at [OF assms(2,1,4,5)] show ?thesis by simp
qed

theorem unwrap_recovers_time_line_witness:
  "unwrap_run TimestampWrapAroundHandler_new (map of_int [0xfffffff0, 0x100000010]) = [0xfffffff0, 0x100000010]"
  using unwrap_recovers_time_line [where x = "0xfffffff0" and xs = "[0x100000010]"] by simp

end
