(* ===== verification/Byte_Order.thy ===== *)
theory Byte_Order
  imports Prelude
begin

text \<open>
  \<^verbatim>\<open>webrtc/base/byteorder.h\<close>: reading and writing big- and little-endian integers in memory,
  and the host/network conversions.

  Memory is a byte list. Every caller in the program passes a pointer to at least as many bytes
  as the accessor touches; the equations below carry that as a length premise. The conversions
  go through the object representation of a C++ integer, so they take the host's byte order as a
  parameter \<open>h\<close> (\<open>True\<close>: big endian), which the program itself finds out in
  \<open>IsHostBigEndian\<close>.
\<close>

section \<open>Accessors\<close>

definition Set8 :: "bytes \<Rightarrow> nat \<Rightarrow> uint8 \<Rightarrow> bytes" where
  "Set8 memory offset v = memory[offset := v]"

definition Get8 :: "bytes \<Rightarrow> nat \<Rightarrow> uint8" where
  "Get8 memory offset = memory ! offset"

definition SetBE16 :: "bytes \<Rightarrow> uint16 \<Rightarrow> bytes" where
  "SetBE16 memory v =
     (let memory = Set8 memory 0 (ucast (drop_bit 8 v))
      in Set8 memory 1 (ucast (drop_bit 0 v)))"

definition SetBE32 :: "bytes \<Rightarrow> uint32 \<Rightarrow> bytes" where
  "SetBE32 memory v =
     (let memory = Set8 memory 0 (ucast (drop_bit 24 v));
          memory = Set8 memory 1 (ucast (drop_bit 16 v));
          memory = Set8 memory 2 (ucast (drop_bit 8 v))
      in Set8 memory 3 (ucast (drop_bit 0 v)))"

definition SetBE64 :: "bytes \<Rightarrow> uint64 \<Rightarrow> bytes" where
  "SetBE64 memory v =
     (let memory = Set8 memory 0 (ucast (drop_bit 56 v));
          memory = Set8 memory 1 (ucast (drop_bit 48 v));
          memory = Set8 memory 2 (ucast (drop_bit 40 v));
          memory = Set8 memory 3 (ucast (drop_bit 32 v));
          memory = Set8 memory 4 (ucast (drop_bit 24 v));
          memory = Set8 memory 5 (ucast (drop_bit 16 v));
          memory = Set8 memory 6 (ucast (drop_bit 8 v))
      in Set8 memory 7 (ucast (drop_bit 0 v)))"

definition GetBE16 :: "bytes \<Rightarrow> uint16" where
  "GetBE16 memory = push_bit 8 (ucast (Get8 memory 0)) OR push_bit 0 (ucast (Get8 memory 1))"

definition GetBE32 :: "bytes \<Rightarrow> uint32" where
  "GetBE32 memory =
     push_bit 24 (ucast (Get8 memory 0)) OR push_bit 16 (ucast (Get8 memory 1)) OR
     push_bit 8 (ucast (Get8 memory 2)) OR push_bit 0 (ucast (Get8 memory 3))"

definition GetBE64 :: "bytes \<Rightarrow> uint64" where
  "GetBE64 memory =
     push_bit 56 (ucast (Get8 memory 0)) OR push_bit 48 (ucast (Get8 memory 1)) OR
     push_bit 40 (ucast (Get8 memory 2)) OR push_bit 32 (ucast (Get8 memory 3)) OR
     push_bit 24 (ucast (Get8 memory 4)) OR push_bit 16 (ucast (Get8 memory 5)) OR
     push_bit 8 (ucast (Get8 memory 6)) OR push_bit 0 (ucast (Get8 memory 7))"

definition SetLE16 :: "bytes \<Rightarrow> uint16 \<Rightarrow> bytes" where
  "SetLE16 memory v =
     (let memory = Set8 memory 0 (ucast (drop_bit 0 v))
      in Set8 memory 1 (ucast (drop_bit 8 v)))"

definition SetLE32 :: "bytes \<Rightarrow> uint32 \<Rightarrow> bytes" where
  "SetLE32 memory v =
     (let memory = Set8 memory 0 (ucast (drop_bit 0 v));
          memory = Set8 memory 1 (ucast (drop_bit 8 v));
          memory = Set8 memory 2 (ucast (drop_bit 16 v))
      in Set8 memory 3 (ucast (drop_bit 24 v)))"

definition SetLE64 :: "bytes \<Rightarrow> uint64 \<Rightarrow> bytes" where
  "SetLE64 memory v =
     (let memory = Set8 memory 0 (ucast (drop_bit 0 v));
          memory = Set8 memory 1 (ucast (drop_bit 8 v));
          memory = Set8 memory 2 (ucast (drop_bit 16 v));
          memory = Set8 memory 3 (ucast (drop_bit 24 v));
          memory = Set8 memory 4 (ucast (drop_bit 32 v));
          memory = Set8 memory 5 (ucast (drop_bit 40 v));
          memory = Set8 memory 6 (ucast (drop_bit 48 v))
      in Set8 memory 7 (ucast (drop_bit 56 v)))"

definition GetLE16 :: "bytes \<Rightarrow> uint16" where
  "GetLE16 memory = push_bit 0 (ucast (Get8 memory 0)) OR push_bit 8 (ucast (Get8 memory 1))"

definition GetLE32 :: "bytes \<Rightarrow> uint32" where
  "GetLE32 memory =
     push_bit 0 (ucast (Get8 memory 0)) OR push_bit 8 (ucast (Get8 memory 1)) OR
     push_bit 16 (ucast (Get8 memory 2)) OR push_bit 24 (ucast (Get8 memory 3))"

definition GetLE64 :: "bytes \<Rightarrow> uint64" where
  "GetLE64 memory =
     push_bit 0 (ucast (Get8 memory 0)) OR push_bit 8 (ucast (Get8 memory 1)) OR
     push_bit 16 (ucast (Get8 memory 2)) OR push_bit 24 (ucast (Get8 memory 3)) OR
     push_bit 32 (ucast (Get8 memory 4)) OR push_bit 40 (ucast (Get8 memory 5)) OR
     push_bit 48 (ucast (Get8 memory 6)) OR push_bit 56 (ucast (Get8 memory 7))"

section \<open>Object representation and host order\<close>

text \<open>
  The bytes an \<open>n\<close>-byte unsigned integer occupies on the host, and the integer such bytes
  denote (the language's object representation; what \<^verbatim>\<open>reinterpret_cast\<close> exposes).
\<close>

definition host_bytes :: "bool \<Rightarrow> nat \<Rightarrow> 'a::len word \<Rightarrow> bytes" where
  "host_bytes h n v = (if h then be_bytes n v else rev (be_bytes n v))"

definition host_word :: "bool \<Rightarrow> bytes \<Rightarrow> 'a::len word" where
  "host_word h bs = (if h then be_word bs else be_word (rev bs))"

definition IsHostBigEndian :: "bool \<Rightarrow> bool" where
  "IsHostBigEndian h \<longleftrightarrow> 0 = host_bytes h 4 (1 :: uint32) ! 0"

definition HostToNetwork16 :: "bool \<Rightarrow> uint16 \<Rightarrow> uint16" where
  "HostToNetwork16 h n = host_word h (SetBE16 (host_bytes h 2 (0 :: uint16)) n)"

definition HostToNetwork32 :: "bool \<Rightarrow> uint32 \<Rightarrow> uint32" where
  "HostToNetwork32 h n = host_word h (SetBE32 (host_bytes h 4 (0 :: uint32)) n)"

definition HostToNetwork64 :: "bool \<Rightarrow> uint64 \<Rightarrow> uint64" where
  "HostToNetwork64 h n = host_word h (SetBE64 (host_bytes h 8 (0 :: uint64)) n)"

definition NetworkToHost16 :: "bool \<Rightarrow> uint16 \<Rightarrow> uint16" where
  "NetworkToHost16 h n = GetBE16 (host_bytes h 2 n)"

definition NetworkToHost32 :: "bool \<Rightarrow> uint32 \<Rightarrow> uint32" where
  "NetworkToHost32 h n = GetBE32 (host_bytes h 4 n)"

definition NetworkToHost64 :: "bool \<Rightarrow> uint64 \<Rightarrow> uint64" where
  "NetworkToHost64 h n = GetBE64 (host_bytes h 8 n)"

section \<open>The accessors as big-endian lists\<close>

lemma length2E: "2 \<le> length m \<Longrightarrow> \<exists>a b r. m = a # b # r"
  by (cases m; cases "tl m") auto

lemma length4E: "4 \<le> length m \<Longrightarrow> \<exists>a b c d r. m = a # b # c # d # r"
  by (auto simp: numeral_eq_Suc Suc_le_length_iff)

lemma length8E: "8 \<le> length m \<Longrightarrow> \<exists>a b c d e f g i r. m = a # b # c # d # e # f # g # i # r"
  by (auto simp: numeral_eq_Suc Suc_le_length_iff)

lemma SetBE16_eq [net_simps]: "2 \<le> length m \<Longrightarrow> SetBE16 m v = be_bytes 2 v @ drop 2 m"
  using length2E [of m] by (auto simp: SetBE16_def Set8_def be_bytes_explicit)

lemma GetBE16_eq [net_simps]: "2 \<le> length m \<Longrightarrow> GetBE16 m = be_word (take 2 m)"
  using length2E [of m] by (auto simp: GetBE16_def Get8_def ac_simps)

lemma SetLE16_eq [net_simps]: "2 \<le> length m \<Longrightarrow> SetLE16 m v = rev (be_bytes 2 v) @ drop 2 m"
  using length2E [of m] by (auto simp: SetLE16_def Set8_def be_bytes_explicit)

lemma GetLE16_eq [net_simps]: "2 \<le> length m \<Longrightarrow> GetLE16 m = be_word (rev (take 2 m))"
  using length2E [of m] by (auto simp: GetLE16_def Get8_def ac_simps)

lemma SetBE32_eq [net_simps]: "4 \<le> length m \<Longrightarrow> SetBE32 m v = be_bytes 4 v @ drop 4 m"
  using length4E [of m] by (auto simp: SetBE32_def Set8_def be_bytes_explicit)

lemma GetBE32_eq [net_simps]: "4 \<le> length m \<Longrightarrow> GetBE32 m = be_word (take 4 m)"
  using length4E [of m] by (auto simp: GetBE32_def Get8_def ac_simps)

lemma SetLE32_eq [net_simps]: "4 \<le> length m \<Longrightarrow> SetLE32 m v = rev (be_bytes 4 v) @ drop 4 m"
  using length4E [of m] by (auto simp: SetLE32_def Set8_def be_bytes_explicit)

lemma GetLE32_eq [net_simps]: "4 \<le> length m \<Longrightarrow> GetLE32 m = be_word (rev (take 4 m))"
  using length4E [of m] by (auto simp: GetLE32_def Get8_def ac_simps)

lemma SetBE64_eq [net_simps]: "8 \<le> length m \<Longrightarrow> SetBE64 m v = be_bytes 8 v @ drop 8 m"
  using length8E [of m] by (auto simp: SetBE64_def Set8_def be_bytes_explicit)

lemma GetBE64_eq [net_simps]: "8 \<le> length m \<Longrightarrow> GetBE64 m = be_word (take 8 m)"
  using length8E [of m] by (auto simp: GetBE64_def Get8_def ac_simps)

lemma SetLE64_eq [net_simps]: "8 \<le> length m \<Longrightarrow> SetLE64 m v = rev (be_bytes 8 v) @ drop 8 m"
  using length8E [of m] by (auto simp: SetLE64_def Set8_def be_bytes_explicit)

lemma GetLE64_eq [net_simps]: "8 \<le> length m \<Longrightarrow> GetLE64 m = be_word (rev (take 8 m))"
  using length8E [of m] by (auto simp: GetLE64_def Get8_def ac_simps)

section \<open>Host conversions\<close>

lemma length_host_bytes [simp]: "length (host_bytes h n v) = n"
  by (simp add: host_bytes_def)

lemma host_bytes_word [simp]:
  "length bs = n \<Longrightarrow> 8 * n \<le> LENGTH('a) \<Longrightarrow> host_bytes h n (host_word h bs :: 'a::len word) = bs"
  by (simp add: host_bytes_def host_word_def)

lemma host_word_bytes [simp]:
  "LENGTH('a) \<le> 8 * n \<Longrightarrow> host_word h (host_bytes h n v) = (v :: 'a::len word)"
  by (simp add: host_bytes_def host_word_def)

lemma IsHostBigEndian_iff [simp]: "IsHostBigEndian h \<longleftrightarrow> h"
  by (auto simp: IsHostBigEndian_def host_bytes_def eval_nat_numeral)

lemma host_bytes_HostToNetwork [net_simps]:
  "host_bytes h 2 (HostToNetwork16 h v16) = be_bytes 2 v16"
  "host_bytes h 4 (HostToNetwork32 h v32) = be_bytes 4 v32"
  "host_bytes h 8 (HostToNetwork64 h v64) = be_bytes 8 v64"
  by (simp_all add: HostToNetwork16_def HostToNetwork32_def HostToNetwork64_def net_simps)

lemma NetworkToHost_host_word [net_simps]:
  "length b2 = 2 \<Longrightarrow> NetworkToHost16 h (host_word h b2) = be_word b2"
  "length b4 = 4 \<Longrightarrow> NetworkToHost32 h (host_word h b4) = be_word b4"
  "length b8 = 8 \<Longrightarrow> NetworkToHost64 h (host_word h b8) = be_word b8"
  by (simp_all add: NetworkToHost16_def NetworkToHost32_def NetworkToHost64_def net_simps)

end
