(* ===== verification/Byte_Buffer.thy ===== *)
theory Byte_Buffer
  imports Byte_Order
begin

text \<open>
  \<^verbatim>\<open>webrtc/base/bytebuffer.{h,cc}\<close>: the growable read/write buffer every wire format of the
  program is parsed from and serialised into.

  The record has the class's fields (\<open>bb_bytes\<close> is the heap block \<^verbatim>\<open>bytes_\<close> points to, and
  so on). \<^verbatim>\<open>size_t\<close> values are \<open>nat\<close>: they count bytes of one allocation. Freshly allocated
  memory is filled with zeroes; the invariant and the abstraction \<open>bb_contents\<close> only look at
  the bytes between \<open>bb_start\<close> and \<open>bb_end\<close>, which are always written before they are
  read. A read that returns \<^verbatim>\<open>false\<close> leaves the buffer unchanged and is \<open>None\<close>; the
  destination pointers are never null.
\<close>

section \<open>State\<close>

datatype ByteOrder = ORDER_NETWORK | ORDER_HOST

record ByteBuffer =
  bb_bytes :: bytes
  bb_size :: nat
  bb_start :: nat
  bb_end :: nat
  bb_version :: int
  bb_order :: ByteOrder

record ReadPosition =
  rp_start :: nat
  rp_version :: int

definition ByteBuffer_DEFAULT_SIZE :: nat where
  "ByteBuffer_DEFAULT_SIZE = 4096"

definition ByteBuffer_Construct :: "bytes option \<Rightarrow> nat \<Rightarrow> ByteOrder \<Rightarrow> ByteBuffer" where
  "ByteBuffer_Construct bs len byte_order =
     (let fresh = replicate len 0 in
      case bs of
        Some src \<Rightarrow>
          \<lparr>bb_bytes = blit fresh 0 (take len src), bb_size = len, bb_start = 0, bb_end = len,
           bb_version = 0, bb_order = byte_order\<rparr>
      | None \<Rightarrow>
          \<lparr>bb_bytes = fresh, bb_size = len, bb_start = 0, bb_end = 0,
           bb_version = 0, bb_order = byte_order\<rparr>)"

definition ByteBuffer_new :: ByteBuffer where
  "ByteBuffer_new = ByteBuffer_Construct None ByteBuffer_DEFAULT_SIZE ORDER_NETWORK"

definition ByteBuffer_new_order :: "ByteOrder \<Rightarrow> ByteBuffer" where
  "ByteBuffer_new_order byte_order = ByteBuffer_Construct None ByteBuffer_DEFAULT_SIZE byte_order"

definition ByteBuffer_of :: "bytes \<Rightarrow> ByteBuffer" where
  "ByteBuffer_of bs = ByteBuffer_Construct (Some bs) (length bs) ORDER_NETWORK"

definition ByteBuffer_of_order :: "bytes \<Rightarrow> ByteOrder \<Rightarrow> ByteBuffer" where
  "ByteBuffer_of_order bs byte_order = ByteBuffer_Construct (Some bs) (length bs) byte_order"

definition ByteBuffer_Length :: "ByteBuffer \<Rightarrow> nat" where
  "ByteBuffer_Length b = bb_end b - bb_start b"

definition ByteBuffer_Capacity :: "ByteBuffer \<Rightarrow> nat" where
  "ByteBuffer_Capacity b = bb_size b - bb_start b"

definition ByteBuffer_Data :: "ByteBuffer \<Rightarrow> bytes" where
  "ByteBuffer_Data b = drop (bb_start b) (bb_bytes b)"

section \<open>Reading\<close>

definition ReadBytes :: "nat \<Rightarrow> ByteBuffer \<Rightarrow> (bytes \<times> ByteBuffer) option" where
  "ReadBytes len b =
     (if len > ByteBuffer_Length b then None
      else Some (take len (drop (bb_start b) (bb_bytes b)), b\<lparr>bb_start := bb_start b + len\<rparr>))"

definition ReadString :: "bytes \<Rightarrow> nat \<Rightarrow> ByteBuffer \<Rightarrow> (bytes \<times> ByteBuffer) option" where
  "ReadString val len b =
     (if len > ByteBuffer_Length b then None
      else Some (val @ take len (drop (bb_start b) (bb_bytes b)),
                 b\<lparr>bb_start := bb_start b + len\<rparr>))"

definition ReadUInt8 :: "bool \<Rightarrow> ByteBuffer \<Rightarrow> (uint8 \<times> ByteBuffer) option" where
  "ReadUInt8 h b =
     (case ReadBytes 1 b of None \<Rightarrow> None | Some (bs, b') \<Rightarrow> Some (host_word h bs, b'))"

definition ReadUInt16 :: "bool \<Rightarrow> ByteBuffer \<Rightarrow> (uint16 \<times> ByteBuffer) option" where
  "ReadUInt16 h b =
     (case ReadBytes 2 b of
        None \<Rightarrow> None
      | Some (bs, b') \<Rightarrow>
          let v = host_word h bs
          in Some (if bb_order b = ORDER_NETWORK then NetworkToHost16 h v else v, b'))"

definition ReadUInt24 :: "bool \<Rightarrow> ByteBuffer \<Rightarrow> (uint32 \<times> ByteBuffer) option" where
  "ReadUInt24 h b =
     (let read_into = (if bb_order b = ORDER_NETWORK \<or> IsHostBigEndian h then 1 else 0) in
      case ReadBytes 3 b of
        None \<Rightarrow> None
      | Some (bs, b') \<Rightarrow>
          let v = host_word h (blit (host_bytes h 4 (0 :: uint32)) read_into bs)
          in Some (if bb_order b = ORDER_NETWORK then NetworkToHost32 h v else v, b'))"

definition ReadUInt32 :: "bool \<Rightarrow> ByteBuffer \<Rightarrow> (uint32 \<times> ByteBuffer) option" where
  "ReadUInt32 h b =
     (case ReadBytes 4 b of
        None \<Rightarrow> None
      | Some (bs, b') \<Rightarrow>
          let v = host_word h bs
          in Some (if bb_order b = ORDER_NETWORK then NetworkToHost32 h v else v, b'))"

definition ReadUInt64 :: "bool \<Rightarrow> ByteBuffer \<Rightarrow> (uint64 \<times> ByteBuffer) option" where
  "ReadUInt64 h b =
     (case ReadBytes 8 b of
        None \<Rightarrow> None
      | Some (bs, b') \<Rightarrow>
          let v = host_word h bs
          in Some (if bb_order b = ORDER_NETWORK then NetworkToHost64 h v else v, b'))"

section \<open>Writing\<close>

definition ByteBuffer_Resize :: "nat \<Rightarrow> ByteBuffer \<Rightarrow> ByteBuffer" where
  "ByteBuffer_Resize size' b =
     (let len = min (bb_end b - bb_start b) size';
          live = take len (drop (bb_start b) (bb_bytes b));
          b = (if size' \<le> bb_size b then b\<lparr>bb_bytes := blit (bb_bytes b) 0 live\<rparr>
               else let new_size = max size' (3 * bb_size b div 2)
                    in b\<lparr>bb_size := new_size, bb_bytes := blit (replicate new_size 0) 0 live\<rparr>)
      in b\<lparr>bb_start := 0, bb_end := len, bb_version := bb_version b + 1\<rparr>)"

text \<open>The returned pointer \<^verbatim>\<open>bytes_ + end_\<close> is its offset in \<open>bb_bytes\<close>.\<close>

definition ReserveWriteBuffer :: "nat \<Rightarrow> ByteBuffer \<Rightarrow> nat \<times> ByteBuffer" where
  "ReserveWriteBuffer len b =
     (let b = (if ByteBuffer_Length b + len > ByteBuffer_Capacity b
               then ByteBuffer_Resize (ByteBuffer_Length b + len) b else b)
      in (bb_end b, b\<lparr>bb_end := bb_end b + len\<rparr>))"

definition WriteBytes :: "bytes \<Rightarrow> ByteBuffer \<Rightarrow> ByteBuffer" where
  "WriteBytes val b =
     (case ReserveWriteBuffer (length val) b of
        (p, b') \<Rightarrow> b'\<lparr>bb_bytes := blit (bb_bytes b') p val\<rparr>)"

definition WriteString :: "bytes \<Rightarrow> ByteBuffer \<Rightarrow> ByteBuffer" where
  "WriteString val b = WriteBytes val b"

definition WriteUInt8 :: "bool \<Rightarrow> uint8 \<Rightarrow> ByteBuffer \<Rightarrow> ByteBuffer" where
  "WriteUInt8 h val b = WriteBytes (host_bytes h 1 val) b"

definition WriteUInt16 :: "bool \<Rightarrow> uint16 \<Rightarrow> ByteBuffer \<Rightarrow> ByteBuffer" where
  "WriteUInt16 h val b =
     (let v = (if bb_order b = ORDER_NETWORK then HostToNetwork16 h val else val)
      in WriteBytes (host_bytes h 2 v) b)"

definition WriteUInt24 :: "bool \<Rightarrow> uint32 \<Rightarrow> ByteBuffer \<Rightarrow> ByteBuffer" where
  "WriteUInt24 h val b =
     (let v = (if bb_order b = ORDER_NETWORK then HostToNetwork32 h val else val);
          start = (if bb_order b = ORDER_NETWORK \<or> IsHostBigEndian h then 1 else 0)
      in WriteBytes (take 3 (drop start (host_bytes h 4 v))) b)"

definition WriteUInt32 :: "bool \<Rightarrow> uint32 \<Rightarrow> ByteBuffer \<Rightarrow> ByteBuffer" where
  "WriteUInt32 h val b =
     (let v = (if bb_order b = ORDER_NETWORK then HostToNetwork32 h val else val)
      in WriteBytes (host_bytes h 4 v) b)"

definition WriteUInt64 :: "bool \<Rightarrow> uint64 \<Rightarrow> ByteBuffer \<Rightarrow> ByteBuffer" where
  "WriteUInt64 h val b =
     (let v = (if bb_order b = ORDER_NETWORK then HostToNetwork64 h val else val)
      in WriteBytes (host_bytes h 8 v) b)"

section \<open>Moving the read position\<close>

definition ByteBuffer_Consume :: "nat \<Rightarrow> ByteBuffer \<Rightarrow> ByteBuffer option" where
  "ByteBuffer_Consume size' b =
     (if size' > ByteBuffer_Length b then None else Some (b\<lparr>bb_start := bb_start b + size'\<rparr>))"

definition GetReadPosition :: "ByteBuffer \<Rightarrow> ReadPosition" where
  "GetReadPosition b = \<lparr>rp_start = bb_start b, rp_version = bb_version b\<rparr>"

definition SetReadPosition :: "ReadPosition \<Rightarrow> ByteBuffer \<Rightarrow> ByteBuffer option" where
  "SetReadPosition position b =
     (if rp_version position \<noteq> bb_version b then None else Some (b\<lparr>bb_start := rp_start position\<rparr>))"

definition ByteBuffer_Clear :: "ByteBuffer \<Rightarrow> ByteBuffer" where
  "ByteBuffer_Clear b =
     b\<lparr>bb_bytes := replicate (bb_size b) 0, bb_start := 0, bb_end := 0,
       bb_version := bb_version b + 1\<rparr>"

section \<open>Invariant and abstraction\<close>

definition bb_inv :: "ByteBuffer \<Rightarrow> bool" where
  "bb_inv b \<longleftrightarrow> bb_size b = length (bb_bytes b) \<and> bb_start b \<le> bb_end b \<and> bb_end b \<le> bb_size b"

definition bb_contents :: "ByteBuffer \<Rightarrow> bytes" where
  "bb_contents b = take (bb_end b - bb_start b) (drop (bb_start b) (bb_bytes b))"

text \<open>A network-order buffer that satisfies the invariant: what the wire formats work on.\<close>

definition bb_net :: "ByteBuffer \<Rightarrow> bool" where
  "bb_net b \<longleftrightarrow> bb_inv b \<and> bb_order b = ORDER_NETWORK"

lemma length_bb_contents [simp]: "bb_inv b \<Longrightarrow> length (bb_contents b) = ByteBuffer_Length b"
  by (auto simp: bb_inv_def bb_contents_def ByteBuffer_Length_def)

lemma take_bb_contents:
  "bb_inv b \<Longrightarrow> n \<le> ByteBuffer_Length b \<Longrightarrow>
   take n (drop (bb_start b) (bb_bytes b)) = take n (bb_contents b)"
  by (simp add: bb_contents_def ByteBuffer_Length_def min_def)

lemma bb_inv_Resize [inv_intros]: "bb_inv b \<Longrightarrow> bb_inv (ByteBuffer_Resize n b)"
  by (auto simp: bb_inv_def ByteBuffer_Resize_def Let_def blit_def)

lemma bb_contents_Resize [buf_simps]:
  "bb_inv b \<Longrightarrow> bb_contents (ByteBuffer_Resize n b) = take n (bb_contents b)"
  by (auto simp: bb_inv_def bb_contents_def ByteBuffer_Resize_def Let_def blit_def min_def)

lemma bb_order_Resize [simp]: "bb_order (ByteBuffer_Resize n b) = bb_order b"
  by (simp add: ByteBuffer_Resize_def Let_def)

lemma bb_Resize_exact:
  "bb_inv b \<Longrightarrow> bb_end (ByteBuffer_Resize (ByteBuffer_Length b + n) b) = ByteBuffer_Length b \<and>
   bb_start (ByteBuffer_Resize (ByteBuffer_Length b + n) b) = 0 \<and>
   ByteBuffer_Length b + n \<le> bb_size (ByteBuffer_Resize (ByteBuffer_Length b + n) b)"
  by (auto simp: bb_inv_def ByteBuffer_Resize_def ByteBuffer_Length_def Let_def)

text \<open>After \<open>ReserveWriteBuffer\<close> there is room for the bytes the caller asked for.\<close>

lemma ReserveWriteBuffer_room:
  assumes "bb_inv b" and "ReserveWriteBuffer len b = (p, b')"
  shows "p + len = bb_end b' \<and> bb_end b' \<le> bb_size b' \<and> bb_size b' = length (bb_bytes b') \<and>
         bb_start b' \<le> p \<and> take (p - bb_start b') (drop (bb_start b') (bb_bytes b')) = bb_contents b \<and>
         bb_order b' = bb_order b"
proof (cases "ByteBuffer_Length b + len > ByteBuffer_Capacity b")
  case True
  with assms bb_Resize_exact [of b len] bb_inv_Resize [of b "ByteBuffer_Length b + len"]
    bb_contents_Resize [of b "ByteBuffer_Length b + len"]
  show ?thesis
    by (auto simp: ReserveWriteBuffer_def bb_inv_def bb_contents_def ByteBuffer_Length_def)
next
  case False
  with assms show ?thesis
    by (auto simp: ReserveWriteBuffer_def bb_inv_def bb_contents_def ByteBuffer_Length_def
        ByteBuffer_Capacity_def)
qed

lemma WriteBytes_spec:
  assumes "bb_inv b"
  shows "bb_inv (WriteBytes xs b) \<and> bb_contents (WriteBytes xs b) = bb_contents b @ xs \<and>
         bb_order (WriteBytes xs b) = bb_order b"
proof -
  obtain p b' where r: "ReserveWriteBuffer (length xs) b = (p, b')" by fastforce
  note room = ReserveWriteBuffer_room [OF assms r]
  have "take (p + length xs - bb_start b') (drop (bb_start b') (blit (bb_bytes b') p xs))
      = take (p - bb_start b') (drop (bb_start b') (bb_bytes b')) @ xs"
    using room by (intro take_drop_blit_append) auto
  with room r show ?thesis
    by (auto simp: WriteBytes_def bb_inv_def bb_contents_def)
qed

lemma bb_inv_WriteBytes [inv_intros]: "bb_inv b \<Longrightarrow> bb_inv (WriteBytes xs b)"
  by (simp add: WriteBytes_spec)

lemma bb_contents_WriteBytes [buf_simps]:
  "bb_inv b \<Longrightarrow> bb_contents (WriteBytes xs b) = bb_contents b @ xs"
  by (simp add: WriteBytes_spec)

lemma bb_net_WriteBytes [inv_intros]: "bb_net b \<Longrightarrow> bb_net (WriteBytes xs b)"
  by (simp add: bb_net_def WriteBytes_spec)

lemma ReadBytes_Some:
  assumes "bb_inv b" and "n \<le> length (bb_contents b)"
  shows "\<exists>b'. ReadBytes n b = Some (take n (bb_contents b), b') \<and> bb_inv b' \<and>
              bb_contents b' = drop n (bb_contents b) \<and> bb_order b' = bb_order b"
  using assms
  by (auto simp: ReadBytes_def bb_inv_def bb_contents_def ByteBuffer_Length_def min_def drop_take
      add.commute split: if_splits)

lemma ReadBytes_None: "bb_inv b \<Longrightarrow> ReadBytes n b = None \<longleftrightarrow> length (bb_contents b) < n"
  by (auto simp: ReadBytes_def)

lemma ReadBytes_SomeD:
  assumes "ReadBytes n b = Some (xs, b')" and "bb_inv b"
  shows "n \<le> length (bb_contents b) \<and> xs = take n (bb_contents b) \<and> length xs = n \<and>
         bb_contents b' = drop n (bb_contents b) \<and> bb_inv b' \<and> bb_order b' = bb_order b"
proof -
  have "n \<le> length (bb_contents b)"
    using assms ReadBytes_None [of b n] by (metis not_less option.distinct(1))
  with ReadBytes_Some [OF assms(2) this] assms show ?thesis by auto
qed


lemma bb_inv_Construct [inv_intros]:
  "(\<And>src. bs = Some src \<Longrightarrow> len \<le> length src) \<Longrightarrow> bb_inv (ByteBuffer_Construct bs len ord)"
  by (cases bs) (simp_all add: bb_inv_def ByteBuffer_Construct_def blit_def)

lemma bb_net_new [inv_intros, simp]: "bb_net ByteBuffer_new"
  by (simp add: bb_net_def bb_inv_def ByteBuffer_new_def ByteBuffer_Construct_def)

lemma bb_contents_new [buf_simps, simp]: "bb_contents ByteBuffer_new = []"
  by (simp add: bb_contents_def ByteBuffer_new_def ByteBuffer_Construct_def)

lemma bb_net_of [inv_intros, simp]: "bb_net (ByteBuffer_of bs)"
  by (simp add: bb_net_def bb_inv_def ByteBuffer_of_def ByteBuffer_Construct_def blit_def)

lemma bb_contents_of [buf_simps, simp]: "bb_contents (ByteBuffer_of bs) = bs"
  by (simp add: bb_contents_def ByteBuffer_of_def ByteBuffer_Construct_def blit_def)

lemma bb_net_imp_inv [simp]: "bb_net b \<Longrightarrow> bb_inv b"
  by (simp add: bb_net_def)

section \<open>Integers in network order\<close>

text \<open>
  Whatever the host's byte order, a network-order buffer receives and yields big-endian bytes.
\<close>

lemma bb_contents_WriteUInt [buf_simps]:
  "bb_net b \<Longrightarrow> bb_contents (WriteUInt8 h v8 b) = bb_contents b @ [v8]"
  "bb_net b \<Longrightarrow> bb_contents (WriteUInt16 h v16 b) = bb_contents b @ be_bytes 2 v16"
  "bb_net b \<Longrightarrow> bb_contents (WriteUInt24 h v32 b) = bb_contents b @ be_bytes 3 v32"
  "bb_net b \<Longrightarrow> bb_contents (WriteUInt32 h v32 b) = bb_contents b @ be_bytes 4 v32"
  "bb_net b \<Longrightarrow> bb_contents (WriteUInt64 h v64 b) = bb_contents b @ be_bytes 8 v64"
  "bb_net b \<Longrightarrow> bb_contents (WriteString xs b) = bb_contents b @ xs"
  by (simp_all add: bb_net_def WriteUInt8_def WriteUInt16_def WriteUInt24_def WriteUInt32_def
      WriteUInt64_def WriteString_def buf_simps net_simps host_bytes_def [of h "Suc 0"] be_bytes_drop1)

lemma bb_net_WriteUInt [inv_intros]:
  "bb_net b \<Longrightarrow> bb_net (WriteUInt8 h v8 b)"
  "bb_net b \<Longrightarrow> bb_net (WriteUInt16 h v16 b)"
  "bb_net b \<Longrightarrow> bb_net (WriteUInt24 h v32 b)"
  "bb_net b \<Longrightarrow> bb_net (WriteUInt32 h v32 b)"
  "bb_net b \<Longrightarrow> bb_net (WriteUInt64 h v64 b)"
  "bb_net b \<Longrightarrow> bb_net (WriteString xs b)"
  by (simp_all add: WriteUInt8_def WriteUInt16_def WriteUInt24_def WriteUInt32_def
      WriteUInt64_def WriteString_def bb_net_WriteBytes Let_def)

text \<open>
  Reading: \<open>bb_reads r n f\<close> says that the reader \<open>r\<close> takes \<open>n\<close> bytes off the contents of
  a network-order buffer and returns \<open>f\<close> of them, and that it fails, without reading,
  exactly when fewer bytes are left.
\<close>

definition bb_reads :: "(ByteBuffer \<Rightarrow> ('v \<times> ByteBuffer) option) \<Rightarrow> nat \<Rightarrow> (bytes \<Rightarrow> 'v) \<Rightarrow> bool" where
  "bb_reads r n f \<longleftrightarrow> (\<forall>b. bb_net b \<longrightarrow>
     (if n \<le> length (bb_contents b)
      then \<exists>b'. r b = Some (f (take n (bb_contents b)), b') \<and> bb_net b' \<and>
                bb_contents b' = drop n (bb_contents b)
      else r b = None))"

lemma bb_readsD:
  assumes "bb_reads r n f" and "bb_net b" and "bb_contents b = xs @ ys" and "length xs = n"
  obtains b' where "r b = Some (f xs, b')" and "bb_net b'" and "bb_contents b' = ys"
proof -
  have "n \<le> length (bb_contents b)" using assms by simp
  with assms(1,2) have "\<exists>b'. r b = Some (f (take n (bb_contents b)), b') \<and> bb_net b' \<and>
      bb_contents b' = drop n (bb_contents b)"
    unfolding bb_reads_def by metis
  with assms that show thesis by auto
qed

lemma bb_reads_SomeD:
  assumes "bb_reads r n f" and "bb_net b" and "r b = Some (v, b')"
  shows "n \<le> length (bb_contents b) \<and> v = f (take n (bb_contents b)) \<and> bb_net b' \<and>
         bb_contents b' = drop n (bb_contents b)"
  using assms unfolding bb_reads_def by (metis Pair_inject option.distinct(1) option.inject)

lemma bb_reads_NoneD:
  "bb_reads r n f \<Longrightarrow> bb_net b \<Longrightarrow> r b = None \<longleftrightarrow> length (bb_contents b) < n"
  unfolding bb_reads_def by (metis leD leI option.distinct(1))

lemma bb_readsI:
  assumes "\<And>b bs b'. bb_net b \<Longrightarrow> ReadBytes n b = Some (bs, b') \<Longrightarrow> length bs = n \<Longrightarrow> r b = Some (f bs, b')"
    and "\<And>b. ReadBytes n b = None \<Longrightarrow> r b = None"
  shows "bb_reads r n f"
  unfolding bb_reads_def
proof (intro allI impI)
  fix b assume b: "bb_net b"
  show "if n \<le> length (bb_contents b)
        then \<exists>b'. r b = Some (f (take n (bb_contents b)), b') \<and> bb_net b' \<and>
                  bb_contents b' = drop n (bb_contents b)
        else r b = None"
  proof (cases "n \<le> length (bb_contents b)")
    case True
    then obtain b' where "ReadBytes n b = Some (take n (bb_contents b), b')" "bb_net b'"
      "bb_contents b' = drop n (bb_contents b)"
      using ReadBytes_Some [of b n] b by (auto simp: bb_net_def)
    with True assms(1) [OF b] show ?thesis by auto
  next
    case False
    with b assms(2) [of b] ReadBytes_None [of b n] show ?thesis by simp
  qed
qed

lemma bb_reads_ReadBytes: "bb_reads (ReadBytes n) n id"
  by (rule bb_readsI) auto

lemma bb_reads_ReadString: "bb_reads (ReadString val n) n (\<lambda>bs. val @ bs)"
  by (rule bb_readsI) (auto simp: ReadString_def ReadBytes_def split: if_splits)

lemma be_word_Cons0: "be_word (0 # bs) = be_word bs"
  by simp

lemma bb_reads_ReadUInt:
  "bb_reads (ReadUInt8 h) 1 (\<lambda>bs. be_word bs)"
  "bb_reads (ReadUInt16 h) 2 be_word"
  "bb_reads (ReadUInt32 h) 4 be_word"
  "bb_reads (ReadUInt64 h) 8 be_word"
  by (rule bb_readsI; auto simp: ReadUInt8_def ReadUInt16_def ReadUInt32_def ReadUInt64_def bb_net_def
      net_simps host_word_def [where 'a = 8] length_Suc_conv split: option.splits)+

lemma bb_reads_ReadUInt24: "bb_reads (ReadUInt24 h) 3 be_word"
proof (rule bb_readsI)
  fix b bs b'
  assume a: "bb_net b" "ReadBytes 3 b = Some (bs, b')" "length bs = 3"
  have "blit (host_bytes h 4 (0 :: uint32)) 1 bs = 0 # bs"
    using a(3) by (simp add: blit_def host_bytes_def be_bytes_explicit)
  then show "ReadUInt24 h b = Some (be_word bs, b')"
    using a by (simp add: ReadUInt24_def bb_net_def net_simps)
qed (simp add: ReadUInt24_def)

lemmas bb_reads_all = bb_reads_ReadBytes bb_reads_ReadString bb_reads_ReadUInt bb_reads_ReadUInt24

lemma Consume_Some:
  assumes "bb_net b" and "n \<le> length (bb_contents b)"
  shows "\<exists>b'. ByteBuffer_Consume n b = Some b' \<and> bb_net b' \<and> bb_contents b' = drop n (bb_contents b)"
  using assms
  by (auto simp: ByteBuffer_Consume_def bb_net_def bb_inv_def bb_contents_def ByteBuffer_Length_def
      min_def drop_take add.commute split: if_splits)

lemma Consume_None:
  "bb_net b \<Longrightarrow> ByteBuffer_Consume n b = None \<longleftrightarrow> length (bb_contents b) < n"
  by (auto simp: ByteBuffer_Consume_def)

section \<open>The buffer as a byte queue\<close>

text \<open>What the wire formats rely on: bytes come out in the order in which they went in.\<close>

locale byte_queue =
  fixes inv :: "'s \<Rightarrow> bool"
    and contents :: "'s \<Rightarrow> bytes"
    and put :: "bytes \<Rightarrow> 's \<Rightarrow> 's"
    and get :: "nat \<Rightarrow> 's \<Rightarrow> (bytes \<times> 's) option"
  assumes put_inv: "inv s \<Longrightarrow> inv (put xs s)"
    and contents_put: "inv s \<Longrightarrow> contents (put xs s) = contents s @ xs"
    and get_None: "inv s \<Longrightarrow> length (contents s) < n \<Longrightarrow> get n s = None"
    and get_Some: "inv s \<Longrightarrow> n \<le> length (contents s) \<Longrightarrow>
      \<exists>s'. get n s = Some (take n (contents s), s') \<and> inv s' \<and> contents s' = drop n (contents s)"
begin

lemma put_all:
  "inv s \<Longrightarrow> inv (fold put xss s) \<and> contents (fold put xss s) = contents s @ concat xss"
  by (induction xss arbitrary: s) (auto simp: put_inv contents_put)

fun get_all :: "nat list \<Rightarrow> 's \<Rightarrow> (bytes list \<times> 's) option" where
  "get_all [] s = Some ([], s)"
| "get_all (n # ns) s =
     (case get n s of None \<Rightarrow> None
      | Some (xs, s') \<Rightarrow> map_option (\<lambda>(xss, t). (xs # xss, t)) (get_all ns s'))"

lemma get_all_stream:
  "inv s \<Longrightarrow> sum_list ns \<le> length (contents s) \<Longrightarrow>
   \<exists>xss t. get_all ns s = Some (xss, t) \<and> map length xss = ns \<and> inv t \<and>
           concat xss @ contents t = contents s"
proof (induction ns arbitrary: s)
  case (Cons n ns)
  then obtain s' where s': "get n s = Some (take n (contents s), s')" "inv s'"
    "contents s' = drop n (contents s)"
    using get_Some [of s n] by auto
  with Cons.prems have "sum_list ns \<le> length (contents s')" by simp
  with Cons.IH [OF s'(2)] obtain xss t where "get_all ns s' = Some (xss, t)" "map length xss = ns"
    "inv t" "concat xss @ contents t = contents s'" by blast
  moreover have "take n (contents s) @ drop n (contents s) = contents s" by simp
  ultimately show ?case
    using s' Cons.prems by (intro exI [of _ "take n (contents s) # xss"] exI [of _ t]) auto
qed simp

end

interpretation bbq: byte_queue bb_inv bb_contents WriteBytes ReadBytes
proof unfold_locales
  fix s :: ByteBuffer and n
  assume "bb_inv s" and "n \<le> length (bb_contents s)"
  then show "\<exists>s'. ReadBytes n s = Some (take n (bb_contents s), s') \<and> bb_inv s' \<and>
      bb_contents s' = drop n (bb_contents s)"
    using ReadBytes_Some by blast
qed (simp_all add: WriteBytes_spec ReadBytes_None)

section \<open>Every sequence of calls\<close>

text \<open>
  A buffer together with the read positions its clients have saved with \<open>GetReadPosition\<close>.
  Restoring one succeeds only while no call has moved the bytes since.
\<close>

inductive bb_reachable :: "ByteBuffer \<Rightarrow> ReadPosition list \<Rightarrow> bool" where
  fresh: "bb_reachable (ByteBuffer_new_order ord) []"
| wrap: "bb_reachable (ByteBuffer_of_order bs ord) []"
| written: "bb_reachable b ps \<Longrightarrow> bb_reachable (WriteBytes xs b) ps"
| reserved: "bb_reachable b ps \<Longrightarrow> ReserveWriteBuffer n b = (p, b') \<Longrightarrow> bb_reachable b' ps"
| read: "bb_reachable b ps \<Longrightarrow> ReadBytes n b = Some (xs, b') \<Longrightarrow> bb_reachable b' ps"
| consume: "bb_reachable b ps \<Longrightarrow> ByteBuffer_Consume n b = Some b' \<Longrightarrow> bb_reachable b' ps"
| resize: "bb_reachable b ps \<Longrightarrow> bb_reachable (ByteBuffer_Resize n b) ps"
| clear: "bb_reachable b ps \<Longrightarrow> bb_reachable (ByteBuffer_Clear b) ps"
| save: "bb_reachable b ps \<Longrightarrow> bb_reachable b (GetReadPosition b # ps)"
| restore: "bb_reachable b ps \<Longrightarrow> p \<in> set ps \<Longrightarrow> SetReadPosition p b = Some b' \<Longrightarrow> bb_reachable b' ps"

definition bb_positions_ok :: "ByteBuffer \<Rightarrow> ReadPosition list \<Rightarrow> bool" where
  "bb_positions_ok b ps \<longleftrightarrow> (\<forall>p\<in>set ps. rp_version p \<le> bb_version b \<and>
     (rp_version p = bb_version b \<longrightarrow> rp_start p \<le> bb_end b))"

lemma bb_positions_mono:
  assumes "bb_positions_ok b ps"
    and "bb_version b < bb_version b' \<or> bb_version b' = bb_version b \<and> bb_end b \<le> bb_end b'"
  shows "bb_positions_ok b' ps"
  using assms unfolding bb_positions_ok_def by fastforce

lemma ReserveWriteBuffer_version:
  "ReserveWriteBuffer n b = (p, b') \<Longrightarrow>
   bb_version b < bb_version b' \<or> bb_version b' = bb_version b \<and> bb_end b \<le> bb_end b'"
  by (auto simp: ReserveWriteBuffer_def ByteBuffer_Resize_def Let_def split: if_splits)

lemma bb_reachable_positions: "bb_reachable b ps \<Longrightarrow> bb_inv b \<and> bb_positions_ok b ps"
proof (induction rule: bb_reachable.induct)
  case (written b ps xs)
  obtain p b' where r: "ReserveWriteBuffer (length xs) b = (p, b')" by fastforce
  then have "bb_positions_ok b' ps"
    using written bb_positions_mono ReserveWriteBuffer_version by blast
  then have "bb_positions_ok (WriteBytes xs b) ps"
    using r by (simp add: WriteBytes_def bb_positions_ok_def)
  with written show ?case by (simp add: bb_inv_WriteBytes)
next
  case (reserved b ps n p b')
  then show ?case
    using ReserveWriteBuffer_room [of b n p b'] bb_positions_mono ReserveWriteBuffer_version
    by (metis bb_inv_def le_add1 le_trans)
next
  case (resize b ps n)
  have "bb_version b < bb_version (ByteBuffer_Resize n b)"
    by (simp add: ByteBuffer_Resize_def Let_def)
  with resize show ?case by (auto intro: bb_inv_Resize bb_positions_mono)
next
  case (clear b ps)
  have "bb_version b < bb_version (ByteBuffer_Clear b)" by (simp add: ByteBuffer_Clear_def)
  moreover have "bb_inv (ByteBuffer_Clear b)" using clear by (simp add: bb_inv_def ByteBuffer_Clear_def)
  ultimately show ?case using clear by (auto intro: bb_positions_mono)
qed (auto simp: bb_inv_def bb_positions_ok_def ByteBuffer_new_order_def ByteBuffer_of_order_def
    ByteBuffer_Construct_def blit_def ReadBytes_def ByteBuffer_Consume_def ByteBuffer_Length_def
    GetReadPosition_def SetReadPosition_def split: if_splits)

section \<open>Properties\<close>

text \<open>In every state that a sequence of calls can reach, the buffer's indices are ordered and inside
  its allocation; and restoring a saved read position either is refused, because the bytes have
  moved since, or gives a state in which this still holds and no unread byte is lost.\<close>

theorem bytebuffer_reachable_inv:
  assumes "bb_reachable b ps"
  shows "bb_inv b \<and> (\<forall>p\<in>set ps. case SetReadPosition p b of
           None \<Rightarrow> rp_version p < bb_version b
         | Some b' \<Rightarrow> bb_inv b' \<and> bb_end b' = bb_end b)"
proof -
  note ok = bb_reachable_positions [OF assms]
  have "case SetReadPosition p b of None \<Rightarrow> rp_version p < bb_version b
      | Some b' \<Rightarrow> bb_inv b' \<and> bb_end b' = bb_end b" if "p \<in> set ps" for p
    using ok that by (auto simp: SetReadPosition_def bb_positions_ok_def bb_inv_def)
  with ok show ?thesis by blast
qed

theorem bytebuffer_reachable_inv_witness:
  "let b = ByteBuffer_of_order [7, 8, 9] ORDER_HOST;
       p = GetReadPosition b;
       b' = b\<lparr>bb_start := 2\<rparr>
   in bb_reachable b' [p] \<and> SetReadPosition p b' = Some b \<and> bb_inv b' \<and> bb_inv b"
proof -
  let ?b = "ByteBuffer_of_order [7, 8, 9] ORDER_HOST"
  have restore: "SetReadPosition (GetReadPosition ?b) (?b\<lparr>bb_start := 2\<rparr>) = Some ?b"
    by (simp add: SetReadPosition_def GetReadPosition_def ByteBuffer_of_order_def ByteBuffer_Construct_def)
  have "ByteBuffer_Consume 2 ?b = Some (?b\<lparr>bb_start := 2\<rparr>)"
    by (simp add: ByteBuffer_Consume_def ByteBuffer_Length_def ByteBuffer_of_order_def ByteBuffer_Construct_def)
  then have r: "bb_reachable (?b\<lparr>bb_start := 2\<rparr>) [GetReadPosition ?b]"
    using bb_reachable.consume [OF bb_reachable.save [OF bb_reachable.wrap]] by blast
  show ?thesis
    using bytebuffer_reachable_inv [OF r] r restore by (simp add: Let_def)
qed

text \<open>C13: Whatever chunks are written and whatever sizes are asked for, the bytes read, followed by the
  bytes still in the buffer, are the bytes written, in order; and no read fails while enough
  bytes are left.\<close>

theorem bytebuffer_stream:
  assumes "bb_inv b" and "sum_list ns \<le> length (bb_contents b) + length (concat xss)"
  shows "\<exists>rs t. bbq.get_all ns (fold WriteBytes xss b) = Some (rs, t) \<and> map length rs = ns \<and>
           bb_inv t \<and> concat rs @ bb_contents t = bb_contents b @ concat xss"
  using bbq.put_all [OF assms(1), of xss] bbq.get_all_stream [of "fold WriteBytes xss b" ns] assms(2)
  by simp

theorem bytebuffer_stream_witness:
  "\<exists>rs t. bbq.get_all [2, 1] (fold WriteBytes [[1], [2, 3, 4]] ByteBuffer_new) = Some (rs, t) \<and>
     map length rs = [2, 1] \<and> bb_inv t \<and> concat rs @ bb_contents t = [1, 2, 3, 4]"
  using bytebuffer_stream [of ByteBuffer_new "[2, 1]" "[[1], [2, 3, 4]]"] by simp

text \<open>C28: Integers of every width written in network order on a host of one byte order and read on a
  host of any byte order have the values written (24-bit fields keep the low 24 bits).\<close>

theorem bytebuffer_portable_roundtrip:
  "Option.bind (ReadUInt8 h2 (ByteBuffer_of (bb_contents
       (WriteUInt64 h1 e (WriteUInt32 h1 d (WriteUInt24 h1 c (WriteUInt16 h1 b (WriteUInt8 h1 a ByteBuffer_new))))))))
     (\<lambda>(a', r). Option.bind (ReadUInt16 h2 r)
     (\<lambda>(b', r). Option.bind (ReadUInt24 h2 r)
     (\<lambda>(c', r). Option.bind (ReadUInt32 h2 r)
     (\<lambda>(d', r). Option.bind (ReadUInt64 h2 r)
     (\<lambda>(e', r). Some (a', b', c', d', e', bb_contents r))))))
   = Some (a, b, take_bit 24 c, d, e, [])"
proof -
  let ?w = "WriteUInt64 h1 e (WriteUInt32 h1 d (WriteUInt24 h1 c (WriteUInt16 h1 b (WriteUInt8 h1 a ByteBuffer_new))))"
  have w: "bb_contents ?w = [a] @ be_bytes 2 b @ be_bytes 3 c @ be_bytes 4 d @ be_bytes 8 e"
    by (simp add: buf_simps inv_intros)
  have c0: "bb_contents (ByteBuffer_of (bb_contents ?w)) = [a] @ be_bytes 2 b @ be_bytes 3 c @ be_bytes 4 d @ be_bytes 8 e"
    by (simp only: w bb_contents_of)
  obtain r1 where 1: "ReadUInt8 h2 (ByteBuffer_of (bb_contents ?w)) = Some (be_word [a], r1)" "bb_net r1"
    "bb_contents r1 = be_bytes 2 b @ be_bytes 3 c @ be_bytes 4 d @ be_bytes 8 e"
    by (rule bb_readsD [OF bb_reads_ReadUInt(1) [of h2] bb_net_of c0]) simp_all
  obtain r2 where 2: "ReadUInt16 h2 r1 = Some (be_word (be_bytes 2 b), r2)" "bb_net r2"
    "bb_contents r2 = be_bytes 3 c @ be_bytes 4 d @ be_bytes 8 e"
    by (rule bb_readsD [OF bb_reads_ReadUInt(2) [of h2] 1(2,3)]) simp_all
  obtain r3 where 3: "ReadUInt24 h2 r2 = Some (be_word (be_bytes 3 c), r3)" "bb_net r3"
    "bb_contents r3 = be_bytes 4 d @ be_bytes 8 e"
    by (rule bb_readsD [OF bb_reads_ReadUInt24 [of h2] 2(2,3)]) simp_all
  obtain r4 where 4: "ReadUInt32 h2 r3 = Some (be_word (be_bytes 4 d), r4)" "bb_net r4"
    "bb_contents r4 = be_bytes 8 e"
    by (rule bb_readsD [OF bb_reads_ReadUInt(3) [of h2] 3(2,3)]) simp_all
  obtain r5 where 5: "ReadUInt64 h2 r4 = Some (be_word (be_bytes 8 e), r5)" "bb_net r5" "bb_contents r5 = []"
    by (rule bb_readsD [OF bb_reads_ReadUInt(4) [of h2] 4(2), of "be_bytes 8 e"]) (simp_all add: 4(3))
  show ?thesis
    by (simp add: 1(1) 2(1) 3(1) 4(1) 5 be_word_be_bytes_take_bit take_bit_word_eq_self)
qed

end
