(* ===== verification/Pseudo_Tcp_Out.thy ===== *)
theory Pseudo_Tcp_Out
  imports Byte_Buffer Fifo_Buffer Time_Utils "HOL-Library.Monad_Syntax"
begin

text \<open>
  The sending half of \<^verbatim>\<open>cricket::PseudoTcp\<close> (\<^verbatim>\<open>webrtc/p2p/base/pseudotcp.{h,cc}\<close>): the control block,
  the queue of segments, the packet writer, the retransmission with path-MTU reduction, and the
  send loop. A method is a function from the control block to \<open>option\<close>: \<open>None\<close> is a failed \<^verbatim>\<open>ASSERT\<close>,
  an access outside a buffer or a list, or an undefined shift or division. \<open>h\<close> is the byte order of
  the host, \<open>clk\<close> the value of \<^verbatim>\<open>Now()\<close> during the call, and \<open>net\<close> the notify object's
  \<^verbatim>\<open>TcpWritePacket\<close>: its answer may depend on everything sent so far. All calls on the notify object
  are recorded, in order, in \<open>m_notify\<close>; the notify object is not null and does not call back.
\<close>

section \<open>Constants and data\<close>

definition PACKET_MAXIMUMS :: "uint32 list" where
  "PACKET_MAXIMUMS = [65535, 32000, 17914, 8166, 4352, 2002, 1492, 1006, 508, 296, 0]"

abbreviation MAX_PACKET :: uint32 where "MAX_PACKET \<equiv> 65535"
abbreviation MIN_PACKET :: uint32 where "MIN_PACKET \<equiv> 296"
abbreviation IP_HEADER_SIZE :: uint32 where "IP_HEADER_SIZE \<equiv> 20"
abbreviation UDP_HEADER_SIZE :: uint32 where "UDP_HEADER_SIZE \<equiv> 8"
abbreviation JINGLE_HEADER_SIZE :: uint32 where "JINGLE_HEADER_SIZE \<equiv> 64"
abbreviation DEFAULT_RCV_BUF_SIZE :: uint32 where "DEFAULT_RCV_BUF_SIZE \<equiv> 60 * 1024"
abbreviation DEFAULT_SND_BUF_SIZE :: uint32 where "DEFAULT_SND_BUF_SIZE \<equiv> 90 * 1024"
abbreviation HEADER_SIZE :: uint32 where "HEADER_SIZE \<equiv> 24"
abbreviation PACKET_OVERHEAD :: uint32 where
  "PACKET_OVERHEAD \<equiv> HEADER_SIZE + UDP_HEADER_SIZE + IP_HEADER_SIZE + JINGLE_HEADER_SIZE"
abbreviation MIN_RTO :: uint32 where "MIN_RTO \<equiv> 250"
abbreviation DEF_RTO :: uint32 where "DEF_RTO \<equiv> 3000"
abbreviation MAX_RTO :: uint32 where "MAX_RTO \<equiv> 60000"
abbreviation DEF_ACK_DELAY :: uint32 where "DEF_ACK_DELAY \<equiv> 100"
abbreviation FLAG_CTL :: uint8 where "FLAG_CTL \<equiv> 2"
abbreviation FLAG_RST :: uint8 where "FLAG_RST \<equiv> 4"
abbreviation CTL_CONNECT :: uint8 where "CTL_CONNECT \<equiv> 0"
abbreviation TCP_OPT_EOL :: uint8 where "TCP_OPT_EOL \<equiv> 0"
abbreviation TCP_OPT_NOOP :: uint8 where "TCP_OPT_NOOP \<equiv> 1"
abbreviation TCP_OPT_MSS :: uint8 where "TCP_OPT_MSS \<equiv> 2"
abbreviation TCP_OPT_WND_SCALE :: uint8 where "TCP_OPT_WND_SCALE \<equiv> 3"
abbreviation DEFAULT_TIMEOUT :: int where "DEFAULT_TIMEOUT \<equiv> 4000"
abbreviation CLOSED_TIMEOUT :: int where "CLOSED_TIMEOUT \<equiv> 60 * 1000"

definition long_to_bytes :: "bool \<Rightarrow> uint32 \<Rightarrow> bytes" where
  "long_to_bytes h val = host_bytes h 4 (HostToNetwork32 h val)"

definition short_to_bytes :: "bool \<Rightarrow> uint16 \<Rightarrow> bytes" where
  "short_to_bytes h val = host_bytes h 2 (HostToNetwork16 h val)"

definition bytes_to_long :: "bool \<Rightarrow> bytes \<Rightarrow> uint32" where
  "bytes_to_long h buf = NetworkToHost32 h (host_word h (take 4 buf))"

definition bytes_to_short :: "bool \<Rightarrow> bytes \<Rightarrow> uint16" where
  "bytes_to_short h buf = NetworkToHost16 h (host_word h (take 2 buf))"

definition bound :: "uint32 \<Rightarrow> uint32 \<Rightarrow> uint32 \<Rightarrow> uint32" where
  "bound lower middle upper = min (max lower middle) upper"

datatype TcpState = TCP_LISTEN | TCP_SYN_SENT | TCP_SYN_RECEIVED | TCP_ESTABLISHED | TCP_CLOSED

datatype WriteResult = WR_SUCCESS | WR_TOO_LARGE | WR_FAIL

datatype SendFlags = sfNone | sfDelayedAck | sfImmediateAck

datatype Shutdown = SD_NONE | SD_GRACEFUL | SD_FORCEFUL

datatype TcpError = ENONE | EINVAL | ENOTCONN | EWOULDBLOCK | ECONNABORTED | ECONNRESET

text \<open>The calls of \<^verbatim>\<open>IPseudoTcpNotify\<close>.\<close>

datatype IPseudoTcpNotify =
    OnTcpOpen
  | OnTcpReadable
  | OnTcpWriteable
  | OnTcpClosed TcpError
  | TcpWritePacket bytes

type_synonym network = "IPseudoTcpNotify list \<Rightarrow> bytes \<Rightarrow> WriteResult"

record SSegment =
  ss_seq :: uint32
  ss_len :: uint32
  ss_xmit :: uint8
  ss_bCtrl :: bool

record RSegment =
  rs_seq :: uint32
  rs_len :: uint32

record PseudoTcp =
  m_notify :: "IPseudoTcpNotify list"
  m_shutdown :: Shutdown
  m_error :: TcpError
  m_state :: TcpState
  m_conv :: uint32
  m_bReadEnable :: bool
  m_bWriteEnable :: bool
  m_bOutgoing :: bool
  m_lasttraffic :: uint32
  m_rlist :: "RSegment list"
  m_rbuf_len :: uint32
  m_rcv_nxt :: uint32
  m_rcv_wnd :: uint32
  m_lastrecv :: uint32
  m_rwnd_scale :: uint8
  m_rbuf :: FifoBuffer
  m_slist :: "SSegment list"
  m_sbuf_len :: uint32
  m_snd_nxt :: uint32
  m_snd_wnd :: uint32
  m_lastsend :: uint32
  m_snd_una :: uint32
  m_swnd_scale :: uint8
  m_sbuf :: FifoBuffer
  m_mss :: uint32
  m_msslevel :: nat
  m_largest :: uint32
  m_mtu_advise :: uint32
  m_rto_base :: uint32
  m_ts_recent :: uint32
  m_ts_lastack :: uint32
  m_rx_rttvar :: uint32
  m_rx_srtt :: uint32
  m_rx_rto :: uint32
  m_ssthresh :: uint32
  m_cwnd :: uint32
  m_dup_acks :: uint8
  m_recover :: uint32
  m_t_ack :: uint32
  m_use_nagling :: bool
  m_ack_delay :: uint32
  m_support_wnd_scale :: bool

definition SSegment_new :: "uint32 \<Rightarrow> uint32 \<Rightarrow> bool \<Rightarrow> SSegment" where
  "SSegment_new s l c = \<lparr>ss_seq = s, ss_len = l, ss_xmit = 0, ss_bCtrl = c\<rparr>"

definition notify :: "IPseudoTcpNotify \<Rightarrow> PseudoTcp \<Rightarrow> PseudoTcp" where
  "notify ev t = t\<lparr>m_notify := m_notify t @ [ev]\<rparr>"

definition closedown :: "TcpError \<Rightarrow> PseudoTcp \<Rightarrow> PseudoTcp" where
  "closedown err t = notify (OnTcpClosed err) (t\<lparr>m_state := TCP_CLOSED\<rparr>)"

text \<open>A shift of a 32-bit value by 32 or more is undefined.\<close>

definition shift_left32 :: "uint32 \<Rightarrow> uint8 \<Rightarrow> uint32 option" where
  "shift_left32 x n = (if n < 32 then Some (push_bit (unat n) x) else None)"

definition shift_right32 :: "uint32 \<Rightarrow> uint8 \<Rightarrow> uint32 option" where
  "shift_right32 x n = (if n < 32 then Some (drop_bit (unat n) x) else None)"

section \<open>Writing a packet\<close>

definition packet_header :: "bool \<Rightarrow> uint32 \<Rightarrow> uint32 \<Rightarrow> uint32 \<Rightarrow> uint8 \<Rightarrow> uint16 \<Rightarrow> uint32 \<Rightarrow> uint32 \<Rightarrow> bytes" where
  "packet_header h conv seq ack flags wnd ts tsr =
     long_to_bytes h conv @ long_to_bytes h seq @ long_to_bytes h ack @ [0, flags] @
     short_to_bytes h wnd @ long_to_bytes h ts @ long_to_bytes h tsr"

definition packet_payload :: "uint32 \<Rightarrow> uint32 \<Rightarrow> PseudoTcp \<Rightarrow> bytes option" where
  "packet_payload offset len t =
     (if len \<noteq> 0 then
        case ReadOffset (unat len) (unat offset) (m_sbuf t) of (result, data) \<Rightarrow> do {
          assert_opt (result = SR_SUCCESS);
          assert_opt (length data = unat len);
          Some data }
      else Some [])"

definition packet :: "bool \<Rightarrow> network \<Rightarrow> uint32 \<Rightarrow> uint32 \<Rightarrow> uint8 \<Rightarrow> uint32 \<Rightarrow> uint32 \<Rightarrow> PseudoTcp
    \<Rightarrow> (WriteResult \<times> PseudoTcp) option" where
  "packet h net clk seq flags offset len t = do {
     assert_opt (HEADER_SIZE + len \<le> MAX_PACKET);
     wnd \<leftarrow> shift_right32 (m_rcv_wnd t) (m_rwnd_scale t);
     let header = packet_header h (m_conv t) seq (m_rcv_nxt t) flags (ucast wnd) clk (m_ts_recent t);
     let t = t\<lparr>m_ts_lastack := m_rcv_nxt t\<rparr>;
     payload \<leftarrow> packet_payload offset len t;
     let buffer = header @ payload;
     let wres = net (m_notify t) buffer;
     let t = notify (TcpWritePacket buffer) t;
     if wres \<noteq> WR_SUCCESS \<and> len \<noteq> 0 then Some (wres, t)
     else Some (WR_SUCCESS,
       t\<lparr>m_t_ack := 0, m_lastsend := (if len > 0 then clk else m_lastsend t), m_lasttraffic := clk,
         m_bOutgoing := True\<rparr>) }"

lemma packet_preserves:
  assumes "packet h net clk seq flags offset len t = Some (wres, t')"
  shows "m_slist t' = m_slist t" "m_msslevel t' = m_msslevel t" "m_mss t' = m_mss t"
  using assms by (auto simp: packet_def notify_def Let_def split: Option.bind_splits if_splits)

section \<open>Transmitting a segment\<close>

text \<open>The inner loop of \<^verbatim>\<open>transmit\<close>: the next smaller path MTU; \<open>None\<close> in the result is \<^verbatim>\<open>MTU too small\<close>.\<close>

function reduce_mss :: "uint32 \<Rightarrow> PseudoTcp \<Rightarrow> (uint32 option \<times> PseudoTcp) option" where
  "reduce_mss nTransmit t =
     (if m_msslevel t + 1 \<ge> length PACKET_MAXIMUMS then None
      else if PACKET_MAXIMUMS ! (m_msslevel t + 1) = 0 then Some (None, t)
      else
        let mss = PACKET_MAXIMUMS ! (m_msslevel t + 1) - PACKET_OVERHEAD;
            t = t\<lparr>m_msslevel := m_msslevel t + 1, m_mss := mss, m_cwnd := 2 * mss\<rparr>
        in if m_mss t < nTransmit then Some (Some (m_mss t), t) else reduce_mss nTransmit t)"
  by pat_completeness auto
termination
  by (relation "measure (\<lambda>(n, t). length PACKET_MAXIMUMS - m_msslevel t)") (auto simp: PACKET_MAXIMUMS_def)

declare reduce_mss.simps [simp del]

lemma reduce_mss_level:
  "reduce_mss nTransmit t = Some (Some n, t') \<Longrightarrow> m_msslevel t < m_msslevel t' \<and> m_msslevel t' < length PACKET_MAXIMUMS"
proof (induction nTransmit t rule: reduce_mss.induct)
  case (1 nTransmit t)
  then show ?case
    by (subst (asm) (2) reduce_mss.simps) (fastforce simp: Let_def split: if_splits)
qed

text \<open>The outer loop: write the packet, and write it again in a smaller size when it was too large.\<close>

function transmit_loop :: "bool \<Rightarrow> network \<Rightarrow> uint32 \<Rightarrow> SSegment \<Rightarrow> uint32 \<Rightarrow> PseudoTcp
    \<Rightarrow> (uint32 option \<times> PseudoTcp) option" where
  "transmit_loop h net clk seg nTransmit t = do {
     (wres, t') \<leftarrow> packet h net clk (ss_seq seg) (if ss_bCtrl seg then FLAG_CTL else 0)
       (ss_seq seg - m_snd_una t) nTransmit t;
     (case wres of
        WR_SUCCESS \<Rightarrow> Some (Some nTransmit, t')
      | WR_FAIL \<Rightarrow> Some (None, t')
      | WR_TOO_LARGE \<Rightarrow> do {
          (r, t'') \<leftarrow> reduce_mss nTransmit t';
          (case r of None \<Rightarrow> Some (None, t'') | Some n \<Rightarrow> transmit_loop h net clk seg n t'') }) }"
  by pat_completeness auto
termination
  by (relation "measure (\<lambda>(h, net, clk, seg, n, t). length PACKET_MAXIMUMS - m_msslevel t)")
    (auto dest!: packet_preserves(2) reduce_mss_level)

declare transmit_loop.simps [simp del]

text \<open>
  \<^verbatim>\<open>transmit\<close> for the segment at index \<open>i\<close> of the list. A packet that was cut leaves the rest of its
  segment as a new segment behind it.
\<close>

definition transmit_done :: "nat \<Rightarrow> SSegment \<Rightarrow> uint32 \<Rightarrow> uint32 \<Rightarrow> PseudoTcp \<Rightarrow> PseudoTcp" where
  "transmit_done i seg nTransmit now t =
     (let subseg = \<lparr>ss_seq = ss_seq seg + nTransmit, ss_len = ss_len seg - nTransmit, ss_xmit = ss_xmit seg,
                    ss_bCtrl = ss_bCtrl seg\<rparr>;
          rest = (if nTransmit < ss_len seg then [subseg] else []);
          len = (if nTransmit < ss_len seg then nTransmit else ss_len seg);
          seg' = seg\<lparr>ss_len := len, ss_xmit := ss_xmit seg + 1\<rparr>
      in t\<lparr>m_slist := take i (m_slist t) @ [seg'] @ rest @ drop (Suc i) (m_slist t),
           m_snd_nxt := (if ss_xmit seg = 0 then m_snd_nxt t + len else m_snd_nxt t),
           m_rto_base := (if m_rto_base t = 0 then now else m_rto_base t)\<rparr>)"

definition transmit :: "bool \<Rightarrow> network \<Rightarrow> uint32 \<Rightarrow> nat \<Rightarrow> uint32 \<Rightarrow> PseudoTcp \<Rightarrow> (bool \<times> PseudoTcp) option" where
  "transmit h net clk i now t = do {
     assert_opt (i < length (m_slist t));
     let seg = m_slist t ! i;
     if ss_xmit seg \<ge> (if m_state t = TCP_ESTABLISHED then 15 else 30) then Some (False, t)
     else do {
       (r, t') \<leftarrow> transmit_loop h net clk seg (min (ss_len seg) (m_mss t)) t;
       (case r of None \<Rightarrow> Some (False, t') | Some n \<Rightarrow> Some (True, transmit_done i seg n now t')) } }"

section \<open>The send loop\<close>

text \<open>The bytes that \<^verbatim>\<open>attemptSend\<close> may put into the next segment.\<close>

definition send_window :: "PseudoTcp \<Rightarrow> uint32" where
  "send_window t =
     (let cwnd = (if m_dup_acks t = 1 \<or> m_dup_acks t = 2 then m_cwnd t + ucast (m_dup_acks t) * m_mss t else m_cwnd t)
      in min (m_snd_wnd t) cwnd)"

definition send_available :: "PseudoTcp \<Rightarrow> uint32" where
  "send_available t =
     (let nWindow = send_window t;
          nInFlight = m_snd_nxt t - m_snd_una t;
          nUseable = (if nInFlight < nWindow then nWindow - nInFlight else 0);
          nAvailable = min (of_nat (GetBuffered (m_sbuf t)) - nInFlight) (m_mss t)
      in if nAvailable > nUseable then (if nUseable * 4 < nWindow then 0 else nUseable) else nAvailable)"

definition send_ack :: "bool \<Rightarrow> network \<Rightarrow> uint32 \<Rightarrow> SendFlags \<Rightarrow> PseudoTcp \<Rightarrow> PseudoTcp option" where
  "send_ack h net clk sflags t =
     (if sflags = sfNone then Some t
      else if sflags = sfImmediateAck \<or> m_t_ack t \<noteq> 0 then map_option snd (packet h net clk (m_snd_nxt t) 0 0 0 t)
      else Some (t\<lparr>m_t_ack := clk\<rparr>))"

definition first_unsent :: "PseudoTcp \<Rightarrow> nat" where
  "first_unsent t = length (takeWhile (\<lambda>s. ss_xmit s > 0) (m_slist t))"

definition split_segment :: "nat \<Rightarrow> uint32 \<Rightarrow> PseudoTcp \<Rightarrow> PseudoTcp" where
  "split_segment i n t =
     (let seg = m_slist t ! i in
      if ss_len seg > n then
        t\<lparr>m_slist := take i (m_slist t) @
            [seg\<lparr>ss_len := n\<rparr>, SSegment_new (ss_seq seg + n) (ss_len seg - n) (ss_bCtrl seg)] @
            drop (Suc i) (m_slist t)\<rparr>
      else t)"

text \<open>One round of the loop: \<open>Inl\<close> is a return, \<open>Inr\<close> another round.\<close>

definition send_step :: "bool \<Rightarrow> network \<Rightarrow> uint32 \<Rightarrow> SendFlags \<Rightarrow> PseudoTcp \<Rightarrow> (PseudoTcp + PseudoTcp) option" where
  "send_step h net clk sflags t =
     (let nAvailable = send_available t in
      if nAvailable = 0 then map_option Inl (send_ack h net clk sflags t)
      else if m_use_nagling t \<and> m_snd_nxt t > m_snd_una t \<and> nAvailable < m_mss t then Some (Inl t)
      else do {
        let i = first_unsent t;
        assert_opt (i < length (m_slist t));
        (ok, t') \<leftarrow> transmit h net clk i clk (split_segment i nAvailable t);
        Some (if ok then Inr t' else Inl t') })"

definition unsent_size :: "SSegment list \<Rightarrow> nat" where
  "unsent_size segs = (\<Sum>s\<leftarrow>segs. if ss_xmit s = 0 then 2 * unat (ss_len s) + 1 else 0)"

lemma unsent_size_append [simp]: "unsent_size (xs @ ys) = unsent_size xs + unsent_size ys"
  by (simp add: unsent_size_def)

lemma unsent_size_Cons [simp]:
  "unsent_size (s # ss) = (if ss_xmit s = 0 then 2 * unat (ss_len s) + 1 else 0) + unsent_size ss"
  by (simp add: unsent_size_def)

lemma unsent_size_Nil [simp]: "unsent_size [] = 0"
  by (simp add: unsent_size_def)

lemma mss_positive:
  assumes "0 < j" and "j < length PACKET_MAXIMUMS" and "PACKET_MAXIMUMS ! j \<noteq> 0"
  shows "0 < PACKET_MAXIMUMS ! j - PACKET_OVERHEAD"
proof -
  have "j \<in> set [1..<11]" using assms(1,2) by (auto simp: PACKET_MAXIMUMS_def)
  then have "j \<in> {1, 2, 3, 4, 5, 6, 7, 8, 9, 10}" by (simp add: upt_rec numeral_eq_Suc)
  with assms(3) show ?thesis by (auto simp: PACKET_MAXIMUMS_def)
qed

lemma reduce_mss_smaller:
  "reduce_mss nTransmit t = Some (r, t') \<Longrightarrow> m_slist t' = m_slist t \<and> (\<forall>n. r = Some n \<longrightarrow> 0 < n \<and> n < nTransmit)"
proof (induction nTransmit t rule: reduce_mss.induct)
  case (1 nTransmit t)
  let ?j = "m_msslevel t + 1"
  note eq = "1.prems" [unfolded reduce_mss.simps [of nTransmit t]]
  show ?case
  proof (cases "?j < length PACKET_MAXIMUMS \<and> PACKET_MAXIMUMS ! ?j \<noteq> 0")
    case True
    define mss where "mss = PACKET_MAXIMUMS ! ?j - PACKET_OVERHEAD"
    define t\<^sub>1 where "t\<^sub>1 = t\<lparr>m_msslevel := ?j, m_mss := mss, m_cwnd := 2 * mss\<rparr>"
    then have t\<^sub>1: "m_mss t\<^sub>1 = mss" by simp
    have j: "\<not> length PACKET_MAXIMUMS \<le> ?j" "PACKET_MAXIMUMS ! ?j \<noteq> 0" using True by auto
    have mss: "0 < mss" unfolding mss_def by (rule mss_positive) (use True in auto)
    have eq': "(if mss < nTransmit then Some (Some mss, t\<^sub>1) else reduce_mss nTransmit t\<^sub>1) = Some (r, t')"
      using eq j t\<^sub>1 unfolding Let_def mss_def [symmetric] t\<^sub>1_def [symmetric] by (simp split: if_splits)
    show ?thesis
    proof (cases "mss < nTransmit")
      case True
      with eq' mss show ?thesis by (auto simp: t\<^sub>1_def)
    next
      case False
      with eq' have "reduce_mss nTransmit t\<^sub>1 = Some (r, t')" by simp
      with False "1.IH" [OF j mss_def, of t\<^sub>1] show ?thesis by (simp add: t\<^sub>1_def)
    qed
  next
    case False
    with eq show ?thesis by (auto split: if_splits)
  qed
qed

lemma transmit_loop_smaller:
  "transmit_loop h net clk seg nTransmit t = Some (r, t') \<Longrightarrow>
   m_slist t' = m_slist t \<and> (\<forall>n. r = Some n \<longrightarrow> n = nTransmit \<or> 0 < n \<and> n < nTransmit)"
proof (induction h net clk seg nTransmit t rule: transmit_loop.induct)
  case (1 h net clk seg nTransmit t)
  note eq = "1.prems" [unfolded transmit_loop.simps [of h net clk seg nTransmit t]]
  from eq obtain wres t\<^sub>1 where p: "packet h net clk (ss_seq seg) (if ss_bCtrl seg then FLAG_CTL else 0)
       (ss_seq seg - m_snd_una t) nTransmit t = Some (wres, t\<^sub>1)"
    by (auto split: Option.bind_splits)
  note slist = packet_preserves(1) [OF p]
  show ?case
  proof (cases wres)
    case WR_TOO_LARGE
    with eq p obtain r\<^sub>2 t\<^sub>2 where r: "reduce_mss nTransmit t\<^sub>1 = Some (r\<^sub>2, t\<^sub>2)"
      by (auto split: Option.bind_splits)
    note smaller = reduce_mss_smaller [OF r]
    show ?thesis
    proof (cases r\<^sub>2)
      case None
      with eq p WR_TOO_LARGE r smaller slist show ?thesis by simp
    next
      case (Some n)
      with eq p WR_TOO_LARGE r have "transmit_loop h net clk seg n t\<^sub>2 = Some (r, t')" by simp
      from "1.IH" [OF p refl WR_TOO_LARGE r refl Some this] smaller slist Some show ?thesis by auto
    qed
  qed (use eq p slist in auto)
qed

lemma transmit_True:
  assumes "transmit h net clk i now t = Some (True, t')"
  obtains n t\<^sub>1 where "i < length (m_slist t)" and "t' = transmit_done i (m_slist t ! i) n now t\<^sub>1"
    and "m_slist t\<^sub>1 = m_slist t" and "n = min (ss_len (m_slist t ! i)) (m_mss t) \<or> 0 < n \<and> n < ss_len (m_slist t ! i)"
    and "transmit_loop h net clk (m_slist t ! i) (min (ss_len (m_slist t ! i)) (m_mss t)) t = Some (Some n, t\<^sub>1)"
proof -
  let ?seg = "m_slist t ! i"
  from assms obtain n t\<^sub>1 where 1: "i < length (m_slist t)" "t' = transmit_done i ?seg n now t\<^sub>1"
    and 2: "transmit_loop h net clk ?seg (min (ss_len ?seg) (m_mss t)) t = Some (Some n, t\<^sub>1)"
    by (auto simp: transmit_def assert_opt_def Let_def split: Option.bind_splits if_splits option.splits)
  from transmit_loop_smaller [OF 2] 1 2 show thesis by (intro that [of n t\<^sub>1]) auto
qed

lemma unat_diff_less: "n < len \<Longrightarrow> unat (len - n) + unat n = unat (len :: uint32)"
  using unat_sub [of n len] unat_mono [of n len] by simp

lemma unsent_size_transmit_done:
  assumes "i < length segs" and "ss_xmit (segs ! i) = 0" and "m_slist t = segs" and "n \<le> ss_len (segs ! i)"
  shows "unsent_size (m_slist (transmit_done i (segs ! i) n now t)) + 2 * unat n + (if n = ss_len (segs ! i) then 1 else 0)
    = unsent_size segs"
proof -
  let ?seg = "segs ! i"
  have segs: "unsent_size segs = unsent_size (take i segs) + (2 * unat (ss_len ?seg) + 1) + unsent_size (drop (Suc i) segs)"
    using assms(1,2) by (subst id_take_nth_drop [of i segs]) simp_all
  show ?thesis
  proof (cases "n < ss_len ?seg")
    case True
    have "n \<noteq> ss_len ?seg" using True by simp
    with unat_diff_less [OF True] True assms(2,3) segs show ?thesis by (simp add: transmit_done_def Let_def)
  next
    case False
    with assms(2-4) segs show ?thesis by (simp add: transmit_done_def Let_def)
  qed
qed

lemma split_segment_at:
  fixes n :: uint32
  assumes "i < length (m_slist t)" and "ss_xmit (m_slist t ! i) = 0"
  defines "t' \<equiv> split_segment i n t"
  shows "i < length (m_slist t')" and "ss_xmit (m_slist t' ! i) = 0" and "ss_len (m_slist t' ! i) = min n (ss_len (m_slist t ! i))"
    and "unsent_size (m_slist t') = unsent_size (m_slist t) + (if n < ss_len (m_slist t ! i) then 1 else 0)"
    and "m_mss t' = m_mss t"
proof -
  let ?seg = "m_slist t ! i"
  have segs: "unsent_size (m_slist t) = unsent_size (take i (m_slist t)) + (2 * unat (ss_len ?seg) + 1) + unsent_size (drop (Suc i) (m_slist t))"
    using assms(1,2) by (subst id_take_nth_drop [of i "m_slist t"]) simp_all
  show "i < length (m_slist t')" "ss_xmit (m_slist t' ! i) = 0" "ss_len (m_slist t' ! i) = min n (ss_len ?seg)" "m_mss t' = m_mss t"
    using assms(1,2) by (auto simp: t'_def split_segment_def Let_def nth_append min_def)
  show "unsent_size (m_slist t') = unsent_size (m_slist t) + (if n < ss_len ?seg then 1 else 0)"
  proof (cases "n < ss_len ?seg")
    case True
    with unat_diff_less [OF True] assms(2) segs show ?thesis
      by (simp add: t'_def split_segment_def Let_def SSegment_new_def)
  next
    case False
    then show ?thesis by (simp add: t'_def split_segment_def Let_def)
  qed
qed

lemma first_unsent_xmit: "first_unsent t < length (m_slist t) \<Longrightarrow> ss_xmit (m_slist t ! first_unsent t) = 0"
  unfolding first_unsent_def using nth_length_takeWhile [of "\<lambda>s. ss_xmit s > 0" "m_slist t"]
  by (simp add: word_neq_0_conv [symmetric] del: word_neq_0_conv)

lemma send_available_le: "send_available t \<le> m_mss t"
  by (auto simp: send_available_def Let_def min_def not_less)

lemma send_step_decreases:
  assumes "send_step h net clk sflags t = Some (Inr t')"
  shows "unsent_size (m_slist t') < unsent_size (m_slist t)"
proof -
  let ?A = "send_available t" and ?i = "first_unsent t"
  define s where "s = split_segment ?i ?A t"
  from assms have A: "?A \<noteq> 0" and i: "?i < length (m_slist t)" and tr: "transmit h net clk ?i clk s = Some (True, t')"
    by (auto simp: send_step_def Let_def assert_opt_def s_def split: if_splits Option.bind_splits)
  note at = split_segment_at [OF i first_unsent_xmit [OF i], of ?A, folded s_def]
  from tr obtain n t\<^sub>1 where t': "t' = transmit_done ?i (m_slist s ! ?i) n clk t\<^sub>1" and t\<^sub>1: "m_slist t\<^sub>1 = m_slist s"
    and n: "n = min (ss_len (m_slist s ! ?i)) (m_mss s) \<or> 0 < n \<and> n < ss_len (m_slist s ! ?i)" by (rule transmit_True)
  have mss: "ss_len (m_slist s ! ?i) \<le> m_mss s"
    unfolding at(3,5) using send_available_le [of t] by (simp add: min.coboundedI1)
  then have "n \<le> ss_len (m_slist s ! ?i)" using n by (auto simp: min.absorb1)
  note sent = unsent_size_transmit_done [OF at(1,2) t\<^sub>1 this, of clk, folded t']
  have pos: "0 < unat n" if "?A < ss_len (m_slist t ! ?i) \<or> n \<noteq> ss_len (m_slist s ! ?i)"
    using that n mss A at(3) by (auto simp: min.absorb1 unat_gt_0)
  show ?thesis using sent at(4) pos by (auto split: if_splits)
qed

function attemptSend_loop :: "bool \<Rightarrow> network \<Rightarrow> uint32 \<Rightarrow> SendFlags \<Rightarrow> PseudoTcp \<Rightarrow> PseudoTcp option" where
  "attemptSend_loop h net clk sflags t = do {
     r \<leftarrow> send_step h net clk sflags t;
     (case r of Inl t' \<Rightarrow> Some t' | Inr t' \<Rightarrow> attemptSend_loop h net clk sfNone t') }"
  by pat_completeness auto
termination
  by (relation "measure (\<lambda>(h, net, clk, sflags, t). unsent_size (m_slist t))") (auto dest: send_step_decreases)

declare attemptSend_loop.simps [simp del]

definition attemptSend :: "bool \<Rightarrow> network \<Rightarrow> uint32 \<Rightarrow> SendFlags \<Rightarrow> PseudoTcp \<Rightarrow> PseudoTcp option" where
  "attemptSend h net clk sflags t =
     (let t = (if TimeDiff clk (m_lastsend t) > uint (m_rx_rto t) then t\<lparr>m_cwnd := m_mss t\<rparr> else t)
      in attemptSend_loop h net clk sflags t)"

end
