(* ===== verification/Pseudo_Tcp.thy ===== *)
theory Pseudo_Tcp
  imports Pseudo_Tcp_Out
begin

text \<open>
  The rest of \<^verbatim>\<open>cricket::PseudoTcp\<close>: construction, options, the connect message, the processing of a
  received segment in the order of the code, and the interface to the application and the network.
  The conventions are those of \<^verbatim>\<open>Pseudo_Tcp_Out\<close>.
\<close>

section \<open>Construction and buffers\<close>

definition PseudoTcp_new :: "uint32 \<Rightarrow> uint32 \<Rightarrow> PseudoTcp" where
  "PseudoTcp_new conv now = \<lparr>
     m_notify = [], m_shutdown = SD_NONE, m_error = ENONE,
     m_state = TCP_LISTEN, m_conv = conv, m_bReadEnable = True, m_bWriteEnable = False, m_bOutgoing = False,
     m_lasttraffic = now,
     m_rlist = [], m_rbuf_len = DEFAULT_RCV_BUF_SIZE, m_rcv_nxt = 0, m_rcv_wnd = DEFAULT_RCV_BUF_SIZE,
     m_lastrecv = now, m_rwnd_scale = 0, m_rbuf = FifoBuffer_new (unat DEFAULT_RCV_BUF_SIZE),
     m_slist = [], m_sbuf_len = DEFAULT_SND_BUF_SIZE, m_snd_nxt = 0, m_snd_wnd = 1, m_lastsend = now,
     m_snd_una = 0, m_swnd_scale = 0, m_sbuf = FifoBuffer_new (unat DEFAULT_SND_BUF_SIZE),
     m_mss = MIN_PACKET - PACKET_OVERHEAD, m_msslevel = 0, m_largest = 0, m_mtu_advise = MAX_PACKET,
     m_rto_base = 0, m_ts_recent = 0, m_ts_lastack = 0, m_rx_rttvar = 0, m_rx_srtt = 0, m_rx_rto = DEF_RTO,
     m_ssthresh = DEFAULT_RCV_BUF_SIZE, m_cwnd = 2 * (MIN_PACKET - PACKET_OVERHEAD), m_dup_acks = 0,
     m_recover = 0, m_t_ack = 0, m_use_nagling = True, m_ack_delay = DEF_ACK_DELAY,
     m_support_wnd_scale = True\<rparr>"

definition resizeSendBuffer :: "uint32 \<Rightarrow> PseudoTcp \<Rightarrow> PseudoTcp" where
  "resizeSendBuffer new_size t = t\<lparr>m_sbuf_len := new_size, m_sbuf := snd (SetCapacity (unat new_size) (m_sbuf t))\<rparr>"

function scale_window :: "uint8 \<Rightarrow> uint32 \<Rightarrow> uint8 \<times> uint32" where
  "scale_window scale_factor new_size =
     (if new_size > 0xFFFF then scale_window (scale_factor + 1) (drop_bit 1 new_size) else (scale_factor, new_size))"
  by pat_completeness auto
termination
  by (relation "measure (\<lambda>(s, n). unat n)") (auto simp: drop_bit_eq_div unat_div word_less_nat_alt)

declare scale_window.simps [simp del]

definition resizeReceiveBuffer :: "uint32 \<Rightarrow> PseudoTcp \<Rightarrow> PseudoTcp option" where
  "resizeReceiveBuffer new_size t = do {
     let (scale_factor, size') = scale_window 0 new_size;
     size'' \<leftarrow> shift_left32 size' scale_factor;
     let (result, rbuf) = SetCapacity (unat size'') (m_rbuf t);
     assert_opt result;
     Some (t\<lparr>m_rbuf := rbuf, m_rbuf_len := size'', m_rwnd_scale := scale_factor, m_ssthresh := size'',
             m_rcv_wnd := of_nat (GetWriteRemaining rbuf)\<rparr>) }"

definition isReceiveBufferFull :: "PseudoTcp \<Rightarrow> bool" where
  "isReceiveBufferFull t \<longleftrightarrow> GetWriteRemaining (m_rbuf t) = 0"

definition disableWindowScale :: "PseudoTcp \<Rightarrow> PseudoTcp" where
  "disableWindowScale t = t\<lparr>m_support_wnd_scale := False\<rparr>"

section \<open>Options\<close>

datatype TcpOption = OPT_NODELAY | OPT_ACKDELAY | OPT_RCVBUF | OPT_SNDBUF

definition GetOption :: "TcpOption \<Rightarrow> PseudoTcp \<Rightarrow> int" where
  "GetOption opt t =
     (case opt of
        OPT_NODELAY \<Rightarrow> (if m_use_nagling t then 0 else 1)
      | OPT_ACKDELAY \<Rightarrow> sint (m_ack_delay t)
      | OPT_SNDBUF \<Rightarrow> sint (m_sbuf_len t)
      | OPT_RCVBUF \<Rightarrow> sint (m_rbuf_len t))"

definition SetOption :: "TcpOption \<Rightarrow> int \<Rightarrow> PseudoTcp \<Rightarrow> PseudoTcp option" where
  "SetOption opt val t =
     (case opt of
        OPT_NODELAY \<Rightarrow> Some (t\<lparr>m_use_nagling := (val = 0)\<rparr>)
      | OPT_ACKDELAY \<Rightarrow> Some (t\<lparr>m_ack_delay := of_int val\<rparr>)
      | OPT_SNDBUF \<Rightarrow> do { assert_opt (m_state t = TCP_LISTEN); Some (resizeSendBuffer (of_int val) t) }
      | OPT_RCVBUF \<Rightarrow> do { assert_opt (m_state t = TCP_LISTEN); resizeReceiveBuffer (of_int val) t })"

definition applyWindowScaleOption :: "uint8 \<Rightarrow> PseudoTcp \<Rightarrow> PseudoTcp" where
  "applyWindowScaleOption scale_factor t = t\<lparr>m_swnd_scale := scale_factor\<rparr>"

definition applyOption :: "uint8 \<Rightarrow> bytes \<Rightarrow> nat \<Rightarrow> PseudoTcp \<Rightarrow> PseudoTcp" where
  "applyOption kind data len t =
     (if kind = TCP_OPT_MSS then t
      else if kind = TCP_OPT_WND_SCALE then
        (if len \<noteq> 1 then t else applyWindowScaleOption (data ! 0) t)
      else t)"

text \<open>
  The loop of \<^verbatim>\<open>parseOptions\<close>; the result is the kinds that were applied, or \<open>None\<close> after an option
  whose length runs over the end, where the method returns.
\<close>

definition read_octet :: "bool \<Rightarrow> uint8 \<Rightarrow> ByteBuffer \<Rightarrow> uint8 \<times> ByteBuffer" where
  "read_octet h v0 b = (case ReadUInt8 h b of Some (v, b') \<Rightarrow> (v, b') | None \<Rightarrow> (v0, b))"

lemma read_octet_Length:
  "read_octet h d b = (v, b') \<Longrightarrow> ByteBuffer_Length b' = ByteBuffer_Length b - 1"
  by (auto simp: read_octet_def ReadUInt8_def ReadBytes_def ByteBuffer_Length_def Let_def
      split: option.splits if_splits prod.splits)

lemma ByteBuffer_Length_advance [simp]:
  "ByteBuffer_Length (b\<lparr>bb_start := bb_start b + k\<rparr>) = ByteBuffer_Length b - k"
  by (simp add: ByteBuffer_Length_def)

function parse_options_loop :: "bool \<Rightarrow> nat \<Rightarrow> ByteBuffer \<Rightarrow> uint8 list \<Rightarrow> PseudoTcp
    \<Rightarrow> (uint8 list option \<times> PseudoTcp) option" where
  "parse_options_loop h len buf specified t =
     (if ByteBuffer_Length buf = 0 then Some (Some specified, t)
      else case read_octet h TCP_OPT_EOL buf of (kind, buf1) \<Rightarrow>
        if kind = TCP_OPT_EOL then Some (Some specified, t)
        else if kind = TCP_OPT_NOOP then parse_options_loop h len buf1 specified t
        else do {
          assert_opt (len \<noteq> 0);
          (case read_octet h 0 buf1 of (opt_len, buf2) \<Rightarrow>
            if unat opt_len \<le> ByteBuffer_Length buf2 then
              let t = applyOption kind (ByteBuffer_Data buf2) (unat opt_len) t;
                  buf3 = (case ByteBuffer_Consume (unat opt_len) buf2 of Some b \<Rightarrow> b | None \<Rightarrow> buf2)
              in parse_options_loop h len buf3 (kind # specified) t
            else Some (None, t)) })"
  by pat_completeness auto
termination
  by (relation "measure (\<lambda>(h, len, buf, specified, t). ByteBuffer_Length buf)")
    (auto simp: ByteBuffer_Consume_def dest!: read_octet_Length read_octet_Length [OF sym] split: if_splits)

declare parse_options_loop.simps [simp del]

definition parseOptions :: "bool \<Rightarrow> bytes \<Rightarrow> PseudoTcp \<Rightarrow> PseudoTcp option" where
  "parseOptions h data t = do {
     (r, t) \<leftarrow> parse_options_loop h (length data) (ByteBuffer_of data) [] t;
     (case r of
        None \<Rightarrow> Some t
      | Some specified \<Rightarrow>
          if TCP_OPT_WND_SCALE \<notin> set specified \<and> m_rwnd_scale t > 0
          then map_option (\<lambda>t. t\<lparr>m_swnd_scale := 0\<rparr>) (resizeReceiveBuffer DEFAULT_RCV_BUF_SIZE t)
          else Some t) }"

section \<open>Queueing\<close>

definition queue :: "bytes \<Rightarrow> bool \<Rightarrow> PseudoTcp \<Rightarrow> (uint32 \<times> PseudoTcp) option" where
  "queue data bCtrl t = do {
     let available_space = GetWriteRemaining (m_sbuf t);
     let len0 = (of_nat (length data) :: uint32);
     assert_opt (len0 > of_nat available_space \<longrightarrow> \<not> bCtrl);
     let len = (if len0 > of_nat available_space then of_nat available_space else len0);
     let slist =
       (if m_slist t \<noteq> [] \<and> ss_bCtrl (last (m_slist t)) = bCtrl \<and> ss_xmit (last (m_slist t)) = 0
        then butlast (m_slist t) @ [last (m_slist t)\<lparr>ss_len := ss_len (last (m_slist t)) + len\<rparr>]
        else m_slist t @ [SSegment_new (m_snd_una t + of_nat (GetBuffered (m_sbuf t))) len bCtrl]);
     let (result, written, sbuf) = FifoBuffer_Write (take (unat len) data) (m_sbuf t);
     Some (of_nat written, t\<lparr>m_slist := slist, m_sbuf := sbuf\<rparr>) }"

definition connect_message :: "bool \<Rightarrow> PseudoTcp \<Rightarrow> ByteBuffer" where
  "connect_message h t =
     (let buf = WriteUInt8 h CTL_CONNECT (ByteBuffer_new_order ORDER_NETWORK) in
      if m_support_wnd_scale t
      then WriteUInt8 h (m_rwnd_scale t) (WriteUInt8 h 1 (WriteUInt8 h TCP_OPT_WND_SCALE buf))
      else buf)"

definition queueConnectMessage :: "bool \<Rightarrow> PseudoTcp \<Rightarrow> PseudoTcp option" where
  "queueConnectMessage h t =
     (let buf = connect_message h t;
          t = t\<lparr>m_snd_wnd := of_nat (ByteBuffer_Length buf)\<rparr>
      in map_option snd (queue (take (ByteBuffer_Length buf) (ByteBuffer_Data buf)) True t))"

fun mtu_level :: "nat \<Rightarrow> uint32 list \<Rightarrow> uint32 \<Rightarrow> nat" where
  "mtu_level k (m # m' # ms) advise = (if m' > 0 then (if m \<le> advise then k else mtu_level (k + 1) (m' # ms) advise) else k)"
| "mtu_level k ms advise = k"

definition adjustMTU :: "PseudoTcp \<Rightarrow> PseudoTcp" where
  "adjustMTU t =
     (let mss = m_mtu_advise t - PACKET_OVERHEAD
      in t\<lparr>m_msslevel := mtu_level 0 PACKET_MAXIMUMS (m_mtu_advise t), m_mss := mss,
           m_ssthresh := max (m_ssthresh t) (2 * mss), m_cwnd := max (m_cwnd t) mss\<rparr>)"

section \<open>Processing a segment\<close>

record Segment =
  sg_conv :: uint32
  sg_seq :: uint32
  sg_ack :: uint32
  sg_flags :: uint8
  sg_wnd :: uint16
  sg_data :: bytes
  sg_len :: uint32
  sg_tsval :: uint32
  sg_tsecr :: uint32

text \<open>Control data: \<open>Some bConnect\<close>, or \<open>None\<close> where \<^verbatim>\<open>process\<close> returns false.\<close>

definition process_control :: "bool \<Rightarrow> Segment \<Rightarrow> PseudoTcp \<Rightarrow> (bool option \<times> PseudoTcp) option" where
  "process_control h seg t =
     (if sg_flags seg AND FLAG_CTL \<noteq> 0 then
        if sg_len seg = 0 then Some (None, t)
        else if sg_data seg ! 0 = CTL_CONNECT then do {
          t \<leftarrow> parseOptions h (take (unat (sg_len seg - 1)) (drop 1 (sg_data seg))) t;
          t \<leftarrow> (if m_state t = TCP_LISTEN then queueConnectMessage h (t\<lparr>m_state := TCP_SYN_RECEIVED\<rparr>)
               else if m_state t = TCP_SYN_SENT then Some (notify OnTcpOpen (adjustMTU (t\<lparr>m_state := TCP_ESTABLISHED\<rparr>)))
               else Some t);
          Some (Some True, t) }
        else Some (None, t)
      else Some (Some False, t))"

definition process_timestamp :: "Segment \<Rightarrow> PseudoTcp \<Rightarrow> PseudoTcp" where
  "process_timestamp seg t =
     (if sg_seq seg \<le> m_ts_lastack t \<and> m_ts_lastack t < sg_seq seg + sg_len seg
      then t\<lparr>m_ts_recent := sg_tsval seg\<rparr> else t)"

definition update_rtt :: "uint32 \<Rightarrow> Segment \<Rightarrow> PseudoTcp \<Rightarrow> PseudoTcp option" where
  "update_rtt clk seg t =
     (if sg_tsecr seg = 0 then Some t
      else
        let rtt = TimeDiff clk (sg_tsecr seg) in
        if rtt \<ge> 0 then
          let unsigned_rtt = (of_int rtt :: uint32);
              t = (if m_rx_srtt t = 0 then t\<lparr>m_rx_srtt := unsigned_rtt, m_rx_rttvar := of_int (rtt div 2)\<rparr>
                   else
                     let abs_err = (if unsigned_rtt > m_rx_srtt t then unsigned_rtt - m_rx_srtt t
                                    else m_rx_srtt t - unsigned_rtt)
                     in t\<lparr>m_rx_rttvar := (3 * m_rx_rttvar t + abs_err) div 4,
                          m_rx_srtt := (7 * m_rx_srtt t + unsigned_rtt) div 8\<rparr>)
          in Some (t\<lparr>m_rx_rto := bound MIN_RTO (m_rx_srtt t + max 1 (4 * m_rx_rttvar t)) MAX_RTO\<rparr>)
        else None)"

fun free_segments :: "uint32 \<Rightarrow> SSegment list \<Rightarrow> uint32 \<Rightarrow> (SSegment list \<times> uint32) option" where
  "free_segments nFree [] largest = (if nFree = 0 then Some ([], largest) else None)"
| "free_segments nFree (s # ss) largest =
     (if nFree = 0 then Some (s # ss, largest)
      else if nFree < ss_len s then Some (s\<lparr>ss_len := ss_len s - nFree\<rparr> # ss, largest)
      else free_segments (nFree - ss_len s) ss (if ss_len s > largest then ss_len s else largest))"

text \<open>A valuable acknowledgement; \<open>False\<close> is the return after \<^verbatim>\<open>closedown\<close>.\<close>

definition take_ack :: "uint32 \<Rightarrow> Segment \<Rightarrow> PseudoTcp \<Rightarrow> PseudoTcp option" where
  "take_ack clk seg t = do {
     t \<leftarrow> update_rtt clk seg t;
     wnd \<leftarrow> shift_left32 (ucast (sg_wnd seg)) (m_swnd_scale t);
     let nAcked = sg_ack seg - m_snd_una t;
     sbuf \<leftarrow> ConsumeReadData (unat nAcked) (m_sbuf t);
     (slist, largest) \<leftarrow> free_segments nAcked (m_slist t) (m_largest t);
     Some (t\<lparr>m_snd_wnd := wnd, m_snd_una := sg_ack seg, m_rto_base := (if sg_ack seg = m_snd_nxt t then 0 else clk),
             m_sbuf := sbuf, m_slist := slist, m_largest := largest\<rparr>) }"

definition process_new_ack :: "bool \<Rightarrow> network \<Rightarrow> uint32 \<Rightarrow> Segment \<Rightarrow> PseudoTcp \<Rightarrow> (bool \<times> PseudoTcp) option" where
  "process_new_ack h net clk seg t = do {
     let nAcked = sg_ack seg - m_snd_una t;
     t \<leftarrow> take_ack clk seg t;
     if m_dup_acks t \<ge> 3 then
       if m_snd_una t \<ge> m_recover t then
         let nInFlight = m_snd_nxt t - m_snd_una t
         in Some (True, t\<lparr>m_cwnd := min (m_ssthresh t) (nInFlight + m_mss t), m_dup_acks := 0\<rparr>)
       else do {
         (ok, t) \<leftarrow> transmit h net clk 0 clk t;
         Some (if ok then (True, t\<lparr>m_cwnd := m_cwnd t + (m_mss t - min nAcked (m_cwnd t))\<rparr>)
               else (False, closedown ECONNABORTED t)) }
     else if m_cwnd t < m_ssthresh t then Some (True, t\<lparr>m_dup_acks := 0, m_cwnd := m_cwnd t + m_mss t\<rparr>)
     else do {
       assert_opt (m_cwnd t \<noteq> 0);
       Some (True, t\<lparr>m_dup_acks := 0, m_cwnd := m_cwnd t + max 1 (m_mss t * m_mss t div m_cwnd t)\<rparr>) } }"

definition process_dup_ack :: "bool \<Rightarrow> network \<Rightarrow> uint32 \<Rightarrow> Segment \<Rightarrow> PseudoTcp \<Rightarrow> (bool \<times> PseudoTcp) option" where
  "process_dup_ack h net clk seg t = do {
     wnd \<leftarrow> shift_left32 (ucast (sg_wnd seg)) (m_swnd_scale t);
     let t = t\<lparr>m_snd_wnd := wnd\<rparr>;
     if sg_len seg > 0 then Some (True, t)
     else if m_snd_una t \<noteq> m_snd_nxt t then
       let t = t\<lparr>m_dup_acks := m_dup_acks t + 1\<rparr> in
       if m_dup_acks t = 3 then do {
         (ok, t) \<leftarrow> transmit h net clk 0 clk t;
         let nInFlight = m_snd_nxt t - m_snd_una t;
         let ssthresh = max (nInFlight div 2) (2 * m_mss t);
         Some (if ok then (True, t\<lparr>m_recover := m_snd_nxt t, m_ssthresh := ssthresh, m_cwnd := ssthresh + 3 * m_mss t\<rparr>)
               else (False, closedown ECONNABORTED t)) }
       else if m_dup_acks t > 3 then Some (True, t\<lparr>m_cwnd := m_cwnd t + m_mss t\<rparr>)
       else Some (True, t)
     else Some (True, t\<lparr>m_dup_acks := 0\<rparr>) }"

definition process_ack :: "bool \<Rightarrow> network \<Rightarrow> uint32 \<Rightarrow> Segment \<Rightarrow> PseudoTcp \<Rightarrow> (bool \<times> PseudoTcp) option" where
  "process_ack h net clk seg t =
     (if sg_ack seg > m_snd_una t \<and> sg_ack seg \<le> m_snd_nxt t then process_new_ack h net clk seg t
      else if sg_ack seg = m_snd_una t then process_dup_ack h net clk seg t
      else Some (True, t))"

definition process_established :: "bool \<Rightarrow> PseudoTcp \<Rightarrow> PseudoTcp" where
  "process_established bConnect t =
     (if m_state t = TCP_SYN_RECEIVED \<and> \<not> bConnect
      then notify OnTcpOpen (adjustMTU (t\<lparr>m_state := TCP_ESTABLISHED\<rparr>)) else t)"

definition process_writeable :: "PseudoTcp \<Rightarrow> PseudoTcp" where
  "process_writeable t =
     (let kIdealRefillSize = (m_sbuf_len t + m_rbuf_len t) div 2
      in if m_bWriteEnable t \<and> of_nat (GetBuffered (m_sbuf t)) < kIdealRefillSize
         then notify OnTcpWriteable (t\<lparr>m_bWriteEnable := False\<rparr>) else t)"

definition ack_flags :: "Segment \<Rightarrow> PseudoTcp \<Rightarrow> SendFlags" where
  "ack_flags seg t =
     (if sg_seq seg \<noteq> m_rcv_nxt t then sfImmediateAck
      else if sg_len seg \<noteq> 0 then (if m_ack_delay t = 0 then sfImmediateAck else sfDelayedAck)
      else sfNone)"

text \<open>The part of the segment that is new and fits into the receive buffer.\<close>

definition trim_old :: "Segment \<Rightarrow> PseudoTcp \<Rightarrow> Segment" where
  "trim_old seg t =
     (if sg_seq seg < m_rcv_nxt t then
        let nAdjust = m_rcv_nxt t - sg_seq seg in
        if nAdjust < sg_len seg
        then seg\<lparr>sg_seq := sg_seq seg + nAdjust, sg_data := drop (unat nAdjust) (sg_data seg), sg_len := sg_len seg - nAdjust\<rparr>
        else seg\<lparr>sg_len := 0\<rparr>
      else seg)"

definition trim_window :: "Segment \<Rightarrow> PseudoTcp \<Rightarrow> Segment" where
  "trim_window seg t =
     (let available_space = (of_nat (GetWriteRemaining (m_rbuf t)) :: uint32) in
      if sg_seq seg + sg_len seg - m_rcv_nxt t > available_space then
        let nAdjust = sg_seq seg + sg_len seg - m_rcv_nxt t - available_space in
        if nAdjust < sg_len seg then seg\<lparr>sg_len := sg_len seg - nAdjust\<rparr> else seg\<lparr>sg_len := 0\<rparr>
      else seg)"

text \<open>Saved segments that have become contiguous, and the ordered insertion of a new one.\<close>

fun recover_rlist :: "RSegment list \<Rightarrow> SendFlags \<Rightarrow> PseudoTcp \<Rightarrow> (SendFlags \<times> PseudoTcp) option" where
  "recover_rlist [] sflags t = Some (sflags, t\<lparr>m_rlist := []\<rparr>)"
| "recover_rlist (r # rs) sflags t =
     (if rs_seq r \<le> m_rcv_nxt t then
        if rs_seq r + rs_len r > m_rcv_nxt t then do {
          let nAdjust = rs_seq r + rs_len r - m_rcv_nxt t;
          rbuf \<leftarrow> ConsumeWriteBuffer (unat nAdjust) (m_rbuf t);
          recover_rlist rs sfImmediateAck
            (t\<lparr>m_rbuf := rbuf, m_rcv_nxt := m_rcv_nxt t + nAdjust, m_rcv_wnd := m_rcv_wnd t - nAdjust\<rparr>) }
        else recover_rlist rs sflags t
      else Some (sflags, t\<lparr>m_rlist := r # rs\<rparr>))"

definition insert_rlist :: "RSegment \<Rightarrow> RSegment list \<Rightarrow> RSegment list" where
  "insert_rlist r rs = takeWhile (\<lambda>q. rs_seq q < rs_seq r) rs @ [r] @ dropWhile (\<lambda>q. rs_seq q < rs_seq r) rs"

definition store_data :: "Segment \<Rightarrow> SendFlags \<Rightarrow> PseudoTcp \<Rightarrow> (SendFlags \<times> bool \<times> PseudoTcp) option" where
  "store_data seg sflags t = do {
     let nOffset = sg_seq seg - m_rcv_nxt t;
     let (result, written, rbuf) = WriteOffset (take (unat (sg_len seg)) (sg_data seg)) (unat nOffset) (m_rbuf t);
     assert_opt (result = SR_SUCCESS);
     let t = t\<lparr>m_rbuf := rbuf\<rparr>;
     if sg_seq seg = m_rcv_nxt t then do {
       rbuf \<leftarrow> ConsumeWriteBuffer (unat (sg_len seg)) (m_rbuf t);
       let t = t\<lparr>m_rbuf := rbuf, m_rcv_nxt := m_rcv_nxt t + sg_len seg, m_rcv_wnd := m_rcv_wnd t - sg_len seg\<rparr>;
       (sflags, t) \<leftarrow> recover_rlist (m_rlist t) sflags t;
       Some (sflags, True, t) }
     else Some (sflags, False,
       t\<lparr>m_rlist := insert_rlist \<lparr>rs_seq = sg_seq seg, rs_len = sg_len seg\<rparr> (m_rlist t)\<rparr>) }"

definition process_data :: "Segment \<Rightarrow> PseudoTcp \<Rightarrow> (SendFlags \<times> bool \<times> PseudoTcp) option" where
  "process_data seg t =
     (let sflags = ack_flags seg t;
          seg' = trim_window (trim_old seg t) t;
          bIgnoreData = (sg_flags seg' AND FLAG_CTL \<noteq> 0 \<or> m_shutdown t \<noteq> SD_NONE)
      in if sg_len seg' > 0 then
           if bIgnoreData then
             Some (sflags, False,
               if sg_seq seg' = m_rcv_nxt t then t\<lparr>m_rcv_nxt := m_rcv_nxt t + sg_len seg'\<rparr> else t)
           else store_data seg' sflags t
         else Some (sflags, False, t))"

definition process_readable :: "bool \<Rightarrow> PseudoTcp \<Rightarrow> PseudoTcp" where
  "process_readable bNewData t =
     (if bNewData \<and> m_bReadEnable t then notify OnTcpReadable (t\<lparr>m_bReadEnable := False\<rparr>) else t)"

definition process :: "bool \<Rightarrow> network \<Rightarrow> uint32 \<Rightarrow> Segment \<Rightarrow> PseudoTcp \<Rightarrow> (bool \<times> PseudoTcp) option" where
  "process h net clk seg t =
     (if sg_conv seg \<noteq> m_conv t then Some (False, t)
      else
        let t = t\<lparr>m_lasttraffic := clk, m_lastrecv := clk, m_bOutgoing := False\<rparr> in
        if m_state t = TCP_CLOSED then Some (False, t)
        else if sg_flags seg AND FLAG_RST \<noteq> 0 then Some (False, closedown ECONNRESET t)
        else do {
          (c, t) \<leftarrow> process_control h seg t;
          (case c of
             None \<Rightarrow> Some (False, t)
           | Some bConnect \<Rightarrow> do {
               (ok, t) \<leftarrow> process_ack h net clk seg (process_timestamp seg t);
               if \<not> ok then Some (False, t)
               else do {
                 (sflags, bNewData, t) \<leftarrow> process_data seg (process_writeable (process_established bConnect t));
                 t \<leftarrow> attemptSend h net clk sflags t;
                 Some (True, process_readable bNewData t) } }) })"

definition parse_segment :: "bool \<Rightarrow> bytes \<Rightarrow> Segment" where
  "parse_segment h buffer =
     \<lparr>sg_conv = bytes_to_long h buffer, sg_seq = bytes_to_long h (drop 4 buffer),
      sg_ack = bytes_to_long h (drop 8 buffer), sg_flags = buffer ! 13, sg_wnd = bytes_to_short h (drop 14 buffer),
      sg_data = drop (unat HEADER_SIZE) buffer, sg_len = of_nat (length buffer) - HEADER_SIZE,
      sg_tsval = bytes_to_long h (drop 16 buffer), sg_tsecr = bytes_to_long h (drop 20 buffer)\<rparr>"

text \<open>
  \<^verbatim>\<open>parse\<close> accepts packets of 12 bytes, but the segment is read from 24 bytes: between the two the
  reads run past the packet.
\<close>

definition parse :: "bool \<Rightarrow> network \<Rightarrow> uint32 \<Rightarrow> bytes \<Rightarrow> PseudoTcp \<Rightarrow> (bool \<times> PseudoTcp) option" where
  "parse h net clk buffer t =
     (if length buffer < 12 then Some (False, t)
      else if length buffer < 24 then None
      else process h net clk (parse_segment h buffer) t)"

section \<open>The interface\<close>

definition NotifyPacket :: "bool \<Rightarrow> network \<Rightarrow> uint32 \<Rightarrow> bytes \<Rightarrow> PseudoTcp \<Rightarrow> (bool \<times> PseudoTcp) option" where
  "NotifyPacket h net clk buffer t =
     (if length buffer > unat MAX_PACKET then Some (False, t) else parse h net clk buffer t)"

definition Connect :: "bool \<Rightarrow> network \<Rightarrow> uint32 \<Rightarrow> PseudoTcp \<Rightarrow> (int \<times> PseudoTcp) option" where
  "Connect h net clk t =
     (if m_state t \<noteq> TCP_LISTEN then Some (-1, t\<lparr>m_error := EINVAL\<rparr>)
      else do {
        t \<leftarrow> queueConnectMessage h (t\<lparr>m_state := TCP_SYN_SENT\<rparr>);
        t \<leftarrow> attemptSend h net clk sfNone t;
        Some (0, t) })"

definition NotifyMTU :: "uint16 \<Rightarrow> PseudoTcp \<Rightarrow> PseudoTcp" where
  "NotifyMTU mtu t =
     (let t = t\<lparr>m_mtu_advise := ucast mtu\<rparr> in if m_state t = TCP_ESTABLISHED then adjustMTU t else t)"

text \<open>The three timers of \<^verbatim>\<open>NotifyClock\<close>; \<open>False\<close> is the return after \<^verbatim>\<open>closedown\<close>.\<close>

definition clock_retransmit :: "bool \<Rightarrow> network \<Rightarrow> uint32 \<Rightarrow> uint32 \<Rightarrow> PseudoTcp \<Rightarrow> (bool \<times> PseudoTcp) option" where
  "clock_retransmit h net clk now t =
     (if m_rto_base t \<noteq> 0 \<and> TimeDiff (m_rto_base t + m_rx_rto t) now \<le> 0 then do {
        assert_opt (m_slist t \<noteq> []);
        (ok, t) \<leftarrow> transmit h net clk 0 now t;
        if \<not> ok then Some (False, closedown ECONNABORTED t)
        else
          let nInFlight = m_snd_nxt t - m_snd_una t;
              rto_limit = (if m_state t \<in> {TCP_LISTEN, TCP_SYN_SENT, TCP_SYN_RECEIVED} then DEF_RTO else MAX_RTO)
          in Some (True, t\<lparr>m_ssthresh := max (nInFlight div 2) (2 * m_mss t), m_cwnd := m_mss t,
                            m_rx_rto := min rto_limit (m_rx_rto t * 2), m_rto_base := now\<rparr>) }
      else Some (True, t))"

definition clock_probe :: "bool \<Rightarrow> network \<Rightarrow> uint32 \<Rightarrow> uint32 \<Rightarrow> PseudoTcp \<Rightarrow> (bool \<times> PseudoTcp) option" where
  "clock_probe h net clk now t =
     (if m_snd_wnd t = 0 \<and> TimeDiff (m_lastsend t + m_rx_rto t) now \<le> 0 then
        if TimeDiff now (m_lastrecv t) \<ge> 15000 then Some (False, closedown ECONNABORTED t)
        else do {
          (_, t) \<leftarrow> packet h net clk (m_snd_nxt t - 1) 0 0 0 t;
          Some (True, t\<lparr>m_lastsend := now, m_rx_rto := min MAX_RTO (m_rx_rto t * 2)\<rparr>) }
      else Some (True, t))"

definition clock_delayed_ack :: "bool \<Rightarrow> network \<Rightarrow> uint32 \<Rightarrow> uint32 \<Rightarrow> PseudoTcp \<Rightarrow> PseudoTcp option" where
  "clock_delayed_ack h net clk now t =
     (if m_t_ack t \<noteq> 0 \<and> TimeDiff (m_t_ack t + m_ack_delay t) now \<le> 0
      then map_option snd (packet h net clk (m_snd_nxt t) 0 0 0 t) else Some t)"

definition NotifyClock :: "bool \<Rightarrow> network \<Rightarrow> uint32 \<Rightarrow> uint32 \<Rightarrow> PseudoTcp \<Rightarrow> PseudoTcp option" where
  "NotifyClock h net clk now t =
     (if m_state t = TCP_CLOSED then Some t
      else do {
        (ok, t) \<leftarrow> clock_retransmit h net clk now t;
        if \<not> ok then Some t
        else do {
          (ok, t) \<leftarrow> clock_probe h net clk now t;
          if \<not> ok then Some t else clock_delayed_ack h net clk now t } })"

text \<open>\<open>None\<close> is the result false, where the timeout is not set.\<close>

definition clock_check :: "uint32 \<Rightarrow> PseudoTcp \<Rightarrow> int option" where
  "clock_check now t =
     (if m_shutdown t = SD_FORCEFUL then None
      else if m_shutdown t = SD_GRACEFUL \<and>
         (m_state t \<noteq> TCP_ESTABLISHED \<or> GetBuffered (m_sbuf t) = 0 \<and> m_t_ack t = 0) then None
      else if m_state t = TCP_CLOSED then Some CLOSED_TIMEOUT
      else
        let nTimeout = DEFAULT_TIMEOUT;
            nTimeout = (if m_t_ack t \<noteq> 0 then min nTimeout (TimeDiff (m_t_ack t + m_ack_delay t) now) else nTimeout);
            nTimeout = (if m_rto_base t \<noteq> 0 then min nTimeout (TimeDiff (m_rto_base t + m_rx_rto t) now) else nTimeout)
        in Some (if m_snd_wnd t = 0 then min nTimeout (TimeDiff (m_lastsend t + m_rx_rto t) now) else nTimeout))"

definition GetNextClock :: "uint32 \<Rightarrow> PseudoTcp \<Rightarrow> int option" where
  "GetNextClock now t = clock_check now t"

definition GetCongestionWindow :: "PseudoTcp \<Rightarrow> uint32" where
  "GetCongestionWindow t = m_cwnd t"

definition GetBytesInFlight :: "PseudoTcp \<Rightarrow> uint32" where
  "GetBytesInFlight t = m_snd_nxt t - m_snd_una t"

definition GetBytesBufferedNotSent :: "PseudoTcp \<Rightarrow> uint32" where
  "GetBytesBufferedNotSent t = m_snd_una t + of_nat (GetBuffered (m_sbuf t)) - m_snd_nxt t"

definition GetRoundTripTimeEstimateMs :: "PseudoTcp \<Rightarrow> uint32" where
  "GetRoundTripTimeEstimateMs t = m_rx_srtt t"

text \<open>\<^verbatim>\<open>Recv\<close> and \<^verbatim>\<open>Send\<close> return \<open>None\<close> for \<^verbatim>\<open>SOCKET_ERROR\<close>.\<close>

definition Recv :: "bool \<Rightarrow> network \<Rightarrow> uint32 \<Rightarrow> nat \<Rightarrow> PseudoTcp \<Rightarrow> (bytes option \<times> PseudoTcp) option" where
  "Recv h net clk len t =
     (if m_state t \<noteq> TCP_ESTABLISHED then Some (None, t\<lparr>m_error := ENOTCONN\<rparr>)
      else case FifoBuffer_Read len (m_rbuf t) of (result, data, rbuf) \<Rightarrow>
        let t = t\<lparr>m_rbuf := rbuf\<rparr> in
        if result = SR_BLOCK then Some (None, t\<lparr>m_bReadEnable := True, m_error := EWOULDBLOCK\<rparr>)
        else do {
          assert_opt (result = SR_SUCCESS);
          let available_space = (of_nat (GetWriteRemaining (m_rbuf t)) :: uint32);
          if available_space - m_rcv_wnd t \<ge> min (m_rbuf_len t div 2) (m_mss t) then do {
            let bWasClosed = (m_rcv_wnd t = 0);
            let t = t\<lparr>m_rcv_wnd := available_space\<rparr>;
            t \<leftarrow> (if bWasClosed then attemptSend h net clk sfImmediateAck t else Some t);
            Some (Some data, t) }
          else Some (Some data, t) })"

definition Send :: "bool \<Rightarrow> network \<Rightarrow> uint32 \<Rightarrow> bytes \<Rightarrow> PseudoTcp \<Rightarrow> (uint32 option \<times> PseudoTcp) option" where
  "Send h net clk buffer t =
     (if m_state t \<noteq> TCP_ESTABLISHED then Some (None, t\<lparr>m_error := ENOTCONN\<rparr>)
      else if GetWriteRemaining (m_sbuf t) = 0 then Some (None, t\<lparr>m_bWriteEnable := True, m_error := EWOULDBLOCK\<rparr>)
      else do {
        (written, t) \<leftarrow> queue buffer False t;
        t \<leftarrow> attemptSend h net clk sfNone t;
        Some (Some written, t) })"

definition Close :: "bool \<Rightarrow> PseudoTcp \<Rightarrow> PseudoTcp" where
  "Close force t = t\<lparr>m_shutdown := (if force then SD_FORCEFUL else SD_GRACEFUL)\<rparr>"

definition GetError :: "PseudoTcp \<Rightarrow> TcpError" where
  "GetError t = m_error t"

definition State :: "PseudoTcp \<Rightarrow> TcpState" where
  "State t = m_state t"

end
