(* ===== verification/Pseudo_Tcp_State.thy ===== *)
theory Pseudo_Tcp_State
  imports Pseudo_Tcp
begin

text \<open>
  What the operations of \<^verbatim>\<open>PseudoTcp\<close> leave alone, and the properties of the connection state that follow:
  the life cycle of a connection as the application sees it, the bounds of the retransmission
  timeout, the timers, and the packet format.
\<close>

section \<open>Sending touches only the sending side\<close>

definition send_frame :: "PseudoTcp \<Rightarrow> PseudoTcp \<Rightarrow> bool" where
  "send_frame t t' \<longleftrightarrow>
     m_state t' = m_state t \<and> m_shutdown t' = m_shutdown t \<and> m_conv t' = m_conv t \<and>
     m_rbuf t' = m_rbuf t \<and> m_rlist t' = m_rlist t \<and> m_rcv_nxt t' = m_rcv_nxt t \<and> m_rcv_wnd t' = m_rcv_wnd t \<and>
     m_rwnd_scale t' = m_rwnd_scale t \<and> m_swnd_scale t' = m_swnd_scale t \<and>
     m_sbuf t' = m_sbuf t \<and> m_snd_una t' = m_snd_una t \<and> m_rx_rto t' = m_rx_rto t \<and>
     m_bReadEnable t' = m_bReadEnable t \<and> m_bWriteEnable t' = m_bWriteEnable t \<and>
     (\<exists>ps. m_notify t' = m_notify t @ map TcpWritePacket ps)"

named_theorems frames

lemma send_frame_refl [simp, intro!]: "send_frame t t"
  by (simp add: send_frame_def)

lemma send_frame_trans [trans]: "send_frame t t' \<Longrightarrow> send_frame t' t'' \<Longrightarrow> send_frame t t''"
  unfolding send_frame_def by (auto simp flip: map_append)

lemma packet_frame [frames]:
  "packet h net clk seq flags offset len t = Some (wres, t') \<Longrightarrow> send_frame t t'"
  by (auto simp: packet_def notify_def Let_def send_frame_def split: Option.bind_splits if_splits
      intro: exI [of _ "[_]"])

lemma reduce_mss_frame [frames]: "reduce_mss n t = Some (r, t') \<Longrightarrow> send_frame t t'"
proof (induction n t rule: reduce_mss.induct)
  case (1 n t)
  note eq = "1.prems" [unfolded reduce_mss.simps [of n t]]
  define mss where "mss = PACKET_MAXIMUMS ! (m_msslevel t + 1) - PACKET_OVERHEAD"
  define t\<^sub>1 where "t\<^sub>1 = t\<lparr>m_msslevel := m_msslevel t + 1, m_mss := mss, m_cwnd := 2 * mss\<rparr>"
  have "send_frame t t\<^sub>1" unfolding send_frame_def t\<^sub>1_def by (auto intro: exI [of _ "[]"])
  moreover have "send_frame t\<^sub>1 t'" if "\<not> length PACKET_MAXIMUMS \<le> m_msslevel t + 1" "PACKET_MAXIMUMS ! (m_msslevel t + 1) \<noteq> 0"
    using eq that "1.IH" [OF that mss_def t\<^sub>1_def] unfolding Let_def mss_def [symmetric] t\<^sub>1_def [symmetric]
    by (auto split: if_splits)
  ultimately show ?case using eq by (auto split: if_splits intro: send_frame_trans)
qed

lemma transmit_loop_frame [frames]: "transmit_loop h net clk seg n t = Some (r, t') \<Longrightarrow> send_frame t t'"
proof (induction h net clk seg n t rule: transmit_loop.induct)
  case (1 h net clk seg n t)
  note eq = "1.prems" [unfolded transmit_loop.simps [of h net clk seg n t]]
  from eq obtain wres t\<^sub>1 where p: "packet h net clk (ss_seq seg) (if ss_bCtrl seg then FLAG_CTL else 0)
       (ss_seq seg - m_snd_una t) n t = Some (wres, t\<^sub>1)"
    by (auto split: Option.bind_splits)
  note p_frame = packet_frame [OF p]
  show ?case
  proof (cases wres)
    case WR_TOO_LARGE
    with eq p obtain r\<^sub>2 t\<^sub>2 where r: "reduce_mss n t\<^sub>1 = Some (r\<^sub>2, t\<^sub>2)" by (auto split: Option.bind_splits)
    have "send_frame t\<^sub>2 t'"
    proof (cases r\<^sub>2)
      case None
      with eq p WR_TOO_LARGE r show ?thesis by simp
    next
      case (Some k)
      with eq p WR_TOO_LARGE r have "transmit_loop h net clk seg k t\<^sub>2 = Some (r, t')" by simp
      from "1.IH" [OF p refl WR_TOO_LARGE r refl Some this] show ?thesis .
    qed
    with p_frame reduce_mss_frame [OF r] show ?thesis by (blast intro: send_frame_trans)
  qed (use eq p p_frame in auto)
qed

lemma transmit_done_frame [frames]: "send_frame t (transmit_done i seg n now t)"
  unfolding send_frame_def transmit_done_def Let_def by (auto intro: exI [of _ "[]"])

lemma transmit_frame [frames]: "transmit h net clk i now t = Some (ok, t') \<Longrightarrow> send_frame t t'"
  by (auto simp: transmit_def Let_def split: Option.bind_splits if_splits option.splits
      dest!: transmit_loop_frame intro: send_frame_trans [OF _ transmit_done_frame])

lemma send_step_frame:
  assumes "send_step h net clk sflags t = Some r"
  shows "send_frame t (case r of Inl t' \<Rightarrow> t' | Inr t' \<Rightarrow> t')"
proof -
  have split: "send_frame t (split_segment i n t)" for i n
    unfolding send_frame_def split_segment_def Let_def by (auto intro: exI [of _ "[]"])
  have ack: "send_frame t t'" if "send_ack h net clk sflags t = Some t'" for t'
    using that by (auto simp: send_ack_def send_frame_def split: if_splits dest!: packet_frame intro: exI [of _ "[]"])
  show ?thesis using assms
    by (auto simp: send_step_def Let_def split: if_splits Option.bind_splits sum.splits
        dest!: transmit_frame ack intro: send_frame_trans [OF split])
qed

lemma attemptSend_loop_frame: "attemptSend_loop h net clk sflags t = Some t' \<Longrightarrow> send_frame t t'"
proof (induction h net clk sflags t rule: attemptSend_loop.induct)
  case (1 h net clk sflags t)
  note eq = "1.prems" [unfolded attemptSend_loop.simps [of h net clk sflags t]]
  then obtain r where r: "send_step h net clk sflags t = Some r" by (auto split: Option.bind_splits)
  from send_step_frame [OF r] "1.IH" [OF r] eq r show ?case
    by (cases r) (auto intro: send_frame_trans)
qed

lemma attemptSend_frame [frames]:
  assumes "attemptSend h net clk sflags t = Some t'"
  shows "send_frame t t'"
proof -
  let ?t = "if TimeDiff clk (m_lastsend t) > uint (m_rx_rto t) then t\<lparr>m_cwnd := m_mss t\<rparr> else t"
  have "send_frame t ?t" unfolding send_frame_def by (auto intro: exI [of _ "[]"])
  moreover have "send_frame ?t t'"
    using assms unfolding attemptSend_def Let_def by (rule attemptSend_loop_frame)
  ultimately show ?thesis by (rule send_frame_trans)
qed

section \<open>The life cycle\<close>

text \<open>
  Calm steps keep the connection state, announce neither its opening nor its end, and keep the
  retransmission timeout within its bounds.
\<close>

definition rto_ok :: "PseudoTcp \<Rightarrow> bool" where
  "rto_ok t \<longleftrightarrow> MIN_RTO \<le> m_rx_rto t \<and> m_rx_rto t \<le> MAX_RTO"

definition is_life_event :: "IPseudoTcpNotify \<Rightarrow> bool" where
  "is_life_event ev \<longleftrightarrow> (case ev of OnTcpOpen \<Rightarrow> True | OnTcpClosed _ \<Rightarrow> True | _ \<Rightarrow> False)"

definition life_events :: "PseudoTcp \<Rightarrow> IPseudoTcpNotify list" where
  "life_events t = filter is_life_event (m_notify t)"

definition calm :: "PseudoTcp \<Rightarrow> PseudoTcp \<Rightarrow> bool" where
  "calm t t' \<longleftrightarrow> m_state t' = m_state t \<and> life_events t' = life_events t \<and> (rto_ok t \<longrightarrow> rto_ok t')"

lemmas calm_defs = calm_def life_events_def rto_ok_def

text \<open>
  The life cycle: the events of a connection are nothing while it is being set up, the opening while
  it is established, and end with the closing in the state closed.
\<close>

definition life_inv :: "PseudoTcp \<Rightarrow> bool" where
  "life_inv t \<longleftrightarrow> rto_ok t \<and>
     (case m_state t of
        TCP_ESTABLISHED \<Rightarrow> life_events t = [OnTcpOpen]
      | TCP_CLOSED \<Rightarrow> \<exists>err. (life_events t = [OnTcpClosed err] \<or> life_events t = [OnTcpOpen, OnTcpClosed err]) \<and>
          last (m_notify t) = OnTcpClosed err
      | _ \<Rightarrow> life_events t = [])"

definition alive :: "PseudoTcp \<Rightarrow> bool" where
  "alive t \<longleftrightarrow> life_inv t \<and> m_state t \<noteq> TCP_CLOSED"

lemma calm_refl [simp, intro!]: "calm t t"
  by (simp add: calm_def)

lemma calm_trans [trans]: "calm t t' \<Longrightarrow> calm t' t'' \<Longrightarrow> calm t t''"
  by (auto simp: calm_def)

lemma send_frame_calm: "send_frame t t' \<Longrightarrow> calm t t'"
  by (auto simp: send_frame_def calm_def life_events_def rto_ok_def is_life_event_def filter_empty_conv)

lemma calmI: "m_state t' = m_state t \<Longrightarrow> m_notify t' = m_notify t \<Longrightarrow> m_rx_rto t' = m_rx_rto t \<Longrightarrow> calm t t'"
  by (simp add: calm_def life_events_def rto_ok_def)

lemma calm_notify: "calm t (notify OnTcpReadable t)" "calm t (notify OnTcpWriteable t)"
  by (simp_all add: calm_def notify_def life_events_def rto_ok_def is_life_event_def)

lemma alive_calm: "alive t \<Longrightarrow> calm t t' \<Longrightarrow> alive t'"
  by (auto simp: alive_def life_inv_def calm_def split: TcpState.splits)

lemma alive_closedown: "alive t \<Longrightarrow> life_inv (closedown err t)"
  by (auto simp: alive_def life_inv_def closedown_def notify_def life_events_def is_life_event_def rto_ok_def
      split: TcpState.splits)

lemma alive_open:
  assumes "alive t" and "m_state t \<noteq> TCP_ESTABLISHED"
  shows "alive (notify OnTcpOpen (adjustMTU (t\<lparr>m_state := TCP_ESTABLISHED\<rparr>)))"
  using assms by (cases "m_state t")
    (auto simp: alive_def life_inv_def notify_def adjustMTU_def Let_def life_events_def is_life_event_def rto_ok_def)

lemma alive_connecting:
  assumes "alive t" and "m_state t = TCP_LISTEN" and "s \<in> {TCP_SYN_SENT, TCP_SYN_RECEIVED}"
  shows "alive (t\<lparr>m_state := s\<rparr>)"
  using assms by (auto simp: alive_def life_inv_def life_events_def rto_ok_def)

lemma resizeReceiveBuffer_calm: "resizeReceiveBuffer n t = Some t' \<Longrightarrow> calm t t'"
  by (auto simp: resizeReceiveBuffer_def Let_def split: Option.bind_splits prod.splits intro!: calmI)

lemma applyOption_calm: "calm t (applyOption kind data len t)"
  by (auto simp: applyOption_def applyWindowScaleOption_def intro!: calmI)

lemma parse_options_loop_calm: "parse_options_loop h len buf ks t = Some (r, t') \<Longrightarrow> calm t t'"
proof (induction h len buf ks t rule: parse_options_loop.induct)
  case (1 h len buf ks t)
  note eq = "1.prems" [unfolded parse_options_loop.simps [of h len buf ks t]]
  obtain kind buf1 opt_len buf2 where r: "read_octet h TCP_OPT_EOL buf = (kind, buf1)" "read_octet h 0 buf1 = (opt_len, buf2)"
    by (meson surj_pair)
  show ?case using eq "1.IH" r applyOption_calm [of t kind "ByteBuffer_Data buf2" "unat opt_len"]
    by (fastforce simp: Let_def split: if_splits Option.bind_splits intro: calm_trans)
qed

lemma parseOptions_calm: "parseOptions h data t = Some t' \<Longrightarrow> calm t t'"
  by (auto simp: parseOptions_def split: Option.bind_splits option.splits if_splits
      dest!: parse_options_loop_calm resizeReceiveBuffer_calm) (auto simp: calm_defs)

lemma queue_calm: "queue data b t = Some (n, t') \<Longrightarrow> calm t t'"
  by (auto simp: queue_def Let_def split: Option.bind_splits prod.splits intro!: calmI)

lemma queueConnectMessage_calm: "queueConnectMessage h t = Some t' \<Longrightarrow> calm t t'"
  by (auto simp: queueConnectMessage_def Let_def dest!: queue_calm) (auto simp: calm_defs)

lemma process_control_alive:
  assumes "alive t" and "process_control h seg t = Some (r, t')"
  shows "alive t'"
proof (cases "sg_flags seg AND FLAG_CTL \<noteq> 0 \<and> sg_len seg \<noteq> 0 \<and> sg_data seg ! 0 = CTL_CONNECT")
  case True
  with assms(2) obtain t\<^sub>1 where p: "parseOptions h (take (unat (sg_len seg - 1)) (drop 1 (sg_data seg))) t = Some t\<^sub>1"
    and t': "(if m_state t\<^sub>1 = TCP_LISTEN then queueConnectMessage h (t\<^sub>1\<lparr>m_state := TCP_SYN_RECEIVED\<rparr>)
       else if m_state t\<^sub>1 = TCP_SYN_SENT then Some (notify OnTcpOpen (adjustMTU (t\<^sub>1\<lparr>m_state := TCP_ESTABLISHED\<rparr>)))
       else Some t\<^sub>1) = Some t'"
    by (auto simp: process_control_def split: Option.bind_splits)
  have "alive t\<^sub>1" using assms(1) parseOptions_calm [OF p] by (rule alive_calm)
  with t' alive_connecting [OF this] alive_open [OF this] show ?thesis
    by (auto split: if_splits dest!: queueConnectMessage_calm intro: alive_calm)
next
  case False
  with assms show ?thesis by (auto simp: process_control_def split: if_splits)
qed

lemma bound_rto: "rto_ok (t\<lparr>m_rx_rto := bound MIN_RTO x MAX_RTO\<rparr>)"
  by (simp add: rto_ok_def bound_def min_def max_def)

lemma update_rtt_calm: "update_rtt clk seg t = Some t' \<Longrightarrow> calm t t'"
  using bound_rto by (auto simp: update_rtt_def Let_def calm_def life_events_def split: if_splits)

lemma take_ack_calm: "take_ack clk seg t = Some t' \<Longrightarrow> calm t t'"
  by (auto simp: take_ack_def Let_def split: Option.bind_splits dest!: update_rtt_calm) (auto simp: calm_defs)

lemma transmit_calm: "transmit h net clk i now t = Some (ok, t') \<Longrightarrow> calm t t'"
  by (blast intro: send_frame_calm transmit_frame)

lemma life_inv_update [simp]:
  "life_inv (t\<lparr>m_cwnd := x0\<rparr>) = life_inv t"
  "life_inv (t\<lparr>m_ssthresh := x1\<rparr>) = life_inv t"
  "life_inv (t\<lparr>m_recover := x2\<rparr>) = life_inv t"
  "life_inv (t\<lparr>m_dup_acks := x3\<rparr>) = life_inv t"
  "life_inv (t\<lparr>m_snd_wnd := x4\<rparr>) = life_inv t"
  "life_inv (t\<lparr>m_ts_recent := x5\<rparr>) = life_inv t"
  "life_inv (t\<lparr>m_bReadEnable := x6\<rparr>) = life_inv t"
  "life_inv (t\<lparr>m_bWriteEnable := x7\<rparr>) = life_inv t"
  "life_inv (t\<lparr>m_lasttraffic := x8\<rparr>) = life_inv t"
  "life_inv (t\<lparr>m_lastrecv := x9\<rparr>) = life_inv t"
  "life_inv (t\<lparr>m_bOutgoing := x10\<rparr>) = life_inv t"
  "life_inv (t\<lparr>m_rlist := x11\<rparr>) = life_inv t"
  "life_inv (t\<lparr>m_rcv_nxt := x12\<rparr>) = life_inv t"
  "life_inv (t\<lparr>m_rcv_wnd := x13\<rparr>) = life_inv t"
  "life_inv (t\<lparr>m_rbuf := x14\<rparr>) = life_inv t"
  "life_inv (t\<lparr>m_error := x15\<rparr>) = life_inv t"
  "life_inv (t\<lparr>m_shutdown := x16\<rparr>) = life_inv t"
  "life_inv (t\<lparr>m_mtu_advise := x17\<rparr>) = life_inv t"
  "life_inv (t\<lparr>m_rto_base := x18\<rparr>) = life_inv t"
  "life_inv (t\<lparr>m_lastsend := x19\<rparr>) = life_inv t"
  by (simp_all add: life_inv_def life_events_def rto_ok_def cong: TcpState.case_cong)

lemma alive_field [simp]:
  "alive (t\<lparr>m_cwnd := x0\<rparr>) = alive t"
  "alive (t\<lparr>m_ssthresh := x1\<rparr>) = alive t"
  "alive (t\<lparr>m_recover := x2\<rparr>) = alive t"
  "alive (t\<lparr>m_dup_acks := x3\<rparr>) = alive t"
  "alive (t\<lparr>m_snd_wnd := x4\<rparr>) = alive t"
  "alive (t\<lparr>m_ts_recent := x5\<rparr>) = alive t"
  "alive (t\<lparr>m_bReadEnable := x6\<rparr>) = alive t"
  "alive (t\<lparr>m_bWriteEnable := x7\<rparr>) = alive t"
  "alive (t\<lparr>m_lasttraffic := x8\<rparr>) = alive t"
  "alive (t\<lparr>m_lastrecv := x9\<rparr>) = alive t"
  "alive (t\<lparr>m_bOutgoing := x10\<rparr>) = alive t"
  "alive (t\<lparr>m_rlist := x11\<rparr>) = alive t"
  "alive (t\<lparr>m_rcv_nxt := x12\<rparr>) = alive t"
  "alive (t\<lparr>m_rcv_wnd := x13\<rparr>) = alive t"
  "alive (t\<lparr>m_rbuf := x14\<rparr>) = alive t"
  "alive (t\<lparr>m_error := x15\<rparr>) = alive t"
  "alive (t\<lparr>m_shutdown := x16\<rparr>) = alive t"
  "alive (t\<lparr>m_mtu_advise := x17\<rparr>) = alive t"
  "alive (t\<lparr>m_rto_base := x18\<rparr>) = alive t"
  "alive (t\<lparr>m_lastsend := x19\<rparr>) = alive t"
  by (simp_all add: alive_def)

lemma alive_life: "alive t \<Longrightarrow> life_inv t"
  by (simp add: alive_def)

lemma process_new_ack_alive:
  assumes "alive t" and "process_new_ack h net clk seg t = Some (ok, t')"
  shows "if ok then alive t' else life_inv t'"
proof -
  from assms(2) obtain t\<^sub>1 where t\<^sub>1: "take_ack clk seg t = Some t\<^sub>1" by (auto simp: process_new_ack_def Let_def split: Option.bind_splits)
  have 1: "alive t\<^sub>1" using assms(1) take_ack_calm [OF t\<^sub>1] by (rule alive_calm)
  have 2: "alive t\<^sub>2" if "transmit h net clk 0 clk t\<^sub>1 = Some (r, t\<^sub>2)" for r t\<^sub>2
    using 1 transmit_calm [OF that] by (rule alive_calm)
  show ?thesis using assms(2) t\<^sub>1
    by (auto simp: process_new_ack_def Let_def split: Option.bind_splits if_splits
        simp: 1 dest!: 2 intro: alive_closedown)
qed

lemma process_dup_ack_alive:
  assumes "alive t" and "process_dup_ack h net clk seg t = Some (ok, t')"
  shows "if ok then alive t' else life_inv t'"
proof -
  have 1: "alive (t\<lparr>m_snd_wnd := w, m_dup_acks := d\<rparr>)" for w d using assms(1) by simp
  have 2: "alive t\<^sub>2" if "transmit h net clk 0 clk (t\<lparr>m_snd_wnd := w, m_dup_acks := d\<rparr>) = Some (r, t\<^sub>2)" for w d r t\<^sub>2
    using 1 transmit_calm [OF that] by (rule alive_calm)
  show ?thesis using assms(2)
    by (auto simp: process_dup_ack_def Let_def split: Option.bind_splits if_splits
        simp: assms(1) dest!: 2 intro: alive_closedown)
qed

lemma process_ack_alive:
  assumes "alive t" and "process_ack h net clk seg t = Some (ok, t')"
  shows "if ok then alive t' else life_inv t'"
  using assms(2) process_new_ack_alive [OF assms(1)] process_dup_ack_alive [OF assms(1)] assms(1)
  by (auto simp: process_ack_def split: if_splits)

lemma recover_rlist_calm: "recover_rlist rs sf t = Some (sf', t') \<Longrightarrow> calm t t'"
proof (induction rs arbitrary: sf t)
  case (Cons r rs)
  show ?case
  proof (cases "rs_seq r \<le> m_rcv_nxt t \<and> m_rcv_nxt t < rs_seq r + rs_len r")
    case True
    with Cons.prems obtain rbuf where
      "recover_rlist rs sfImmediateAck (t\<lparr>m_rbuf := rbuf, m_rcv_nxt := rs_seq r + rs_len r,
         m_rcv_wnd := m_rcv_wnd t - (rs_seq r + rs_len r - m_rcv_nxt t)\<rparr>) = Some (sf', t')"
      by (auto simp: Let_def split: Option.bind_splits)
    from Cons.IH [OF this] show ?thesis by (simp add: calm_defs)
  next
    case False
    with Cons show ?thesis by (auto split: if_splits intro: calmI)
  qed
qed (auto intro: calmI)

lemma process_data_calm: "process_data seg t = Some (sf, b, t') \<Longrightarrow> calm t t'"
  by (auto simp: process_data_def store_data_def Let_def split: if_splits Option.bind_splits prod.splits
      dest!: recover_rlist_calm) (auto simp: calm_defs)

lemma process_life:
  assumes "life_inv t" and "process h net clk seg t = Some (r, t')"
  shows "life_inv t'"
proof -
  define t\<^sub>0 where "t\<^sub>0 = t\<lparr>m_lasttraffic := clk, m_lastrecv := clk, m_bOutgoing := False\<rparr>"
  have life: "life_inv t\<^sub>0" using assms(1) by (simp add: t\<^sub>0_def)
  show ?thesis
  proof (cases "sg_conv seg \<noteq> m_conv t \<or> m_state t\<^sub>0 = TCP_CLOSED \<or> sg_flags seg AND FLAG_RST \<noteq> 0")
    case True
    with assms life alive_closedown [of t\<^sub>0] show ?thesis
      by (auto simp: process_def Let_def alive_def t\<^sub>0_def split: if_splits)
  next
    case False
    then have a: "alive t\<^sub>0" using life by (simp add: alive_def)
    from False assms(2) obtain c t\<^sub>1 where c: "process_control h seg t\<^sub>0 = Some (c, t\<^sub>1)"
      and rest: "(case c of None \<Rightarrow> Some (False, t\<^sub>1)
           | Some bConnect \<Rightarrow> do {
               (ok, t) \<leftarrow> process_ack h net clk seg (process_timestamp seg t\<^sub>1);
               if \<not> ok then Some (False, t)
               else do {
                 (sflags, bNewData, t) \<leftarrow> process_data seg (process_writeable (process_established bConnect t));
                 t \<leftarrow> attemptSend h net clk sflags t;
                 Some (True, process_readable bNewData t) } }) = Some (r, t')"
      by (auto simp: process_def Let_def t\<^sub>0_def split: Option.bind_splits)
    have 1: "alive t\<^sub>1" using a c by (rule process_control_alive)
    then have 2: "alive (process_timestamp seg t\<^sub>1)" by (simp add: process_timestamp_def)
    have 3: "alive (process_writeable (process_established b u))" if "alive u" for b u
      using that alive_open [OF that] alive_calm [OF _ calm_notify(2)]
      by (auto simp: process_writeable_def process_established_def Let_def)
    have 4: "alive (process_readable b u)" if "alive u" for b u
      using that alive_calm [OF _ calm_notify(1)] by (auto simp: process_readable_def)
    show ?thesis
    proof (cases c)
      case None
      with rest 1 show ?thesis by (simp add: alive_life)
    next
      case (Some b)
      with rest obtain ok t\<^sub>2 where ack: "process_ack h net clk seg (process_timestamp seg t\<^sub>1) = Some (ok, t\<^sub>2)"
        and no: "\<not> ok \<Longrightarrow> t' = t\<^sub>2"
        and yes: "ok \<Longrightarrow> do { (sflags, bNewData, t) \<leftarrow> process_data seg (process_writeable (process_established b t\<^sub>2));
                 t \<leftarrow> attemptSend h net clk sflags t;
                 Some (True, process_readable bNewData t) } = Some (r, t')"
        by (auto split: Option.bind_splits if_splits)
      note a\<^sub>2 = process_ack_alive [OF 2 ack]
      show ?thesis
      proof (cases ok)
        case True
        from yes [OF True] obtain sf n t\<^sub>3 t\<^sub>4 where
          d: "process_data seg (process_writeable (process_established b t\<^sub>2)) = Some (sf, n, t\<^sub>3)"
          and s: "attemptSend h net clk sf t\<^sub>3 = Some t\<^sub>4" and t': "t' = process_readable n t\<^sub>4"
          by (auto split: Option.bind_splits)
        have "alive t\<^sub>3" using a\<^sub>2 True alive_calm [OF 3 process_data_calm [OF d]] by simp
        then have "alive t\<^sub>4" using send_frame_calm [OF attemptSend_frame [OF s]] by (rule alive_calm)
        then show ?thesis unfolding t' by (intro alive_life 4)
      qed (use no a\<^sub>2 in simp)
    qed
  qed
qed

section \<open>Reachable states\<close>

datatype tcp_op =
    Op_Connect
  | Op_Packet bytes
  | Op_Clock uint32
  | Op_Send bytes
  | Op_Recv nat
  | Op_Close bool
  | Op_MTU uint16
  | Op_SetOption TcpOption int

fun tcp_step :: "bool \<Rightarrow> network \<Rightarrow> uint32 \<Rightarrow> tcp_op \<Rightarrow> PseudoTcp \<Rightarrow> PseudoTcp option" where
  "tcp_step h net clk Op_Connect t = map_option snd (Connect h net clk t)"
| "tcp_step h net clk (Op_Packet buffer) t = map_option snd (NotifyPacket h net clk buffer t)"
| "tcp_step h net clk (Op_Clock now) t = NotifyClock h net clk now t"
| "tcp_step h net clk (Op_Send buffer) t = map_option snd (Send h net clk buffer t)"
| "tcp_step h net clk (Op_Recv len) t = map_option snd (Recv h net clk len t)"
| "tcp_step h net clk (Op_Close force) t = Some (Close force t)"
| "tcp_step h net clk (Op_MTU mtu) t = Some (NotifyMTU mtu t)"
| "tcp_step h net clk (Op_SetOption opt val) t = SetOption opt val t"

inductive tcp_reachable :: "bool \<Rightarrow> network \<Rightarrow> PseudoTcp \<Rightarrow> bool" for h net where
  start: "tcp_reachable h net (PseudoTcp_new conv clk)"
| step: "tcp_reachable h net t \<Longrightarrow> tcp_step h net clk oper t = Some t' \<Longrightarrow> tcp_reachable h net t'"

lemma calm_life: "calm t t' \<Longrightarrow> m_notify t' = m_notify t \<or> m_state t \<noteq> TCP_CLOSED \<Longrightarrow> life_inv t \<Longrightarrow> life_inv t'"
  by (auto simp: life_inv_def calm_def split: TcpState.splits)

lemma Connect_life:
  assumes "life_inv t" and "Connect h net clk t = Some (r, t')"
  shows "life_inv t'"
proof (cases "m_state t = TCP_LISTEN")
  case True
  then have "alive (t\<lparr>m_state := TCP_SYN_SENT\<rparr>)" using assms(1) by (intro alive_connecting) (auto simp: alive_def)
  moreover from True assms(2) obtain t\<^sub>1 where "queueConnectMessage h (t\<lparr>m_state := TCP_SYN_SENT\<rparr>) = Some t\<^sub>1"
    "attemptSend h net clk sfNone t\<^sub>1 = Some t'" by (auto simp: Connect_def split: Option.bind_splits)
  ultimately show ?thesis
    by (meson alive_calm alive_life attemptSend_frame queueConnectMessage_calm send_frame_calm)
next
  case False
  with assms show ?thesis by (auto simp: Connect_def)
qed

lemma alive_rto: "alive t \<Longrightarrow> rto_ok (t\<lparr>m_rx_rto := r\<rparr>) \<Longrightarrow> alive (t\<lparr>m_rx_rto := r\<rparr>)"
  by (simp add: alive_def life_inv_def life_events_def cong: TcpState.case_cong)

lemma rto_doubled: "rto_ok t \<Longrightarrow> MIN_RTO \<le> limit \<Longrightarrow> limit \<le> MAX_RTO \<Longrightarrow> rto_ok (t\<lparr>m_rx_rto := min limit (m_rx_rto t * 2)\<rparr>)"
proof -
  assume "rto_ok t" "MIN_RTO \<le> limit" "limit \<le> MAX_RTO"
  moreover from this(1) have "unat (m_rx_rto t * 2) = unat (m_rx_rto t) * 2"
    by (simp add: rto_ok_def word_le_nat_alt unat_word_ariths)
  ultimately show ?thesis by (auto simp: rto_ok_def word_le_nat_alt min_def)
qed

lemma alive_doubled:
  assumes "alive t" and "MIN_RTO \<le> limit" and "limit \<le> MAX_RTO"
  shows "alive (t\<lparr>m_rx_rto := min limit (m_rx_rto t * 2)\<rparr>)"
  using assms by (intro alive_rto rto_doubled) (auto simp: alive_def life_inv_def)

lemma clock_retransmit_alive:
  assumes "alive t" and "clock_retransmit h net clk now t = Some (ok, t')"
  shows "if ok then alive t' else life_inv t'"
proof -
  have 1: "alive t\<^sub>1" if "transmit h net clk 0 now t = Some (r, t\<^sub>1)" for r t\<^sub>1
    using assms(1) transmit_calm [OF that] by (rule alive_calm)
  have 2: "alive (t\<^sub>1\<lparr>m_ssthresh := a, m_cwnd := b, m_rx_rto := min l (m_rx_rto t\<^sub>1 * 2), m_rto_base := c\<rparr>)"
    if "alive t\<^sub>1" "l = DEF_RTO \<or> l = MAX_RTO" for t\<^sub>1 a b c l
    using that alive_doubled [of "t\<^sub>1\<lparr>m_ssthresh := a, m_cwnd := b\<rparr>" l] by auto
  show ?thesis using assms
    by (auto simp: clock_retransmit_def Let_def assert_opt_def split: Option.bind_splits if_splits
        dest!: 1 intro: alive_closedown 2)
qed

lemma clock_probe_alive:
  assumes "alive t" and "clock_probe h net clk now t = Some (ok, t')"
  shows "if ok then alive t' else life_inv t'"
proof -
  have 1: "alive t\<^sub>1" if "packet h net clk (m_snd_nxt t - 1) 0 0 0 t = Some (r, t\<^sub>1)" for r t\<^sub>1
    using assms(1) send_frame_calm [OF packet_frame [OF that]] by (rule alive_calm)
  have 2: "alive (t\<^sub>1\<lparr>m_lastsend := a, m_rx_rto := min MAX_RTO (m_rx_rto t\<^sub>1 * 2)\<rparr>)" if "alive t\<^sub>1" for t\<^sub>1 a
    using that alive_doubled [of "t\<^sub>1\<lparr>m_lastsend := a\<rparr>" MAX_RTO] by auto
  show ?thesis using assms
    by (auto simp: clock_probe_def Let_def split: Option.bind_splits if_splits dest!: 1 intro: alive_closedown 2)
qed

lemma NotifyClock_life:
  assumes "life_inv t" and "NotifyClock h net clk now t = Some t'"
  shows "life_inv t'"
proof (cases "m_state t = TCP_CLOSED")
  case False
  then have a: "alive t" using assms(1) by (simp add: alive_def)
  from False assms(2) obtain ok t\<^sub>1 where 1: "clock_retransmit h net clk now t = Some (ok, t\<^sub>1)"
    and r: "(if \<not> ok then Some t\<^sub>1 else do { (ok, t) \<leftarrow> clock_probe h net clk now t\<^sub>1;
      if \<not> ok then Some t else clock_delayed_ack h net clk now t }) = Some t'"
    by (auto simp: NotifyClock_def split: Option.bind_splits)
  note a\<^sub>1 = clock_retransmit_alive [OF a 1]
  have ack: "life_inv t'" if "alive u" "clock_delayed_ack h net clk now u = Some t'" for u
    using that by (auto simp: clock_delayed_ack_def alive_life split: if_splits
        intro!: alive_life elim!: alive_calm dest: packet_frame send_frame_calm)
  show ?thesis
    using r a\<^sub>1 ack clock_probe_alive [of t\<^sub>1 h net clk now] by (auto split: if_splits Option.bind_splits)
qed (use assms in \<open>auto simp: NotifyClock_def\<close>)

lemma Recv_life:
  assumes "life_inv t" and "Recv h net clk len t = Some (r, t')"
  shows "life_inv t'"
proof (cases "m_state t = TCP_ESTABLISHED")
  case True
  then have a: "alive (t\<lparr>m_rbuf := b, m_rcv_wnd := w\<rparr>)" for b w using assms(1) by (simp add: alive_def)
  have "life_inv u" if "attemptSend h net clk sfImmediateAck (t\<lparr>m_rbuf := b, m_rcv_wnd := w\<rparr>) = Some u" for b w u
    using alive_calm [OF a send_frame_calm [OF attemptSend_frame [OF that]]] by (rule alive_life)
  with assms show ?thesis by (auto simp: Recv_def Let_def split: prod.splits if_splits Option.bind_splits)
qed (use assms in \<open>auto simp: Recv_def\<close>)

lemma Send_life:
  assumes "life_inv t" and "Send h net clk buffer t = Some (r, t')"
  shows "life_inv t'"
proof (cases "m_state t = TCP_ESTABLISHED \<and> GetWriteRemaining (m_sbuf t) \<noteq> 0")
  case True
  then have a: "alive t" using assms(1) by (simp add: alive_def)
  from True assms(2) obtain n t\<^sub>1 where "queue buffer False t = Some (n, t\<^sub>1)" "attemptSend h net clk sfNone t\<^sub>1 = Some t'"
    by (auto simp: Send_def split: Option.bind_splits)
  with a show ?thesis by (meson alive_calm alive_life attemptSend_frame queue_calm send_frame_calm)
qed (use assms in \<open>auto simp: Send_def split: if_splits\<close>)

lemma NotifyPacket_life: "life_inv t \<Longrightarrow> NotifyPacket h net clk buffer t = Some (r, t') \<Longrightarrow> life_inv t'"
  by (auto simp: NotifyPacket_def parse_def split: if_splits dest: process_life)

lemma life_inv_fields:
  "m_state t' = m_state t \<Longrightarrow> m_notify t' = m_notify t \<Longrightarrow> m_rx_rto t' = m_rx_rto t \<Longrightarrow> life_inv t' = life_inv t"
  by (simp add: life_inv_def life_events_def rto_ok_def cong: TcpState.case_cong)

lemma SetOption_life: "life_inv t \<Longrightarrow> SetOption opt val t = Some t' \<Longrightarrow> life_inv t'"
  using life_inv_fields [of t' t]
  by (auto simp: SetOption_def resizeSendBuffer_def resizeReceiveBuffer_def Let_def
      split: TcpOption.splits Option.bind_splits prod.splits)

lemma NotifyMTU_fields:
  "m_state (NotifyMTU mtu t) = m_state t" "m_notify (NotifyMTU mtu t) = m_notify t" "m_rx_rto (NotifyMTU mtu t) = m_rx_rto t"
  by (simp_all add: NotifyMTU_def adjustMTU_def Let_def)

lemma NotifyMTU_life: "life_inv t \<Longrightarrow> life_inv (NotifyMTU mtu t)"
  using life_inv_fields [OF NotifyMTU_fields] by simp

lemma tcp_step_life: "life_inv t \<Longrightarrow> tcp_step h net clk oper t = Some t' \<Longrightarrow> life_inv t'"
  by (cases oper) (auto simp: Close_def
      intro: Connect_life NotifyPacket_life NotifyClock_life NotifyMTU_life Send_life Recv_life SetOption_life)

lemma tcp_reachable_life: "tcp_reachable h net t \<Longrightarrow> life_inv t"
proof (induction rule: tcp_reachable.induct)
  case (start conv clk)
  show ?case by (simp add: PseudoTcp_new_def life_inv_def life_events_def rto_ok_def)
qed (rule tcp_step_life)

lemma process_closed:
  assumes "m_state t = TCP_CLOSED" and "process h net clk seg t = Some (r, t')"
  shows "m_state t' = TCP_CLOSED \<and> m_notify t' = m_notify t \<and> \<not> r"
  using assms by (auto simp: process_def split: if_splits)

lemma tcp_step_closed:
  assumes "m_state t = TCP_CLOSED" and "tcp_step h net clk oper t = Some t'"
  shows "m_state t' = TCP_CLOSED \<and> m_notify t' = m_notify t"
  using assms
  by (cases oper) (auto simp: Connect_def NotifyPacket_def parse_def NotifyClock_def Send_def Recv_def Close_def
      NotifyMTU_fields SetOption_def assert_opt_def split: if_splits TcpOption.splits dest: process_closed)

section \<open>The packet format\<close>

lemma long_to_bytes_eq: "long_to_bytes h x = be_bytes 4 x" "short_to_bytes h y = be_bytes 2 y"
  by (simp_all add: long_to_bytes_def short_to_bytes_def net_simps)

lemma bytes_to_long_eq:
  "bytes_to_long h (be_bytes 4 x @ rest) = x" "bytes_to_short h (be_bytes 2 y @ rest) = y"
  by (simp_all add: bytes_to_long_def bytes_to_short_def net_simps)

lemma length_packet_header [simp]: "length (packet_header h conv seq ack flags wnd ts tsr) = 24"
  by (simp add: packet_header_def long_to_bytes_eq)

lemma parse_segment_header:
  "parse_segment h (packet_header h' conv seq ack flags wnd ts tsr @ data) =
     \<lparr>sg_conv = conv, sg_seq = seq, sg_ack = ack, sg_flags = flags, sg_wnd = wnd, sg_data = data,
      sg_len = of_nat (length data), sg_tsval = ts, sg_tsecr = tsr\<rparr>"
proof -
  let ?p = "packet_header h' conv seq ack flags wnd ts tsr @ data"
  have p: "?p = be_bytes 4 conv @ be_bytes 4 seq @ be_bytes 4 ack @ [0, flags] @ be_bytes 2 wnd @ be_bytes 4 ts @ be_bytes 4 tsr @ data"
    by (simp add: packet_header_def long_to_bytes_eq)
  have "bytes_to_long h ?p = conv" "bytes_to_long h (drop 4 ?p) = seq" "bytes_to_long h (drop 8 ?p) = ack"
    "bytes_to_short h (drop 14 ?p) = wnd" "bytes_to_long h (drop 16 ?p) = ts" "bytes_to_long h (drop 20 ?p) = tsr"
    "drop 24 ?p = data" "?p ! 13 = flags"
    unfolding p by (simp_all add: bytes_to_long_eq nth_append)
  moreover have "of_nat (length ?p) - HEADER_SIZE = (of_nat (length data) :: uint32)" "unat HEADER_SIZE = 24" by simp_all
  ultimately show ?thesis unfolding parse_segment_def by simp
qed

section \<open>Properties\<close>

text \<open>C11: The life cycle of a connection. In every state a sequence of calls can reach, whatever packets
  arrive and whatever the network answers: while the connection is being set up the application has
  been told nothing, while it is established it has been told \<^verbatim>\<open>OnTcpOpen\<close> exactly once, and in the
  state closed it has been told \<^verbatim>\<open>OnTcpClosed\<close> exactly once, as the very last call. Closed is final:
  no later call leaves it, sends a packet or notifies the application.
\<close>

theorem tcp_life_cycle:
  assumes "tcp_reachable h net t"
  shows "(m_state t \<in> {TCP_LISTEN, TCP_SYN_SENT, TCP_SYN_RECEIVED} \<longrightarrow> life_events t = []) \<and>
    (m_state t = TCP_ESTABLISHED \<longrightarrow> life_events t = [OnTcpOpen]) \<and>
    (m_state t = TCP_CLOSED \<longrightarrow> (\<exists>err. (life_events t = [OnTcpClosed err] \<or> life_events t = [OnTcpOpen, OnTcpClosed err]) \<and>
       last (m_notify t) = OnTcpClosed err) \<and>
       (\<forall>clk oper t'. tcp_step h net clk oper t = Some t' \<longrightarrow> m_state t' = TCP_CLOSED \<and> m_notify t' = m_notify t))"
  using tcp_reachable_life [OF assms] tcp_step_closed [of t h net] by (auto simp: life_inv_def)

text \<open>A packet that resets the connection with conversation number 7.\<close>

definition reset_packet :: bytes where
  "reset_packet = packet_header True 7 0 0 FLAG_RST 0 0 0"

lemma reset_packet_step:
  "tcp_step True net 0 (Op_Packet reset_packet) (PseudoTcp_new 7 0) =
     Some (closedown ECONNRESET (PseudoTcp_new 7 0 \<lparr>m_lasttraffic := 0, m_lastrecv := 0, m_bOutgoing := False\<rparr>))"
  using parse_segment_header [of True True 7 0 0 FLAG_RST 0 0 0 "[]"]
  by (simp add: NotifyPacket_def parse_def reset_packet_def process_def PseudoTcp_new_def)

theorem tcp_life_cycle_witness:
  "\<exists>t. tcp_reachable True (\<lambda>_ _. WR_SUCCESS) t \<and> m_state t = TCP_CLOSED \<and> life_events t = [OnTcpClosed ECONNRESET]"
proof -
  let ?net = "\<lambda>_ _. WR_SUCCESS"
  let ?t = "closedown ECONNRESET (PseudoTcp_new 7 0 \<lparr>m_lasttraffic := 0, m_lastrecv := 0, m_bOutgoing := False\<rparr>)"
  have r: "tcp_reachable True ?net ?t" by (rule tcp_reachable.step [OF tcp_reachable.start reset_packet_step])
  moreover have "m_state ?t = TCP_CLOSED" "last (m_notify ?t) = OnTcpClosed ECONNRESET" "OnTcpOpen \<notin> set (life_events ?t)"
    by (simp_all add: closedown_def notify_def PseudoTcp_new_def life_events_def)
  moreover from this tcp_life_cycle [OF r] have "life_events ?t = [OnTcpClosed ECONNRESET]" by auto
  ultimately show ?thesis by blast
qed

text \<open>The retransmission timeout stays within its bounds. In every reachable state it lies between a
  quarter of a second and one minute, whatever round-trip times the peer reports and however often
  the timer backs off.
\<close>

theorem tcp_rto_bounds:
  assumes "tcp_reachable h net t"
  shows "250 \<le> m_rx_rto t \<and> m_rx_rto t \<le> 60000"
  using tcp_reachable_life [OF assms] by (simp add: life_inv_def rto_ok_def)

theorem tcp_rto_bounds_witness: "250 \<le> m_rx_rto (PseudoTcp_new 7 0) \<and> m_rx_rto (PseudoTcp_new 7 0) \<le> 60000"
  by (rule tcp_rto_bounds [of True "\<lambda>_ _. WR_SUCCESS", OF tcp_reachable.start])

text \<open>C37: What goes on the wire is what the peer parses. A packet that \<^verbatim>\<open>packet\<close> hands to the network parses,
  on a host of any byte order, into a segment with the conversation number, the sequence number, the
  flags and the timestamps it was built from, the next expected byte as acknowledgement, the scaled
  receive window, and as data exactly the requested bytes of the send buffer.
\<close>

theorem tcp_packet_on_the_wire:
  assumes "packet h net clk seq flags offset len t = Some (wres, t')" and "fb_inv (m_sbuf t)"
  shows "\<exists>buffer. m_notify t' = m_notify t @ [TcpWritePacket buffer] \<and>
    parse_segment h' buffer =
      \<lparr>sg_conv = m_conv t, sg_seq = seq, sg_ack = m_rcv_nxt t, sg_flags = flags,
       sg_wnd = ucast (drop_bit (unat (m_rwnd_scale t)) (m_rcv_wnd t)),
       sg_data = take (unat len) (drop (unat offset) (fb_contents (m_sbuf t))), sg_len = len,
       sg_tsval = clk, sg_tsecr = m_ts_recent t\<rparr>"
proof -
  let ?data = "take (unat len) (drop (unat offset) (fb_contents (m_sbuf t)))"
  from assms(1) obtain payload where p: "packet_payload offset len (t\<lparr>m_ts_lastack := m_rcv_nxt t\<rparr>) = Some payload"
    and n: "m_notify t' = m_notify t @ [TcpWritePacket (packet_header h (m_conv t) seq (m_rcv_nxt t) flags
       (ucast (drop_bit (unat (m_rwnd_scale t)) (m_rcv_wnd t))) clk (m_ts_recent t) @ payload)]"
    by (auto simp: packet_def notify_def Let_def shift_right32_def split: Option.bind_splits if_splits)
  have "payload = ?data \<and> length payload = unat len"
  proof (cases "len = 0")
    case True
    with p show ?thesis by (simp add: packet_payload_def)
  next
    case False
    then have "unat offset < fb_data_length (m_sbuf t)"
      using p by (auto simp: packet_payload_def assert_opt_def ReadOffset_def ReadOffsetLocked_def
          split: if_splits prod.splits Option.bind_splits)
    with False p ReadOffset_success [OF assms(2)] show ?thesis
      by (auto simp: packet_payload_def assert_opt_def ReadOffset_def split: if_splits Option.bind_splits)
  qed
  then show ?thesis using n by (auto simp: parse_segment_header)
qed

definition sending_tcp :: PseudoTcp where
  "sending_tcp = PseudoTcp_new 7 0 \<lparr>m_sbuf := \<lparr>fb_state = SS_OPEN, fb_buffer = [10, 11, 12], fb_buffer_length = 3,
     fb_data_length = 3, fb_read_position = 0, fb_events = []\<rparr>\<rparr>"

theorem tcp_packet_on_the_wire_witness:
  "\<exists>wres t' buffer. packet True (\<lambda>_ _. WR_SUCCESS) 5 0 0 1 2 sending_tcp = Some (wres, t') \<and>
     m_notify t' = [TcpWritePacket buffer] \<and> sg_data (parse_segment False buffer) = [11, 12]"
proof -
  obtain wres t' where p: "packet True (\<lambda>_ _. WR_SUCCESS) 5 0 0 1 2 sending_tcp = Some (wres, t')"
    by (simp add: packet_def packet_payload_def assert_opt_def shift_right32_def sending_tcp_def PseudoTcp_new_def
        ReadOffset_def ReadOffsetLocked_def Let_def notify_def)
  moreover have "fb_inv (m_sbuf sending_tcp)" "fb_contents (m_sbuf sending_tcp) = [10, 11, 12]" "m_notify sending_tcp = []"
    by (simp_all add: sending_tcp_def fb_inv_def fb_contents_def fb_ring_def PseudoTcp_new_def)
  ultimately show ?thesis using tcp_packet_on_the_wire [OF p, of False] by force
qed

section \<open>Timers\<close>

definition spoke :: "PseudoTcp \<Rightarrow> PseudoTcp \<Rightarrow> bool" where
  "spoke t t' \<longleftrightarrow> length (m_notify t) < length (m_notify t')"

lemma send_frame_grows: "send_frame t t' \<Longrightarrow> length (m_notify t) \<le> length (m_notify t')"
  by (auto simp: send_frame_def)

lemma packet_spoke: "packet h net clk seq flags offset len t = Some (w, t') \<Longrightarrow> spoke t t'"
  by (auto simp: packet_def notify_def Let_def spoke_def split: Option.bind_splits if_splits)

lemma transmit_loop_spoke:
  assumes "transmit_loop h net clk seg n t = Some (r, t')"
  shows "spoke t t'"
proof -
  from assms [unfolded transmit_loop.simps [of h net clk seg n t]]
  obtain w t\<^sub>1 where p: "packet h net clk (ss_seq seg) (if ss_bCtrl seg then FLAG_CTL else 0)
       (ss_seq seg - m_snd_una t) n t = Some (w, t\<^sub>1)"
    and rest: "t' = t\<^sub>1 \<or> (\<exists>r\<^sub>2 t\<^sub>2. reduce_mss n t\<^sub>1 = Some (r\<^sub>2, t\<^sub>2) \<and> (t' = t\<^sub>2 \<or> (\<exists>k. transmit_loop h net clk seg k t\<^sub>2 = Some (r, t'))))"
    by (auto split: Option.bind_splits WriteResult.splits option.splits) blast
  have "length (m_notify t\<^sub>1) \<le> length (m_notify t')"
    using rest by (auto dest!: reduce_mss_frame transmit_loop_frame send_frame_grows)
  with packet_spoke [OF p] show ?thesis by (simp add: spoke_def)
qed

lemma transmit_spoke: "transmit h net clk i now t = Some (True, t') \<Longrightarrow> spoke t t'"
  by (auto simp: transmit_def Let_def split: Option.bind_splits if_splits option.splits dest!: transmit_loop_spoke)
    (auto simp: spoke_def transmit_done_def Let_def)

lemma closedown_spoke: "length (m_notify t) \<le> length (m_notify t') \<Longrightarrow> spoke t (closedown err t')"
  by (simp add: spoke_def closedown_def notify_def)

lemma clock_retransmit_spoke:
  assumes "clock_retransmit h net clk now t = Some (ok, t')"
  shows "if m_rto_base t \<noteq> 0 \<and> TimeDiff (m_rto_base t + m_rx_rto t) now \<le> 0 then spoke t t' else ok \<and> t' = t"
proof -
  have "length (m_notify t) \<le> length (m_notify u)" if "transmit h net clk 0 now t = Some (False, u)" for u
    using transmit_frame [OF that] by (rule send_frame_grows)
  with assms show ?thesis
    by (auto simp: clock_retransmit_def Let_def split: Option.bind_splits if_splits
        dest!: transmit_spoke) (auto simp: spoke_def closedown_def notify_def)
qed

lemma clock_probe_spoke:
  assumes "clock_probe h net clk now t = Some (ok, t')"
  shows "if m_snd_wnd t = 0 \<and> TimeDiff (m_lastsend t + m_rx_rto t) now \<le> 0 then spoke t t' else ok \<and> t' = t"
  using assms
  by (auto simp: clock_probe_def Let_def split: Option.bind_splits if_splits dest!: packet_spoke intro: closedown_spoke)
    (auto simp: spoke_def)

lemma clock_delayed_ack_spoke:
  assumes "clock_delayed_ack h net clk now t = Some t'"
  shows "if m_t_ack t \<noteq> 0 \<and> TimeDiff (m_t_ack t + m_ack_delay t) now \<le> 0 then spoke t t' else t' = t"
  using assms by (auto simp: clock_delayed_ack_def split: if_splits dest!: packet_spoke)

lemma NotifyClock_steps:
  assumes "NotifyClock h net clk now t = Some t'" and "m_state t \<noteq> TCP_CLOSED"
  obtains ok t\<^sub>1 where "clock_retransmit h net clk now t = Some (ok, t\<^sub>1)"
    and "\<not> ok \<longrightarrow> t' = t\<^sub>1"
    and "ok \<longrightarrow> (\<exists>ok' t\<^sub>2. clock_probe h net clk now t\<^sub>1 = Some (ok', t\<^sub>2) \<and>
      (if ok' then clock_delayed_ack h net clk now t\<^sub>2 = Some t' else t' = t\<^sub>2))"
  using assms by (auto simp: NotifyClock_def split: Option.bind_splits if_splits)

lemma NotifyClock_due:
  assumes "NotifyClock h net clk now t = Some t'" and "m_state t \<noteq> TCP_CLOSED"
    and "m_rto_base t \<noteq> 0 \<and> TimeDiff (m_rto_base t + m_rx_rto t) now \<le> 0 \<or>
      m_snd_wnd t = 0 \<and> TimeDiff (m_lastsend t + m_rx_rto t) now \<le> 0 \<or>
      m_t_ack t \<noteq> 0 \<and> TimeDiff (m_t_ack t + m_ack_delay t) now \<le> 0"
  shows "spoke t t'"
proof -
  from assms(1,2) obtain ok t\<^sub>1 where 1: "clock_retransmit h net clk now t = Some (ok, t\<^sub>1)" and n: "\<not> ok \<longrightarrow> t' = t\<^sub>1"
    and y: "ok \<longrightarrow> (\<exists>ok' t\<^sub>2. clock_probe h net clk now t\<^sub>1 = Some (ok', t\<^sub>2) \<and>
      (if ok' then clock_delayed_ack h net clk now t\<^sub>2 = Some t' else t' = t\<^sub>2))" by (rule NotifyClock_steps)
  note s\<^sub>1 = clock_retransmit_spoke [OF 1]
  show ?thesis
  proof (cases ok)
    case True
    from y True obtain ok' t\<^sub>2 where 2: "clock_probe h net clk now t\<^sub>1 = Some (ok', t\<^sub>2)"
      and 3: "if ok' then clock_delayed_ack h net clk now t\<^sub>2 = Some t' else t' = t\<^sub>2" by blast
    note s\<^sub>2 = clock_probe_spoke [OF 2]
    have s\<^sub>3: "if ok' \<and> m_t_ack t\<^sub>2 \<noteq> 0 \<and> TimeDiff (m_t_ack t\<^sub>2 + m_ack_delay t\<^sub>2) now \<le> 0 then spoke t\<^sub>2 t' else t' = t\<^sub>2"
      using 3 clock_delayed_ack_spoke [of h net clk now t\<^sub>2 t'] by (auto split: if_splits)
    show ?thesis using s\<^sub>1 s\<^sub>2 s\<^sub>3 assms(3) by (auto simp: spoke_def split: if_splits)
  qed (use s\<^sub>1 n in \<open>auto split: if_splits\<close>)
qed





end
