(* ===== verification/Pseudo_Tcp_Recv.thy ===== *)
theory Pseudo_Tcp_Recv
  imports Pseudo_Tcp_State Fifo_Correct
begin

text \<open>
  The receiving side of \<^verbatim>\<open>PseudoTcp\<close>. The peer sends a byte stream \<open>S\<close> whose first byte has sequence
  number \<open>c\<close>; segments may be lost, repeated, reordered and cut differently each time. The invariant
  \<open>rcv_inv\<close> ties the receive buffer and the list of saved segments to the stream. Sequence numbers do
  not wrap in the stream considered: the code compares them without regard to wrapping.
\<close>

section \<open>The invariant\<close>

text \<open>\<open>k\<close> is the number of bytes the application has read, \<open>rs\<close> the saved segments.\<close>

definition saved_ok :: "bytes \<Rightarrow> nat \<Rightarrow> PseudoTcp \<Rightarrow> RSegment \<Rightarrow> bool" where
  "saved_ok S c t r \<longleftrightarrow> unat (rs_seq r) + unat (rs_len r) \<le> c + length S \<and>
     (\<forall>p. unat (rs_seq r) \<le> p \<and> p < unat (rs_seq r) + unat (rs_len r) \<and> unat (m_rcv_nxt t) \<le> p \<longrightarrow>
        p - unat (m_rcv_nxt t) < GetWriteRemaining (m_rbuf t) \<and> fb_ahead (m_rbuf t) ! (p - unat (m_rcv_nxt t)) = S ! (p - c))"

definition rcv_inv :: "bytes \<Rightarrow> nat \<Rightarrow> nat \<Rightarrow> RSegment list \<Rightarrow> PseudoTcp \<Rightarrow> bool" where
  "rcv_inv S c k rs t \<longleftrightarrow> c + length S < 2 ^ 32 \<and> fb_open (m_rbuf t) \<and> fb_buffer_length (m_rbuf t) < 2 ^ 32 \<and>
     k + fb_data_length (m_rbuf t) \<le> length S \<and>
     unat (m_rcv_nxt t) = c + k + fb_data_length (m_rbuf t) \<and>
     fb_contents (m_rbuf t) = take (fb_data_length (m_rbuf t)) (drop k S) \<and>
     (\<forall>r \<in> set rs. saved_ok S c t r)"

definition rcv_frame :: "PseudoTcp \<Rightarrow> PseudoTcp \<Rightarrow> bool" where
  "rcv_frame t t' \<longleftrightarrow> m_rbuf t' = m_rbuf t \<and> m_rlist t' = m_rlist t \<and> m_rcv_nxt t' = m_rcv_nxt t \<and> m_shutdown t' = m_shutdown t"

lemma rcv_frame_refl [simp, intro!]: "rcv_frame t t"
  by (simp add: rcv_frame_def)

lemma rcv_frame_trans [trans]: "rcv_frame t t' \<Longrightarrow> rcv_frame t' t'' \<Longrightarrow> rcv_frame t t''"
  by (simp add: rcv_frame_def)

lemma send_frame_rcv: "send_frame t t' \<Longrightarrow> rcv_frame t t'"
  by (simp add: send_frame_def rcv_frame_def)

lemma rcv_inv_frame: "rcv_frame t t' \<Longrightarrow> rcv_inv S c k rs t' = rcv_inv S c k rs t"
  by (simp add: rcv_frame_def rcv_inv_def saved_ok_def)

text \<open>Data segments of the peer, and segments without data.\<close>

definition genuine :: "bytes \<Rightarrow> nat \<Rightarrow> Segment \<Rightarrow> bool" where
  "genuine S c seg \<longleftrightarrow> sg_len seg = 0 \<or>
     c \<le> unat (sg_seq seg) \<and> unat (sg_seq seg) + unat (sg_len seg) \<le> c + length S \<and>
     sg_data seg = take (unat (sg_len seg)) (drop (unat (sg_seq seg) - c) S)"

section \<open>Fitting a segment into the window\<close>

lemma word_add_unat: "unat a + unat b < 2 ^ 32 \<Longrightarrow> unat (a + b :: uint32) = unat a + unat b"
  by (simp add: unat_word_ariths)

lemma word_sub_unat: "b \<le> a \<Longrightarrow> unat (a - b :: uint32) = unat a - unat b"
  by (rule unat_sub)

lemma word_sub_less:
  assumes "b < (a :: uint32)"
  shows "unat (a - b) = unat a - unat b" and "unat b < unat a"
  using assms by (auto intro: word_sub_unat unat_mono)

lemma word_diff_less_self: "b < (a :: uint32) \<Longrightarrow> a - b < a \<longleftrightarrow> b \<noteq> 0"
  using word_sub_less [of b a] by (auto simp: word_less_nat_alt word_unat_eq_iff)

text \<open>What the two trimming steps leave: nothing, or data within the window.\<close>

definition fits :: "bytes \<Rightarrow> nat \<Rightarrow> PseudoTcp \<Rightarrow> Segment \<Rightarrow> bool" where
  "fits S c t seg \<longleftrightarrow> m_rcv_nxt t \<le> sg_seq seg \<and> c \<le> unat (sg_seq seg) \<and>
     unat (sg_seq seg) + unat (sg_len seg) \<le> c + length S \<and>
     unat (sg_seq seg) - unat (m_rcv_nxt t) + unat (sg_len seg) \<le> GetWriteRemaining (m_rbuf t) \<and>
     take (unat (sg_len seg)) (sg_data seg) = take (unat (sg_len seg)) (drop (unat (sg_seq seg) - c) S)"

lemma trim_old_genuine:
  fixes t :: PseudoTcp
  assumes "genuine S c seg" and "c + length S < 2 ^ 32"
  defines "seg' \<equiv> trim_old seg t"
  shows "sg_len seg' = 0 \<or> m_rcv_nxt t \<le> sg_seq seg' \<and> c \<le> unat (sg_seq seg') \<and>
     unat (sg_seq seg') + unat (sg_len seg') \<le> c + length S \<and>
     sg_data seg' = take (unat (sg_len seg')) (drop (unat (sg_seq seg') - c) S)"
proof (cases "sg_seq seg < m_rcv_nxt t \<and> m_rcv_nxt t - sg_seq seg < sg_len seg")
  case True
  let ?a = "m_rcv_nxt t - sg_seq seg"
  have a: "unat ?a = unat (m_rcv_nxt t) - unat (sg_seq seg)" "unat (sg_seq seg) < unat (m_rcv_nxt t)"
    using True word_sub_less by blast+
  have l: "unat (sg_len seg - ?a) = unat (sg_len seg) - unat ?a" "unat ?a < unat (sg_len seg)"
    using True word_sub_less by blast+
  from True have seg': "seg' = seg\<lparr>sg_seq := m_rcv_nxt t, sg_data := drop (unat ?a) (sg_data seg), sg_len := sg_len seg - ?a\<rparr>"
    by (simp add: seg'_def trim_old_def Let_def)
  have "sg_len seg \<noteq> 0" using True by auto
  then have g: "c \<le> unat (sg_seq seg)" "unat (sg_seq seg) + unat (sg_len seg) \<le> c + length S"
    "sg_data seg = take (unat (sg_len seg)) (drop (unat (sg_seq seg) - c) S)" using assms(1) by (auto simp: genuine_def)
  have "drop (unat ?a) (sg_data seg) = take (unat (sg_len seg) - unat ?a) (drop (unat (m_rcv_nxt t) - c) S)"
    unfolding g(3) using a g(1) by (simp add: drop_take add.commute)
  with a l g show ?thesis unfolding seg' by simp
next
  case False
  with assms(1) show ?thesis by (auto simp: seg'_def trim_old_def genuine_def Let_def not_less)
qed

lemma trim_window_fits:
  assumes "c + length S < 2 ^ 32" and "GetWriteRemaining (m_rbuf t) < 2 ^ 32"
    and "sg_len seg = 0 \<or> m_rcv_nxt t \<le> sg_seq seg \<and> c \<le> unat (sg_seq seg) \<and>
     unat (sg_seq seg) + unat (sg_len seg) \<le> c + length S \<and>
     sg_data seg = take (unat (sg_len seg)) (drop (unat (sg_seq seg) - c) S)"
  shows "sg_len (trim_window seg t) = 0 \<or> fits S c t (trim_window seg t)"
proof (cases "sg_len seg = 0")
  case True
  then show ?thesis by (simp add: trim_window_def Let_def)
next
  case False
  let ?room = "GetWriteRemaining (m_rbuf t)" and ?n = "unat (m_rcv_nxt t)" and ?s = "unat (sg_seq seg)" and ?l = "unat (sg_len seg)"
  let ?e = "sg_seq seg + sg_len seg - m_rcv_nxt t" and ?w = "of_nat ?room :: uint32"
  have g: "m_rcv_nxt t \<le> sg_seq seg" "c \<le> ?s" "?s + ?l \<le> c + length S" "sg_data seg = take ?l (drop (?s - c) S)"
    using False assms(3) by auto
  have n: "?n \<le> ?s" using g(1) by (simp add: word_le_nat_alt)
  have sl: "unat (sg_seq seg + sg_len seg) = ?s + ?l" using g(3) assms(1) by (intro word_add_unat) simp
  have e: "unat ?e = ?s - ?n + ?l"
    using n sl by (subst word_sub_unat) (simp_all add: word_le_nat_alt)
  have w: "unat ?w = ?room" using assms(2) by (simp add: unat_of_nat take_bit_nat_eq_self)
  have d: "take ?l (sg_data seg) = take ?l (drop (?s - c) S)" unfolding g(4) by simp
  show ?thesis
  proof (cases "?e > ?w")
    case False
    then have "?s - ?n + ?l \<le> ?room" using e w by (simp add: word_less_nat_alt)
    with False g d show ?thesis by (simp add: trim_window_def fits_def)
  next
    case True
    have a: "unat (?e - ?w) = ?s - ?n + ?l - ?room" "?room < ?s - ?n + ?l"
      using word_sub_less [OF True] unfolding e w by blast+
    show ?thesis
    proof (cases "?e - ?w < sg_len seg")
      case True
      then have l': "unat (sg_len seg - (?e - ?w)) = ?l - (?s - ?n + ?l - ?room)" "?s - ?n + ?l - ?room < ?l"
        using word_sub_less [OF True] unfolding a by blast+
      have seg': "trim_window seg t = seg\<lparr>sg_len := sg_len seg - (?e - ?w)\<rparr>"
        using \<open>?w < ?e\<close> True by (simp add: trim_window_def Let_def)
      have "take (unat (sg_len seg - (?e - ?w))) (sg_data seg) = take (unat (sg_len seg - (?e - ?w))) (drop (?s - c) S)"
        unfolding g(4) l' by (simp add: min.absorb1)
      with g l' a show ?thesis unfolding seg' fits_def by auto
    next
      case False
      with \<open>?w < ?e\<close> show ?thesis by (simp add: trim_window_def Let_def)
    qed
  qed
qed

lemma trim_flags [simp]: "sg_flags (trim_window seg t) = sg_flags seg" "sg_flags (trim_old seg t) = sg_flags seg"
  by (auto simp: trim_window_def trim_old_def Let_def)

section \<open>Storing and recovering data\<close>

lemma rcv_room: "rcv_inv S c k rs t \<Longrightarrow> GetWriteRemaining (m_rbuf t) < 2 ^ 32"
  by (auto simp: rcv_inv_def GetWriteRemaining_def)

lemma saved_okD:
  "saved_ok S c t r \<Longrightarrow> unat (rs_seq r) \<le> p \<Longrightarrow> p < unat (rs_seq r) + unat (rs_len r) \<Longrightarrow> unat (m_rcv_nxt t) \<le> p \<Longrightarrow>
   p - unat (m_rcv_nxt t) < GetWriteRemaining (m_rbuf t) \<and> fb_ahead (m_rbuf t) ! (p - unat (m_rcv_nxt t)) = S ! (p - c)"
  by (simp add: saved_ok_def)

lemma rcv_consume:
  assumes inv: "rcv_inv S c k rs t" and n: "unat n \<le> GetWriteRemaining (m_rbuf t)"
    and S: "unat (m_rcv_nxt t) + unat n \<le> c + length S"
    and ahead: "\<forall>i<unat n. fb_ahead (m_rbuf t) ! i = S ! (unat (m_rcv_nxt t) - c + i)"
  obtains b' where "ConsumeWriteBuffer (unat n) (m_rbuf t) = Some b'"
    and "rcv_inv S c k rs (t\<lparr>m_rbuf := b', m_rcv_nxt := m_rcv_nxt t + n, m_rcv_wnd := w\<rparr>)"
    and "fb_data_length b' = fb_data_length (m_rbuf t) + unat n"
proof -
  let ?b = "m_rbuf t" and ?N = "unat (m_rcv_nxt t)"
  have open_b: "fb_inv ?b" "fb_state ?b = SS_OPEN" using inv by (auto simp: rcv_inv_def fb_open_def)
  have room: "unat n \<le> fb_buffer_length ?b - fb_data_length ?b" using n by (simp add: GetWriteRemaining_def)
  obtain b' where b': "ConsumeWriteBuffer (unat n) ?b = Some b'" "fb_inv b'"
    "fb_contents b' = fb_contents ?b @ take (unat n) (fb_ahead ?b)" "fb_ahead b' = drop (unat n) (fb_ahead ?b)"
    "fb_buffer_length b' = fb_buffer_length ?b" "fb_state b' = fb_state ?b"
    by (rule ConsumeWriteBuffer_success [OF open_b(1) room])
  have la: "length (fb_ahead ?b) = fb_buffer_length ?b - fb_data_length ?b" using open_b by simp
  have dl: "fb_data_length b' = fb_data_length ?b + unat n"
    using length_fb_contents [OF b'(2)] length_fb_contents [OF open_b(1)] la room unfolding b'(3) by simp
  have N: "?N = c + k + fb_data_length ?b" "c + length S < 2 ^ 32" using inv by (auto simp: rcv_inv_def)
  have N': "unat (m_rcv_nxt t + n) = ?N + unat n" using S N(2) by (intro word_add_unat) simp
  have "take (unat n) (fb_ahead ?b) = take (unat n) (drop (fb_data_length ?b) (drop k S))"
    by (rule nth_equalityI) (use ahead la room S N in \<open>auto simp: add.commute add.left_commute\<close>)
  then have cont: "fb_contents b' = take (fb_data_length b') (drop k S)"
    using inv unfolding b'(3) dl by (simp add: rcv_inv_def take_add)
  let ?t = "t\<lparr>m_rbuf := b', m_rcv_nxt := m_rcv_nxt t + n, m_rcv_wnd := w\<rparr>"
  have "saved_ok S c ?t r" if r: "r \<in> set rs" for r
  proof -
    have ok: "saved_ok S c t r" using inv r by (simp add: rcv_inv_def)
    have "p - (?N + unat n) < GetWriteRemaining b' \<and> fb_ahead b' ! (p - (?N + unat n)) = S ! (p - c)"
      if "unat (rs_seq r) \<le> p" "p < unat (rs_seq r) + unat (rs_len r)" "?N + unat n \<le> p" for p
      using saved_okD [OF ok that(1,2)] that(3) la room dl b'(4,5) by (auto simp: GetWriteRemaining_def)
    with ok show ?thesis unfolding saved_ok_def by (simp add: N')
  qed
  then have "rcv_inv S c k rs ?t"
    using inv b' dl cont S N N' by (simp add: rcv_inv_def fb_open_def)
  with b'(1) dl show thesis by (intro that)
qed

lemma rcv_store:
  assumes inv: "rcv_inv S c k rs t" and fit: "fits S c t seg" and pos: "sg_len seg \<noteq> 0"
  obtains b' m where "WriteOffset (take (unat (sg_len seg)) (sg_data seg)) (unat (sg_seq seg - m_rcv_nxt t)) (m_rbuf t) = (SR_SUCCESS, m, b')"
    and "rcv_inv S c k rs (t\<lparr>m_rbuf := b'\<rparr>)"
    and "saved_ok S c (t\<lparr>m_rbuf := b'\<rparr>) \<lparr>rs_seq = sg_seq seg, rs_len = sg_len seg\<rparr>"
    and "fb_data_length b' = fb_data_length (m_rbuf t)" and "fb_buffer_length b' = fb_buffer_length (m_rbuf t)"
proof -
  let ?b = "m_rbuf t" and ?N = "unat (m_rcv_nxt t)" and ?s = "unat (sg_seq seg)" and ?l = "unat (sg_len seg)"
  define D where "D = take ?l (sg_data seg)"
  let ?room = "fb_buffer_length (m_rbuf t) - fb_data_length (m_rbuf t)"
  have open_b: "fb_inv ?b" "fb_state ?b = SS_OPEN" "fb_state ?b \<noteq> SS_CLOSED" using inv by (auto simp: rcv_inv_def fb_open_def)
  have f: "m_rcv_nxt t \<le> sg_seq seg" "c \<le> ?s" "?s + ?l \<le> c + length S" "?s - ?N + ?l \<le> ?room"
    "D = take ?l (drop (?s - c) S)" using fit by (auto simp: fits_def GetWriteRemaining_def D_def)
  have N: "?N \<le> ?s" "c \<le> ?N" using f(1) inv by (auto simp: word_le_nat_alt rcv_inv_def)
  have off: "unat (sg_seq seg - m_rcv_nxt t) = ?s - ?N" using f(1) by (rule word_sub_unat)
  have l: "0 < ?l" using pos by (simp add: unat_gt_0)
  have d: "length D = ?l" unfolding f(5) using f(2,3) by simp
  have o: "?s - ?N < ?room" using f(4) l by linarith
  let ?k = "min (length D) (?room - (?s - ?N))"
  obtain buffer where w: "WriteOffsetLocked D (?s - ?N) ?b = (SR_SUCCESS, ?k, ?b\<lparr>fb_buffer := buffer\<rparr>)"
    and b': "fb_inv (?b\<lparr>fb_buffer := buffer\<rparr>)" "fb_contents (?b\<lparr>fb_buffer := buffer\<rparr>) = fb_contents ?b"
    "fb_ahead (?b\<lparr>fb_buffer := buffer\<rparr>) = blit (fb_ahead ?b) (?s - ?N) (take ?k D)"
    by (rule WriteOffset_ahead [OF open_b(1,3) o])
  have "?k = ?l" unfolding d using f(4) by simp
  then have tk: "take ?k D = D" by (simp only: take_all d)
  define b\<^sub>1 where "b\<^sub>1 = ?b\<lparr>fb_buffer := buffer\<rparr>"
  have ahead: "fb_ahead b\<^sub>1 ! i = (if ?s - ?N \<le> i \<and> i < ?s - ?N + ?l then S ! (?N - c + i) else fb_ahead ?b ! i)"
    if "i < ?room" for i
  proof -
    have "D ! (i - (?s - ?N)) = S ! (?N - c + i)" if "?s - ?N \<le> i" "i < ?s - ?N + ?l"
      unfolding f(5) using that N f(2,3) by (simp add: add.commute)
    then show ?thesis using that b'(3) nth_blit [of "?s - ?N" D "fb_ahead ?b" i] f(4) d open_b(1)
      by (simp add: tk b\<^sub>1_def)
  qed
  have same: "GetWriteRemaining b\<^sub>1 = ?room" "GetWriteRemaining ?b = ?room" by (simp_all add: b\<^sub>1_def GetWriteRemaining_def)
  have "saved_ok S c (t\<lparr>m_rbuf := b\<^sub>1\<rparr>) r" if r: "r \<in> set rs" for r
  proof -
    have ok: "saved_ok S c t r" using inv r by (simp add: rcv_inv_def)
    show ?thesis unfolding saved_ok_def
    proof (intro conjI allI impI)
      fix p assume p: "unat (rs_seq r) \<le> p \<and> p < unat (rs_seq r) + unat (rs_len r) \<and> unat (m_rcv_nxt (t\<lparr>m_rbuf := b\<^sub>1\<rparr>)) \<le> p"
      then have q: "p - ?N < ?room" "fb_ahead ?b ! (p - ?N) = S ! (p - c)" using saved_okD [OF ok] same by auto
      then show "p - unat (m_rcv_nxt (t\<lparr>m_rbuf := b\<^sub>1\<rparr>)) < GetWriteRemaining (m_rbuf (t\<lparr>m_rbuf := b\<^sub>1\<rparr>))"
        "fb_ahead (m_rbuf (t\<lparr>m_rbuf := b\<^sub>1\<rparr>)) ! (p - unat (m_rcv_nxt (t\<lparr>m_rbuf := b\<^sub>1\<rparr>))) = S ! (p - c)"
        using p same N(2) ahead [OF q(1)] by (simp_all split: if_splits)
    qed (use ok in \<open>simp add: saved_ok_def\<close>)
  qed
  then have 1: "rcv_inv S c k rs (t\<lparr>m_rbuf := b\<^sub>1\<rparr>)"
    using inv b' open_b by (simp add: rcv_inv_def fb_open_def b\<^sub>1_def)
  have 2: "saved_ok S c (t\<lparr>m_rbuf := b\<^sub>1\<rparr>) \<lparr>rs_seq = sg_seq seg, rs_len = sg_len seg\<rparr>"
    unfolding saved_ok_def using f N same by (auto simp: ahead)
  from w 1 2 show thesis by (intro that [of ?k b\<^sub>1]) (simp_all add: WriteOffset_def off b\<^sub>1_def flip: D_def)
qed

lemma rcv_inv_Cons:
  "rcv_inv S c k (r # rs) t \<longleftrightarrow> saved_ok S c t r \<and> rcv_inv S c k rs t"
  by (auto simp: rcv_inv_def)

lemma rcv_inv_rlist [simp]: "rcv_inv S c k rs (t\<lparr>m_rlist := xs\<rparr>) = rcv_inv S c k rs t"
  by (simp add: rcv_inv_def saved_ok_def)

text \<open>The result of an operation on the receiving side: the invariant holds, and nothing is taken back.\<close>

definition received :: "bytes \<Rightarrow> nat \<Rightarrow> nat \<Rightarrow> PseudoTcp \<Rightarrow> nat \<Rightarrow> PseudoTcp \<Rightarrow> bool" where
  "received S c k t n t' \<longleftrightarrow> rcv_inv S c k (m_rlist t') t' \<and> m_shutdown t' = m_shutdown t \<and> n \<le> unat (m_rcv_nxt t')"

lemma recover_rlist_inv:
  "rcv_inv S c k rs t \<Longrightarrow> n \<le> unat (m_rcv_nxt t) \<Longrightarrow> \<exists>sf' t'. recover_rlist rs sf t = Some (sf', t') \<and> received S c k t n t'"
proof (induction rs arbitrary: sf t)
  case Nil
  then show ?case by (simp add: received_def)
next
  case (Cons r rs)
  have r: "saved_ok S c t r" and inv: "rcv_inv S c k rs t" using Cons.prems by (simp_all add: rcv_inv_Cons)
  have sum: "unat (rs_seq r + rs_len r) = unat (rs_seq r) + unat (rs_len r)" "unat (rs_seq r) + unat (rs_len r) \<le> c + length S"
    "c \<le> unat (m_rcv_nxt t)"
    using r inv by (auto simp: saved_ok_def rcv_inv_def intro: word_add_unat)
  show ?case
  proof (cases "rs_seq r \<le> m_rcv_nxt t \<and> m_rcv_nxt t < rs_seq r + rs_len r")
    case True
    let ?n = "rs_seq r + rs_len r - m_rcv_nxt t" and ?N = "unat (m_rcv_nxt t)"
    have n: "unat ?n = unat (rs_seq r) + unat (rs_len r) - ?N" "?N < unat (rs_seq r) + unat (rs_len r)" "unat (rs_seq r) \<le> ?N"
      using True word_sub_less [of "m_rcv_nxt t" "rs_seq r + rs_len r"] sum by (simp_all add: word_le_nat_alt)
    have "unat ?n \<le> GetWriteRemaining (m_rbuf t)"
      using saved_okD [OF r, of "unat (rs_seq r) + unat (rs_len r) - 1"] n by linarith
    moreover have "?N + unat ?n \<le> c + length S" using n sum by linarith
    moreover have "\<forall>i<unat ?n. fb_ahead (m_rbuf t) ! i = S ! (?N - c + i)"
      using saved_okD [OF r, of "?N + _"] n sum(3) by auto
    ultimately obtain b' where b': "ConsumeWriteBuffer (unat ?n) (m_rbuf t) = Some b'"
      and inv': "rcv_inv S c k rs (t\<lparr>m_rbuf := b', m_rcv_nxt := m_rcv_nxt t + ?n, m_rcv_wnd := m_rcv_wnd t - ?n\<rparr>)"
      by (rule rcv_consume [OF inv])
    have "n \<le> unat (m_rcv_nxt t + ?n)" using Cons.prems(2) n sum by simp
    with Cons.IH [OF inv', of sfImmediateAck] True b' show ?thesis by (simp add: received_def Let_def)
  next
    case False
    with Cons inv show ?thesis by (auto simp: received_def rcv_inv_Cons)
  qed
qed

lemma set_insert_rlist: "set (insert_rlist r rs) = insert r (set rs)"
proof -
  have "set rs = set (takeWhile P rs) \<union> set (dropWhile P rs)" for P :: "RSegment \<Rightarrow> bool"
    by (metis set_append takeWhile_dropWhile_id)
  then show ?thesis by (simp add: insert_rlist_def)
qed

lemma store_data_inv:
  assumes inv: "rcv_inv S c k (m_rlist t) t" and fit: "fits S c t seg" and pos: "sg_len seg \<noteq> 0"
  defines "n \<equiv> unat (m_rcv_nxt t) + (if sg_seq seg = m_rcv_nxt t then unat (sg_len seg) else 0)"
  shows "\<exists>sf' b t'. store_data seg sf t = Some (sf', b, t') \<and> received S c k t n t'"
proof -
  let ?l = "unat (sg_len seg)"
  obtain b\<^sub>1 m where w: "WriteOffset (take ?l (sg_data seg)) (unat (sg_seq seg - m_rcv_nxt t)) (m_rbuf t) = (SR_SUCCESS, m, b\<^sub>1)"
    and inv\<^sub>1: "rcv_inv S c k (m_rlist t) (t\<lparr>m_rbuf := b\<^sub>1\<rparr>)"
    and new: "saved_ok S c (t\<lparr>m_rbuf := b\<^sub>1\<rparr>) \<lparr>rs_seq = sg_seq seg, rs_len = sg_len seg\<rparr>"
    and same: "fb_data_length b\<^sub>1 = fb_data_length (m_rbuf t)" "fb_buffer_length b\<^sub>1 = fb_buffer_length (m_rbuf t)"
    by (rule rcv_store [OF inv fit pos])
  show ?thesis
  proof (cases "sg_seq seg = m_rcv_nxt t")
    case True
    let ?t = "t\<lparr>m_rbuf := b\<^sub>1\<rparr>" and ?N = "unat (m_rcv_nxt t)"
    have f: "?l \<le> GetWriteRemaining b\<^sub>1" "?N + ?l \<le> c + length S" "c \<le> ?N" "c + length S < 2 ^ 32"
      using fit same True inv by (auto simp: fits_def GetWriteRemaining_def rcv_inv_def)
    have "\<forall>i<?l. fb_ahead b\<^sub>1 ! i = S ! (?N - c + i)"
      using saved_okD [OF new, of "?N + _"] True f(3) by auto
    with f obtain b\<^sub>2 where b\<^sub>2: "ConsumeWriteBuffer ?l b\<^sub>1 = Some b\<^sub>2"
      and inv\<^sub>2: "rcv_inv S c k (m_rlist t) (t\<lparr>m_rbuf := b\<^sub>2, m_rcv_nxt := m_rcv_nxt t + sg_len seg, m_rcv_wnd := m_rcv_wnd t - sg_len seg\<rparr>)"
      using rcv_consume [OF inv\<^sub>1, of "sg_len seg" "m_rcv_wnd t - sg_len seg"] by auto
    have "n \<le> unat (m_rcv_nxt t + sg_len seg)" using True f by (simp add: n_def word_add_unat)
    with recover_rlist_inv [OF inv\<^sub>2, of n sf] w b\<^sub>2 True show ?thesis
      by (auto simp: store_data_def assert_opt_def received_def Let_def)
  next
    case False
    with w inv\<^sub>1 new show ?thesis
      by (auto simp: store_data_def assert_opt_def received_def n_def rcv_inv_def set_insert_rlist saved_ok_def)
  qed
qed

text \<open>The end of what a segment lets the receiver accept.\<close>

definition advance :: "Segment \<Rightarrow> PseudoTcp \<Rightarrow> nat" where
  "advance seg t =
     (let next = unat (m_rcv_nxt t); stop = unat (sg_seq seg) + unat (sg_len seg)
      in if unat (sg_seq seg) \<le> next \<and> next < stop then min stop (next + GetWriteRemaining (m_rbuf t)) else next)"

lemma trim_window_len:
  fixes seg :: Segment and t :: PseudoTcp
  assumes "sg_seq seg = m_rcv_nxt t"
  defines "w \<equiv> of_nat (GetWriteRemaining (m_rbuf t)) :: uint32"
  shows "unat (sg_len (trim_window seg t)) = min (unat (sg_len seg)) (unat w)"
proof (cases "w < sg_len seg")
  case True
  with assms(1) word_diff_less_self [OF True] word_sub_less [OF True] show ?thesis
    by (auto simp: trim_window_def Let_def simp flip: w_def)
next
  case False
  with assms(1) show ?thesis by (simp add: trim_window_def Let_def word_less_nat_alt flip: w_def)
qed

lemma trim_advance:
  fixes t :: PseudoTcp
  assumes "unat (sg_seq seg) + unat (sg_len seg) < 2 ^ 32" and "GetWriteRemaining (m_rbuf t) < 2 ^ 32"
    and "unat (sg_seq seg) \<le> unat (m_rcv_nxt t)" and "unat (m_rcv_nxt t) < unat (sg_seq seg) + unat (sg_len seg)"
  defines "seg' \<equiv> trim_window (trim_old seg t) t"
  shows "sg_len seg' \<noteq> 0 \<longrightarrow> sg_seq seg' = m_rcv_nxt t"
    and "unat (m_rcv_nxt t) + unat (sg_len seg') = advance seg t"
proof -
  let ?r = "m_rcv_nxt t" and ?w = "of_nat (GetWriteRemaining (m_rbuf t)) :: uint32" and ?o = "trim_old seg t"
  let ?l = "sg_len seg - (?r - sg_seq seg)"
  have a: "unat (?r - sg_seq seg) = unat ?r - unat (sg_seq seg)" using assms(3) by (simp add: word_sub_unat word_le_nat_alt)
  have l: "unat ?l = unat (sg_seq seg) + unat (sg_len seg) - unat ?r" "?r - sg_seq seg < sg_len seg"
    using assms(3,4) a by (simp_all add: word_sub_unat word_le_nat_alt word_less_nat_alt)
  have "sg_seq seg = ?r" if "\<not> sg_seq seg < ?r" using that assms(3) by (simp add: word_less_nat_alt word_unat_eq_iff)
  then have o: "sg_seq ?o = ?r" "sg_len ?o = ?l" using l(2) by (auto simp: trim_old_def Let_def)
  have w: "unat ?w = GetWriteRemaining (m_rbuf t)" using assms(2) by (simp add: unat_of_nat take_bit_nat_eq_self)
  have s: "sg_seq seg' = ?r" using o by (simp add: seg'_def trim_window_def Let_def)
  have "unat (sg_len seg') = min (unat ?l) (unat ?w)"
    using o(1) unfolding seg'_def o(2) [symmetric] by (rule trim_window_len)
  then show "sg_len seg' \<noteq> 0 \<longrightarrow> sg_seq seg' = ?r" "unat ?r + unat (sg_len seg') = advance seg t"
    using s l w assms(3,4) by (auto simp: advance_def Let_def)
qed

lemma process_data_inv:
  assumes inv: "rcv_inv S c k (m_rlist t) t" and gen: "genuine S c seg" and "sg_flags seg AND FLAG_CTL = 0" and "m_shutdown t = SD_NONE"
  shows "\<exists>sf b t'. process_data seg t = Some (sf, b, t') \<and> received S c k t (advance seg t) t'"
proof -
  let ?seg = "trim_window (trim_old seg t) t"
  have size: "c + length S < 2 ^ 32" using inv by (simp add: rcv_inv_def)
  have adv: "advance seg t \<le> unat (m_rcv_nxt t) + (if sg_seq ?seg = m_rcv_nxt t then unat (sg_len ?seg) else 0)"
  proof (cases "unat (sg_seq seg) \<le> unat (m_rcv_nxt t) \<and> unat (m_rcv_nxt t) < unat (sg_seq seg) + unat (sg_len seg)")
    case True
    moreover have "unat (sg_seq seg) + unat (sg_len seg) < 2 ^ 32"
      using gen size True by (auto simp: genuine_def)
    ultimately show ?thesis using trim_advance [OF _ rcv_room [OF inv], of seg] by fastforce
  qed (auto simp: advance_def Let_def)
  from trim_window_fits [OF size rcv_room [OF inv] trim_old_genuine [OF gen size]]
  consider "sg_len ?seg = 0" | "fits S c t ?seg" "sg_len ?seg \<noteq> 0" by blast
  then show ?thesis
  proof cases
    case 1
    with inv adv show ?thesis by (auto simp: process_data_def received_def split: if_splits)
  next
    case 2
    from store_data_inv [OF inv this, of "ack_flags seg t"] assms(3,4) 2(2) adv show ?thesis
      by (fastforce simp: process_data_def Let_def received_def word_neq_0_conv)
  qed
qed

section \<open>The rest of the control block\<close>

lemma rcv_frame_fields:
  "m_rbuf t' = m_rbuf t \<Longrightarrow> m_rlist t' = m_rlist t \<Longrightarrow> m_rcv_nxt t' = m_rcv_nxt t \<Longrightarrow> m_shutdown t' = m_shutdown t \<Longrightarrow> rcv_frame t t'"
  by (simp add: rcv_frame_def)

lemma closedown_rcv: "rcv_frame t (closedown err u) = rcv_frame t u"
  by (simp add: rcv_frame_def closedown_def notify_def)

lemma notify_rcv: "rcv_frame t (notify ev u) = rcv_frame t u"
  by (simp add: rcv_frame_def notify_def)

lemma adjustMTU_rcv: "rcv_frame t (adjustMTU u) = rcv_frame t u"
  by (simp add: rcv_frame_def adjustMTU_def Let_def)

lemma update_rtt_fields:
  assumes "update_rtt clk seg t = Some t'"
  shows "m_rbuf t' = m_rbuf t" "m_rlist t' = m_rlist t" "m_rcv_nxt t' = m_rcv_nxt t" "m_shutdown t' = m_shutdown t"
    "m_sbuf t' = m_sbuf t" "m_snd_una t' = m_snd_una t" "m_slist t' = m_slist t" "m_notify t' = m_notify t"
  using assms by (auto simp: update_rtt_def Let_def split: if_splits)

lemma take_ack_rcv: "take_ack clk seg t = Some t' \<Longrightarrow> rcv_frame t t'"
  by (auto simp: take_ack_def rcv_frame_def Let_def dest: update_rtt_fields split: Option.bind_splits)

lemma transmit_rcv: "transmit h net clk i now t = Some (ok, t') \<Longrightarrow> rcv_frame t t'"
  by (blast intro: send_frame_rcv transmit_frame)

lemma packet_rcv: "packet h net clk seq flags offset len t = Some (r, t') \<Longrightarrow> rcv_frame t t'"
  by (blast intro: send_frame_rcv packet_frame)

lemma attemptSend_rcv: "attemptSend h net clk sf t = Some t' \<Longrightarrow> rcv_frame t t'"
  by (blast intro: send_frame_rcv attemptSend_frame)

lemma queue_rcv: "queue data b t = Some (n, t') \<Longrightarrow> rcv_frame t t'"
  by (auto simp: queue_def rcv_frame_def Let_def split: Option.bind_splits prod.splits)

lemma process_ack_rcv: "process_ack h net clk seg t = Some (ok, t') \<Longrightarrow> rcv_frame t t'"
  by (auto simp: process_ack_def process_new_ack_def process_dup_ack_def Let_def closedown_rcv
      split: if_splits Option.bind_splits dest!: transmit_rcv take_ack_rcv) (auto simp: rcv_frame_def)

lemma clock_retransmit_rcv: "clock_retransmit h net clk now t = Some (ok, t') \<Longrightarrow> rcv_frame t t'"
  by (auto simp: clock_retransmit_def Let_def closedown_rcv split: if_splits Option.bind_splits dest!: transmit_rcv)
    (auto simp: rcv_frame_def)

lemma clock_probe_rcv: "clock_probe h net clk now t = Some (ok, t') \<Longrightarrow> rcv_frame t t'"
  by (auto simp: clock_probe_def Let_def closedown_rcv split: if_splits Option.bind_splits dest!: packet_rcv)
    (auto simp: rcv_frame_def)

lemma clock_delayed_ack_rcv: "clock_delayed_ack h net clk now t = Some t' \<Longrightarrow> rcv_frame t t'"
  by (auto simp: clock_delayed_ack_def split: if_splits dest!: packet_rcv)

lemma NotifyClock_rcv:
  assumes "NotifyClock h net clk now t = Some t'"
  shows "rcv_frame t t'"
proof (cases "m_state t = TCP_CLOSED")
  case False
  with assms obtain ok t\<^sub>1 where 1: "clock_retransmit h net clk now t = Some (ok, t\<^sub>1)"
    and r: "(if \<not> ok then Some t\<^sub>1 else do { (ok, t) \<leftarrow> clock_probe h net clk now t\<^sub>1;
      if \<not> ok then Some t else clock_delayed_ack h net clk now t }) = Some t'"
    by (auto simp: NotifyClock_def split: Option.bind_splits)
  have "rcv_frame t\<^sub>1 t'" using r
    by (auto split: if_splits Option.bind_splits) (meson clock_probe_rcv clock_delayed_ack_rcv rcv_frame_trans)+
  with clock_retransmit_rcv [OF 1] show ?thesis by (rule rcv_frame_trans)
qed (use assms in \<open>auto simp: NotifyClock_def\<close>)

lemma Send_rcv: "Send h net clk buffer t = Some (r, t') \<Longrightarrow> rcv_frame t t'"
  by (auto simp: Send_def split: if_splits Option.bind_splits dest!: queue_rcv attemptSend_rcv) (auto simp: rcv_frame_def)

lemma Connect_rcv: "Connect h net clk t = Some (r, t') \<Longrightarrow> rcv_frame t t'"
  by (auto simp: Connect_def queueConnectMessage_def Let_def split: if_splits Option.bind_splits
      dest!: queue_rcv attemptSend_rcv) (auto simp: rcv_frame_def)

section \<open>A whole run\<close>

text \<open>What the receiver has delivered so far is a prefix of the stream; \<open>k\<close> is its length.\<close>

definition receiving :: "bytes \<Rightarrow> nat \<Rightarrow> nat \<Rightarrow> PseudoTcp \<Rightarrow> bool" where
  "receiving S c k t \<longleftrightarrow> rcv_inv S c k (m_rlist t) t \<and> m_shutdown t = SD_NONE"

lemma receiving_frame: "rcv_frame t t' \<Longrightarrow> receiving S c k t \<Longrightarrow> receiving S c k t'"
  using rcv_inv_frame [of t t'] by (auto simp: receiving_def rcv_frame_def)

lemma received_receiving: "received S c k t n t' \<Longrightarrow> m_shutdown t = SD_NONE \<Longrightarrow> receiving S c k t'"
  by (simp add: received_def receiving_def)

lemma process_receiving:
  assumes "receiving S c k t" and "genuine S c seg" and "sg_flags seg AND FLAG_CTL = 0"
    and "process h net clk seg t = Some (r, t')"
  shows "receiving S c k t'"
proof -
  define t\<^sub>0 where "t\<^sub>0 = t\<lparr>m_lasttraffic := clk, m_lastrecv := clk, m_bOutgoing := False\<rparr>"
  have f\<^sub>0: "rcv_frame t t\<^sub>0" "rcv_frame t (closedown err t\<^sub>0)" for err by (simp_all add: t\<^sub>0_def rcv_frame_def closedown_def notify_def)
  show ?thesis
  proof (cases "sg_conv seg \<noteq> m_conv t \<or> m_state t\<^sub>0 = TCP_CLOSED \<or> sg_flags seg AND FLAG_RST \<noteq> 0")
    case True
    with assms(1,4) f\<^sub>0 show ?thesis by (auto simp: process_def Let_def t\<^sub>0_def [symmetric] split: if_splits intro: receiving_frame)
  next
    case False
    with assms(3,4) obtain ok t\<^sub>1 where a: "process_ack h net clk seg (process_timestamp seg t\<^sub>0) = Some (ok, t\<^sub>1)"
      and no: "\<not> ok \<Longrightarrow> t' = t\<^sub>1"
      and yes: "ok \<Longrightarrow> do { (sflags, bNewData, t) \<leftarrow> process_data seg (process_writeable (process_established False t\<^sub>1));
         t \<leftarrow> attemptSend h net clk sflags t; Some (True, process_readable bNewData t) } = Some (r, t')"
      by (auto simp: process_def process_control_def Let_def t\<^sub>0_def [symmetric] split: Option.bind_splits if_splits)
    define t\<^sub>2 where "t\<^sub>2 = process_writeable (process_established False t\<^sub>1)"
    have "rcv_frame t\<^sub>0 (process_timestamp seg t\<^sub>0)" by (simp add: process_timestamp_def rcv_frame_def)
    with process_ack_rcv [OF a] f\<^sub>0(1) have 1: "receiving S c k t\<^sub>1" by (meson assms(1) receiving_frame)
    have "rcv_frame t\<^sub>1 t\<^sub>2"
      by (simp add: t\<^sub>2_def process_writeable_def process_established_def Let_def rcv_frame_def notify_def adjustMTU_def)
    with 1 have 2: "receiving S c k t\<^sub>2" by (blast intro: receiving_frame)
    show ?thesis
    proof (cases ok)
      case True
      from yes [OF True, folded t\<^sub>2_def] obtain sf n t\<^sub>3 t\<^sub>4 where d: "process_data seg t\<^sub>2 = Some (sf, n, t\<^sub>3)"
        and s: "attemptSend h net clk sf t\<^sub>3 = Some t\<^sub>4" and t': "t' = process_readable n t\<^sub>4"
        by (auto split: Option.bind_splits)
      from process_data_inv [of S c k t\<^sub>2 seg] 2 assms(2,3) d have 3: "receiving S c k t\<^sub>3"
        by (auto simp: receiving_def received_def)
      have "rcv_frame t\<^sub>4 t'" by (simp add: t' process_readable_def rcv_frame_def notify_def)
      with 3 attemptSend_rcv [OF s] show ?thesis by (meson receiving_frame)
    qed (use no 1 in simp)
  qed
qed

lemma Recv_receiving:
  assumes "receiving S c k t" and "Recv h net clk len t = Some (r, t')"
  shows "receiving S c (k + length (case r of Some data \<Rightarrow> data | None \<Rightarrow> [])) t' \<and>
    (case r of Some data \<Rightarrow> data | None \<Rightarrow> []) = take (length (case r of Some data \<Rightarrow> data | None \<Rightarrow> [])) (drop k S)"
proof (cases "m_state t = TCP_ESTABLISHED \<and> fb_data_length (m_rbuf t) \<noteq> 0")
  case True
  define n where "n = min len (fb_data_length (m_rbuf t))"
  have inv: "rcv_inv S c k (m_rlist t) t" "fb_inv (m_rbuf t)" "fb_state (m_rbuf t) = SS_OPEN"
    using assms(1) by (auto simp: receiving_def rcv_inv_def fb_open_def)
  obtain b where b: "FifoBuffer_Read len (m_rbuf t) = (SR_SUCCESS, take len (fb_contents (m_rbuf t)), b)"
    "fb_inv b" "fb_contents b = drop len (fb_contents (m_rbuf t))"
    "fb_ahead b = fb_ahead (m_rbuf t) @ take len (fb_contents (m_rbuf t))"
    "fb_buffer_length b = fb_buffer_length (m_rbuf t)" "fb_state b = fb_state (m_rbuf t)"
    using True by (auto intro: Read_success [OF inv(2), of len])
  have dl: "fb_data_length b = fb_data_length (m_rbuf t) - n"
    using length_fb_contents [OF b(2)] length_fb_contents [OF inv(2)] unfolding b(3) n_def length_drop by linarith
  have c: "fb_contents (m_rbuf t) = take (fb_data_length (m_rbuf t)) (drop k S)" "k + fb_data_length (m_rbuf t) \<le> length S"
    using inv(1) by (simp_all add: rcv_inv_def)
  have data: "take len (fb_contents (m_rbuf t)) = take n (drop k S)" "length (take len (fb_contents (m_rbuf t))) = n"
    using c by (simp_all add: n_def min.commute)
  have saved: "saved_ok S c (t\<lparr>m_rbuf := b, m_rcv_wnd := w\<rparr>) q" if "saved_ok S c t q" for q w
    using that dl b(4,5) inv(2) unfolding saved_ok_def GetWriteRemaining_def by (fastforce simp: nth_append)
  have rest: "fb_contents b = take (fb_data_length b) (drop (k + n) S)"
    unfolding b(3) c(1) dl n_def by (cases "len \<le> fb_data_length (m_rbuf t)") (simp_all add: drop_take add.commute)
  have "n \<le> fb_data_length (m_rbuf t)" by (simp add: n_def)
  then have "rcv_inv S c (k + n) (m_rlist t) (t\<lparr>m_rbuf := b, m_rcv_wnd := w\<rparr>)" for w
    using inv(1) b(2,5,6) inv(3) rest dl c(2) saved by (simp add: rcv_inv_def fb_open_def)
  then have new: "receiving S c (k + n) (t\<lparr>m_rbuf := b, m_rcv_wnd := w\<rparr>)" for w
    using assms(1) by (simp add: receiving_def)
  from assms(2) True b(1) obtain w where r: "r = Some (take len (fb_contents (m_rbuf t)))" and f: "rcv_frame (t\<lparr>m_rbuf := b, m_rcv_wnd := w\<rparr>) t'"
    by (auto simp: Recv_def Let_def assert_opt_def split: if_splits Option.bind_splits dest!: attemptSend_rcv) (auto simp: rcv_frame_def)
  from receiving_frame [OF f new] data r show ?thesis by simp
next
  case False
  then have "r = None" "rcv_frame t t'"
    using assms(2) by (auto simp: Recv_def Read_empty rcv_frame_def assert_opt_def split: if_splits)
  with receiving_frame [OF this(2) assms(1)] show ?thesis by simp
qed

text \<open>
  A run of calls, each with the time at which it is made: the data \<^verbatim>\<open>Send\<close> accepted and the data
  \<^verbatim>\<open>Recv\<close> returned.
\<close>

definition tcp_call :: "bool \<Rightarrow> network \<Rightarrow> uint32 \<Rightarrow> tcp_op \<Rightarrow> PseudoTcp \<Rightarrow> (bytes \<times> bytes \<times> PseudoTcp) option" where
  "tcp_call h net clk oper t =
     (case oper of
        Op_Send buffer \<Rightarrow> map_option (\<lambda>(r, t). (case r of Some n \<Rightarrow> take (unat n) buffer | None \<Rightarrow> [], [], t)) (Send h net clk buffer t)
      | Op_Recv len \<Rightarrow> map_option (\<lambda>(r, t). ([], case r of Some data \<Rightarrow> data | None \<Rightarrow> [], t)) (Recv h net clk len t)
      | _ \<Rightarrow> map_option (\<lambda>t. ([], [], t)) (tcp_step h net clk oper t))"

fun tcp_run :: "bool \<Rightarrow> network \<Rightarrow> (uint32 \<times> tcp_op) list \<Rightarrow> PseudoTcp \<Rightarrow> (bytes \<times> bytes \<times> PseudoTcp) option" where
  "tcp_run h net [] t = Some ([], [], t)"
| "tcp_run h net ((clk, oper) # ops) t = do {
     (ins, outs, t) \<leftarrow> tcp_call h net clk oper t;
     (ins', outs', t) \<leftarrow> tcp_run h net ops t;
     Some (ins @ ins', outs @ outs', t) }"

text \<open>
  The calls of a transfer: packets of another conversation, packets whose data is a piece of the stream, and
  everything the application does short of closing or resizing buffers.
\<close>

definition transfer_packet :: "bool \<Rightarrow> bytes \<Rightarrow> nat \<Rightarrow> bytes \<Rightarrow> bool" where
  "transfer_packet h S c buffer \<longleftrightarrow>
     (let seg = parse_segment h buffer in sg_flags seg AND FLAG_CTL = 0 \<and> genuine S c seg)"

fun transfer_op :: "bool \<Rightarrow> bytes \<Rightarrow> nat \<Rightarrow> tcp_op \<Rightarrow> bool" where
  "transfer_op h S c (Op_Packet buffer) = transfer_packet h S c buffer"
| "transfer_op h S c (Op_Close force) = False"
| "transfer_op h S c (Op_SetOption opt val) = (opt = OPT_NODELAY \<or> opt = OPT_ACKDELAY)"
| "transfer_op h S c oper = True"

lemma tcp_call_receiving:
  assumes "receiving S c k t" and "transfer_op h S c oper" and "tcp_call h net clk oper t = Some (ins, xs, t')"
  shows "receiving S c (k + length xs) t' \<and> xs = take (length xs) (drop k S)"
proof (cases oper)
  case (Op_Recv len)
  with assms(3) Recv_receiving [OF assms(1), of h net clk len] show ?thesis by (fastforce simp: tcp_call_def)
next
  case (Op_Packet buffer)
  with assms process_receiving [OF assms(1), of "parse_segment h buffer" h net clk] show ?thesis
    by (auto simp: tcp_call_def NotifyPacket_def parse_def transfer_packet_def Let_def split: if_splits)
next
  case (Op_SetOption opt val)
  with assms(2,3) have "xs = []" "rcv_frame t t'"
    by (auto simp: tcp_call_def SetOption_def rcv_frame_def split: TcpOption.splits)
  with receiving_frame [OF this(2) assms(1)] show ?thesis by simp
next
  case (Op_MTU mtu)
  with assms(3) have "xs = []" "rcv_frame t t'"
    by (auto simp: tcp_call_def NotifyMTU_def adjustMTU_def rcv_frame_def Let_def)
  with receiving_frame [OF this(2) assms(1)] show ?thesis by simp
next
  case Op_Connect
  with assms(3) receiving_frame [OF Connect_rcv assms(1)] show ?thesis by (auto simp: tcp_call_def)
next
  case (Op_Clock now)
  with assms(3) receiving_frame [OF NotifyClock_rcv assms(1)] show ?thesis by (auto simp: tcp_call_def)
next
  case (Op_Send buffer)
  with assms(3) receiving_frame [OF Send_rcv assms(1)] show ?thesis by (auto simp: tcp_call_def)
qed (use assms(2) in simp)

lemma tcp_run_receiving:
  "receiving S c k t \<Longrightarrow> \<forall>(clk, oper) \<in> set ops. transfer_op h S c oper \<Longrightarrow> tcp_run h net ops t = Some (ins, xs, t') \<Longrightarrow>
   receiving S c (k + length xs) t' \<and> xs = take (length xs) (drop k S)"
proof (induction ops arbitrary: k t xs ins)
  case (Cons op ops)
  obtain clk oper where op: "op = (clk, oper)" by force
  with Cons.prems obtain ins\<^sub>1 ys ins\<^sub>2 zs t\<^sub>1 where d: "tcp_call h net clk oper t = Some (ins\<^sub>1, ys, t\<^sub>1)" and r: "tcp_run h net ops t\<^sub>1 = Some (ins\<^sub>2, zs, t')"
    and xs: "xs = ys @ zs" by (auto split: Option.bind_splits)
  have 1: "receiving S c (k + length ys) t\<^sub>1" "ys = take (length ys) (drop k S)"
    using tcp_call_receiving [OF Cons.prems(1) _ d] Cons.prems(2) op by auto
  with Cons.IH [OF 1(1) _ r] Cons.prems(2) have
    2: "receiving S c (k + length ys + length zs) t'" "zs = take (length zs) (drop (k + length ys) S)" by auto
  have "take (length ys + length zs) (drop k S) = ys @ zs"
    unfolding take_add using 1(2) 2(2) by (simp add: add.commute)
  with 2(1) xs show ?case by (simp add: add.assoc)
qed simp

end
