(* ===== verification/Pseudo_Tcp_Delivery.thy ===== *)
theory Pseudo_Tcp_Delivery
  imports Pseudo_Tcp_Recv
begin

text \<open>
  What the receiver of \<^verbatim>\<open>PseudoTcp\<close> delivers: the stream, in order, and all of it once every byte has
  arrived. The list of saved segments is ordered and holds only segments behind a gap, so that
  nothing that has arrived is forgotten.
\<close>

section \<open>Nothing is forgotten\<close>

definition in_segment :: "nat \<Rightarrow> RSegment \<Rightarrow> bool" where
  "in_segment p r \<longleftrightarrow> unat (rs_seq r) \<le> p \<and> p < unat (rs_seq r) + unat (rs_len r)"

definition arrived :: "PseudoTcp \<Rightarrow> nat \<Rightarrow> bool" where
  "arrived t p \<longleftrightarrow> p < unat (m_rcv_nxt t) \<or> (\<exists>r \<in> set (m_rlist t). in_segment p r)"

definition rlist_inv :: "PseudoTcp \<Rightarrow> bool" where
  "rlist_inv t \<longleftrightarrow> sorted (map rs_seq (m_rlist t)) \<and>
     (\<forall>r \<in> set (m_rlist t). m_rcv_nxt t < rs_seq r \<and> unat (rs_seq r) + unat (rs_len r) < 2 ^ 32)"

lemma recover_rlist_arrived:
  assumes "recover_rlist rs sf t = Some (sf', t')" and "sorted (map rs_seq rs)"
    and "\<forall>r \<in> set rs. unat (rs_seq r) + unat (rs_len r) < 2 ^ 32"
  shows "rlist_inv t' \<and> unat (m_rcv_nxt t) \<le> unat (m_rcv_nxt t') \<and>
    (\<forall>p. p < unat (m_rcv_nxt t) \<or> (\<exists>r \<in> set rs. in_segment p r) \<longrightarrow> arrived t' p)"
  using assms
proof (induction rs arbitrary: sf t)
  case Nil
  then show ?case by (auto simp: rlist_inv_def arrived_def)
next
  case (Cons r rs)
  have e: "unat (rs_seq r + rs_len r) = unat (rs_seq r) + unat (rs_len r)" using Cons.prems(3) by (simp add: word_add_unat)
  consider (skip) "rs_seq r \<le> m_rcv_nxt t" "m_rcv_nxt t < rs_seq r + rs_len r"
    | (old) "rs_seq r \<le> m_rcv_nxt t" "\<not> m_rcv_nxt t < rs_seq r + rs_len r" | (gap) "\<not> rs_seq r \<le> m_rcv_nxt t" by blast
  then show ?case
  proof cases
    case skip
    with Cons.prems(1) obtain b where "recover_rlist rs sfImmediateAck (t\<lparr>m_rbuf := b, m_rcv_nxt := rs_seq r + rs_len r,
         m_rcv_wnd := m_rcv_wnd t - (rs_seq r + rs_len r - m_rcv_nxt t)\<rparr>) = Some (sf', t')"
      by (auto simp: Let_def split: Option.bind_splits)
    from Cons.IH [OF this] Cons.prems(2,3) have ih: "rlist_inv t'" "unat (rs_seq r + rs_len r) \<le> unat (m_rcv_nxt t')"
      "p < unat (rs_seq r + rs_len r) \<or> (\<exists>r \<in> set rs. in_segment p r) \<Longrightarrow> arrived t' p" for p by auto
    have "unat (m_rcv_nxt t) < unat (rs_seq r + rs_len r)" using skip by (simp add: word_less_nat_alt)
    with ih e show ?thesis by (auto simp: in_segment_def)
  next
    case old
    with Cons.prems have "recover_rlist rs sf t = Some (sf', t')" by simp
    from Cons.IH [OF this] Cons.prems(2,3) old e show ?thesis by (auto simp: in_segment_def word_less_nat_alt)
  next
    case gap
    have "m_rcv_nxt t < rs_seq q" if "q \<in> set rs" for q
    proof -
      have "rs_seq r \<le> rs_seq q" using Cons.prems(2) that by simp
      with gap show ?thesis by order
    qed
    moreover have "t' = t\<lparr>m_rlist := r # rs\<rparr>" using gap Cons.prems(1) by simp
    ultimately show ?thesis using gap Cons.prems(2,3) by (auto simp: rlist_inv_def arrived_def not_le)
  qed
qed

lemma sorted_insert_rlist: "sorted (map rs_seq rs) \<Longrightarrow> sorted (map rs_seq (insert_rlist r rs))"
proof (induction rs)
  case (Cons q rs)
  then show ?case
    by (cases "rs_seq q < rs_seq r") (auto simp: insert_rlist_def dest: set_takeWhileD set_dropWhileD)
qed (simp add: insert_rlist_def)

lemma store_data_arrived:
  assumes "store_data seg sf t = Some (sf', b, t')" and "rlist_inv t" and "m_rcv_nxt t \<le> sg_seq seg"
    and "unat (sg_seq seg) + unat (sg_len seg) < 2 ^ 32"
  shows "rlist_inv t' \<and> (\<forall>p. arrived t p \<or> unat (sg_seq seg) \<le> p \<and> p < unat (sg_seq seg) + unat (sg_len seg) \<longrightarrow> arrived t' p)"
proof (cases "sg_seq seg = m_rcv_nxt t")
  case True
  from assms(1) True obtain b\<^sub>1 where r: "recover_rlist (m_rlist t) sf
      (t\<lparr>m_rbuf := b\<^sub>1, m_rcv_nxt := m_rcv_nxt t + sg_len seg, m_rcv_wnd := m_rcv_wnd t - sg_len seg\<rparr>) = Some (sf', t')"
    by (auto simp: store_data_def Let_def split: Option.bind_splits prod.splits)
  have "unat (m_rcv_nxt t + sg_len seg) = unat (m_rcv_nxt t) + unat (sg_len seg)" using assms(4) True by (simp add: word_add_unat)
  with recover_rlist_arrived [OF r] assms(2) True show ?thesis by (auto simp: rlist_inv_def arrived_def)
next
  case False
  with assms(1) obtain b\<^sub>1 where
    "t' = t\<lparr>m_rbuf := b\<^sub>1, m_rlist := insert_rlist \<lparr>rs_seq = sg_seq seg, rs_len = sg_len seg\<rparr> (m_rlist t)\<rparr>"
    by (auto simp: store_data_def Let_def split: Option.bind_splits prod.splits)
  with assms(2-4) False show ?thesis
    by (auto simp: rlist_inv_def arrived_def set_insert_rlist in_segment_def sorted_insert_rlist)
qed

lemma trim_old_covers:
  fixes t :: PseudoTcp
  assumes "unat (sg_seq seg) \<le> p" and "p < unat (sg_seq seg) + unat (sg_len seg)" and "unat (m_rcv_nxt t) \<le> p"
  defines "o' \<equiv> trim_old seg t"
  shows "unat (sg_seq o') \<le> p \<and> p < unat (sg_seq o') + unat (sg_len o')"
proof (cases "sg_seq seg < m_rcv_nxt t")
  case True
  have a: "unat (m_rcv_nxt t - sg_seq seg) = unat (m_rcv_nxt t) - unat (sg_seq seg)" "unat (sg_seq seg) < unat (m_rcv_nxt t)"
    using word_sub_less [OF True] .
  then have lt: "m_rcv_nxt t - sg_seq seg < sg_len seg" using assms(2,3) by (simp add: word_less_nat_alt)
  with True have "o' = seg\<lparr>sg_seq := m_rcv_nxt t, sg_data := drop (unat (m_rcv_nxt t - sg_seq seg)) (sg_data seg),
      sg_len := sg_len seg - (m_rcv_nxt t - sg_seq seg)\<rparr>"
    by (simp add: o'_def trim_old_def Let_def)
  with word_sub_less [OF lt] a assms(2,3) show ?thesis by simp
next
  case False
  with assms show ?thesis by (simp add: o'_def trim_old_def)
qed

lemma trim_window_room:
  assumes "m_rcv_nxt t \<le> sg_seq seg" and "unat (sg_seq seg) + unat (sg_len seg) < 2 ^ 32"
    and "unat (sg_seq seg) + unat (sg_len seg) \<le> unat (m_rcv_nxt t) + GetWriteRemaining (m_rbuf t)"
    and "GetWriteRemaining (m_rbuf t) < 2 ^ 32"
  shows "trim_window seg t = seg"
proof -
  have s: "unat (sg_seq seg + sg_len seg) = unat (sg_seq seg) + unat (sg_len seg)" using assms(2) by (rule word_add_unat)
  have le: "unat (m_rcv_nxt t) \<le> unat (sg_seq seg)" using assms(1) by (simp add: word_le_nat_alt)
  then have "m_rcv_nxt t \<le> sg_seq seg + sg_len seg" using s by (simp add: word_le_nat_alt)
  from word_sub_unat [OF this] s assms(3,4)
  have "\<not> of_nat (GetWriteRemaining (m_rbuf t)) < sg_seq seg + sg_len seg - m_rcv_nxt t"
    by (simp add: word_less_nat_alt unat_of_nat take_bit_nat_eq_self)
  then show ?thesis by (simp add: trim_window_def Let_def)
qed

lemma process_data_arrived:
  assumes inv: "receiving S c k t" and gen: "genuine S c seg" and ctl: "sg_flags seg AND FLAG_CTL = 0"
    and room: "length S \<le> k + fb_buffer_length (m_rbuf t)" and list: "rlist_inv t"
    and p: "process_data seg t = Some (sf, b, t')"
  shows "rlist_inv t' \<and> (\<forall>p. arrived t p \<or> unat (sg_seq seg) \<le> p \<and> p < unat (sg_seq seg) + unat (sg_len seg) \<longrightarrow> arrived t' p)"
proof -
  let ?o = "trim_old seg t" and ?seg = "trim_window (trim_old seg t) t"
  have r: "rcv_inv S c k (m_rlist t) t" and size: "c + length S < 2 ^ 32" and sd: "m_shutdown t = SD_NONE"
    and win: "c + length S \<le> unat (m_rcv_nxt t) + GetWriteRemaining (m_rbuf t)"
    using inv room by (auto simp: receiving_def rcv_inv_def GetWriteRemaining_def)
  have keep: "?seg = ?o" "m_rcv_nxt t \<le> sg_seq ?o" "unat (sg_seq ?o) + unat (sg_len ?o) < 2 ^ 32" if "sg_len ?o \<noteq> 0"
    using trim_old_genuine [OF gen size, of t] that size win trim_window_room [of t ?o] rcv_room [OF r] by auto
  have cov: "arrived t p \<or> sg_len ?o \<noteq> 0 \<and> unat (sg_seq ?o) \<le> p \<and> p < unat (sg_seq ?o) + unat (sg_len ?o)"
    if "unat (sg_seq seg) \<le> p" "p < unat (sg_seq seg) + unat (sg_len seg)" for p
    using trim_old_covers [OF that, of t] by (cases "p < unat (m_rcv_nxt t)") (auto simp: arrived_def)
  show ?thesis
  proof (cases "sg_len ?o = 0")
    case True
    then have "sg_len ?seg = 0" by (simp add: trim_window_def Let_def)
    with p have "t' = t" by (simp add: process_data_def Let_def)
    with cov True list show ?thesis by blast
  next
    case False
    with p keep ctl sd have "store_data ?o (ack_flags seg t) t = Some (sf, b, t')"
      by (auto simp: process_data_def Let_def word_neq_0_conv split: if_splits)
    from store_data_arrived [OF this list keep(2,3) [OF False]] cov show ?thesis by blast
  qed
qed

lemma ConsumeWriteBuffer_capacity: "ConsumeWriteBuffer n b = Some b' \<Longrightarrow> fb_buffer_length b' = fb_buffer_length b"
  by (auto simp: ConsumeWriteBuffer_def Let_def PostEvent_def split: if_splits)

lemma recover_rlist_capacity:
  "recover_rlist rs sf t = Some (sf', t') \<Longrightarrow> fb_buffer_length (m_rbuf t') = fb_buffer_length (m_rbuf t)"
proof (induction rs arbitrary: sf t)
  case (Cons r rs)
  show ?case
  proof (cases "rs_seq r \<le> m_rcv_nxt t \<and> m_rcv_nxt t < rs_seq r + rs_len r")
    case True
    with Cons.prems Cons.IH ConsumeWriteBuffer_capacity show ?thesis by (fastforce simp: Let_def split: Option.bind_splits)
  qed (use Cons in \<open>auto split: if_splits\<close>)
qed auto

lemma process_data_capacity:
  assumes "process_data seg t = Some (sf, b, t')"
  shows "fb_buffer_length (m_rbuf t') = fb_buffer_length (m_rbuf t)"
proof -
  have w: "fb_buffer_length b' = fb_buffer_length (m_rbuf t)" if "WriteOffset xs i (m_rbuf t) = (r, n, b')" for xs i r n b'
    using that by (auto simp: WriteOffset_def WriteOffsetLocked_def Let_def split: if_splits)
  show ?thesis using assms
    by (auto simp: process_data_def store_data_def Let_def split: if_splits Option.bind_splits prod.splits
        dest!: recover_rlist_capacity ConsumeWriteBuffer_capacity w)
qed

text \<open>The data part of \<^verbatim>\<open>process\<close> for one segment after the other.\<close>

fun data_run :: "Segment list \<Rightarrow> PseudoTcp \<Rightarrow> PseudoTcp option" where
  "data_run [] t = Some t"
| "data_run (seg # segs) t = do { (_, _, t) \<leftarrow> process_data seg t; data_run segs t }"

lemma data_run_arrived:
  "receiving S c k t \<Longrightarrow> rlist_inv t \<Longrightarrow> length S \<le> k + fb_buffer_length (m_rbuf t) \<Longrightarrow>
   \<forall>seg \<in> set segs. genuine S c seg \<and> sg_flags seg AND FLAG_CTL = 0 \<Longrightarrow>
   \<exists>t'. data_run segs t = Some t' \<and> receiving S c k t' \<and> rlist_inv t' \<and>
     (\<forall>p. arrived t p \<or> (\<exists>seg \<in> set segs. unat (sg_seq seg) \<le> p \<and> p < unat (sg_seq seg) + unat (sg_len seg)) \<longrightarrow> arrived t' p)"
proof (induction segs arbitrary: t)
  case (Cons seg segs)
  have g: "genuine S c seg" "sg_flags seg AND FLAG_CTL = 0" "m_shutdown t = SD_NONE" "rcv_inv S c k (m_rlist t) t"
    using Cons.prems by (auto simp: receiving_def)
  obtain sf b t\<^sub>1 where d: "process_data seg t = Some (sf, b, t\<^sub>1)" and r: "receiving S c k t\<^sub>1"
    using process_data_inv [OF g(4,1,2,3)] received_receiving g(3) by blast
  note a = process_data_arrived [OF Cons.prems(1) g(1,2) Cons.prems(3,2) d]
  have "length S \<le> k + fb_buffer_length (m_rbuf t\<^sub>1)" using Cons.prems(3) process_data_capacity [OF d] by simp
  from Cons.IH [OF r _ this] a Cons.prems(4) obtain t' where
    "data_run segs t\<^sub>1 = Some t'" "receiving S c k t'" "rlist_inv t'"
    "\<forall>p. arrived t\<^sub>1 p \<or> (\<exists>seg \<in> set segs. unat (sg_seq seg) \<le> p \<and> p < unat (sg_seq seg) + unat (sg_len seg)) \<longrightarrow> arrived t' p"
    by auto
  with d a show ?case by auto
qed simp

text \<open>When everything has arrived, no segment is left behind a gap.\<close>

lemma all_arrived:
  assumes "receiving S c k t" and "rlist_inv t" and "\<forall>p. c \<le> p \<and> p < c + length S \<longrightarrow> arrived t p"
  shows "unat (m_rcv_nxt t) = c + length S" and "fb_contents (m_rbuf t) = drop k S"
proof -
  have r: "unat (m_rcv_nxt t) = c + k + fb_data_length (m_rbuf t)" "k + fb_data_length (m_rbuf t) \<le> length S"
    "fb_contents (m_rbuf t) = take (fb_data_length (m_rbuf t)) (drop k S)"
    using assms(1) by (auto simp: receiving_def rcv_inv_def)
  have "\<not> arrived t (unat (m_rcv_nxt t))"
    using assms(2) by (auto simp: arrived_def rlist_inv_def in_segment_def word_less_nat_alt)
  with assms(3) have "\<not> (c \<le> unat (m_rcv_nxt t) \<and> unat (m_rcv_nxt t) < c + length S)" by blast
  with r(1,2) show n: "unat (m_rcv_nxt t) = c + length S" by linarith
  with r show "fb_contents (m_rbuf t) = drop k S" by simp
qed

section \<open>Properties\<close>

text \<open>A connection before the first data byte of the peer.\<close>

definition rcv_ready :: "nat \<Rightarrow> PseudoTcp \<Rightarrow> bool" where
  "rcv_ready c t \<longleftrightarrow> unat (m_rcv_nxt t) = c \<and> m_rlist t = [] \<and> m_shutdown t = SD_NONE \<and>
     fb_open (m_rbuf t) \<and> fb_data_length (m_rbuf t) = 0 \<and> fb_buffer_length (m_rbuf t) < 2 ^ 32"

lemma rcv_ready_receiving: "rcv_ready c t \<Longrightarrow> c + length S < 2 ^ 32 \<Longrightarrow> receiving S c 0 t \<and> rlist_inv t"
  by (simp add: rcv_ready_def receiving_def rcv_inv_def rlist_inv_def fb_contents_def)

lemma tcp_run_delivers:
  assumes "rcv_ready c t" and "c + length S < 2 ^ 32" and "\<forall>(clk, oper) \<in> set ops. transfer_op h S c oper"
    and "tcp_run h net ops t = Some (ins, xs, t')"
  shows "c \<le> unat (m_rcv_nxt t') \<and> xs @ fb_contents (m_rbuf t') = take (unat (m_rcv_nxt t') - c) S"
proof -
  from tcp_run_receiving [OF _ assms(3,4)] rcv_ready_receiving [OF assms(1,2)]
  have r: "receiving S c (length xs) t'" and xs: "xs = take (length xs) S" by force+
  from r have "unat (m_rcv_nxt t') = c + length xs + fb_data_length (m_rbuf t')"
    "fb_contents (m_rbuf t') = take (fb_data_length (m_rbuf t')) (drop (length xs) S)"
    by (simp_all add: receiving_def rcv_inv_def)
  with xs show ?thesis by (simp add: take_add)
qed


text \<open>A small connection, and packets and segments of the stream 10, 20, 30 that starts at sequence number 1.\<close>

definition small_tcp :: PseudoTcp where
  "small_tcp = PseudoTcp_new 7 0 \<lparr>m_state := TCP_ESTABLISHED, m_rbuf := FifoBuffer_new 4, m_rcv_nxt := 1,
     m_sbuf := FifoBuffer_new 4, m_snd_una := 1, m_snd_nxt := 1, m_snd_wnd := 100\<rparr>"

lemmas small_tcp_code [code] = small_tcp_def [unfolded PseudoTcp_new_def, simplified]

text \<open>For evaluation: natural numbers as large as the packet limit are compared as integers.\<close>

lemma NotifyPacket_code [code]:
  "NotifyPacket h net clk buffer t = (if int (length buffer) > 65535 then Some (False, t) else parse h net clk buffer t)"
  by (simp add: NotifyPacket_def)

definition small_packet :: "uint32 \<Rightarrow> bytes \<Rightarrow> bytes" where
  "small_packet seq data = packet_header True 7 seq 0 0 100 0 0 @ data"

definition small_segment :: "uint32 \<Rightarrow> bytes \<Rightarrow> Segment" where
  "small_segment seq data = parse_segment True (small_packet seq data)"

lemma small_ready: "rcv_ready 1 small_tcp"
  by (simp add: rcv_ready_def small_tcp_def) (simp add: PseudoTcp_new_def FifoBuffer_new_def)

lemma small_packets:
  "transfer_packet True [10, 20, 30] 1 (small_packet 3 [30])" "transfer_packet True [10, 20, 30] 1 (small_packet 1 [10, 20])"
  by (simp_all add: transfer_packet_def small_packet_def parse_segment_header genuine_def)

definition small_ops :: "(uint32 \<times> tcp_op) list" where
  "small_ops = [(5, Op_Packet (small_packet 3 [30])), (6, Op_Packet (small_packet 1 [10, 20])), (7, Op_Recv 2)]"

lemma small_run: "map_option (\<lambda>(ins, outs, t). (ins, outs)) (tcp_run True (\<lambda>_ _. WR_SUCCESS) small_ops small_tcp) = Some ([], [10, 20])"
  by code_simp


text \<open>C3: Complete delivery. Segments of the peer's stream arrive in any order, cut in any way, as often as
  the network likes. If the receive buffer can hold the stream and every byte of the stream is in some segment,
  then the receiver accepts them all without failing, and at the end the whole stream is in the receive buffer and
  acknowledged.
\<close>

theorem tcp_complete_delivery:
  assumes "rcv_ready c t" and "c + length S < 2 ^ 32" and "length S \<le> fb_buffer_length (m_rbuf t)"
    and "\<forall>seg \<in> set segs. genuine S c seg \<and> sg_flags seg AND FLAG_CTL = 0"
    and "\<forall>p. c \<le> p \<and> p < c + length S \<longrightarrow> (\<exists>seg \<in> set segs. unat (sg_seq seg) \<le> p \<and> p < unat (sg_seq seg) + unat (sg_len seg))"
  shows "\<exists>t'. data_run segs t = Some t' \<and> fb_contents (m_rbuf t') = S \<and> unat (m_rcv_nxt t') = c + length S"
proof -
  have "receiving S c 0 t" "rlist_inv t" using rcv_ready_receiving [OF assms(1,2)] by blast+
  from data_run_arrived [OF this _ assms(4)] assms(3) obtain t' where t': "data_run segs t = Some t'" "receiving S c 0 t'" "rlist_inv t'"
    and all: "\<forall>p. (\<exists>seg \<in> set segs. unat (sg_seq seg) \<le> p \<and> p < unat (sg_seq seg) + unat (sg_len seg)) \<longrightarrow> arrived t' p"
    by auto
  have "\<forall>p. c \<le> p \<and> p < c + length S \<longrightarrow> arrived t' p" using all assms(5) by blast
  from all_arrived [OF t'(2,3) this] t'(1) show ?thesis by simp
qed

theorem tcp_complete_delivery_witness:
  "\<exists>t'. data_run [small_segment 2 [20, 30], small_segment 1 [10, 20]] small_tcp = Some t' \<and>
     fb_contents (m_rbuf t') = [10, 20, 30] \<and> unat (m_rcv_nxt t') = 1 + length [10, 20, 30 :: uint8]"
proof (rule tcp_complete_delivery [OF small_ready])
  show "length [10, 20, 30 :: uint8] \<le> fb_buffer_length (m_rbuf small_tcp)"
    by (simp add: small_tcp_def FifoBuffer_new_def)
qed (auto simp: small_segment_def small_packet_def parse_segment_header genuine_def)

end
