(* ===== verification/Pseudo_Tcp_Send.thy ===== *)
theory Pseudo_Tcp_Send
  imports Pseudo_Tcp_Delivery
begin

text \<open>
  The sending side of \<^verbatim>\<open>PseudoTcp\<close>. The application hands over a byte stream \<open>S\<close>, whose first byte gets the
  sequence number \<open>c\<close>; the send buffer holds what is not yet acknowledged. Every packet handed to
  the network carries the bytes of the stream that its sequence number says. Together with the
  receiving side, this gives the contract of the whole connection.
\<close>

section \<open>What is on the wire belongs to the stream\<close>

definition wire_ok :: "bytes \<Rightarrow> nat \<Rightarrow> IPseudoTcpNotify \<Rightarrow> bool" where
  "wire_ok S c ev \<longleftrightarrow> (case ev of TcpWritePacket p \<Rightarrow> \<forall>h. transfer_packet h S c p | _ \<Rightarrow> True)"

definition snd_buf_ok :: "bytes \<Rightarrow> nat \<Rightarrow> PseudoTcp \<Rightarrow> bool" where
  "snd_buf_ok S c t \<longleftrightarrow> c + length S < 2 ^ 32 \<and> fb_open (m_sbuf t) \<and> fb_buffer_length (m_sbuf t) < 2 ^ 32 \<and>
     c \<le> unat (m_snd_una t) \<and> unat (m_snd_una t) + fb_data_length (m_sbuf t) = c + length S \<and>
     fb_contents (m_sbuf t) = drop (unat (m_snd_una t) - c) S"

text \<open>\<open>n\<close> is the number of calls on the notify object made before.\<close>

definition snd_inv :: "bytes \<Rightarrow> nat \<Rightarrow> nat \<Rightarrow> PseudoTcp \<Rightarrow> bool" where
  "snd_inv S c n t \<longleftrightarrow> snd_buf_ok S c t \<and> (\<forall>s \<in> set (m_slist t). \<not> ss_bCtrl s) \<and> (\<forall>ev \<in> set (drop n (m_notify t)). wire_ok S c ev)"

definition snd_same :: "PseudoTcp \<Rightarrow> PseudoTcp \<Rightarrow> bool" where
  "snd_same t t' \<longleftrightarrow> m_sbuf t' = m_sbuf t \<and> m_snd_una t' = m_snd_una t \<and> m_slist t' = m_slist t \<and>
     (m_notify t' = m_notify t \<or> (\<exists>ev. m_notify t' = m_notify t @ [ev] \<and> (\<forall>p. ev \<noteq> TcpWritePacket p)))"

lemma snd_inv_same: "snd_same t t' \<Longrightarrow> snd_inv S c n t \<Longrightarrow> snd_inv S c n t'"
  by (auto simp: snd_same_def snd_inv_def snd_buf_ok_def wire_ok_def drop_Cons' split: IPseudoTcpNotify.splits if_splits)

text \<open>
  The payload is read from the buffer at the distance of the sequence number from the oldest
  unacknowledged byte; a sequence number below that makes the distance wrap around to an offset far
  outside the buffer, where the read fails.
\<close>

lemma payload_genuine:
  assumes "snd_buf_ok S c t" and "packet_payload (seq - m_snd_una t) len t = Some xs" and "len \<noteq> 0"
  shows "length xs = unat len \<and> c \<le> unat seq \<and> unat seq + unat len \<le> c + length S \<and> xs = take (unat len) (drop (unat seq - c) S)"
proof -
  let ?u = "unat (m_snd_una t)" and ?o = "unat (seq - m_snd_una t)" and ?d = "fb_data_length (m_sbuf t)"
  have s: "fb_inv (m_sbuf t)" "c \<le> ?u" "?u + ?d = c + length S" "fb_contents (m_sbuf t) = drop (?u - c) S" "c + length S < 2 ^ 32"
    using assms(1) by (auto simp: snd_buf_ok_def fb_open_def)
  have o: "?o < ?d" by (rule ccontr) (use assms(2,3) in \<open>auto simp: packet_payload_def ReadOffset_def ReadOffset_blocked assert_opt_def
        split: if_splits\<close>)
  from assms(2,3) ReadOffset_success [OF s(1) o, of "unat len"]
  have xs: "xs = take (unat len) (drop ?o (fb_contents (m_sbuf t)))" "length xs = unat len"
    by (auto simp: packet_payload_def ReadOffset_def assert_opt_def split: if_splits Option.bind_splits)
  have seq: "?u + ?o = unat seq"
    using word_add_unat [of "m_snd_una t" "seq - m_snd_una t"] o s(3,5) by simp
  have "unat len \<le> ?d - ?o" using xs s(1) by (metis length_drop length_fb_contents length_take min.cobounded1)
  with o seq s xs show ?thesis by (auto simp: add.commute)
qed

lemma packet_inv:
  assumes inv: "snd_inv S c n t" and p: "packet h net clk seq flags (seq - m_snd_una t) len t = Some (r, t') \<or>
    packet h net clk seq flags 0 len t = Some (r, t') \<and> len = 0" and "flags AND FLAG_CTL = 0"
  shows "snd_inv S c n t'"
proof -
  obtain xs ack wnd tsr where t': "m_notify t' = m_notify t @ [TcpWritePacket (packet_header h (m_conv t) seq ack flags wnd clk tsr @ xs)]"
    and same: "m_sbuf t' = m_sbuf t" "m_snd_una t' = m_snd_una t" "m_slist t' = m_slist t"
    and xs: "if len = 0 then xs = [] else packet_payload (seq - m_snd_una t) len t = Some xs"
    using p by (auto simp: packet_def notify_def Let_def packet_payload_def split: Option.bind_splits if_splits prod.splits)
  have buf: "snd_buf_ok S c t" using inv by (simp add: snd_inv_def)
  have "of_nat (length xs) = len" "len \<noteq> 0 \<longrightarrow> c \<le> unat seq \<and> unat seq + unat len \<le> c + length S \<and> xs = take (unat len) (drop (unat seq - c) S)"
    using xs payload_genuine [OF buf, of seq len xs] by (auto split: if_splits)
  then have "wire_ok S c (TcpWritePacket (packet_header h (m_conv t) seq ack flags wnd clk tsr @ xs))"
    using assms(3) by (simp add: wire_ok_def transfer_packet_def parse_segment_header genuine_def) blast
  with inv same t' show ?thesis by (auto simp: snd_inv_def snd_buf_ok_def drop_Cons' split: if_splits)
qed

section \<open>Every operation keeps the invariant\<close>

lemma reduce_mss_same: "reduce_mss n t = Some (r, t') \<Longrightarrow> snd_same t t'"
proof (induction n t rule: reduce_mss.induct)
  case (1 n t)
  note eq = "1.prems" [unfolded reduce_mss.simps [of n t]]
  define mss where "mss = PACKET_MAXIMUMS ! (m_msslevel t + 1) - PACKET_OVERHEAD"
  define t\<^sub>1 where "t\<^sub>1 = t\<lparr>m_msslevel := m_msslevel t + 1, m_mss := mss, m_cwnd := 2 * mss\<rparr>"
  have same: "snd_same t u = snd_same t\<^sub>1 u" "snd_same t t" "snd_same t\<^sub>1 t\<^sub>1" for u by (simp_all add: t\<^sub>1_def snd_same_def)
  have "snd_same t\<^sub>1 t'" if "\<not> length PACKET_MAXIMUMS \<le> m_msslevel t + 1" "PACKET_MAXIMUMS ! (m_msslevel t + 1) \<noteq> 0"
    using eq that "1.IH" [OF that mss_def t\<^sub>1_def] same unfolding Let_def mss_def [symmetric] t\<^sub>1_def [symmetric]
    by (auto split: if_splits)
  with eq same show ?case by (auto split: if_splits)
qed

lemma transmit_loop_inv:
  "snd_inv S c k t \<Longrightarrow> \<not> ss_bCtrl seg \<Longrightarrow> transmit_loop h net clk seg n t = Some (r, t') \<Longrightarrow> snd_inv S c k t'"
proof (induction h net clk seg n t rule: transmit_loop.induct)
  case (1 h net clk seg n t)
  note eq = "1.prems"(3) [unfolded transmit_loop.simps [of h net clk seg n t]]
  from eq obtain wres t\<^sub>1 where p: "packet h net clk (ss_seq seg) (if ss_bCtrl seg then FLAG_CTL else 0)
       (ss_seq seg - m_snd_una t) n t = Some (wres, t\<^sub>1)"
    by (auto split: Option.bind_splits)
  with packet_inv [OF "1.prems"(1), of h net clk "ss_seq seg" 0 n wres t\<^sub>1] "1.prems"(2) have i\<^sub>1: "snd_inv S c k t\<^sub>1" by simp
  show ?case
  proof (cases wres)
    case WR_TOO_LARGE
    with eq p obtain r\<^sub>2 t\<^sub>2 where r: "reduce_mss n t\<^sub>1 = Some (r\<^sub>2, t\<^sub>2)" by (auto split: Option.bind_splits)
    have i\<^sub>2: "snd_inv S c k t\<^sub>2" by (rule snd_inv_same [OF reduce_mss_same [OF r] i\<^sub>1])
    show ?thesis
    proof (cases r\<^sub>2)
      case None
      with eq p WR_TOO_LARGE r i\<^sub>2 show ?thesis by simp
    next
      case (Some m)
      with eq p WR_TOO_LARGE r have "transmit_loop h net clk seg m t\<^sub>2 = Some (r, t')" by simp
      from "1.IH" [OF p refl WR_TOO_LARGE r refl Some i\<^sub>2 "1.prems"(2) this] show ?thesis .
    qed
  qed (use eq p i\<^sub>1 in auto)
qed

lemma transmit_inv:
  assumes "snd_inv S c k t" and "transmit h net clk i now t = Some (ok, t')"
  shows "snd_inv S c k t'"
proof (cases "ss_xmit (m_slist t ! i) \<ge> (if m_state t = TCP_ESTABLISHED then 15 else 30)")
  case True
  with assms show ?thesis by (auto simp: transmit_def Let_def split: Option.bind_splits)
next
  case False
  let ?seg = "m_slist t ! i"
  from assms(2) False obtain r t\<^sub>1 where i: "i < length (m_slist t)"
    and l: "transmit_loop h net clk ?seg (min (ss_len ?seg) (m_mss t)) t = Some (r, t\<^sub>1)"
    and t': "t' = (case r of None \<Rightarrow> t\<^sub>1 | Some n \<Rightarrow> transmit_done i ?seg n now t\<^sub>1)"
    by (auto simp: transmit_def Let_def assert_opt_def split: Option.bind_splits if_splits option.splits)
  have ctrl: "\<not> ss_bCtrl ?seg" using assms(1) i by (simp add: snd_inv_def)
  have inv: "snd_inv S c k t\<^sub>1" by (rule transmit_loop_inv [OF assms(1) ctrl l])
  then have "snd_inv S c k (transmit_done i ?seg n now t\<^sub>1)" for n
    using ctrl by (auto simp: snd_inv_def snd_buf_ok_def transmit_done_def Let_def dest: in_set_takeD in_set_dropD)
  with t' inv show ?thesis by (auto split: option.splits)
qed

lemma snd_inv_fields:
  "m_sbuf t' = m_sbuf t \<Longrightarrow> m_snd_una t' = m_snd_una t \<Longrightarrow> m_slist t' = m_slist t \<Longrightarrow> m_notify t' = m_notify t \<Longrightarrow> snd_inv S c k t' = snd_inv S c k t"
  by (simp add: snd_inv_def snd_buf_ok_def)

lemma pure_packet_inv:
  "snd_inv S c k t \<Longrightarrow> packet h net clk seq 0 0 0 t = Some (r, t') \<Longrightarrow> snd_inv S c k t'"
  by (rule packet_inv) auto

lemma send_step_inv:
  assumes "snd_inv S c k t" and "send_step h net clk sflags t = Some r"
  shows "snd_inv S c k (case r of Inl t' \<Rightarrow> t' | Inr t' \<Rightarrow> t')"
proof -
  have split: "snd_inv S c k (split_segment i n t)" if "i < length (m_slist t)" for i n
    using assms(1) that
    by (auto simp: split_segment_def Let_def SSegment_new_def snd_inv_def snd_buf_ok_def dest: in_set_takeD in_set_dropD)
  have ack: "snd_inv S c k t'" if "send_ack h net clk sflags t = Some t'" for t'
    using that assms(1) pure_packet_inv [OF assms(1)] snd_inv_fields [of "t\<lparr>m_t_ack := clk\<rparr>" t]
    by (auto simp: send_ack_def split: if_splits)
  show ?thesis
  proof (cases "send_available t = 0")
    case True
    with assms(2) ack show ?thesis by (auto simp: send_step_def)
  next
    case False
    show ?thesis
    proof (cases "m_use_nagling t \<and> m_snd_nxt t > m_snd_una t \<and> send_available t < m_mss t")
      case True
      with False assms show ?thesis by (auto simp: send_step_def Let_def)
    next
      case nagle: False
      with False assms(2) obtain ok t' where i: "first_unsent t < length (m_slist t)"
        and tr: "transmit h net clk (first_unsent t) clk (split_segment (first_unsent t) (send_available t) t) = Some (ok, t')"
        and r: "r = (if ok then Inr t' else Inl t')"
        unfolding send_step_def Let_def assert_opt_def by (auto split: Option.bind_splits if_splits)
      from transmit_inv [OF split [OF i] tr] r show ?thesis by simp
    qed
  qed
qed

lemma attemptSend_loop_inv: "snd_inv S c k t \<Longrightarrow> attemptSend_loop h net clk sflags t = Some t' \<Longrightarrow> snd_inv S c k t'"
proof (induction h net clk sflags t rule: attemptSend_loop.induct)
  case (1 h net clk sflags t)
  note eq = "1.prems"(2) [unfolded attemptSend_loop.simps [of h net clk sflags t]]
  then obtain r where r: "send_step h net clk sflags t = Some r" by (auto split: Option.bind_splits)
  from send_step_inv [OF "1.prems"(1) r] "1.IH" [OF r] eq r show ?case by (cases r) auto
qed

lemma attemptSend_inv:
  assumes "snd_inv S c k t" and "attemptSend h net clk sflags t = Some t'"
  shows "snd_inv S c k t'"
proof -
  let ?t = "if TimeDiff clk (m_lastsend t) > uint (m_rx_rto t) then t\<lparr>m_cwnd := m_mss t\<rparr> else t"
  have "snd_inv S c k ?t" using assms(1) by (simp add: snd_inv_def snd_buf_ok_def)
  then show ?thesis using assms(2) unfolding attemptSend_def Let_def by (rule attemptSend_loop_inv)
qed

lemma take_ack_inv:
  assumes "snd_inv S c k t" and "take_ack clk seg t = Some t'" and "m_snd_una t < sg_ack seg"
  shows "snd_inv S c k t'"
proof -
  let ?n = "sg_ack seg - m_snd_una t"
  from assms(2) obtain t\<^sub>1 where u: "update_rtt clk seg t = Some t\<^sub>1" by (auto simp: take_ack_def split: Option.bind_splits)
  note uf = update_rtt_fields [OF u]
  from assms(2) u obtain b ss where b: "ConsumeReadData (unat ?n) (m_sbuf t) = Some b"
    and f: "free_segments ?n (m_slist t) (m_largest t\<^sub>1) = Some ss"
    and t': "m_sbuf t' = b" "m_snd_una t' = sg_ack seg" "m_slist t' = fst ss" "m_notify t' = m_notify t"
    by (auto simp: take_ack_def Let_def uf split: Option.bind_splits)
  have buf: "c + length S < 2 ^ 32" "fb_inv (m_sbuf t)" "fb_state (m_sbuf t) = SS_OPEN" "fb_buffer_length (m_sbuf t) < 2 ^ 32"
     "c \<le> unat (m_snd_una t)" "unat (m_snd_una t) + fb_data_length (m_sbuf t) = c + length S"
     "fb_contents (m_sbuf t) = drop (unat (m_snd_una t) - c) S" using assms(1) by (auto simp: snd_inv_def snd_buf_ok_def fb_open_def)
  have n: "unat ?n = unat (sg_ack seg) - unat (m_snd_una t)" "unat (m_snd_una t) < unat (sg_ack seg)"
    using word_sub_less [OF assms(3)] .
  have ctrl: "\<forall>s \<in> set (fst ss). \<not> ss_bCtrl s" if "free_segments m xs l = Some ss" "\<forall>s \<in> set xs. \<not> ss_bCtrl s" for m xs l
    using that by (induction m xs l rule: free_segments.induct) (auto split: if_splits)
  have le: "unat ?n \<le> fb_data_length (m_sbuf t)" using b by (auto simp: ConsumeReadData_def split: if_splits)
  have pos: "0 < fb_buffer_length (m_sbuf t)" using le n buf(2) unfolding fb_inv_def by linarith
  obtain b' where b': "ConsumeReadData (unat ?n) (m_sbuf t) = Some b'" "fb_inv b'" "fb_contents b' = drop (unat ?n) (fb_contents (m_sbuf t))"
    "fb_buffer_length b' = fb_buffer_length (m_sbuf t)" "fb_state b' = fb_state (m_sbuf t)"
    by (rule ConsumeReadData_success [OF buf(2) pos le])
  then have b2: "fb_inv b" "fb_contents b = drop (unat ?n) (fb_contents (m_sbuf t))" "fb_buffer_length b = fb_buffer_length (m_sbuf t)" "fb_state b = SS_OPEN"
    using b buf(3) by auto
  have "fb_data_length b = fb_data_length (m_sbuf t) - unat ?n"
    using length_fb_contents [OF b2(1)] length_fb_contents [OF buf(2)] unfolding b2(2) length_drop by linarith
  moreover have "drop (unat ?n) (drop (unat (m_snd_una t) - c) S) = drop (unat (sg_ack seg) - c) S"
    using n buf(5) by simp
  ultimately have "snd_buf_ok S c t'" using buf b2 t' n le by (simp add: snd_buf_ok_def fb_open_def)
  with ctrl [OF f] assms(1) t' show ?thesis by (simp add: snd_inv_def)
qed

lemma closedown_same: "snd_same t (closedown err t)"
  by (simp add: snd_same_def closedown_def notify_def)

lemma snd_inv_update [simp]:
  "snd_inv S c k (t\<lparr>m_cwnd := x0\<rparr>) = snd_inv S c k t"
  "snd_inv S c k (t\<lparr>m_ssthresh := x1\<rparr>) = snd_inv S c k t"
  "snd_inv S c k (t\<lparr>m_recover := x2\<rparr>) = snd_inv S c k t"
  "snd_inv S c k (t\<lparr>m_dup_acks := x3\<rparr>) = snd_inv S c k t"
  "snd_inv S c k (t\<lparr>m_snd_wnd := x4\<rparr>) = snd_inv S c k t"
  "snd_inv S c k (t\<lparr>m_ts_recent := x5\<rparr>) = snd_inv S c k t"
  "snd_inv S c k (t\<lparr>m_rx_rto := x6\<rparr>) = snd_inv S c k t"
  "snd_inv S c k (t\<lparr>m_rto_base := x7\<rparr>) = snd_inv S c k t"
  "snd_inv S c k (t\<lparr>m_lasttraffic := x8\<rparr>) = snd_inv S c k t"
  "snd_inv S c k (t\<lparr>m_lastrecv := x9\<rparr>) = snd_inv S c k t"
  "snd_inv S c k (t\<lparr>m_bOutgoing := x10\<rparr>) = snd_inv S c k t"
  "snd_inv S c k (t\<lparr>m_rlist := x11\<rparr>) = snd_inv S c k t"
  "snd_inv S c k (t\<lparr>m_rcv_nxt := x12\<rparr>) = snd_inv S c k t"
  "snd_inv S c k (t\<lparr>m_rcv_wnd := x13\<rparr>) = snd_inv S c k t"
  "snd_inv S c k (t\<lparr>m_rbuf := x14\<rparr>) = snd_inv S c k t"
  "snd_inv S c k (t\<lparr>m_error := x15\<rparr>) = snd_inv S c k t"
  "snd_inv S c k (t\<lparr>m_shutdown := x16\<rparr>) = snd_inv S c k t"
  "snd_inv S c k (t\<lparr>m_mtu_advise := x17\<rparr>) = snd_inv S c k t"
  "snd_inv S c k (t\<lparr>m_lastsend := x18\<rparr>) = snd_inv S c k t"
  "snd_inv S c k (t\<lparr>m_state := x19\<rparr>) = snd_inv S c k t"
  "snd_inv S c k (t\<lparr>m_bReadEnable := x20\<rparr>) = snd_inv S c k t"
  "snd_inv S c k (t\<lparr>m_bWriteEnable := x21\<rparr>) = snd_inv S c k t"
  "snd_inv S c k (t\<lparr>m_use_nagling := x22\<rparr>) = snd_inv S c k t"
  "snd_inv S c k (t\<lparr>m_ack_delay := x23\<rparr>) = snd_inv S c k t"
  "snd_inv S c k (t\<lparr>m_mss := x24\<rparr>) = snd_inv S c k t"
  "snd_inv S c k (t\<lparr>m_msslevel := x25\<rparr>) = snd_inv S c k t"
  by (simp_all add: snd_inv_def snd_buf_ok_def)

lemma process_new_ack_inv:
  assumes "snd_inv S c k t" and "m_snd_una t < sg_ack seg" and "process_new_ack h net clk seg t = Some (ok, t')"
  shows "snd_inv S c k t'"
proof -
  from assms(3) obtain t\<^sub>1 where t\<^sub>1: "take_ack clk seg t = Some t\<^sub>1" by (auto simp: process_new_ack_def Let_def split: Option.bind_splits)
  have 1: "snd_inv S c k t\<^sub>1" by (rule take_ack_inv [OF assms(1) t\<^sub>1 assms(2)])
  have 2: "snd_inv S c k t\<^sub>2" if "transmit h net clk 0 clk t\<^sub>1 = Some (r, t\<^sub>2)" for r t\<^sub>2 using 1 that by (rule transmit_inv)
  show ?thesis using assms(3) t\<^sub>1
    by (auto simp: process_new_ack_def Let_def 1 split: Option.bind_splits if_splits dest!: 2 intro: snd_inv_same [OF closedown_same])
qed

lemma process_dup_ack_inv:
  assumes "snd_inv S c k t" and "process_dup_ack h net clk seg t = Some (ok, t')"
  shows "snd_inv S c k t'"
proof -
  have 1: "snd_inv S c k (t\<lparr>m_snd_wnd := w, m_dup_acks := d\<rparr>)" for w d using assms(1) by simp
  have 2: "snd_inv S c k t\<^sub>2" if "transmit h net clk 0 clk (t\<lparr>m_snd_wnd := w, m_dup_acks := d\<rparr>) = Some (r, t\<^sub>2)" for w d r t\<^sub>2
    using 1 that by (rule transmit_inv)
  show ?thesis using assms(2)
    by (auto simp: process_dup_ack_def Let_def assms(1) split: Option.bind_splits if_splits dest!: 2
        intro: snd_inv_same [OF closedown_same])
qed

lemma process_ack_inv:
  assumes "snd_inv S c k t" and "process_ack h net clk seg t = Some (ok, t')"
  shows "snd_inv S c k t'"
  using assms(2) process_new_ack_inv [OF assms(1)] process_dup_ack_inv [OF assms(1)] assms(1)
  by (auto simp: process_ack_def split: if_splits)

lemma snd_same_refl [simp, intro!]: "snd_same t t"
  by (simp add: snd_same_def)

lemma recover_rlist_same: "recover_rlist rs sf t = Some (sf', t') \<Longrightarrow> snd_same t t'"
proof (induction rs arbitrary: sf t)
  case (Cons r rs)
  show ?case
  proof (cases "rs_seq r \<le> m_rcv_nxt t \<and> m_rcv_nxt t < rs_seq r + rs_len r")
    case True
    with Cons.prems obtain rbuf where
      "recover_rlist rs sfImmediateAck (t\<lparr>m_rbuf := rbuf, m_rcv_nxt := rs_seq r + rs_len r,
         m_rcv_wnd := m_rcv_wnd t - (rs_seq r + rs_len r - m_rcv_nxt t)\<rparr>) = Some (sf', t')"
      by (auto simp: Let_def split: Option.bind_splits)
    from Cons.IH [OF this] show ?thesis by (simp add: snd_same_def)
  next
    case False
    with Cons show ?thesis by (auto simp: snd_same_def split: if_splits)
  qed
qed (auto simp: snd_same_def)

lemma process_data_same: "process_data seg t = Some (sf, b, t') \<Longrightarrow> snd_same t t'"
  by (auto simp: process_data_def store_data_def Let_def split: if_splits Option.bind_splits prod.splits
      dest!: recover_rlist_same) (auto simp: snd_same_def)

lemma process_inv:
  assumes "snd_inv S c k t" and "sg_flags seg AND FLAG_CTL = 0" and "process h net clk seg t = Some (r, t')"
  shows "snd_inv S c k t'"
proof -
  define t\<^sub>0 where "t\<^sub>0 = t\<lparr>m_lasttraffic := clk, m_lastrecv := clk, m_bOutgoing := False\<rparr>"
  have 0: "snd_inv S c k t\<^sub>0" "snd_inv S c k (closedown err t\<^sub>0)" for err
    using assms(1) by (auto simp: t\<^sub>0_def intro!: snd_inv_same [OF closedown_same])
  show ?thesis
  proof (cases "sg_conv seg \<noteq> m_conv t \<or> m_state t\<^sub>0 = TCP_CLOSED \<or> sg_flags seg AND FLAG_RST \<noteq> 0")
    case True
    with assms(1,3) 0 show ?thesis by (auto simp: process_def Let_def t\<^sub>0_def [symmetric] split: if_splits)
  next
    case False
    with assms(2,3) obtain ok t\<^sub>1 where a: "process_ack h net clk seg (process_timestamp seg t\<^sub>0) = Some (ok, t\<^sub>1)"
      and no: "\<not> ok \<Longrightarrow> t' = t\<^sub>1"
      and yes: "ok \<Longrightarrow> do { (sflags, bNewData, t) \<leftarrow> process_data seg (process_writeable (process_established False t\<^sub>1));
         t \<leftarrow> attemptSend h net clk sflags t; Some (True, process_readable bNewData t) } = Some (r, t')"
      by (auto simp: process_def process_control_def Let_def t\<^sub>0_def [symmetric] split: Option.bind_splits if_splits)
    have "snd_inv S c k (process_timestamp seg t\<^sub>0)" using 0(1) by (simp add: process_timestamp_def)
    then have 1: "snd_inv S c k t\<^sub>1" using a by (rule process_ack_inv)
    have w: "snd_inv S c k (process_writeable u)" "snd_inv S c k (process_established False u)" "snd_inv S c k (process_readable b u)"
      if "snd_inv S c k u" for u b
      using that by (auto simp: process_writeable_def process_established_def process_readable_def Let_def adjustMTU_def
          intro!: snd_inv_same [of u] simp: snd_same_def notify_def)
    show ?thesis
    proof (cases ok)
      case True
      from yes [OF True] obtain sf n t\<^sub>3 t\<^sub>4 where d: "process_data seg (process_writeable (process_established False t\<^sub>1)) = Some (sf, n, t\<^sub>3)"
        and s: "attemptSend h net clk sf t\<^sub>3 = Some t\<^sub>4" and t': "t' = process_readable n t\<^sub>4"
        by (auto split: Option.bind_splits)
      have "snd_inv S c k t\<^sub>3" by (rule snd_inv_same [OF process_data_same [OF d]]) (intro w 1)
      then have "snd_inv S c k t\<^sub>4" using s by (rule attemptSend_inv)
      then show ?thesis unfolding t' by (rule w)
    qed (use no 1 in simp)
  qed
qed

lemma clock_retransmit_inv:
  assumes "snd_inv S c k t" and "clock_retransmit h net clk now t = Some (ok, t')"
  shows "snd_inv S c k t'"
proof -
  have "snd_inv S c k u" if "transmit h net clk 0 now t = Some (r, u)" for r u using assms(1) that by (rule transmit_inv)
  with assms show ?thesis
    by (auto simp: clock_retransmit_def Let_def split: if_splits Option.bind_splits intro: snd_inv_same [OF closedown_same])
qed

lemma clock_probe_inv:
  assumes "snd_inv S c k t" and "clock_probe h net clk now t = Some (ok, t')"
  shows "snd_inv S c k t'"
proof -
  have "snd_inv S c k u" if "packet h net clk (m_snd_nxt t - 1) 0 0 0 t = Some (r, u)" for r u using assms(1) that by (rule pure_packet_inv)
  with assms show ?thesis
    by (auto simp: clock_probe_def Let_def split: if_splits Option.bind_splits intro: snd_inv_same [OF closedown_same])
qed

lemma clock_delayed_ack_inv:
  assumes "snd_inv S c k t" and "clock_delayed_ack h net clk now t = Some t'"
  shows "snd_inv S c k t'"
  using assms pure_packet_inv [OF assms(1)] by (auto simp: clock_delayed_ack_def split: if_splits)

lemma NotifyClock_inv:
  assumes "snd_inv S c k t" and "NotifyClock h net clk now t = Some t'"
  shows "snd_inv S c k t'"
proof (cases "m_state t = TCP_CLOSED")
  case False
  with assms(2) obtain ok t\<^sub>1 where 1: "clock_retransmit h net clk now t = Some (ok, t\<^sub>1)"
    and r: "(if \<not> ok then Some t\<^sub>1 else do { (ok, t) \<leftarrow> clock_probe h net clk now t\<^sub>1;
      if \<not> ok then Some t else clock_delayed_ack h net clk now t }) = Some t'"
    by (auto simp: NotifyClock_def split: Option.bind_splits)
  note i\<^sub>1 = clock_retransmit_inv [OF assms(1) 1]
  from r i\<^sub>1 show ?thesis
    by (auto split: if_splits Option.bind_splits) (meson clock_probe_inv clock_delayed_ack_inv)+
qed (use assms in \<open>auto simp: NotifyClock_def\<close>)

lemma Recv_inv:
  assumes "snd_inv S c k t" and "Recv h net clk len t = Some (r, t')"
  shows "snd_inv S c k t'"
proof -
  have "snd_inv S c k u" if "attemptSend h net clk sfImmediateAck (t\<lparr>m_rbuf := b, m_rcv_wnd := w\<rparr>) = Some u" for b w u
    by (rule attemptSend_inv [OF _ that]) (use assms(1) in simp)
  with assms show ?thesis by (auto simp: Recv_def Let_def split: prod.splits if_splits Option.bind_splits)
qed

text \<open>The stream grows with \<^verbatim>\<open>Send\<close>.\<close>

lemma wire_ok_mono: "wire_ok S c ev \<Longrightarrow> wire_ok (S @ xs) c ev"
  by (fastforce simp: wire_ok_def transfer_packet_def genuine_def Let_def split: IPseudoTcpNotify.splits)

lemma queue_inv:
  assumes "snd_inv S c k t" and "queue data False t = Some (n, t')" and "GetWriteRemaining (m_sbuf t) \<noteq> 0"
    and "c + length (S @ take (unat n) data) < 2 ^ 32"
  shows "snd_inv (S @ take (unat n) data) c k t'"
proof -
  let ?a = "of_nat (GetWriteRemaining (m_sbuf t)) :: uint32" and ?l = "of_nat (length data) :: uint32"
  define len where "len = (if ?l > ?a then ?a else ?l)"
  have buf: "fb_inv (m_sbuf t)" "fb_state (m_sbuf t) = SS_OPEN" "fb_buffer_length (m_sbuf t) < 2 ^ 32"
     "c \<le> unat (m_snd_una t)" "unat (m_snd_una t) + fb_data_length (m_sbuf t) = c + length S"
     "fb_contents (m_sbuf t) = drop (unat (m_snd_una t) - c) S" using assms(1) by (auto simp: snd_inv_def snd_buf_ok_def fb_open_def)
  have room: "fb_data_length (m_sbuf t) < fb_buffer_length (m_sbuf t)" using assms(3) by (simp add: GetWriteRemaining_def)
  have "unat ?a = GetWriteRemaining (m_sbuf t)" using buf(3) by (simp add: unat_of_nat take_bit_nat_eq_self GetWriteRemaining_def)
  then have len: "unat len \<le> fb_buffer_length (m_sbuf t) - fb_data_length (m_sbuf t)" "unat len \<le> length data"
    by (auto simp: len_def GetWriteRemaining_def word_less_nat_alt unat_of_nat not_less intro: order.trans [OF take_bit_nat_less_eq_self])
  obtain b where b: "FifoBuffer_Write (take (unat len) data) (m_sbuf t) = (SR_SUCCESS, unat len, b)"
    "fb_inv b" "fb_contents b = fb_contents (m_sbuf t) @ take (unat len) data"
    "fb_buffer_length b = fb_buffer_length (m_sbuf t)" "fb_state b = fb_state (m_sbuf t)"
    using len by (auto intro: Write_success [OF buf(1) _ room, of "take (unat len) data"] simp: buf(2) min.absorb1)
  have t': "n = len" "m_sbuf t' = b" "m_snd_una t' = m_snd_una t" "m_notify t' = m_notify t"
    using assms(2) b(1) by (auto simp: queue_def Let_def simp flip: len_def split: Option.bind_splits)
  have ss: "\<forall>s \<in> set (m_slist t'). \<not> ss_bCtrl s"
    using assms(1,2) b(1) by (auto simp: queue_def Let_def SSegment_new_def snd_inv_def simp flip: len_def
        split: Option.bind_splits if_splits) (meson in_set_butlastD)
  have "fb_data_length b = fb_data_length (m_sbuf t) + unat len"
    using length_fb_contents [OF b(2)] length_fb_contents [OF buf(1)] len(2) unfolding b(3) by simp
  with buf b len t' assms(4) have "snd_buf_ok (S @ take (unat n) data) c t'"
    by (simp add: snd_buf_ok_def fb_open_def)
  with assms(1) ss t' wire_ok_mono show ?thesis by (auto simp: snd_inv_def)
qed

lemma Send_inv:
  assumes "snd_inv S c k t" and "Send h net clk buffer t = Some (r, t')"
    and "c + length (S @ (case r of Some n \<Rightarrow> take (unat n) buffer | None \<Rightarrow> [])) < 2 ^ 32"
  shows "snd_inv (S @ (case r of Some n \<Rightarrow> take (unat n) buffer | None \<Rightarrow> [])) c k t'"
proof (cases "m_state t = TCP_ESTABLISHED \<and> GetWriteRemaining (m_sbuf t) \<noteq> 0")
  case True
  with assms(2) obtain n t\<^sub>1 where q: "queue buffer False t = Some (n, t\<^sub>1)" and a: "attemptSend h net clk sfNone t\<^sub>1 = Some t'"
    and r: "r = Some n" by (auto simp: Send_def split: Option.bind_splits)
  have "snd_inv (S @ take (unat n) buffer) c k t\<^sub>1" using queue_inv [OF assms(1) q] True assms(3) r by simp
  from attemptSend_inv [OF this a] r show ?thesis by simp
next
  case False
  with assms show ?thesis by (auto simp: Send_def split: if_splits)
qed

text \<open>
  The calls of a sender in a connection that is set up: everything but a new connect, a change of
  the buffer sizes, and control packets.
\<close>

fun sender_op :: "bool \<Rightarrow> tcp_op \<Rightarrow> bool" where
  "sender_op h (Op_Packet buffer) = (sg_flags (parse_segment h buffer) AND FLAG_CTL = 0)"
| "sender_op h Op_Connect = False"
| "sender_op h (Op_SetOption opt val) = (opt = OPT_NODELAY \<or> opt = OPT_ACKDELAY)"
| "sender_op h oper = True"

lemma tcp_call_inv:
  assumes "snd_inv S c k t" and "sender_op h oper" and "tcp_call h net clk oper t = Some (ins, outs, t')"
    and "c + length (S @ ins) < 2 ^ 32"
  shows "snd_inv (S @ ins) c k t'"
proof (cases oper)
  case (Op_Packet buffer)
  with assms process_inv [OF assms(1), of "parse_segment h buffer" h net clk] show ?thesis
    by (auto simp: tcp_call_def NotifyPacket_def parse_def split: if_splits)
next
  case (Op_Clock now)
  with assms NotifyClock_inv [OF assms(1)] show ?thesis by (auto simp: tcp_call_def)
next
  case (Op_Send buffer)
  with assms(3) obtain r where "Send h net clk buffer t = Some (r, t')" "ins = (case r of Some n \<Rightarrow> take (unat n) buffer | None \<Rightarrow> [])"
    by (auto simp: tcp_call_def)
  with Send_inv [OF assms(1)] assms(4) show ?thesis by blast
next
  case (Op_Recv len)
  with assms Recv_inv [OF assms(1)] show ?thesis by (auto simp: tcp_call_def)
next
  case (Op_Close force)
  with assms show ?thesis by (auto simp: tcp_call_def Close_def)
next
  case (Op_MTU mtu)
  with assms show ?thesis by (auto simp: tcp_call_def NotifyMTU_def adjustMTU_def Let_def)
next
  case (Op_SetOption opt val)
  with assms show ?thesis by (auto simp: tcp_call_def SetOption_def)
qed (use assms(2) in simp)

lemma tcp_run_inv:
  "snd_inv S c k t \<Longrightarrow> \<forall>(clk, oper) \<in> set ops. sender_op h oper \<Longrightarrow> tcp_run h net ops t = Some (ins, outs, t') \<Longrightarrow>
   c + length (S @ ins) < 2 ^ 32 \<Longrightarrow> snd_inv (S @ ins) c k t'"
proof (induction ops arbitrary: S t ins outs)
  case (Cons op ops)
  obtain clk oper where op: "op = (clk, oper)" by force
  with Cons.prems(3) obtain i\<^sub>1 o\<^sub>1 i\<^sub>2 o\<^sub>2 t\<^sub>1 where d: "tcp_call h net clk oper t = Some (i\<^sub>1, o\<^sub>1, t\<^sub>1)"
    and r: "tcp_run h net ops t\<^sub>1 = Some (i\<^sub>2, o\<^sub>2, t')" and ins: "ins = i\<^sub>1 @ i\<^sub>2" by (auto split: Option.bind_splits)
  have 1: "snd_inv (S @ i\<^sub>1) c k t\<^sub>1"
    using tcp_call_inv [OF Cons.prems(1) _ d] Cons.prems(2,4) op ins by auto
  from Cons.IH [OF 1 _ r] Cons.prems(2,4) ins show ?case by auto
qed simp

section \<open>Properties\<close>

text \<open>A connection with nothing left to send, before the byte with sequence number \<open>c\<close>.\<close>

definition snd_ready :: "nat \<Rightarrow> PseudoTcp \<Rightarrow> bool" where
  "snd_ready c t \<longleftrightarrow> unat (m_snd_una t) = c \<and> m_slist t = [] \<and>
     fb_open (m_sbuf t) \<and> fb_data_length (m_sbuf t) = 0 \<and> fb_buffer_length (m_sbuf t) < 2 ^ 32"

lemma snd_ready_inv:
  assumes "snd_ready c t"
  shows "snd_inv [] c (length (m_notify t)) t"
proof -
  have "c < 2 ^ 32" using assms unsigned_less [where ?'a = nat, of "m_snd_una t"] by (auto simp: snd_ready_def)
  with assms show ?thesis by (simp add: snd_ready_def snd_inv_def snd_buf_ok_def fb_contents_def)
qed

text \<open>C4: The sender's side. Whatever the application sends, whatever acknowledgements, timeouts, window and MTU
  changes arrive, and however the network answers: every packet handed to the network carries exactly the bytes of
  the stream of accepted data that its sequence number stands for, and the send buffer holds exactly what
  is not yet acknowledged.
\<close>

theorem tcp_sender_integrity:
  assumes "snd_ready c t" and "\<forall>(clk, oper) \<in> set ops. sender_op h oper"
    and "tcp_run h net ops t = Some (S, outs, t')" and "c + length S < 2 ^ 32"
  shows "(\<forall>p h'. TcpWritePacket p \<in> set (drop (length (m_notify t)) (m_notify t')) \<longrightarrow> genuine S c (parse_segment h' p)) \<and>
    c \<le> unat (m_snd_una t') \<and> fb_contents (m_sbuf t') = drop (unat (m_snd_una t') - c) S"
  using tcp_run_inv [OF snd_ready_inv [OF assms(1)] assms(2,3)] assms(4)
  by (fastforce simp: snd_inv_def snd_buf_ok_def wire_ok_def transfer_packet_def Let_def)

definition small_sent :: bytes where
  "small_sent = packet_header True 7 1 1 0 61440 5 0 @ [10, 20, 30]"

lemma small_send_ready: "snd_ready 1 small_tcp" "m_notify small_tcp = []"
  by (simp_all add: snd_ready_def small_tcp_def PseudoTcp_new_def FifoBuffer_new_def) (simp add: fb_open_def fb_inv_def)

lemma small_send_run:
  "map_option (\<lambda>(ins, outs, t). (ins, outs, m_notify t)) (tcp_run True (\<lambda>_ _. WR_SUCCESS) [(5, Op_Send [10, 20, 30])] small_tcp) =
     Some ([10, 20, 30], [], [TcpWritePacket small_sent])"
  by code_simp

theorem tcp_sender_integrity_witness:
  "genuine [10, 20, 30] 1 (parse_segment True small_sent)"
proof -
  obtain t' where r: "tcp_run True (\<lambda>_ _. WR_SUCCESS) [(5, Op_Send [10, 20, 30])] small_tcp = Some ([10, 20, 30], [], t')"
    and n: "m_notify t' = [TcpWritePacket small_sent]" using small_send_run by auto
  from tcp_sender_integrity [OF small_send_ready(1) _ r] n show ?thesis by (simp add: small_send_ready(2))
qed

text \<open>The calls at the other end: it gets only packets that the sender handed to the network.\<close>

fun relay_op :: "IPseudoTcpNotify list \<Rightarrow> tcp_op \<Rightarrow> bool" where
  "relay_op evs (Op_Packet buffer) = (TcpWritePacket buffer \<in> set evs)"
| "relay_op evs (Op_Close force) = False"
| "relay_op evs (Op_SetOption opt val) = (opt = OPT_NODELAY \<or> opt = OPT_ACKDELAY)"
| "relay_op evs oper = True"

lemma relay_transfer: "relay_op evs oper \<Longrightarrow> \<forall>ev \<in> set evs. wire_ok S c ev \<Longrightarrow> transfer_op h S c oper"
  by (cases oper) (auto simp: wire_ok_def)

text \<open>C1: The contract of the connection, from end to end. One side sends, with any interleaving of sends, acknowledgements
  and timers; the network loses, repeats, delays and reorders its packets as it likes; the other side reads, with any
  interleaving of packets, reads and timers. Then the bytes read, followed by those waiting to be read, are a
  prefix of the bytes accepted for sending, as long as the acknowledgement number says.
\<close>

theorem tcp_end_to_end:
  assumes "snd_ready c a" and "\<forall>(clk, oper) \<in> set ops\<^sub>a. sender_op h\<^sub>a oper"
    and "tcp_run h\<^sub>a net\<^sub>a ops\<^sub>a a = Some (S, outs\<^sub>a, a')" and "c + length S < 2 ^ 32"
    and "rcv_ready c b" and "\<forall>(clk, oper) \<in> set ops\<^sub>b. relay_op (drop (length (m_notify a)) (m_notify a')) oper"
    and "tcp_run h\<^sub>b net\<^sub>b ops\<^sub>b b = Some (ins\<^sub>b, R, b')"
  shows "R @ fb_contents (m_rbuf b') = take (unat (m_rcv_nxt b') - c) S"
proof -
  have "snd_inv S c (length (m_notify a)) a'"
    using tcp_run_inv [OF snd_ready_inv [OF assms(1)] assms(2,3)] assms(4) by simp
  then have "\<forall>(clk, oper) \<in> set ops\<^sub>b. transfer_op h\<^sub>b S c oper"
    using assms(6) relay_transfer by (fastforce simp: snd_inv_def)
  from tcp_run_delivers [OF assms(5,4) this assms(7)] show ?thesis by blast
qed

theorem tcp_end_to_end_witness:
  "\<exists>b'. tcp_run True (\<lambda>_ _. WR_SUCCESS) [(6, Op_Packet small_sent), (7, Op_Recv 2)] small_tcp = Some ([], [10, 20], b') \<and>
     [10, 20] @ fb_contents (m_rbuf b') = take (unat (m_rcv_nxt b') - 1) [10, 20, 30]"
proof -
  obtain a' where a: "tcp_run True (\<lambda>_ _. WR_SUCCESS) [(5, Op_Send [10, 20, 30])] small_tcp = Some ([10, 20, 30], [], a')"
    and n: "m_notify a' = [TcpWritePacket small_sent]" using small_send_run by auto
  have "map_option (\<lambda>(ins, outs, t). (ins, outs)) (tcp_run True (\<lambda>_ _. WR_SUCCESS)
      [(6, Op_Packet small_sent), (7, Op_Recv 2)] small_tcp) = Some ([], [10, 20])" by code_simp
  then obtain b' where b: "tcp_run True (\<lambda>_ _. WR_SUCCESS) [(6, Op_Packet small_sent), (7, Op_Recv 2)] small_tcp = Some ([], [10, 20], b')"
    by auto
  from tcp_end_to_end [OF small_send_ready(1) _ a _ small_ready _ b] n b show ?thesis by (simp add: small_send_ready(2))
qed

end
