(* ===== verification/Pseudo_Tcp_Progress.thy ===== *)
theory Pseudo_Tcp_Progress
  imports Pseudo_Tcp_Send
begin

text \<open>
  The send loop of \<^verbatim>\<open>PseudoTcp\<close> always comes to an end without a failed assertion, and it stops
  only when nothing more may be sent: the queue of segments covers the send buffer without gaps,
  the transmitted segments first. The exception is an acknowledgement inside a segment, after which the
  queue and the buffer no longer agree.
\<close>

section \<open>The queue of segments\<close>

definition total_len :: "SSegment list \<Rightarrow> nat" where
  "total_len ss = (\<Sum>s\<leftarrow>ss. unat (ss_len s))"

lemma total_len_simps [simp]:
  "total_len [] = 0" "total_len (s # ss) = unat (ss_len s) + total_len ss" "total_len (xs @ ys) = total_len xs + total_len ys"
  by (simp_all add: total_len_def)

fun seg_chain :: "nat \<Rightarrow> SSegment list \<Rightarrow> bool" where
  "seg_chain p [] = True"
| "seg_chain p (s # ss) = (unat (ss_seq s) = p \<and> seg_chain (p + unat (ss_len s)) ss)"

lemma seg_chain_append [simp]: "seg_chain p (xs @ ys) \<longleftrightarrow> seg_chain p xs \<and> seg_chain (p + total_len xs) ys"
  by (induction xs arbitrary: p) (auto simp: add.assoc)

text \<open>The sizes for which packets can be built, at every level of the table of path MTUs.\<close>

definition sizes_ok :: "PseudoTcp \<Rightarrow> bool" where
  "sizes_ok t \<longleftrightarrow> m_mss t \<le> 65511 \<and> m_msslevel t \<le> 9 \<and> m_rwnd_scale t < 32"

definition queue_shape :: "SSegment list \<Rightarrow> SSegment list \<Rightarrow> PseudoTcp \<Rightarrow> bool" where
  "queue_shape sent unsent t \<longleftrightarrow> m_slist t = sent @ unsent \<and> (\<forall>s \<in> set sent. ss_xmit s > 0) \<and> (\<forall>s \<in> set unsent. ss_xmit s = 0) \<and>
     seg_chain (unat (m_snd_una t)) (sent @ unsent) \<and> total_len (sent @ unsent) = fb_data_length (m_sbuf t) \<and>
     unat (m_snd_nxt t) = unat (m_snd_una t) + total_len sent"

definition snd_shape :: "PseudoTcp \<Rightarrow> bool" where
  "snd_shape t \<longleftrightarrow> fb_open (m_sbuf t) \<and> unat (m_snd_una t) + fb_data_length (m_sbuf t) < 2 ^ 32 \<and> sizes_ok t \<and>
     (m_rto_base t \<noteq> 0 \<longrightarrow> m_slist t \<noteq> []) \<and> (\<exists>sent unsent. queue_shape sent unsent t)"

lemma first_unsent_shape: "queue_shape sent unsent t \<Longrightarrow> first_unsent t = length sent"
  unfolding first_unsent_def queue_shape_def by (cases unsent) (auto simp: takeWhile_append takeWhile_eq_all_conv [THEN iffD2])

section \<open>Transmitting never fails an assertion\<close>

text \<open>The network refused the last packet.\<close>

definition refused :: "network \<Rightarrow> PseudoTcp \<Rightarrow> bool" where
  "refused net t \<longleftrightarrow> (\<exists>evs p. m_notify t = evs @ [TcpWritePacket p] \<and> net evs p \<noteq> WR_SUCCESS)"

lemma packet_total:
  assumes "fb_open (m_sbuf t)" and "m_rwnd_scale t < 32" and "len \<le> 65511"
    and "len \<noteq> 0 \<longrightarrow> unat offset + unat len \<le> fb_data_length (m_sbuf t)"
  shows "\<exists>wres t'. packet h net clk seq flags offset len t = Some (wres, t') \<and> (wres \<noteq> WR_SUCCESS \<longrightarrow> refused net t')"
proof -
  have "\<exists>xs. packet_payload offset len (t\<lparr>m_ts_lastack := m_rcv_nxt t\<rparr>) = Some xs"
  proof (cases "len = 0")
    case False
    then have len: "0 < unat len" by (simp add: unat_gt_0)
    have inv: "fb_inv (m_sbuf t)" using assms(1) by (simp add: fb_open_def)
    have o: "unat offset < fb_data_length (m_sbuf t)" using assms(4) False len by linarith
    have "length (take (unat len) (drop (unat offset) (fb_contents (m_sbuf t)))) = unat len"
      using assms(4) False inv by simp
    with ReadOffset_success [OF inv o, of "unat len"] False show ?thesis
      by (simp add: packet_payload_def ReadOffset_def assert_opt_def)
  qed (simp add: packet_payload_def)
  moreover have "HEADER_SIZE + len \<le> MAX_PACKET"
    using assms(3) by (simp add: word_le_nat_alt unat_word_ariths)
  ultimately show ?thesis using assms(2)
    by (fastforce simp: packet_def shift_right32_def assert_opt_def Let_def notify_def refused_def)
qed

lemma level_table:
  assumes "j \<le> 9"
  shows "j + 1 < length PACKET_MAXIMUMS" and "PACKET_MAXIMUMS ! (j + 1) \<noteq> 0 \<Longrightarrow> j + 1 \<le> 9 \<and> PACKET_MAXIMUMS ! (j + 1) - PACKET_OVERHEAD \<le> 65511"
proof -
  have "j \<in> {0, 1, 2, 3, 4, 5, 6, 7, 8, 9}" using assms by auto
  then show "j + 1 < length PACKET_MAXIMUMS" "PACKET_MAXIMUMS ! (j + 1) \<noteq> 0 \<Longrightarrow> j + 1 \<le> 9 \<and> PACKET_MAXIMUMS ! (j + 1) - PACKET_OVERHEAD \<le> 65511"
    by (auto simp: PACKET_MAXIMUMS_def)
qed

lemma reduce_mss_total:
  "sizes_ok t \<Longrightarrow> \<exists>r t'. reduce_mss n t = Some (r, t') \<and> sizes_ok t' \<and> m_snd_nxt t' = m_snd_nxt t \<and> m_rto_base t' = m_rto_base t"
proof (induction n t rule: reduce_mss.induct)
  case (1 n t)
  define mss where "mss = PACKET_MAXIMUMS ! (m_msslevel t + 1) - PACKET_OVERHEAD"
  define t\<^sub>1 where "t\<^sub>1 = t\<lparr>m_msslevel := m_msslevel t + 1, m_mss := mss, m_cwnd := 2 * mss\<rparr>"
  have l: "m_msslevel t \<le> 9" using "1.prems" by (simp add: sizes_ok_def)
  have nl: "\<not> length PACKET_MAXIMUMS \<le> m_msslevel t + 1" using level_table(1) [OF l] by simp
  show ?case
  proof (cases "PACKET_MAXIMUMS ! (m_msslevel t + 1) = 0")
    case True
    with nl "1.prems" show ?thesis by (simp add: reduce_mss.simps [of n t])
  next
    case False
    have s: "sizes_ok t\<^sub>1" using level_table(2) [OF l False] "1.prems" by (simp add: t\<^sub>1_def sizes_ok_def mss_def)
    have eq: "reduce_mss n t = (if mss < n then Some (Some mss, t\<^sub>1) else reduce_mss n t\<^sub>1)"
      using nl False by (simp add: reduce_mss.simps [of n t] t\<^sub>1_def mss_def Let_def)
    have same: "m_snd_nxt t\<^sub>1 = m_snd_nxt t" "m_rto_base t\<^sub>1 = m_rto_base t" by (simp_all add: t\<^sub>1_def)
    show ?thesis
    proof (cases "mss < n")
      case True
      with eq s same show ?thesis by simp
    next
      case ge: False
      with "1.IH" [OF nl False mss_def t\<^sub>1_def _ s] eq same show ?thesis by (simp add: t\<^sub>1_def)
    qed
  qed
qed

lemma packet_keeps:
  assumes "packet h net clk seq flags offset len t = Some (r, t')"
  shows "m_snd_nxt t' = m_snd_nxt t" "m_rto_base t' = m_rto_base t" "sizes_ok t' = sizes_ok t"
  using assms by (auto simp: packet_def notify_def Let_def sizes_ok_def split: Option.bind_splits if_splits)

lemma refused_reduce: "refused net t \<Longrightarrow> reduce_mss n t = Some (r, t') \<Longrightarrow> refused net t'"
  using reduce_mss_same [of n t r t'] reduce_mss_frame [of n t r t']
  by (auto simp: refused_def snd_same_def send_frame_def)

lemma transmit_loop_total:
  assumes "fb_open (m_sbuf t)" and "sizes_ok t" and "n \<le> 65511"
    and "unat (ss_seq seg - m_snd_una t) + unat n \<le> fb_data_length (m_sbuf t)"
  shows "\<exists>r t'. transmit_loop h net clk seg n t = Some (r, t') \<and> sizes_ok t' \<and> m_snd_nxt t' = m_snd_nxt t \<and>
    m_rto_base t' = m_rto_base t \<and> (r = None \<longrightarrow> refused net t')"
  using assms
proof (induction h net clk seg n t rule: transmit_loop.induct)
  case (1 h net clk seg n t)
  let ?f = "if ss_bCtrl seg then FLAG_CTL else 0"
  have "m_rwnd_scale t < 32" using "1.prems"(2) by (simp add: sizes_ok_def)
  then obtain wres t\<^sub>1 where p: "packet h net clk (ss_seq seg) ?f (ss_seq seg - m_snd_una t) n t = Some (wres, t\<^sub>1)"
    and no: "wres \<noteq> WR_SUCCESS \<longrightarrow> refused net t\<^sub>1"
    using packet_total [OF "1.prems"(1) _ "1.prems"(3), of "ss_seq seg - m_snd_una t"] "1.prems"(4) by blast
  have k: "m_snd_nxt t\<^sub>1 = m_snd_nxt t" "m_rto_base t\<^sub>1 = m_rto_base t" "sizes_ok t\<^sub>1" "m_sbuf t\<^sub>1 = m_sbuf t" "m_snd_una t\<^sub>1 = m_snd_una t"
    using packet_keeps [OF p] packet_frame [OF p] "1.prems"(2) by (auto simp: send_frame_def)
  show ?case
  proof (cases wres)
    case WR_TOO_LARGE
    obtain r\<^sub>2 t\<^sub>2 where r: "reduce_mss n t\<^sub>1 = Some (r\<^sub>2, t\<^sub>2)"
      and k2: "sizes_ok t\<^sub>2" "m_snd_nxt t\<^sub>2 = m_snd_nxt t\<^sub>1" "m_rto_base t\<^sub>2 = m_rto_base t\<^sub>1"
      using reduce_mss_total [OF k(3), of n] by blast
    have f2: "m_sbuf t\<^sub>2 = m_sbuf t" "m_snd_una t\<^sub>2 = m_snd_una t" using reduce_mss_frame [OF r] k by (auto simp: send_frame_def)
    show ?thesis
    proof (cases r\<^sub>2)
      case None
      with p WR_TOO_LARGE r k k2 no refused_reduce [OF _ r] show ?thesis
        by (subst transmit_loop.simps) (auto split: Option.bind_splits)
    next
      case (Some m)
      then have m: "m < n" using reduce_mss_smaller [OF r] by simp
      then have "m \<le> 65511" "unat m < unat n" using "1.prems"(3) by (auto simp: word_less_nat_alt word_le_nat_alt)
      with "1.IH" [OF p refl WR_TOO_LARGE r refl Some] "1.prems"(1,4) k2(1) f2 obtain r' t' where
        "transmit_loop h net clk seg m t\<^sub>2 = Some (r', t')" "sizes_ok t'" "m_snd_nxt t' = m_snd_nxt t\<^sub>2"
        "m_rto_base t' = m_rto_base t\<^sub>2" "r' = None \<longrightarrow> refused net t'"
        by auto
      with p WR_TOO_LARGE r Some k k2 show ?thesis by (subst transmit_loop.simps) auto
    qed
  qed (use p k no in \<open>auto simp: transmit_loop.simps [of h net clk seg n t]\<close>)
qed

section \<open>Transmitting keeps the queue in shape\<close>

text \<open>A segment of the queue is cut in two.\<close>

lemma cut_segment:
  fixes seg :: SSegment and n :: uint32
  assumes "n < ss_len seg" and "unat (ss_seq seg) + unat (ss_len seg) < 2 ^ 32"
  shows "unat (ss_seq seg + n) = unat (ss_seq seg) + unat n" and "unat (ss_len seg - n) = unat (ss_len seg) - unat n"
    and "unat n < unat (ss_len seg)"
proof -
  show n: "unat n < unat (ss_len seg)" "unat (ss_len seg - n) = unat (ss_len seg) - unat n" using word_sub_less [OF assms(1)] by auto
  show "unat (ss_seq seg + n) = unat (ss_seq seg) + unat n" using assms(2) n by (intro word_add_unat) linarith
qed

lemma transmit_done_list:
  fixes now n :: uint32
  assumes "m_slist t = xs @ seg # ys" and "seg_chain p (xs @ seg # ys)" and "p + total_len (xs @ seg # ys) < 2 ^ 32"
    and "n \<le> ss_len seg"
  defines "t' \<equiv> transmit_done (length xs) seg n now t"
  shows "\<exists>seg' rest. m_slist t' = xs @ seg' # rest @ ys \<and> seg_chain p (xs @ seg' # rest @ ys) \<and>
    total_len (xs @ seg' # rest @ ys) = total_len (xs @ seg # ys) \<and> ss_xmit seg' = ss_xmit seg + 1 \<and>
    unat (ss_len seg') = unat n \<and> (\<forall>s \<in> set rest. ss_xmit s = ss_xmit seg) \<and>
    m_snd_nxt t' = (if ss_xmit seg = 0 then m_snd_nxt t + ss_len seg' else m_snd_nxt t)"
proof (cases "n < ss_len seg")
  case True
  have "unat (ss_seq seg) + unat (ss_len seg) < 2 ^ 32" using assms(2,3) by simp
  note cut = cut_segment [OF True this]
  with True assms(1-3) show ?thesis
    by (intro exI [of _ "seg\<lparr>ss_len := n, ss_xmit := ss_xmit seg + 1\<rparr>"]
        exI [of _ "[\<lparr>ss_seq = ss_seq seg + n, ss_len = ss_len seg - n, ss_xmit = ss_xmit seg, ss_bCtrl = ss_bCtrl seg\<rparr>]"])
      (simp add: t'_def transmit_done_def Let_def add.assoc)
next
  case False
  then have "n = ss_len seg" using assms(4) by simp
  with assms(1-3) show ?thesis
    by (intro exI [of _ "seg\<lparr>ss_xmit := ss_xmit seg + 1\<rparr>"] exI [of _ "[]"]) (simp add: t'_def transmit_done_def Let_def)
qed

lemma transmit_done_shape:
  fixes now n :: uint32
  assumes q: "queue_shape sent unsent t" and i: "i < length (m_slist t)" "i \<le> length sent"
    and x: "ss_xmit (m_slist t ! i) < 30" and n: "n \<le> ss_len (m_slist t ! i)"
    and lim: "unat (m_snd_una t) + fb_data_length (m_sbuf t) < 2 ^ 32"
  defines "t' \<equiv> transmit_done i (m_slist t ! i) n now t"
  shows "\<exists>sent' unsent'. queue_shape sent' unsent' t'"
proof -
  let ?p = "unat (m_snd_una t)"
  define seg where "seg = m_slist t ! i"
  note x = x [folded seg_def] and n = n [folded seg_def] and t'_def = t'_def [folded seg_def]
  define xs ys where "xs = take i (m_slist t)" and "ys = drop (Suc i) (m_slist t)"
  have l: "m_slist t = xs @ seg # ys" "length xs = i"
    using i(1) by (simp_all add: xs_def ys_def seg_def id_take_nth_drop [symmetric])
  have q': "seg_chain ?p (xs @ seg # ys)" "total_len (xs @ seg # ys) = fb_data_length (m_sbuf t)"
    using q l(1) by (auto simp: queue_shape_def)
  have "?p + total_len (xs @ seg # ys) < 2 ^ 32" using q'(2) lim by simp
  from transmit_done_list [OF l(1) q'(1) this n, of now, unfolded l(2), folded t'_def] obtain seg' rest where
    r: "m_slist t' = xs @ seg' # rest @ ys" "seg_chain ?p (xs @ seg' # rest @ ys)"
      "total_len (xs @ seg' # rest @ ys) = fb_data_length (m_sbuf t)" "ss_xmit seg' = ss_xmit seg + 1" "unat (ss_len seg') = unat n"
      "\<forall>s \<in> set rest. ss_xmit s = ss_xmit seg"
      "m_snd_nxt t' = (if ss_xmit seg = 0 then m_snd_nxt t + ss_len seg' else m_snd_nxt t)" using q'(2) by auto
  have pos: "ss_xmit seg' > 0" using r(4) x by (simp add: word_less_nat_alt unat_word_ariths)
  have same: "m_snd_una t' = m_snd_una t" "m_sbuf t' = m_sbuf t" by (simp_all add: t'_def transmit_done_def Let_def)
  show ?thesis
  proof (cases "i = length sent")
    case True
    then have xs: "xs = sent" "seg # ys = unsent" using q l unfolding queue_shape_def by (metis append_eq_append_conv)+
    have "ss_xmit seg = 0" using q xs(2) by (auto simp: queue_shape_def)
    moreover from this have "unat (m_snd_nxt t + ss_len seg') = unat (m_snd_nxt t) + unat (ss_len seg')"
      using q r(3) lim xs by (intro word_add_unat) (simp add: queue_shape_def)
    ultimately have "queue_shape (sent @ [seg']) (rest @ ys) t'"
      using q xs r same pos by (auto simp: queue_shape_def)
    then show ?thesis by blast
  next
    case False
    then have il: "i < length sent" using i(2) by simp
    then have "xs = take i sent" "seg = sent ! i" "ys = drop (Suc i) sent @ unsent"
      using q by (simp_all add: queue_shape_def xs_def ys_def seg_def nth_append)
    with id_take_nth_drop [OF il] obtain zs where sent: "sent = xs @ seg # zs" "ys = zs @ unsent" by metis
    have q'': "queue_shape (xs @ seg # zs) unsent t" using q sent(1) by simp
    then have "ss_xmit seg > 0" by (simp add: queue_shape_def)
    moreover have "total_len (xs @ seg' # rest @ zs) = total_len (xs @ seg # zs)"
      using r(3) q'(2) sent(2) by simp
    ultimately have "queue_shape (xs @ seg' # rest @ zs) unsent t'"
      using q'' r sent(2) same pos by (auto simp: queue_shape_def)
    then show ?thesis by blast
  qed
qed

text \<open>The position of a segment in the send buffer.\<close>

lemma shape_offset:
  assumes "queue_shape sent unsent t" and "i < length (m_slist t)" and "unat (m_snd_una t) + fb_data_length (m_sbuf t) < 2 ^ 32"
  shows "unat (ss_seq (m_slist t ! i) - m_snd_una t) + unat (ss_len (m_slist t ! i)) \<le> fb_data_length (m_sbuf t)"
proof -
  define xs seg ys where "xs = take i (m_slist t)" and "seg = m_slist t ! i" and "ys = drop (Suc i) (m_slist t)"
  have l: "m_slist t = xs @ seg # ys" using assms(2) by (simp add: xs_def seg_def ys_def id_take_nth_drop [symmetric])
  then have "seg_chain (unat (m_snd_una t)) (xs @ seg # ys)" "total_len (xs @ seg # ys) = fb_data_length (m_sbuf t)"
    using assms(1) unfolding queue_shape_def by metis+
  then have "unat (ss_seq seg) = unat (m_snd_una t) + total_len xs" "total_len xs + (unat (ss_len seg) + total_len ys) = fb_data_length (m_sbuf t)"
    by simp_all
  moreover from this(1) have "unat (ss_seq seg - m_snd_una t) = total_len xs"
    by (subst word_sub_unat) (simp_all add: word_le_nat_alt)
  ultimately show ?thesis by (simp flip: seg_def)
qed

lemma sizes_min: "sizes_ok t \<Longrightarrow> min len (m_mss t) \<le> 65511"
  by (simp add: sizes_ok_def min.coboundedI2)

lemma transmit_shape:
  assumes sh: "snd_shape t" and i: "i < length (m_slist t)" "i \<le> first_unsent t"
  shows "\<exists>ok t'. transmit h net clk i now t = Some (ok, t') \<and> snd_shape t' \<and>
    (\<not> ok \<longrightarrow> refused net t' \<or> 15 \<le> ss_xmit (m_slist t ! i))"
proof (cases "ss_xmit (m_slist t ! i) \<ge> (if m_state t = TCP_ESTABLISHED then 15 else 30)")
  case True
  have "(15 :: uint8) \<le> ss_xmit (m_slist t ! i)"
    using True order.trans [of "15 :: uint8" 30 "ss_xmit (m_slist t ! i)"] by (auto split: if_splits)
  with True sh i show ?thesis by (auto simp: transmit_def assert_opt_def Let_def)
next
  case False
  let ?seg = "m_slist t ! i"
  let ?n = "min (ss_len ?seg) (m_mss t)"
  have x: "ss_xmit ?seg < 30" using False by (auto simp: word_less_nat_alt not_le split: if_splits)
  obtain sent unsent where q: "queue_shape sent unsent t" using sh by (auto simp: snd_shape_def)
  have s: "fb_open (m_sbuf t)" "sizes_ok t" and lim: "unat (m_snd_una t) + fb_data_length (m_sbuf t) < 2 ^ 32"
    using sh by (auto simp: snd_shape_def)
  have "unat ?n \<le> unat (ss_len ?seg)" using min.cobounded1 [of "ss_len ?seg" "m_mss t"] by (simp add: word_le_nat_alt)
  then have off: "unat (ss_seq ?seg - m_snd_una t) + unat ?n \<le> fb_data_length (m_sbuf t)"
    using shape_offset [OF q i(1) lim] by linarith
  obtain r t\<^sub>1 where l: "transmit_loop h net clk ?seg ?n t = Some (r, t\<^sub>1)" and k: "sizes_ok t\<^sub>1" "m_snd_nxt t\<^sub>1 = m_snd_nxt t"
    "m_rto_base t\<^sub>1 = m_rto_base t" "r = None \<longrightarrow> refused net t\<^sub>1"
    using transmit_loop_total [OF s sizes_min [OF s(2)] off, of h net clk] by blast
  have f: "m_slist t\<^sub>1 = m_slist t" "m_sbuf t\<^sub>1 = m_sbuf t" "m_snd_una t\<^sub>1 = m_snd_una t"
    and m: "\<And>m. r = Some m \<Longrightarrow> m \<le> ss_len ?seg"
    using transmit_loop_smaller [OF l] transmit_loop_frame [OF l] by (auto simp: send_frame_def min_def split: if_splits)
  have q\<^sub>1: "queue_shape sent unsent t\<^sub>1" using q f k by (simp add: queue_shape_def)
  have sh\<^sub>1: "snd_shape t\<^sub>1" using sh q\<^sub>1 f k unfolding snd_shape_def by auto
  show ?thesis
  proof (cases r)
    case None
    with l False i k sh\<^sub>1 show ?thesis by (auto simp: transmit_def assert_opt_def Let_def)
  next
    case (Some m)
    let ?t = "transmit_done i ?seg m now t\<^sub>1"
    have "i \<le> length sent" using i(2) first_unsent_shape [OF q] by simp
    from transmit_done_shape [OF q\<^sub>1 _ this, of m now] i x m [OF Some] f lim have "\<exists>sent' unsent'. queue_shape sent' unsent' ?t"
      by simp
    moreover have "m_sbuf ?t = m_sbuf t" "m_snd_una ?t = m_snd_una t" "sizes_ok ?t" "m_slist ?t \<noteq> []"
      using f k by (simp_all add: transmit_done_def Let_def sizes_ok_def)
    ultimately have "snd_shape ?t" using s lim unfolding snd_shape_def by auto
    with l False i Some show ?thesis by (auto simp: transmit_def assert_opt_def Let_def)
  qed
qed

section \<open>The send loop\<close>

lemma split_segment_shape:
  fixes n :: uint32
  assumes sh: "snd_shape t" and i: "first_unsent t < length (m_slist t)"
  defines "t' \<equiv> split_segment (first_unsent t) n t"
  shows "snd_shape t' \<and> first_unsent t' = first_unsent t \<and> first_unsent t < length (m_slist t') \<and> ss_xmit (m_slist t' ! first_unsent t) = 0"
proof (cases "n < ss_len (m_slist t ! first_unsent t)")
  case True
  obtain sent unsent where q: "queue_shape sent unsent t" using sh by (auto simp: snd_shape_def)
  note fu = first_unsent_shape [OF q]
  with i q obtain seg ys where u: "unsent = seg # ys" by (cases unsent) (auto simp: queue_shape_def)
  have l: "m_slist t = sent @ seg # ys" using q u by (simp add: queue_shape_def)
  then have seg: "m_slist t ! first_unsent t = seg" using fu by simp
  let ?a = "seg\<lparr>ss_len := n\<rparr>" and ?b = "SSegment_new (ss_seq seg + n) (ss_len seg - n) (ss_bCtrl seg)"
  have t': "t' = t\<lparr>m_slist := sent @ ?a # ?b # ys\<rparr>"
    using True l seg fu by (simp add: t'_def split_segment_def Let_def)
  have lim: "unat (m_snd_una t) + fb_data_length (m_sbuf t) < 2 ^ 32" using sh by (simp add: snd_shape_def)
  have "unat (ss_seq seg) + unat (ss_len seg) < 2 ^ 32" using q u lim by (simp add: queue_shape_def)
  from cut_segment [OF True [unfolded seg] this] have q\<^sub>2: "queue_shape sent (?a # ?b # ys) t'"
    using q u unfolding t' by (simp add: queue_shape_def SSegment_new_def add.assoc)
  have "m_sbuf t' = m_sbuf t" "m_snd_una t' = m_snd_una t" "sizes_ok t' = sizes_ok t" "m_slist t' \<noteq> []"
    by (simp_all add: t' sizes_ok_def)
  with q\<^sub>2 sh have "snd_shape t'" unfolding snd_shape_def by auto
  moreover have "first_unsent t < length (m_slist t')" "m_slist t' ! first_unsent t = ?a" using fu by (simp_all add: t')
  moreover have "ss_xmit seg = 0" using q u by (simp add: queue_shape_def)
  ultimately show ?thesis using first_unsent_shape [OF q\<^sub>2] fu by simp
next
  case False
  then have "t' = t" by (simp add: t'_def split_segment_def Let_def)
  with sh i first_unsent_xmit [OF i] show ?thesis by simp
qed

lemma send_available_unsent:
  assumes sh: "snd_shape t" and "send_available t \<noteq> 0"
  shows "first_unsent t < length (m_slist t)"
proof (rule ccontr)
  assume "\<not> ?thesis"
  obtain sent unsent where q: "queue_shape sent unsent t" using sh by (auto simp: snd_shape_def)
  with \<open>\<not> ?thesis\<close> first_unsent_shape [OF q] have "unsent = []" by (auto simp: queue_shape_def)
  with q have "unat (m_snd_nxt t) = unat (m_snd_una t) + fb_data_length (m_sbuf t)" by (simp add: queue_shape_def)
  then have "m_snd_nxt t = m_snd_una t + of_nat (fb_data_length (m_sbuf t))"
    by (metis of_nat_add of_nat_unat ucast_id)
  then have "of_nat (GetBuffered (m_sbuf t)) - (m_snd_nxt t - m_snd_una t) = 0" by (simp add: GetBuffered_def)
  with assms(2) show False by (simp add: send_available_def Let_def)
qed

lemma send_available_fields:
  "m_dup_acks t' = m_dup_acks t \<Longrightarrow> m_cwnd t' = m_cwnd t \<Longrightarrow> m_mss t' = m_mss t \<Longrightarrow> m_snd_wnd t' = m_snd_wnd t \<Longrightarrow>
   m_snd_nxt t' = m_snd_nxt t \<Longrightarrow> m_snd_una t' = m_snd_una t \<Longrightarrow> m_sbuf t' = m_sbuf t \<Longrightarrow> send_available t' = send_available t"
  by (simp add: send_available_def send_window_def)

lemma send_ack_shape:
  assumes "snd_shape t" and "send_available t = 0"
  shows "\<exists>t'. send_ack h net clk sflags t = Some t' \<and> snd_shape t' \<and> send_available t' = 0"
proof (cases "sflags = sfImmediateAck \<or> sflags \<noteq> sfNone \<and> m_t_ack t \<noteq> 0")
  case True
  have s: "fb_open (m_sbuf t)" "m_rwnd_scale t < 32" using assms(1) by (auto simp: snd_shape_def sizes_ok_def)
  obtain r t' where p: "packet h net clk (m_snd_nxt t) 0 0 0 t = Some (r, t')" using packet_total [OF s, of 0 0 h net clk "m_snd_nxt t" 0] by auto
  from p have f: "m_dup_acks t' = m_dup_acks t" "m_cwnd t' = m_cwnd t" "m_mss t' = m_mss t" "m_snd_wnd t' = m_snd_wnd t"
    "m_snd_nxt t' = m_snd_nxt t" "m_snd_una t' = m_snd_una t" "m_sbuf t' = m_sbuf t" "m_slist t' = m_slist t"
    "m_msslevel t' = m_msslevel t" "m_rwnd_scale t' = m_rwnd_scale t" "m_rto_base t' = m_rto_base t"
    by (auto simp: packet_def notify_def Let_def split: Option.bind_splits if_splits)
  then have "snd_shape t'" using assms(1) by (simp add: snd_shape_def queue_shape_def sizes_ok_def)
  with p True send_available_fields [OF f(1-7)] assms(2) show ?thesis by (auto simp: send_ack_def)
next
  case False
  have "snd_shape (t\<lparr>m_t_ack := clk\<rparr>)" "send_available (t\<lparr>m_t_ack := clk\<rparr>) = 0"
    using assms send_available_fields [of "t\<lparr>m_t_ack := clk\<rparr>" t] by (simp_all add: snd_shape_def queue_shape_def sizes_ok_def)
  with False assms show ?thesis by (auto simp: send_ack_def)
qed

text \<open>Why the send loop ends.\<close>

definition send_finished :: "network \<Rightarrow> PseudoTcp \<Rightarrow> bool" where
  "send_finished net t \<longleftrightarrow> send_available t = 0 \<or>
     (m_use_nagling t \<and> m_snd_nxt t > m_snd_una t \<and> send_available t < m_mss t) \<or> refused net t"

lemma send_step_shape:
  assumes sh: "snd_shape t"
  shows "\<exists>r. send_step h net clk sflags t = Some r \<and>
    (case r of Inl t' \<Rightarrow> snd_shape t' \<and> send_finished net t' | Inr t' \<Rightarrow> snd_shape t')"
proof (cases "send_available t = 0")
  case True
  with send_ack_shape [OF sh True, of h net clk sflags] show ?thesis by (auto simp: send_step_def send_finished_def)
next
  case False
  show ?thesis
  proof (cases "m_use_nagling t \<and> m_snd_nxt t > m_snd_una t \<and> send_available t < m_mss t")
    case True
    with False sh show ?thesis by (simp add: send_step_def Let_def send_finished_def)
  next
    case nagle: False
    let ?i = "first_unsent t"
    define s where "s = split_segment ?i (send_available t) t"
    have i: "?i < length (m_slist t)" by (rule send_available_unsent [OF sh False])
    note sp = split_segment_shape [OF sh i, of "send_available t", folded s_def]
    then obtain ok t' where tr: "transmit h net clk ?i clk s = Some (ok, t')" "snd_shape t'" "\<not> ok \<longrightarrow> refused net t'"
      using transmit_shape [of s ?i h net clk clk] by auto
    with False nagle i show ?thesis
      by (cases ok) (auto simp: send_step_def Let_def assert_opt_def send_finished_def simp flip: s_def)
  qed
qed

lemma attemptSend_loop_shape:
  "snd_shape t \<Longrightarrow> \<exists>t'. attemptSend_loop h net clk sflags t = Some t' \<and> snd_shape t' \<and> send_finished net t'"
proof (induction h net clk sflags t rule: attemptSend_loop.induct)
  case (1 h net clk sflags t)
  from send_step_shape [OF "1.prems"] obtain r where r: "send_step h net clk sflags t = Some r"
    and c: "case r of Inl t' \<Rightarrow> snd_shape t' \<and> send_finished net t' | Inr t' \<Rightarrow> snd_shape t'" by blast
  show ?case
  proof (cases r)
    case (Inl t')
    with r c show ?thesis by (simp add: attemptSend_loop.simps [of h net clk sflags t])
  next
    case (Inr t')
    with "1.IH" [OF r Inr] r c show ?thesis by (simp add: attemptSend_loop.simps [of h net clk sflags t])
  qed
qed

lemma attemptSend_shape:
  assumes "snd_shape t"
  shows "\<exists>t'. attemptSend h net clk sflags t = Some t' \<and> snd_shape t' \<and> send_finished net t'"
proof -
  let ?t = "if TimeDiff clk (m_lastsend t) > uint (m_rx_rto t) then t\<lparr>m_cwnd := m_mss t\<rparr> else t"
  have "snd_shape ?t" using assms by (simp add: snd_shape_def queue_shape_def sizes_ok_def)
  then show ?thesis unfolding attemptSend_def Let_def by (rule attemptSend_loop_shape)
qed

section \<open>Queueing and acknowledging\<close>

lemma queue_shape_more:
  fixes bCtrl :: bool
  assumes q: "queue_shape sent unsent t" and lim: "unat (m_snd_una t) + fb_data_length (m_sbuf t) + unat len < 2 ^ 32"
    and b: "fb_data_length b = fb_data_length (m_sbuf t) + unat len"
  defines "ss \<equiv> (if m_slist t \<noteq> [] \<and> ss_bCtrl (last (m_slist t)) = bCtrl \<and> ss_xmit (last (m_slist t)) = 0
        then butlast (m_slist t) @ [last (m_slist t)\<lparr>ss_len := ss_len (last (m_slist t)) + len\<rparr>]
        else m_slist t @ [SSegment_new (m_snd_una t + of_nat (GetBuffered (m_sbuf t))) len bCtrl])"
  shows "\<exists>unsent'. queue_shape sent unsent' (t\<lparr>m_slist := ss, m_sbuf := b\<rparr>)"
proof (cases "m_slist t \<noteq> [] \<and> ss_bCtrl (last (m_slist t)) = bCtrl \<and> ss_xmit (last (m_slist t)) = 0")
  case True
  have "unsent \<noteq> []"
  proof
    assume "unsent = []"
    then have "last (m_slist t) \<in> set sent" using True q by (auto simp: queue_shape_def)
    then have "ss_xmit (last (m_slist t)) > 0" using q by (auto simp: queue_shape_def)
    with True show False by simp
  qed
  then obtain us l where u: "unsent = us @ [l]" by (metis rev_exhaust)
  have l: "m_slist t = sent @ us @ [l]" using q u by (simp add: queue_shape_def)
  have "unat (ss_len l) + unat len < 2 ^ 32" using q u lim by (simp add: queue_shape_def)
  then have "unat (ss_len l + len) = unat (ss_len l) + unat len" by (rule word_add_unat)
  with q u b True l have "queue_shape sent (us @ [l\<lparr>ss_len := ss_len l + len\<rparr>]) (t\<lparr>m_slist := ss, m_sbuf := b\<rparr>)"
    by (simp add: queue_shape_def ss_def butlast_append)
  then show ?thesis by blast
next
  case False
  let ?s = "SSegment_new (m_snd_una t + of_nat (GetBuffered (m_sbuf t))) len bCtrl"
  have "unat (of_nat (fb_data_length (m_sbuf t)) :: uint32) = fb_data_length (m_sbuf t)"
    using lim by (simp add: unat_of_nat take_bit_nat_eq_self)
  then have "unat (m_snd_una t + of_nat (GetBuffered (m_sbuf t))) = unat (m_snd_una t) + fb_data_length (m_sbuf t)"
    using lim by (subst word_add_unat) (simp_all add: GetBuffered_def)
  with q b False have "queue_shape sent (unsent @ [?s]) (t\<lparr>m_slist := ss, m_sbuf := b\<rparr>)"
    unfolding ss_def if_not_P [OF False] by (simp add: queue_shape_def SSegment_new_def add.assoc)
  then show ?thesis by blast
qed

lemma queue_data_shape:
  assumes sh: "snd_shape t" and room: "GetWriteRemaining (m_sbuf t) \<noteq> 0" and len: "length data < 2 ^ 32"
    and lim: "unat (m_snd_una t) + fb_buffer_length (m_sbuf t) < 2 ^ 32"
  shows "\<exists>n t'. queue data False t = Some (n, t') \<and> unat n = min (length data) (GetWriteRemaining (m_sbuf t)) \<and> snd_shape t'"
proof -
  let ?a = "of_nat (GetWriteRemaining (m_sbuf t)) :: uint32" and ?l = "of_nat (length data) :: uint32"
  define n where "n = (if ?l > ?a then ?a else ?l)"
  have buf: "fb_inv (m_sbuf t)" "fb_state (m_sbuf t) = SS_OPEN" and r: "fb_data_length (m_sbuf t) < fb_buffer_length (m_sbuf t)"
    using sh room by (auto simp: snd_shape_def fb_open_def GetWriteRemaining_def)
  have w: "unat ?a = GetWriteRemaining (m_sbuf t)" "unat ?l = length data"
    using len lim by (simp_all add: unat_of_nat take_bit_nat_eq_self GetWriteRemaining_def)
  then have n: "unat n = min (length data) (GetWriteRemaining (m_sbuf t))" by (auto simp: n_def word_less_nat_alt)
  then have n': "unat n \<le> length data" "unat n \<le> fb_buffer_length (m_sbuf t) - fb_data_length (m_sbuf t)"
    by (simp_all add: GetWriteRemaining_def)
  obtain b where b: "FifoBuffer_Write (take (unat n) data) (m_sbuf t) = (SR_SUCCESS, unat n, b)"
    "fb_inv b" "fb_contents b = fb_contents (m_sbuf t) @ take (unat n) data" "fb_state b = fb_state (m_sbuf t)"
    using n' by (auto intro: Write_success [OF buf(1) _ r, of "take (unat n) data"] simp: buf(2) min.absorb1)
  have d: "fb_data_length b = fb_data_length (m_sbuf t) + unat n"
    using length_fb_contents [OF b(2)] length_fb_contents [OF buf(1)] n'(1) unfolding b(3) by simp
  have lim': "unat (m_snd_una t) + fb_data_length (m_sbuf t) + unat n < 2 ^ 32" using lim n'(2) r by linarith
  obtain sent unsent where q: "queue_shape sent unsent t" using sh by (auto simp: snd_shape_def)
  define ss where "ss = (if m_slist t \<noteq> [] \<and> ss_bCtrl (last (m_slist t)) = False \<and> ss_xmit (last (m_slist t)) = 0
        then butlast (m_slist t) @ [last (m_slist t)\<lparr>ss_len := ss_len (last (m_slist t)) + n\<rparr>]
        else m_slist t @ [SSegment_new (m_snd_una t + of_nat (GetBuffered (m_sbuf t))) n False])"
  have eq: "queue data False t = Some (n, t\<lparr>m_slist := ss, m_sbuf := b\<rparr>)"
    using b(1) unfolding queue_def Let_def n_def [symmetric] ss_def [symmetric] by (simp add: assert_opt_def)
  from queue_shape_more [OF q lim' d, of False, folded ss_def] obtain unsent' where
    "queue_shape sent unsent' (t\<lparr>m_slist := ss, m_sbuf := b\<rparr>)" by blast
  moreover have "ss \<noteq> []" by (simp add: ss_def)
  ultimately have "snd_shape (t\<lparr>m_slist := ss, m_sbuf := b\<rparr>)"
    using sh b d lim' buf unfolding snd_shape_def by (auto simp: fb_open_def sizes_ok_def)
  with eq n show ?thesis by blast
qed

section \<open>Properties\<close>


lemma small_shape: "snd_shape small_tcp"
proof -
  have "queue_shape [] [] small_tcp" by (simp add: queue_shape_def small_tcp_def PseudoTcp_new_def FifoBuffer_new_def)
  moreover have "fb_open (m_sbuf small_tcp)" by (simp add: small_tcp_def)
  ultimately show ?thesis unfolding snd_shape_def
    by (auto simp: small_tcp_def PseudoTcp_new_def FifoBuffer_new_def sizes_ok_def)
qed


text \<open>C39: An acknowledgement inside the oldest segment. It is accepted and shortens the segment, but the segment keeps
  its sequence number, which now lies before the send buffer. The next retransmission of it then reads the buffer
  at a wrapped-around offset and fails its assertion, whatever the network does.
\<close>

theorem tcp_partial_ack:
  assumes "snd_shape t" and "m_slist t = s # ss" and "ss_xmit s < 15" and "0 < m_mss t" and "m_swnd_scale t < 32" and "sg_tsecr seg = 0"
    and "unat (m_snd_una t) < unat (sg_ack seg)" and "unat (sg_ack seg) < unat (m_snd_una t) + unat (ss_len s)"
  shows "\<exists>t'. take_ack clk seg t = Some t' \<and> m_snd_una t' = sg_ack seg \<and>
    m_slist t' = s\<lparr>ss_len := ss_len s - (sg_ack seg - m_snd_una t)\<rparr> # ss \<and> transmit h net clk 0 now t' = None"
proof -
  let ?n = "sg_ack seg - m_snd_una t" and ?u = "unat (m_snd_una t)" and ?d = "fb_data_length (m_sbuf t)"
  have n: "unat ?n = unat (sg_ack seg) - ?u" using assms(7) by (subst word_sub_unat) (simp_all add: word_le_nat_alt)
  have buf: "fb_inv (m_sbuf t)" and lim: "?u + ?d < 2 ^ 32" using assms(1) by (auto simp: snd_shape_def fb_open_def)
  obtain sent unsent where q: "queue_shape sent unsent t" using assms(1) by (auto simp: snd_shape_def)
  then have seq: "unat (ss_seq s) = ?u" "unat (ss_len s) \<le> ?d"
    using assms(2) unfolding queue_shape_def by (metis seg_chain.simps(2), metis le_add1 total_len_simps(2))
  have less: "?n < ss_len s" "?n \<noteq> 0" using n assms(7,8) by (auto simp: word_less_nat_alt word_unat_eq_iff)
  have le: "unat ?n \<le> ?d" and pos: "0 < fb_buffer_length (m_sbuf t)"
    using n assms(7,8) seq(2) buf unfolding fb_inv_def by linarith+
  obtain b where b: "ConsumeReadData (unat ?n) (m_sbuf t) = Some b" "fb_inv b" "fb_contents b = drop (unat ?n) (fb_contents (m_sbuf t))"
    by (rule ConsumeReadData_success [OF buf pos le])
  have d: "fb_data_length b = ?d - unat ?n"
    using length_fb_contents [OF b(2)] length_fb_contents [OF buf] unfolding b(3) length_drop by linarith
  define s' where "s' = s\<lparr>ss_len := ss_len s - ?n\<rparr>"
  obtain t' where t': "take_ack clk seg t = Some t'" "m_snd_una t' = sg_ack seg" "m_slist t' = s' # ss" "m_sbuf t' = b" "m_mss t' = m_mss t"
    using assms(2,5,6) less b(1) by (auto simp: take_ack_def update_rtt_def shift_left32_def s'_def Let_def)
  let ?len = "min (ss_len s') (m_mss t)" and ?o = "ss_seq s - sg_ack seg"
  have "0 < ss_len s'" using word_sub_less [OF less(1)] by (simp add: s'_def word_less_nat_alt)
  then have len: "?len \<noteq> 0" using assms(4) by (auto simp: min_def)
  have "ss_seq s = m_snd_una t" using seq(1) by (simp add: word_unat_eq_iff)
  then have "?o + ?n = 0" by simp
  then have "2 ^ 32 \<le> unat ?o + unat ?n"
    using word_add_unat [of ?o ?n] less(2) by (intro leI notI) (simp add: word_unat_eq_iff)
  then have "fb_data_length b \<le> unat ?o" using d lim n by linarith
  then have "packet_payload ?o ?len (t'\<lparr>m_ts_lastack := r\<rparr>) = None" for r
    using len t'(4) by (simp add: packet_payload_def ReadOffset_def ReadOffset_blocked assert_opt_def)
  then have "packet h net clk (ss_seq s) f ?o ?len t' = None" for f
    by (auto simp: packet_def Let_def split: Option.bind_splits)
  then have "transmit_loop h net clk s' ?len t' = None"
    using t'(2) by (subst transmit_loop.simps) (simp add: s'_def)
  moreover have "\<not> (if m_state t' = TCP_ESTABLISHED then 15 else 30) \<le> ss_xmit s'"
    using assms(3) by (auto simp: s'_def word_le_nat_alt word_less_nat_alt)
  ultimately have "transmit h net clk 0 now t' = None" using t'(3,5) by (simp add: transmit_def assert_opt_def Let_def)
  with t' show ?thesis unfolding s'_def by blast
qed

text \<open>A connection that has sent the bytes 10, 20, 30 in one segment.\<close>

definition sent_tcp :: PseudoTcp where
  "sent_tcp = small_tcp\<lparr>m_snd_nxt := 4, m_slist := [\<lparr>ss_seq = 1, ss_len = 3, ss_xmit = 1, ss_bCtrl = False\<rparr>],
     m_sbuf := \<lparr>fb_state = SS_OPEN, fb_buffer = [10, 20, 30, 0], fb_buffer_length = 4, fb_data_length = 3,
                fb_read_position = 0, fb_events = []\<rparr>\<rparr>"

lemma sent_shape: "snd_shape sent_tcp"
proof -
  have "queue_shape [\<lparr>ss_seq = 1, ss_len = 3, ss_xmit = 1, ss_bCtrl = False\<rparr>] [] sent_tcp"
    by (simp add: queue_shape_def sent_tcp_def small_tcp_def)
  moreover have "fb_open (m_sbuf sent_tcp)" by (simp add: sent_tcp_def fb_open_def fb_inv_def)
  ultimately show ?thesis unfolding snd_shape_def
    by (auto simp: sent_tcp_def small_tcp_def PseudoTcp_new_def sizes_ok_def)
qed

theorem tcp_partial_ack_witness:
  "\<exists>t'. take_ack 9 \<lparr>sg_conv = 7, sg_seq = 1, sg_ack = 2, sg_flags = 0, sg_wnd = 1, sg_data = [], sg_len = 0, sg_tsval = 0, sg_tsecr = 0\<rparr>
      sent_tcp = Some t' \<and> m_snd_una t' = 2 \<and> transmit True (\<lambda>_ _. WR_SUCCESS) 9 0 9 t' = None"
proof -
  let ?seg = "\<lparr>sg_conv = 7, sg_seq = 1, sg_ack = 2, sg_flags = 0, sg_wnd = 1, sg_data = [], sg_len = 0, sg_tsval = 0, sg_tsecr = 0\<rparr>"
  have "m_slist sent_tcp = \<lparr>ss_seq = 1, ss_len = 3, ss_xmit = 1, ss_bCtrl = False\<rparr> # []" "0 < m_mss sent_tcp"
    "m_swnd_scale sent_tcp < 32" "m_snd_una sent_tcp = 1"
    by (simp_all add: sent_tcp_def small_tcp_def PseudoTcp_new_def)
  with tcp_partial_ack [OF sent_shape this(1), of ?seg 9 True "\<lambda>_ _. WR_SUCCESS" 9] show ?thesis by auto
qed

end
