(* ===== verification/Ip_Address.thy ===== *)
theory Ip_Address
  imports Byte_Order
begin

text \<open>
  \<^verbatim>\<open>webrtc/base/ipaddress.{h,cc}\<close>: IPv4 and IPv6 addresses, their ordering, classification, masks and
  truncation. The union \<^verbatim>\<open>u_\<close> is the list \<open>ip_u\<close> of its sixteen bytes, and \<open>h\<close> is the byte order
  of the host, as everywhere. The textual forms (\<^verbatim>\<open>ToString\<close>, \<^verbatim>\<open>IPFromString\<close>) call the
  platform's \<^verbatim>\<open>inet_ntop\<close> and \<^verbatim>\<open>inet_pton\<close> and are not modelled.
\<close>

unbundle bit_operations_syntax

section \<open>Addresses\<close>

datatype AddressFamily = AF_UNSPEC | AF_INET | AF_INET6

record IPAddress =
  ip_family :: AddressFamily
  ip_u :: bytes

definition IPAddress_unspec :: IPAddress where
  "IPAddress_unspec = \<lparr>ip_family = AF_UNSPEC, ip_u = replicate 16 0\<rparr>"

definition IPAddress_v4 :: "bytes \<Rightarrow> IPAddress" where
  "IPAddress_v4 ip4 = \<lparr>ip_family = AF_INET, ip_u = blit (replicate 16 0) 0 ip4\<rparr>"

definition IPAddress_v6 :: "bytes \<Rightarrow> IPAddress" where
  "IPAddress_v6 ip6 = \<lparr>ip_family = AF_INET6, ip_u = ip6\<rparr>"

definition IPAddress_host :: "bool \<Rightarrow> uint32 \<Rightarrow> IPAddress" where
  "IPAddress_host h ip = IPAddress_v4 (host_bytes h 4 (HostToNetwork32 h ip))"

definition ipv4_address :: "IPAddress \<Rightarrow> bytes" where
  "ipv4_address ip = take 4 (ip_u ip)"

definition ipv6_address :: "IPAddress \<Rightarrow> bytes" where
  "ipv6_address ip = ip_u ip"

definition v4AddressAsHostOrderInteger :: "bool \<Rightarrow> IPAddress \<Rightarrow> uint32" where
  "v4AddressAsHostOrderInteger h ip =
     (if ip_family ip = AF_INET then NetworkToHost32 h (host_word h (ipv4_address ip)) else 0)"

definition IPAddress_Size :: "IPAddress \<Rightarrow> nat" where
  "IPAddress_Size ip = (case ip_family ip of AF_INET \<Rightarrow> 4 | AF_INET6 \<Rightarrow> 16 | AF_UNSPEC \<Rightarrow> 0)"

section \<open>Comparison\<close>

definition IPAddress_eq :: "IPAddress \<Rightarrow> IPAddress \<Rightarrow> bool" where
  "IPAddress_eq a b \<longleftrightarrow>
     (if ip_family a \<noteq> ip_family b then False
      else if ip_family a = AF_INET then ipv4_address a = ipv4_address b
      else if ip_family a = AF_INET6 then ipv6_address a = ipv6_address b
      else ip_family a = AF_UNSPEC)"

text \<open>\<^verbatim>\<open>memcmp (...) < 0\<close>.\<close>

fun memcmp_less :: "bytes \<Rightarrow> bytes \<Rightarrow> bool" where
  "memcmp_less (x # xs) (y # ys) \<longleftrightarrow> x < y \<or> x = y \<and> memcmp_less xs ys"
| "memcmp_less _ _ \<longleftrightarrow> False"

definition IPAddress_less :: "bool \<Rightarrow> IPAddress \<Rightarrow> IPAddress \<Rightarrow> bool" where
  "IPAddress_less h a b \<longleftrightarrow>
     (if ip_family a \<noteq> ip_family b then
        if ip_family a = AF_UNSPEC then True
        else if ip_family a = AF_INET \<and> ip_family b = AF_INET6 then True
        else False
      else case ip_family a of
        AF_INET \<Rightarrow> NetworkToHost32 h (host_word h (ipv4_address a)) < NetworkToHost32 h (host_word h (ipv4_address b))
      | AF_INET6 \<Rightarrow> memcmp_less (ip_u a) (ip_u b)
      | AF_UNSPEC \<Rightarrow> False)"

definition IPAddress_greater :: "bool \<Rightarrow> IPAddress \<Rightarrow> IPAddress \<Rightarrow> bool" where
  "IPAddress_greater h a b \<longleftrightarrow> \<not> IPAddress_eq a b \<and> \<not> IPAddress_less h a b"

section \<open>Classification\<close>

definition kV4MappedPrefix :: bytes where
  "kV4MappedPrefix = [0, 0, 0, 0, 0, 0, 0, 0, 0, 0, 0xFF, 0xFF, 0, 0, 0, 0]"
definition k6To4Prefix :: bytes where
  "k6To4Prefix = [0x20, 0x02, 0, 0, 0, 0, 0, 0, 0, 0, 0, 0, 0, 0, 0, 0]"
definition kTeredoPrefix :: bytes where
  "kTeredoPrefix = [0x20, 0x01, 0, 0, 0, 0, 0, 0, 0, 0, 0, 0, 0, 0, 0, 0]"
definition kV4CompatibilityPrefix :: bytes where
  "kV4CompatibilityPrefix = replicate 16 0"
definition k6BonePrefix :: bytes where
  "k6BonePrefix = [0x3f, 0xfe, 0, 0, 0, 0, 0, 0, 0, 0, 0, 0, 0, 0, 0, 0]"

definition INADDR_ANY :: uint32 where "INADDR_ANY = 0"
definition INADDR_LOOPBACK :: uint32 where "INADDR_LOOPBACK = 0x7f000001"
definition in6addr_any :: bytes where "in6addr_any = replicate 16 0"
definition in6addr_loopback :: bytes where "in6addr_loopback = replicate 15 0 @ [1]"

definition IsPrivateV4 :: "uint32 \<Rightarrow> bool" where
  "IsPrivateV4 ip \<longleftrightarrow>
     drop_bit 24 ip = 127 \<or> drop_bit 24 ip = 10 \<or>
     drop_bit 20 ip = push_bit 4 172 OR 1 \<or>
     drop_bit 16 ip = push_bit 8 192 OR 168 \<or>
     drop_bit 16 ip = push_bit 8 169 OR 254"

definition IPIsAny :: "bool \<Rightarrow> IPAddress \<Rightarrow> bool" where
  "IPIsAny h ip \<longleftrightarrow>
     (case ip_family ip of
        AF_INET \<Rightarrow> IPAddress_eq ip (IPAddress_host h INADDR_ANY)
      | AF_INET6 \<Rightarrow> IPAddress_eq ip (IPAddress_v6 in6addr_any)
      | AF_UNSPEC \<Rightarrow> False)"

definition IPIsLoopback :: "bool \<Rightarrow> IPAddress \<Rightarrow> bool" where
  "IPIsLoopback h ip \<longleftrightarrow>
     (case ip_family ip of
        AF_INET \<Rightarrow> IPAddress_eq ip (IPAddress_host h INADDR_LOOPBACK)
      | AF_INET6 \<Rightarrow> IPAddress_eq ip (IPAddress_v6 in6addr_loopback)
      | AF_UNSPEC \<Rightarrow> False)"

definition IPIsPrivate :: "bool \<Rightarrow> IPAddress \<Rightarrow> bool" where
  "IPIsPrivate h ip \<longleftrightarrow>
     (case ip_family ip of
        AF_INET \<Rightarrow> IsPrivateV4 (v4AddressAsHostOrderInteger h ip)
      | AF_INET6 \<Rightarrow>
          let v6 = ipv6_address ip
          in v6 ! 0 = 0xFE \<and> v6 ! 1 = 0x80 \<or> IPIsLoopback h ip
      | AF_UNSPEC \<Rightarrow> False)"

definition IPIsUnspec :: "IPAddress \<Rightarrow> bool" where
  "IPIsUnspec ip \<longleftrightarrow> ip_family ip = AF_UNSPEC"

definition IPIsHelper :: "IPAddress \<Rightarrow> bytes \<Rightarrow> nat \<Rightarrow> bool" where
  "IPIsHelper ip tomatch len =
     (take (len div 8) (ipv6_address ip) = take (len div 8) tomatch)"

definition IPIs6Bone :: "IPAddress \<Rightarrow> bool" where
  "IPIs6Bone ip = IPIsHelper ip k6BonePrefix 16"
definition IPIs6To4 :: "IPAddress \<Rightarrow> bool" where
  "IPIs6To4 ip = IPIsHelper ip k6To4Prefix 16"
definition IPIsSiteLocal :: "IPAddress \<Rightarrow> bool" where
  "IPIsSiteLocal ip \<longleftrightarrow> ipv6_address ip ! 0 = 0xFE \<and> ipv6_address ip ! 1 AND 0xC0 = 0xC0"
definition IPIsULA :: "IPAddress \<Rightarrow> bool" where
  "IPIsULA ip \<longleftrightarrow> ipv6_address ip ! 0 AND 0xFE = 0xFC"
definition IPIsTeredo :: "IPAddress \<Rightarrow> bool" where
  "IPIsTeredo ip = IPIsHelper ip kTeredoPrefix 32"
definition IPIsV4Compatibility :: "IPAddress \<Rightarrow> bool" where
  "IPIsV4Compatibility ip = IPIsHelper ip kV4CompatibilityPrefix 96"
definition IPIsV4Mapped :: "IPAddress \<Rightarrow> bool" where
  "IPIsV4Mapped ip = IPIsHelper ip kV4MappedPrefix 96"

definition IPAddressPrecedence :: "bool \<Rightarrow> IPAddress \<Rightarrow> int" where
  "IPAddressPrecedence h ip =
     (if ip_family ip = AF_INET then 30
      else if ip_family ip = AF_INET6 then
        if IPIsLoopback h ip then 60
        else if IPIsULA ip then 50
        else if IPIsV4Mapped ip then 30
        else if IPIs6To4 ip then 20
        else if IPIsTeredo ip then 10
        else if IPIsV4Compatibility ip \<or> IPIsSiteLocal ip \<or> IPIs6Bone ip then 1
        else 40
      else 0)"

section \<open>Conversions\<close>

definition ExtractMappedAddress :: "bytes \<Rightarrow> bytes" where
  "ExtractMappedAddress in6 = take 4 (drop 12 in6)"

definition IPAddress_Normalized :: "IPAddress \<Rightarrow> IPAddress" where
  "IPAddress_Normalized ip =
     (if ip_family ip \<noteq> AF_INET6 then ip
      else if \<not> IPIsV4Mapped ip then ip
      else IPAddress_v4 (ExtractMappedAddress (ip_u ip)))"

definition AsIPv6Address :: "IPAddress \<Rightarrow> IPAddress" where
  "AsIPv6Address ip =
     (if ip_family ip \<noteq> AF_INET then ip
      else IPAddress_v6 (blit kV4MappedPrefix 12 (ipv4_address ip)))"

text \<open>A 16-byte address read as four host words, and written back.\<close>

definition v6_as_ints :: "bool \<Rightarrow> bytes \<Rightarrow> uint32 list" where
  "v6_as_ints h v6 = map (\<lambda>i. host_word h (take 4 (drop (4 * i) v6))) [0..<4]"

definition v6_of_ints :: "bool \<Rightarrow> uint32 list \<Rightarrow> bytes" where
  "v6_of_ints h ws = concat (map (host_bytes h 4) ws)"

definition HashIP :: "bool \<Rightarrow> IPAddress \<Rightarrow> uint32" where
  "HashIP h ip =
     (case ip_family ip of
        AF_INET \<Rightarrow> host_word h (ipv4_address ip)
      | AF_INET6 \<Rightarrow>
          let w = v6_as_ints h (ipv6_address ip) in w ! 0 XOR w ! 1 XOR w ! 2 XOR w ! 3
      | AF_UNSPEC \<Rightarrow> 0)"

definition TruncateIP :: "bool \<Rightarrow> IPAddress \<Rightarrow> int \<Rightarrow> IPAddress" where
  "TruncateIP h ip len =
     (if len < 0 then IPAddress_unspec
      else if ip_family ip = AF_INET then
        if len > 31 then ip
        else if len = 0 then IPAddress_host h INADDR_ANY
        else
          let mask = push_bit (nat (32 - len)) (0xFFFFFFFF :: uint32);
              host_order_ip = NetworkToHost32 h (host_word h (ipv4_address ip))
          in IPAddress_v4 (host_bytes h 4 (HostToNetwork32 h (host_order_ip AND mask)))
      else if ip_family ip = AF_INET6 then
        if len > 127 then ip
        else if len = 0 then IPAddress_v6 in6addr_any
        else
          let position = len div 32;
              inner_length = 32 - (len - position * 32);
              inner_mask = ucast (push_bit (nat inner_length) (0xFFFFFFFF :: uint64)) :: uint32;
              ints = v6_as_ints h (ipv6_address ip)
          in IPAddress_v6 (v6_of_ints h (map (\<lambda>i.
               if int i = position then HostToNetwork32 h (NetworkToHost32 h (ints ! i) AND inner_mask)
               else if int i > position then 0 else ints ! i) [0..<4]))
      else IPAddress_unspec)"

text \<open>The bit-twiddling count of trailing zeroes.\<close>

definition trailing_zeroes :: "uint32 \<Rightarrow> nat" where
  "trailing_zeroes word_to_count =
     (let w = word_to_count AND - word_to_count;
          zeroes = 32;
          zeroes = (if w \<noteq> 0 then zeroes - 1 else zeroes);
          zeroes = (if w AND 0x0000FFFF \<noteq> 0 then zeroes - 16 else zeroes);
          zeroes = (if w AND 0x00FF00FF \<noteq> 0 then zeroes - 8 else zeroes);
          zeroes = (if w AND 0x0F0F0F0F \<noteq> 0 then zeroes - 4 else zeroes);
          zeroes = (if w AND 0x33333333 \<noteq> 0 then zeroes - 2 else zeroes);
          zeroes = (if w AND 0x55555555 \<noteq> 0 then zeroes - 1 else zeroes)
      in zeroes)"

definition CountIPMaskBits :: "bool \<Rightarrow> IPAddress \<Rightarrow> nat" where
  "CountIPMaskBits h ip_mask =
     (let counts = (case ip_family ip_mask of
            AF_INET \<Rightarrow> Some (NetworkToHost32 h (host_word h (ipv4_address ip_mask)), 0)
          | AF_INET6 \<Rightarrow>
              (let ints = v6_as_ints h (ipv6_address ip_mask);
                   i = length (takeWhile (\<lambda>w. w = 0xFFFFFFFF) ints)
               in Some (if i < 4 then NetworkToHost32 h (ints ! i) else 0, i * 32))
          | AF_UNSPEC \<Rightarrow> None)
      in case counts of
           None \<Rightarrow> 0
         | Some (word_to_count, bits) \<Rightarrow>
             if word_to_count = 0 then bits
             else bits + (32 - trailing_zeroes word_to_count))"

section \<open>Well-formed addresses\<close>

text \<open>What the constructors build: the bytes of the union that the family does not use are zero.\<close>

definition ip_wf :: "IPAddress \<Rightarrow> bool" where
  "ip_wf ip \<longleftrightarrow> length (ip_u ip) = 16 \<and>
     (ip_family ip = AF_INET \<longrightarrow> drop 4 (ip_u ip) = replicate 12 0) \<and>
     (ip_family ip = AF_UNSPEC \<longrightarrow> ip_u ip = replicate 16 0)"

lemma ip_wf_constructors [simp]:
  "ip_wf IPAddress_unspec"
  "length b4 = 4 \<Longrightarrow> ip_wf (IPAddress_v4 b4)"
  "length b16 = 16 \<Longrightarrow> ip_wf (IPAddress_v6 b16)"
  by (simp_all add: ip_wf_def IPAddress_unspec_def IPAddress_v4_def IPAddress_v6_def blit_def)

lemma ip_family_constructors [simp]:
  "ip_family IPAddress_unspec = AF_UNSPEC"
  "ip_family (IPAddress_v4 b) = AF_INET"
  "ip_family (IPAddress_v6 b) = AF_INET6"
  by (simp_all add: IPAddress_unspec_def IPAddress_v4_def IPAddress_v6_def)

lemma ipv4_address_v4 [simp]: "length b = 4 \<Longrightarrow> ipv4_address (IPAddress_v4 b) = b"
  by (simp add: ipv4_address_def IPAddress_v4_def blit_def)

lemma ipv6_u [simp]: "ip_u (IPAddress_v6 b) = b"
  by (simp add: IPAddress_v6_def)

lemma ipv6_address_v6 [simp]: "ipv6_address (IPAddress_v6 b) = b"
  by (simp add: ipv6_address_def IPAddress_v6_def)

lemma ip_wf_cases:
  assumes "ip_wf ip"
  obtains (unspec) "ip = IPAddress_unspec"
    | (v4) b where "ip = IPAddress_v4 b" "length b = 4"
    | (v6) b where "ip = IPAddress_v6 b" "length b = 16"
proof (cases "ip_family ip")
  case AF_INET
  have "ip_u ip = take 4 (ip_u ip) @ replicate 12 0"
    using assms AF_INET append_take_drop_id [of 4 "ip_u ip"] by (simp add: ip_wf_def)
  then have "ip = IPAddress_v4 (ipv4_address ip)"
    using assms AF_INET by (cases ip) (simp add: ip_wf_def IPAddress_v4_def ipv4_address_def blit_def)
  with v4 [of "ipv4_address ip"] assms show thesis by (simp add: ipv4_address_def ip_wf_def)
next
  case AF_INET6
  then have "ip = IPAddress_v6 (ipv6_address ip)"
    by (cases ip) (simp add: IPAddress_v6_def ipv6_address_def)
  with v6 [of "ipv6_address ip"] assms show thesis by (simp add: ipv6_address_def ip_wf_def)
next
  case AF_UNSPEC
  with assms unspec show thesis by (cases ip) (simp add: ip_wf_def IPAddress_unspec_def)
qed

lemma IPAddress_distinct [simp]:
  "IPAddress_unspec \<noteq> IPAddress_v4 b" "IPAddress_v4 b \<noteq> IPAddress_unspec"
  "IPAddress_unspec \<noteq> IPAddress_v6 c" "IPAddress_v6 c \<noteq> IPAddress_unspec"
  "IPAddress_v4 b \<noteq> IPAddress_v6 c" "IPAddress_v6 c \<noteq> IPAddress_v4 b"
  by (simp_all add: IPAddress_unspec_def IPAddress_v4_def IPAddress_v6_def)

lemma IPAddress_inject [simp]:
  "length b = 4 \<Longrightarrow> length b' = 4 \<Longrightarrow> IPAddress_v4 b = IPAddress_v4 b' \<longleftrightarrow> b = b'"
  "IPAddress_v6 c = IPAddress_v6 c' \<longleftrightarrow> c = c'"
  by (auto simp: IPAddress_v4_def IPAddress_v6_def blit_def)

lemma IPAddress_eq_iff: "ip_wf a \<Longrightarrow> ip_wf b \<Longrightarrow> IPAddress_eq a b \<longleftrightarrow> a = b"
  by (elim ip_wf_cases) (auto simp: IPAddress_eq_def)

section \<open>The order is a strict linear order\<close>

lemma memcmp_less_irrefl: "\<not> memcmp_less xs xs"
  by (induction xs) auto

lemma memcmp_less_trans: "memcmp_less xs ys \<Longrightarrow> memcmp_less ys zs \<Longrightarrow> memcmp_less xs zs"
  by (induction xs ys arbitrary: zs rule: memcmp_less.induct) (case_tac zs; auto)+

lemma memcmp_less_linear: "length xs = length ys \<Longrightarrow> memcmp_less xs ys \<or> xs = ys \<or> memcmp_less ys xs"
  by (induction xs ys rule: list_induct2) auto

lemma v4_order:
  "length a = 4 \<Longrightarrow> NetworkToHost32 h (host_word h a) = be_word a"
  by (simp add: net_simps)

lemma be_word4_inject: "length a = 4 \<Longrightarrow> length b = 4 \<Longrightarrow> (be_word a :: uint32) = be_word b \<longleftrightarrow> a = b"
proof -
  assume a: "length a = 4" "length b = 4"
  have "a = b" if "(be_word a :: uint32) = be_word b"
  proof -
    have "be_bytes 4 (be_word a :: uint32) = be_bytes 4 (be_word b :: uint32)" by (simp only: that)
    then show ?thesis
      unfolding be_bytes_be_word [OF a(1), where 'a = 32, simplified]
        be_bytes_be_word [OF a(2), where 'a = 32, simplified] .
  qed
  then show ?thesis by blast
qed

lemma IPAddress_less_irrefl: "\<not> IPAddress_less h a a"
  by (cases "ip_family a") (simp_all add: IPAddress_less_def memcmp_less_irrefl)

lemma IPAddress_less_trans:
  assumes "IPAddress_less h a b" and "IPAddress_less h b c"
  shows "IPAddress_less h a c"
  using assms
  by (cases "ip_family a"; cases "ip_family b"; cases "ip_family c")
    (auto simp: IPAddress_less_def intro: memcmp_less_trans)

lemma IPAddress_less_linear:
  assumes "ip_wf a" and "ip_wf b"
  shows "IPAddress_less h a b \<or> a = b \<or> IPAddress_less h b a"
  using assms(1)
proof (cases a rule: ip_wf_cases)
  case unspec
  with assms(2) show ?thesis by (elim ip_wf_cases) (auto simp: IPAddress_less_def)
next
  case (v4 x)
  from assms(2) show ?thesis
  proof (cases b rule: ip_wf_cases)
    case (v4 y)
    with \<open>a = _\<close> \<open>length x = 4\<close> less_linear [of "be_word x :: uint32" "be_word y"] show ?thesis
      by (auto simp: IPAddress_less_def v4_order be_word4_inject)
  qed (simp_all add: \<open>a = _\<close> IPAddress_less_def)
next
  case (v6 x)
  from assms(2) show ?thesis
  proof (cases b rule: ip_wf_cases)
    case (v6 y)
    with \<open>a = _\<close> \<open>length x = 16\<close> memcmp_less_linear [of x y] show ?thesis
      by (auto simp: IPAddress_less_def ipv6_u)
  qed (simp_all add: \<open>a = _\<close> IPAddress_less_def)
qed

end
