(* ===== verification/Ip_Prefix.thy ===== *)
theory Ip_Prefix
  imports Ip_Address
begin

text \<open>
  What the address operations of \<^verbatim>\<open>ipaddress.cc\<close> compute, bit by bit: \<open>TruncateIP\<close> keeps the
  first bits of an address and clears the others, \<open>CountIPMaskBits\<close> is its inverse on network masks,
  and the comparison operators are a strict linear order, as the containers keyed by addresses
  need.
\<close>

unbundle bit_operations_syntax

section \<open>Bits in network order\<close>

text \<open>Bit \<open>i\<close> of an address, counted from the most significant bit of its first byte.\<close>

definition addr_bit :: "bytes \<Rightarrow> nat \<Rightarrow> bool" where
  "addr_bit bs i \<longleftrightarrow> bit (bs ! (i div 8)) (7 - i mod 8)"

definition ip_raw :: "IPAddress \<Rightarrow> bytes" where
  "ip_raw ip = (if ip_family ip = AF_INET then ipv4_address ip else ipv6_address ip)"

lemma addr_bit_be_word:
  assumes "length bs = 4" and "i < 32"
  shows "addr_bit bs i = bit (be_word bs :: uint32) (31 - i)"
proof -
  obtain a b c d where bs: "bs = [a, b, c, d]" using length4E [of bs] assms(1) by auto
  have "i div 8 < 4" using assms(2) by simp
  then consider "i div 8 = 0" | "i div 8 = 1" | "i div 8 = 2" | "i div 8 = 3" by linarith
  then show ?thesis
  proof cases
    case 1
    then have "i < 8" by simp
    then show ?thesis using 1 by (auto simp: bs addr_bit_def bit_simps)
  next
    case 2
    then have "i mod 8 = i - 8" "8 \<le> i" "i < 16" by presburger+
    then show ?thesis using 2 by (auto simp: bs addr_bit_def bit_simps)
  next
    case 3
    then have "i mod 8 = i - 16" "16 \<le> i" "i < 24" by presburger+
    then show ?thesis using 3 by (auto simp: bs addr_bit_def bit_simps)
  next
    case 4
    then have "i mod 8 = i - 24" "24 \<le> i" by presburger+
    then show ?thesis using 4 assms(2) by (auto simp: bs addr_bit_def bit_simps)
  qed
qed

section \<open>Counting trailing zeroes\<close>

lemma odd_and_minus: "odd v \<Longrightarrow> v AND - v = (1 :: uint32)"
  by (rule bit_word_eqI)
    (auto simp: bit_simps minus_eq_not_minus_1 odd_bit_iff_bit_pred [of v] bit_1_iff bit_0)

lemma lowest_bit:
  assumes "bit w k" and "\<And>j. j < k \<Longrightarrow> \<not> bit w j"
  shows "w AND - w = push_bit k (1 :: uint32)"
proof -
  let ?v = "drop_bit k w"
  have w: "w = push_bit k ?v"
  proof (rule bit_word_eqI)
    fix n assume "n < LENGTH(32)"
    then show "bit w n \<longleftrightarrow> bit (push_bit k ?v) n"
      using assms(2) [of n] by (cases "k \<le> n") (auto simp: bit_simps)
  qed
  have "odd ?v" using assms(1) by (simp add: bit_iff_odd_drop_bit)
  moreover have "- w = push_bit k (- ?v)" using w by (simp add: push_bit_eq_mult)
  ultimately show ?thesis
    using w odd_and_minus [of ?v] by (metis push_bit_and)
qed

lemma trailing_zeroes_correct:
  assumes "bit w k" and "\<And>j. j < k \<Longrightarrow> \<not> bit w j"
  shows "trailing_zeroes w = k"
proof -
  have "k < 32" using assms(1) bit_imp_le_length by fastforce
  then have "k \<in> set [0..<32]" by simp
  also have "[0..<32] = [0, 1, 2, 3, 4, 5, 6, 7, 8, 9, 10, 11, 12, 13, 14, 15, 16, 17, 18, 19, 20, 21, 22, 23, 24, 25,
      26, 27, 28, 29, 30, 31]" by code_simp
  finally have cases: "k \<in> set \<dots>" .
  have "w AND - w = push_bit k 1" using assms by (rule lowest_bit)
  with cases show ?thesis
    unfolding trailing_zeroes_def
    by (simp only: set_simps insert_iff empty_iff simp_thms) (elim disjE; simp add: Let_def)
qed

section \<open>Truncation and masks\<close>

lemma be_word_host: "length bs = 4 \<Longrightarrow> NetworkToHost32 h (host_word h bs) = be_word bs"
  by (simp add: net_simps)

lemma host_bytes_be: "host_bytes h 4 (HostToNetwork32 h w) = be_bytes 4 w"
  by (simp add: net_simps)

lemma addr_bit_be_bytes: "i < 32 \<Longrightarrow> addr_bit (be_bytes 4 (w :: uint32)) i = bit w (31 - i)"
  by (simp add: addr_bit_be_word)

text \<open>The four words of an IPv6 address.\<close>

definition v6_word :: "bytes \<Rightarrow> nat \<Rightarrow> uint32" where
  "v6_word bs j = be_word (take 4 (drop (4 * j) bs))"

lemma addr_bit_v6_word:
  assumes "length bs = 16" and "i < 128"
  shows "addr_bit bs i = bit (v6_word bs (i div 32)) (31 - i mod 32)"
proof -
  define m r where "m = i div 32" and "r = i mod 32 div 8"
  let ?q = "take 4 (drop (4 * m) bs)"
  have m: "m < 4" and r: "r < 4" using assms(2) by (simp_all add: m_def r_def)
  then have q: "length ?q = 4" using assms(1) by simp
  have "i = 8 * (4 * m + r) + i mod 32 mod 8"
    using mult_div_mod_eq [of 32 i] mult_div_mod_eq [of 8 "i mod 32"] by (simp add: m_def r_def)
  then obtain u where u: "i = 8 * (4 * m + r) + u" "u < 8" by (meson mod_less_divisor zero_less_numeral)
  then have ir: "i div 8 = 4 * m + r" by simp
  have im: "i mod 8 = i mod 32 mod 8" by (simp add: mod_mod_cancel)
  have "?q ! r = bs ! (4 * m + r)" using m r assms(1) by simp
  then have "addr_bit bs i = addr_bit ?q (i mod 32)"
    unfolding addr_bit_def ir im by (simp only: r_def)
  also have "\<dots> = bit (be_word ?q :: uint32) (31 - i mod 32)" using q by (rule addr_bit_be_word) simp
  finally show ?thesis by (simp only: v6_word_def m_def)
qed

lemma v6_word_of_words:
  "v6_word (be_bytes 4 w0 @ be_bytes 4 w1 @ be_bytes 4 w2 @ be_bytes 4 w3) j =
     (if j = 0 then w0 else if j = 1 then w1 else if j = 2 then w2 else if j = 3 then w3
      else be_word [])"
  by (auto simp: v6_word_def)

lemma v6_as_ints_word:
  "length bs = 16 \<Longrightarrow> j < 4 \<Longrightarrow> NetworkToHost32 h (v6_as_ints h bs ! j) = v6_word bs j"
  by (simp add: v6_as_ints_def v6_word_def be_word_host)

lemma addr_bit_concat_words:
  assumes "i < 128"
  shows "addr_bit (be_bytes 4 (w 0) @ be_bytes 4 (w 1) @ be_bytes 4 (w 2) @ be_bytes 4 (w 3)) i
    = bit (w (i div 32) :: uint32) (31 - i mod 32)"
proof -
  have "i div 32 < 4" using assms by simp
  then have "i div 32 = 0 \<or> i div 32 = 1 \<or> i div 32 = 2 \<or> i div 32 = 3" by linarith
  with assms show ?thesis by (auto simp: addr_bit_v6_word v6_word_of_words)
qed

lemma all_ones: "(0xFFFFFFFF :: uint32) = mask 32" "(0xFFFFFFFF :: uint64) = mask 32"
  by (simp_all add: mask_eq_exp_minus_1)

lemma TruncateIP_v4:
  assumes "length bs = 4" and "0 < n" and "n < 32"
  shows "TruncateIP h (IPAddress_v4 bs) (int n) =
    IPAddress_v4 (be_bytes 4 (be_word bs AND push_bit (32 - n) (mask 32 :: uint32)))"
  using assms unfolding TruncateIP_def Let_def all_ones
  by (simp add: be_word_host host_bytes_be nat_diff_distrib)

lemma TruncateIP_v6:
  assumes "length bs = 16" and "0 < n" and "n < 128"
  defines "w \<equiv> \<lambda>j. if j = n div 32 then v6_word bs j AND ucast (push_bit (32 - n mod 32) (0xFFFFFFFF :: uint64))
    else if j > n div 32 then 0 else v6_word bs j"
  shows "TruncateIP h (IPAddress_v6 bs) (int n) =
    IPAddress_v6 (be_bytes 4 (w 0) @ be_bytes 4 (w 1) @ be_bytes 4 (w 2) @ be_bytes 4 (w 3))"
proof -
  define k r where "k = n div 32" and "r = n mod 32"
  have d: "int n div 32 = int k" by (simp add: zdiv_int k_def)
  have len: "int n - int k * 32 = int r"
    using mult_div_mod_eq [of 32 n] unfolding k_def r_def by linarith
  have il: "nat (32 - int r) = 32 - r" by (simp add: nat_diff_distrib r_def)
  have upt4: "[0..<4] = [0, 1, 2, 3]" by code_simp
  have ints: "host_bytes h 4 (v6_as_ints h bs ! j) = be_bytes 4 (v6_word bs j)" if "j < 4" for j
    using that assms(1) by (simp add: v6_as_ints_def v6_word_def host_bytes_def host_word_def)
  have zero: "host_bytes h 4 (0 :: uint32) = be_bytes 4 (0 :: uint32)"
    by (cases h) (simp_all add: host_bytes_def be_bytes_explicit)
  define F where "F j = (if j = k then HostToNetwork32 h (NetworkToHost32 h (v6_as_ints h bs ! j) AND
      ucast (push_bit (32 - r) (0xFFFFFFFF :: uint64))) else if j > k then 0 else v6_as_ints h bs ! j)" for j
  have "TruncateIP h (IPAddress_v6 bs) (int n) = IPAddress_v6 (concat (map (host_bytes h 4) (map F [0..<4])))"
    using assms(2,3) unfolding TruncateIP_def Let_def d len il v6_of_ints_def F_def [abs_def] of_nat_less_iff of_nat_eq_iff
      ipv6_address_v6
    by simp
  also have "map (host_bytes h 4) (map F [0..<4]) = map (\<lambda>j. be_bytes 4 (w j)) [0..<4]"
    using assms(1) by (simp add: F_def w_def k_def [symmetric] r_def [symmetric] host_bytes_be ints zero v6_as_ints_word)
  finally show ?thesis by (simp only: upt4 list.map concat.simps append_Nil2 append_assoc)
qed

lemma prefix_mask_bit:
  assumes "p < 32"
  shows "bit (ucast (push_bit k (0xFFFFFFFF :: uint64)) :: uint32) p \<longleftrightarrow> k \<le> p"
  unfolding all_ones using assms by (auto simp: bit_simps)

lemma before_same_word:
  assumes "i div 32 = n div (32 :: nat)"
  shows "32 - n mod 32 \<le> 31 - i mod 32 \<longleftrightarrow> i < n"
proof -
  have "i = 32 * (n div 32) + i mod 32" "n = 32 * (n div 32) + n mod 32" using assms by (metis mult_div_mod_eq)+
  moreover have "i mod 32 < 32" "n mod 32 < 32" by simp_all
  ultimately show ?thesis by linarith
qed

lemma TruncateIP_v6_bit:
  assumes "length bs = 16" and "0 < n" and "n < 128" and "i < 128"
  shows "addr_bit (ipv6_address (TruncateIP h (IPAddress_v6 bs) (int n))) i \<longleftrightarrow> i < n \<and> addr_bit bs i"
proof -
  let ?w = "\<lambda>j. if j = n div 32 then v6_word bs j AND ucast (push_bit (32 - n mod 32) (0xFFFFFFFF :: uint64))
    else if j > n div 32 then 0 else v6_word bs j"
  have p: "31 - i mod 32 < 32" by simp
  have "i < n" if "i div 32 < n div 32" using that div_le_mono [of n i 32] by linarith
  moreover have "n \<le> i" if "n div 32 < i div 32" using that div_le_mono [of i n 32] by linarith
  ultimately have "bit (?w (i div 32)) (31 - i mod 32) \<longleftrightarrow> i < n \<and> bit (v6_word bs (i div 32)) (31 - i mod 32)"
    using before_same_word [of i n] prefix_mask_bit [OF p]
    by (cases "i div 32 = n div 32"; cases "n div 32 < i div 32") (auto simp: bit_and_iff)
  then show ?thesis
    unfolding TruncateIP_v6 [OF assms(1-3)] ipv6_address_v6 addr_bit_concat_words [where w = ?w, OF assms(4)]
    by (simp only: addr_bit_v6_word [OF assms(1,4)])
qed

lemma zero_address: "host_bytes h 4 (HostToNetwork32 h 0) = replicate 4 0"
  by (simp only: host_bytes_be) (simp add: be_bytes_explicit numeral_eq_Suc)

text \<open>Counting on a word, and on the first word of an IPv6 address that is not all ones.\<close>

lemma count_word:
  fixes w :: uint32
  assumes "n \<le> 32" and "\<And>p. p < 32 \<Longrightarrow> bit w p \<longleftrightarrow> 32 - n \<le> p"
  shows "w = 0 \<longleftrightarrow> n = 0" and "w \<noteq> 0 \<Longrightarrow> 32 - trailing_zeroes w = n" and "w = 0xFFFFFFFF \<longleftrightarrow> n = 32"
proof -
  have "w = (if n = 0 then 0 else push_bit (32 - n) (mask n))"
    by (rule bit_word_eqI) (use assms in \<open>auto simp: bit_simps\<close>)
  show zero: "w = 0 \<longleftrightarrow> n = 0"
  proof
    assume "n = 0"
    then show "w = 0" using assms(2) by (intro bit_word_eqI) simp
  next
    assume "w = 0"
    then show "n = 0" using assms(1) assms(2) [of 31] by (cases n) auto
  qed
  show "w = 0xFFFFFFFF \<longleftrightarrow> n = 32"
  proof
    assume "n = 32"
    then show "w = 0xFFFFFFFF" unfolding all_ones using assms(2) by (intro bit_word_eqI) (simp add: bit_simps)
  next
    assume "w = 0xFFFFFFFF"
    then have "bit w 0" unfolding all_ones by (simp add: bit_simps)
    then show "n = 32" using assms(1) assms(2) [of 0] by simp
  qed
  assume "w \<noteq> 0"
  then have "0 < n" using zero by simp
  then have "trailing_zeroes w = 32 - n"
    using assms by (intro trailing_zeroes_correct) auto
  then show "32 - trailing_zeroes w = n" using assms(1) by simp
qed

lemma be_word_all_ones:
  assumes "length bs = 4"
  shows "(be_word bs :: uint32) = 0xFFFFFFFF \<longleftrightarrow> bs = [0xFF, 0xFF, 0xFF, 0xFF]"
proof -
  have "(be_word [0xFF, 0xFF, 0xFF, 0xFF] :: uint32) = 0xFFFFFFFF" by code_simp
  then show ?thesis using be_word4_inject [OF assms, of "[0xFF, 0xFF, 0xFF, 0xFF]"] by simp
qed

lemma v6_as_ints_all_ones:
  assumes "length bs = 16" and "j < 4"
  shows "v6_as_ints h bs ! j = 0xFFFFFFFF \<longleftrightarrow> v6_word bs j = 0xFFFFFFFF"
proof -
  define q where "q = take 4 (drop (4 * j) bs)"
  have q: "length q = 4" "length (rev q) = 4" using assms by (simp_all add: q_def)
  have "rev q = [0xFF, 0xFF, 0xFF, 0xFF] \<longleftrightarrow> q = [0xFF, 0xFF, 0xFF, 0xFF]" by (auto simp: rev_swap)
  moreover have "v6_as_ints h bs ! j = (if h then be_word q else be_word (rev q))" "v6_word bs j = be_word q"
    using assms(2) by (simp_all add: v6_as_ints_def v6_word_def host_word_def q_def)
  ultimately show ?thesis using be_word_all_ones [OF q(1)] be_word_all_ones [OF q(2)] by (cases h) simp_all
qed

lemma count_v6:
  assumes "length bs = 16" and "n \<le> 128" and "\<And>i. i < 128 \<Longrightarrow> addr_bit bs i \<longleftrightarrow> i < n"
  shows "CountIPMaskBits h (IPAddress_v6 bs) = n"
proof -
  let ?ints = "v6_as_ints h bs" and ?k = "n div 32"
  have w: "bit (v6_word bs j) p \<longleftrightarrow> 32 - min 32 (n - 32 * j) \<le> p" if "j < 4" "p < 32" for j p
  proof -
    define q where "q = 31 - p"
    have q: "q < 32" "p = 31 - q" using that(2) by (simp_all add: q_def)
    have i: "32 * j + q < 128" "(32 * j + q) div 32 = j" "(32 * j + q) mod 32 = q"
      using that(1) q(1) by simp_all
    from assms(3) [OF i(1)] addr_bit_v6_word [OF assms(1) i(1)] have "bit (v6_word bs j) p \<longleftrightarrow> 32 * j + q < n"
      by (simp only: i q(2))
    also have "\<dots> \<longleftrightarrow> 32 - min 32 (n - 32 * j) \<le> p" using q by (cases "n - 32 * j \<le> 32") auto
    finally show ?thesis .
  qed
  note cw = count_word [OF min.cobounded1 w]
  have ones: "?ints ! j = 0xFFFFFFFF \<longleftrightarrow> j < ?k" if "j < 4" for j
  proof -
    have "min 32 (n - 32 * j) = 32 \<longleftrightarrow> 32 * (j + 1) \<le> n" by auto
    also have "\<dots> \<longleftrightarrow> j + 1 \<le> ?k" by (simp add: less_eq_div_iff_mult_less_eq mult.commute)
    also have "\<dots> \<longleftrightarrow> j < ?k" by (simp only: Suc_eq_plus1 [symmetric] Suc_le_eq)
    finally show ?thesis using cw(3) [OF that] v6_as_ints_all_ones [OF assms(1) that] by metis
  qed
  have len: "length ?ints = 4" by (simp add: v6_as_ints_def)
  have "takeWhile (\<lambda>x. x = 0xFFFFFFFF) ?ints = take ?k ?ints"
    by (rule takeWhile_eq_take_P_nth) (metis len ones less_irrefl)+
  moreover have "?k \<le> 4" using assms(2) by simp
  ultimately have tw: "length (takeWhile (\<lambda>x. x = 0xFFFFFFFF) ?ints) = ?k" using len by simp
  show ?thesis
  proof (cases "?k < 4")
    case True
    have "min 32 (n - 32 * ?k) = n mod 32"
      unfolding minus_mult_div_eq_mod using mod_less_divisor [of 32 n] by (intro min_absorb2) linarith
    note cw = cw(1,2) [OF True, unfolded this]
    define w where "w = v6_word bs ?k"
    have "CountIPMaskBits h (IPAddress_v6 bs) = (if w = 0 then ?k * 32 else ?k * 32 + (32 - trailing_zeroes w))"
      using True unfolding CountIPMaskBits_def Let_def ip_family_constructors AddressFamily.case option.case prod.case
        ipv6_address_v6 tw w_def v6_as_ints_word [OF assms(1) True, of h, symmetric] by simp
    also have "\<dots> = ?k * 32 + n mod 32" using cw unfolding w_def by (cases "v6_word bs ?k = 0") simp_all
    finally show ?thesis by (simp only: div_mult_mod_eq)
  next
    case False
    with assms(2) have "n = 128" by simp
    with tw show ?thesis by (simp add: CountIPMaskBits_def Let_def)
  qed
qed

section \<open>Properties\<close>

text \<open>\<open>TruncateIP\<close> keeps the first \<open>n\<close> bits of an IPv4 or IPv6 address and clears the others,
  on hosts of either byte order; a negative length gives the unspecified address.\<close>

theorem ip_truncate_keeps_prefix:
  assumes "ip_wf ip" and "ip_family ip \<noteq> AF_UNSPEC" and "n \<le> 8 * IPAddress_Size ip"
  shows "ip_wf (TruncateIP h ip (int n)) \<and> ip_family (TruncateIP h ip (int n)) = ip_family ip \<and>
    (\<forall>i < 8 * IPAddress_Size ip.
       addr_bit (ip_raw (TruncateIP h ip (int n))) i = (i < n \<and> addr_bit (ip_raw ip) i)) \<and>
    (k < 0 \<longrightarrow> TruncateIP h ip k = IPAddress_unspec)"
proof -
  have neg: "k < 0 \<longrightarrow> TruncateIP h ip k = IPAddress_unspec" by (simp add: TruncateIP_def)
  from assms(1) show ?thesis
  proof (cases ip rule: ip_wf_cases)
    case unspec
    with assms(2) show ?thesis by simp
  next
    case (v4 bs)
    have n: "n \<le> 32" using assms(3) v4 by (simp add: IPAddress_Size_def)
    consider "n = 0" | "0 < n" "n < 32" | "n = 32" using n by linarith
    then show ?thesis
    proof cases
      case 1
      have "TruncateIP h ip (int n) = IPAddress_v4 (replicate 4 0)"
        using 1 v4 by (simp add: TruncateIP_def IPAddress_host_def INADDR_ANY_def zero_address)
      with 1 v4 neg show ?thesis
        by (auto simp: ip_raw_def IPAddress_Size_def addr_bit_def less_mult_imp_div_less)
    next
      case 2
      with v4 neg show ?thesis
        by (auto simp: TruncateIP_v4 ip_raw_def IPAddress_Size_def addr_bit_be_bytes addr_bit_be_word bit_simps)
    next
      case 3
      with v4 neg show ?thesis by (simp add: TruncateIP_def IPAddress_Size_def ip_raw_def)
    qed
  next
    case (v6 bs)
    have n: "n \<le> 128" using assms(3) v6 by (simp add: IPAddress_Size_def)
    consider "n = 0" | "0 < n" "n < 128" | "n = 128" using n by linarith
    then show ?thesis
    proof cases
      case 1
      with v6 neg show ?thesis
        by (auto simp: TruncateIP_def in6addr_any_def ip_raw_def IPAddress_Size_def addr_bit_def less_mult_imp_div_less)
    next
      case 2
      then have "ip_wf (TruncateIP h ip (int n)) \<and> ip_family (TruncateIP h ip (int n)) = AF_INET6"
        using v6 by (simp add: TruncateIP_v6)
      with 2 v6 neg show ?thesis by (simp add: TruncateIP_v6_bit ip_raw_def IPAddress_Size_def)
    next
      case 3
      with v6 neg show ?thesis by (simp add: TruncateIP_def IPAddress_Size_def ip_raw_def)
    qed
  qed
qed

theorem ip_truncate_keeps_prefix_witness:
  "let ip = IPAddress_v6 (replicate 16 0xA5)
   in ip_wf ip \<and> ip_wf (TruncateIP False ip 42) \<and>
     (\<forall>i < 128. addr_bit (ip_raw (TruncateIP False ip 42)) i = (i < 42 \<and> addr_bit (replicate 16 0xA5) i))"
proof -
  have "ip_raw (IPAddress_v6 (replicate 16 0xA5)) = replicate 16 0xA5" by (simp add: ip_raw_def)
  then show ?thesis
    using ip_truncate_keeps_prefix [of "IPAddress_v6 (replicate 16 0xA5)" 42 False]
    by (simp add: IPAddress_Size_def)
qed

text \<open>\<open>CountIPMaskBits\<close> returns the prefix length of every network mask, IPv4 or IPv6.\<close>

theorem ip_count_mask_bits:
  assumes "ip_wf ip" and "ip_family ip \<noteq> AF_UNSPEC" and "n \<le> 8 * IPAddress_Size ip"
    and "\<forall>i < 8 * IPAddress_Size ip. addr_bit (ip_raw ip) i = (i < n)"
  shows "CountIPMaskBits h ip = n"
  using assms(1)
proof (cases ip rule: ip_wf_cases)
  case (v4 bs)
  have n: "n \<le> 32" using assms(3) v4 by (simp add: IPAddress_Size_def)
  moreover have "bit (be_word bs :: uint32) p \<longleftrightarrow> 32 - n \<le> p" if "p < 32" for p
  proof -
    have "addr_bit bs (31 - p) \<longleftrightarrow> 31 - p < n"
      using assms(4) v4 by (simp add: IPAddress_Size_def ip_raw_def)
    with that v4 n show ?thesis by (auto simp: addr_bit_be_word)
  qed
  ultimately have n: "n \<le> 32" "\<And>p. p < 32 \<Longrightarrow> bit (be_word bs :: uint32) p \<longleftrightarrow> 32 - n \<le> p" by blast+
  show ?thesis
    using count_word [OF n] v4 by (simp add: CountIPMaskBits_def Let_def be_word_host)
next
  case (v6 bs)
  with assms(3,4) have n: "n \<le> 128" and i: "\<And>i. i < 128 \<Longrightarrow> addr_bit bs i \<longleftrightarrow> i < n"
    by (simp_all add: IPAddress_Size_def ip_raw_def)
  show ?thesis
    using count_v6 [OF \<open>length bs = 16\<close> n i] v6 by simp
qed (use assms(2) in simp)

theorem ip_count_mask_bits_witness:
  "ip_wf (IPAddress_v4 [255, 255, 240, 0]) \<and> CountIPMaskBits False (IPAddress_v4 [255, 255, 240, 0]) = 20"
proof -
  let ?ip = "IPAddress_v4 [255, 255, 240, 0]"
  have "\<forall>i\<in>set [0..<32]. addr_bit [255, 255, 240, 0] i = (i < 20)" by code_simp
  then have "\<forall>i < 8 * IPAddress_Size ?ip. addr_bit (ip_raw ?ip) i = (i < 20)"
    by (simp add: IPAddress_Size_def ip_raw_def)
  then show ?thesis using ip_count_mask_bits [of ?ip 20 False] by (simp add: IPAddress_Size_def)
qed

text \<open>C31: The comparison operators of \<open>IPAddress\<close> are a strict linear order on well-formed addresses
  that agrees with \<open>operator==\<close>, so that containers keyed by addresses behave.\<close>

theorem ip_order_strict_linear:
  assumes "ip_wf a" and "ip_wf b" and "ip_wf c"
  shows "\<not> IPAddress_less h a a \<and> (IPAddress_less h a b \<and> IPAddress_less h b c \<longrightarrow> IPAddress_less h a c) \<and>
    (IPAddress_eq a b \<longleftrightarrow> \<not> IPAddress_less h a b \<and> \<not> IPAddress_less h b a) \<and>
    (IPAddress_greater h a b \<longleftrightarrow> IPAddress_less h b a)"
proof -
  note lin = IPAddress_less_linear [OF assms(1,2), of h] and eq = IPAddress_eq_iff [OF assms(1,2)]
  have "IPAddress_greater h a b \<longleftrightarrow> IPAddress_less h b a"
    unfolding IPAddress_greater_def eq using lin IPAddress_less_irrefl IPAddress_less_trans by metis
  then show ?thesis
    using IPAddress_less_irrefl IPAddress_less_trans lin eq by metis
qed

theorem ip_order_strict_linear_witness:
  "let a = IPAddress_v4 [10, 0, 0, 1]; b = IPAddress_v4 [10, 0, 0, 2]; c = IPAddress_v6 (replicate 16 0)
   in ip_wf a \<and> ip_wf b \<and> ip_wf c \<and> \<not> IPAddress_eq a b \<and> IPAddress_less True a b \<and> IPAddress_less True a c"
proof -
  let ?a = "IPAddress_v4 [10, 0, 0, 1]" and ?b = "IPAddress_v4 [10, 0, 0, 2]" and ?c = "IPAddress_v6 (replicate 16 0)"
  have wf: "ip_wf ?a" "ip_wf ?b" "ip_wf ?c" by simp_all
  have "IPAddress_less True ?a ?b" "IPAddress_less True ?b ?c" by code_simp+
  with wf ip_order_strict_linear [OF wf, of True] show ?thesis by (simp add: Let_def)
qed

end
