(* ===== verification/Block_Hash.thy ===== *)
theory Block_Hash
  imports Byte_Order
begin

text \<open>
  What the two in-tree digests (\<^verbatim>\<open>md5.cc\<close>, \<^verbatim>\<open>sha1.cc\<close>) have in common: 64-byte blocks fed to a
  compression function, a block buffer that holds the unprocessed tail, and a 64-bit count of
  message bits kept in two 32-bit words.

  \<open>absorb f s xs\<close> is the reference: run \<open>f\<close> over the whole blocks of \<open>xs\<close> and return the
  chaining value together with the tail. Both implementations are proved against it.
\<close>

function absorb :: "('s \<Rightarrow> bytes \<Rightarrow> 's) \<Rightarrow> 's \<Rightarrow> bytes \<Rightarrow> 's \<times> bytes" where
  "absorb f s xs = (if length xs < 64 then (s, xs) else absorb f (f s (take 64 xs)) (drop 64 xs))"
  by pat_completeness auto
termination
  by (relation "measure (\<lambda>(f, s, xs). length xs)") auto

declare absorb.simps [simp del]

lemma absorb_short [simp]: "length xs < 64 \<Longrightarrow> absorb f s xs = (s, xs)"
  by (simp add: absorb.simps)

lemma absorb_block: "64 \<le> length xs \<Longrightarrow> absorb f s xs = absorb f (f s (take 64 xs)) (drop 64 xs)"
  by (simp add: absorb.simps)

lemma absorb_append:
  "absorb f s (xs @ ys) = (case absorb f s xs of (s', r) \<Rightarrow> absorb f s' (r @ ys))"
proof (induction f s xs rule: absorb.induct)
  case (1 f s xs)
  show ?case
  proof (cases "length xs < 64")
    case False
    then have "absorb f s (xs @ ys) = absorb f (f s (take 64 xs)) (drop 64 xs @ ys)"
      by (subst absorb_block) auto
    with 1 False show ?thesis by (simp add: absorb_block)
  qed simp
qed

lemma length_snd_absorb: "length (snd (absorb f s xs)) = length xs mod 64"
proof (induction f s xs rule: absorb.induct)
  case (1 f s xs)
  then show ?case
    by (cases "length xs < 64") (auto simp: absorb_block le_mod_geq)
qed

lemma absorb_invariant: "P s \<Longrightarrow> (\<And>s b. P (f s b)) \<Longrightarrow> P (fst (absorb f s xs))"
proof (induction f s xs rule: absorb.induct)
  case (1 f s xs)
  then show ?case
    by (cases "length xs < 64") (auto simp: absorb_block)
qed

lemma absorb_cong:
  "(\<And>s b. length b = 64 \<Longrightarrow> f s b = g s b) \<Longrightarrow> absorb f s xs = absorb g s xs"
proof (induction f s xs rule: absorb.induct)
  case (1 f s xs)
  then show ?case
    by (cases "length xs < 64") (auto simp: absorb_block)
qed

lemma absorb_length: "absorb f s xs = (s', r) \<Longrightarrow> length r = length xs mod 64"
  using length_snd_absorb [of f s xs] by simp

section \<open>The bit counter\<close>

definition bit_count_lo :: "nat \<Rightarrow> uint32" where
  "bit_count_lo n = of_nat (8 * n)"

definition bit_count_hi :: "nat \<Rightarrow> uint32" where
  "bit_count_hi n = of_nat (8 * n div 2 ^ 32)"

lemma small_sum_div_mod:
  fixes a b B :: nat
  assumes "a < B" and "b < B"
  shows "(a + b) mod B = (if B \<le> a + b then a + b - B else a + b)"
    and "(a + b) div B = (if B \<le> a + b then 1 else 0)"
proof -
  have "a + b - B < B" using assms by arith
  then show "(a + b) mod B = (if B \<le> a + b then a + b - B else a + b)"
    by (simp add: le_mod_geq)
  show "(a + b) div B = (if B \<le> a + b then 1 else 0)"
    using assms \<open>a + b - B < B\<close> by (simp add: le_div_geq)
qed

lemma carry_iff:
  fixes n l B :: nat
  assumes "0 < B"
  shows "(n + l) mod B < l mod B \<longleftrightarrow> B \<le> n mod B + l mod B"
proof -
  have b: "n mod B < B" "l mod B < B" using assms by auto
  have "(n + l) mod B = (n mod B + l mod B) mod B" by (simp add: mod_add_eq)
  also have "\<dots> = (if B \<le> n mod B + l mod B then n mod B + l mod B - B else n mod B + l mod B)"
    by (rule small_sum_div_mod(1) [OF b])
  finally have "(n + l) mod B = (if B \<le> n mod B + l mod B then n mod B + l mod B - B else n mod B + l mod B)" .
  moreover have "(if B \<le> x + y then x + y - B else x + y) < y \<longleftrightarrow> B \<le> x + y"
    if "x < B" "y < B" for x y :: nat
    using that by auto
  ultimately show ?thesis using b by presburger
qed

lemma div_add_carry:
  fixes n l B :: nat
  assumes "0 < B"
  shows "(n + l) div B = n div B + l div B + (if B \<le> n mod B + l mod B then 1 else 0)"
  using small_sum_div_mod(2) [of "n mod B" B "l mod B"] div_add1_eq [of n l B] assms by simp

text \<open>
  Adding \<open>len\<close> bytes: the low word wraps, a wrapped sum is smaller than either summand, and the
  carry goes to the high word.
\<close>

lemma bit_count_lo_add: "bit_count_lo m + bit_count_lo len = bit_count_lo (m + len)"
  by (simp add: bit_count_lo_def algebra_simps)

lemma unat_bit_count_lo: "unat (bit_count_lo n) = (8 * n) mod 2 ^ 32"
  unfolding bit_count_lo_def unat_of_nat take_bit_nat_def by (simp only: len_num1 len_bit0) simp

lemma bit_count_carry:
  "bit_count_lo (m + len) < bit_count_lo len \<longleftrightarrow> 2 ^ 32 \<le> (8 * m) mod 2 ^ 32 + (8 * len) mod (2 ^ 32 :: nat)"
  "bit_count_lo (m + len) < bit_count_lo m \<longleftrightarrow> 2 ^ 32 \<le> (8 * m) mod 2 ^ 32 + (8 * len) mod (2 ^ 32 :: nat)"
  using carry_iff [of "2 ^ 32" "8 * m" "8 * len"] carry_iff [of "2 ^ 32" "8 * len" "8 * m"]
  by (simp_all only: word_less_nat_alt unat_bit_count_lo distrib_left add.commute) simp_all

lemma bit_count_hi_add:
  "bit_count_hi m + (if 2 ^ 32 \<le> (8 * m) mod 2 ^ 32 + (8 * len) mod (2 ^ 32 :: nat) then 1 else 0)
     + of_nat (len div 2 ^ 29) = bit_count_hi (m + len)"
proof -
  have "8 * len div 2 ^ 32 = len div 2 ^ 29"
    using div_mult2_eq [of "8 * len" 8 "2 ^ 29"] by simp
  then show ?thesis
    using div_add_carry [of "2 ^ 32" "8 * m" "8 * len"]
    by (simp add: bit_count_hi_def algebra_simps)
qed

lemma unat_and_63: "unat (drop_bit 3 c AND 63 :: uint32) = unat c div 8 mod 64"
proof -
  have "(63 :: uint32) = mask 6" by (simp add: mask_eq_exp_minus_1)
  then have "drop_bit 3 c AND 63 = take_bit 6 (drop_bit 3 c)" by (simp add: take_bit_eq_mask)
  then have "unat (drop_bit 3 c AND 63) = take_bit 6 (drop_bit 3 (unat c))"
    by (simp add: unsigned_take_bit_eq unat_drop_bit_eq)
  then show ?thesis by (simp add: take_bit_nat_def drop_bit_nat_def)
qed

lemma bit_count_index: "unat (drop_bit 3 (bit_count_lo n) AND 63) = n mod 64"
proof -
  have "8 * n mod 2 ^ 32 div 8 = n mod 2 ^ 29"
    using mult_mod_right [of 8 n "2 ^ 29"] by simp
  then have "unat (drop_bit 3 (bit_count_lo n) AND 63) = n mod 2 ^ 29 mod 64"
    by (simp only: unat_and_63 unat_bit_count_lo)
  also have "\<dots> = n mod 64"
    by (rule mod_mod_cancel) simp
  finally show ?thesis .
qed

section \<open>Padding\<close>

text \<open>Zero bytes that bring \<open>n\<close> message bytes and the marker byte to 56 modulo 64.\<close>

definition pad_zeros :: "nat \<Rightarrow> nat" where
  "pad_zeros n = (119 - n mod 64) mod 64"

lemma pad_zeros_eq: "pad_zeros n = (if n mod 64 < 56 then 55 - n mod 64 else 119 - n mod 64)"
proof -
  have "n mod 64 < 64" by simp
  then show ?thesis by (auto simp: pad_zeros_def le_mod_geq)
qed

lemma pad_zeros_length: "(n + 1 + pad_zeros n) mod 64 = 56"
proof -
  have n: "n = 64 * (n div 64) + n mod 64" "n mod 64 < 64" by simp_all
  define q r where "q = n div 64" and "r = n mod 64"
  have "n + 1 + pad_zeros n = 56 + 64 * (if r < 56 then q else q + 1)"
    using n unfolding pad_zeros_eq q_def [symmetric] r_def [symmetric] by auto
  then show ?thesis by simp
qed

end
