(* ===== verification/Message_Digest.thy ===== *)
theory Message_Digest
  imports Block_Hash
begin

text \<open>
  \<^verbatim>\<open>webrtc/base/messagedigest.{h,cc}\<close>: the \<^verbatim>\<open>MessageDigest\<close> interface, one-shot digests and the
  RFC 2104 HMAC built on it.

  The class's virtual methods are the record \<open>MessageDigest\<close> of functions over the concrete
  digest's state. \<open>Finish\<close> returns what the method returns, the bytes it wrote to the output
  buffer and the new state. The contract every implementation keeps is the locale
  \<open>message_digest\<close>; the HMAC is proved correct once inside it.
\<close>

record 'c MessageDigest =
  md_Size :: nat
  md_Update :: "'c \<Rightarrow> bytes \<Rightarrow> 'c"
  md_Finish :: "'c \<Rightarrow> nat \<Rightarrow> nat \<times> bytes \<times> 'c"

definition kBlockSize :: nat where
  "kBlockSize = 64"

definition ComputeDigest :: "'c MessageDigest \<Rightarrow> 'c \<Rightarrow> bytes \<Rightarrow> nat \<Rightarrow> nat \<times> bytes \<times> 'c" where
  "ComputeDigest ops digest input out_len =
     (let digest = md_Update ops digest input in md_Finish ops digest out_len)"

text \<open>The block-sized key: a longer key is hashed first, and the rest is zero.\<close>

definition ComputeHmac_new_key :: "'c MessageDigest \<Rightarrow> 'c \<Rightarrow> bytes \<Rightarrow> nat \<Rightarrow> bytes \<times> 'c" where
  "ComputeHmac_new_key ops digest key block_len =
     (let fresh = replicate block_len 0 in
      if length key > block_len then
        let (_, out, digest) = ComputeDigest ops digest key block_len;
            new_key = blit fresh 0 out
        in (blit new_key (md_Size ops) (replicate (block_len - md_Size ops) 0), digest)
      else
        let new_key = blit fresh 0 key
        in (blit new_key (length key) (replicate (block_len - length key) 0), digest))"

definition ComputeHmac ::
  "'c MessageDigest \<Rightarrow> 'c \<Rightarrow> bytes \<Rightarrow> bytes \<Rightarrow> nat \<Rightarrow> nat \<times> bytes \<times> 'c" where
  "ComputeHmac ops digest key input out_len =
     (let block_len = kBlockSize in
      if md_Size ops > 32 then (0, [], digest)
      else
        let (new_key, digest) = ComputeHmac_new_key ops digest key block_len;
            o_pad = map (\<lambda>k. 0x5c XOR k) new_key;
            i_pad = map (\<lambda>k. 0x36 XOR k) new_key;
            digest = md_Update ops digest i_pad;
            digest = md_Update ops digest input;
            (_, inner, digest) = md_Finish ops digest (md_Size ops);
            digest = md_Update ops digest o_pad;
            digest = md_Update ops digest inner
        in md_Finish ops digest out_len)"

section \<open>RFC 2104\<close>

definition hmac_key :: "(bytes \<Rightarrow> bytes) \<Rightarrow> bytes \<Rightarrow> bytes" where
  "hmac_key H key =
     (let k = (if length key > 64 then H key else key) in k @ replicate (64 - length k) 0)"

definition hmac_rfc2104 :: "(bytes \<Rightarrow> bytes) \<Rightarrow> bytes \<Rightarrow> bytes \<Rightarrow> bytes" where
  "hmac_rfc2104 H key msg =
     (let k = hmac_key H key
      in H (map (\<lambda>b. b XOR 0x5c) k @ H (map (\<lambda>b. b XOR 0x36) k @ msg)))"

section \<open>The contract\<close>

text \<open>
  \<open>holds d m\<close>: the object \<open>d\<close> has been fed exactly the message \<open>m\<close> since it was created or last
  finished. \<open>H\<close> is the hash function the object computes.
\<close>

locale message_digest =
  fixes ops :: "'c MessageDigest"
    and holds :: "'c \<Rightarrow> bytes \<Rightarrow> bool"
    and H :: "bytes \<Rightarrow> bytes"
  assumes holds_Update: "holds d m \<Longrightarrow> holds (md_Update ops d xs) (m @ xs)"
    and Finish_short: "len < md_Size ops \<Longrightarrow> md_Finish ops d len = (0, [], d)"
    and Finish_hash: "holds d m \<Longrightarrow> md_Size ops \<le> len \<Longrightarrow>
      \<exists>d'. md_Finish ops d len = (md_Size ops, H m, d') \<and> holds d' []"
    and length_H: "length (H m) = md_Size ops"
begin

lemma ComputeDigest_hash:
  assumes "holds d m" and "md_Size ops \<le> len"
  shows "\<exists>d'. ComputeDigest ops d xs len = (md_Size ops, H (m @ xs), d') \<and> holds d' []"
  using Finish_hash [OF holds_Update [OF assms(1)] assms(2)] by (simp add: ComputeDigest_def)

text \<open>The digest does not depend on how the message was cut into updates.\<close>

lemma holds_foldl: "holds d m \<Longrightarrow> holds (foldl (md_Update ops) d xss) (m @ concat xss)"
proof (induction xss arbitrary: d m)
  case (Cons xs xss)
  from Cons.IH [OF holds_Update [OF Cons.prems, of xs]] show ?case by simp
qed simp

lemma ComputeHmac_new_key_eq:
  assumes "holds d []" and "md_Size ops \<le> 32"
  shows "\<exists>d'. ComputeHmac_new_key ops d key 64 = (hmac_key H key, d') \<and> holds d' []"
proof (cases "length key > 64")
  case True
  then show ?thesis
    using ComputeDigest_hash [OF assms(1), of 64 key] assms(2) length_H [of key]
    by (auto simp: ComputeHmac_new_key_def hmac_key_def blit_def)
next
  case False
  then show ?thesis
    using assms(1) by (simp add: ComputeHmac_new_key_def hmac_key_def blit_def)
qed

lemma ComputeHmac_rfc2104:
  assumes "holds d []" and "md_Size ops \<le> 32" and "md_Size ops \<le> out_len"
  shows "\<exists>d'. ComputeHmac ops d key msg out_len
      = (md_Size ops, hmac_rfc2104 H key msg, d') \<and> holds d' []"
proof -
  let ?k = "hmac_key H key"
  let ?i = "map (\<lambda>b. 0x36 XOR b) ?k" and ?o = "map (\<lambda>b. 0x5c XOR b) ?k"
  obtain d1 where k: "ComputeHmac_new_key ops d key 64 = (?k, d1)" and d1: "holds d1 []"
    using ComputeHmac_new_key_eq [OF assms(1,2)] by blast
  have "holds (md_Update ops (md_Update ops d1 ?i) msg) (?i @ msg)"
    using holds_Update [OF holds_Update [OF d1]] by simp
  then obtain d2 where d2: "md_Finish ops (md_Update ops (md_Update ops d1 ?i) msg) (md_Size ops)
      = (md_Size ops, H (?i @ msg), d2)" "holds d2 []"
    using Finish_hash by blast
  have "holds (md_Update ops (md_Update ops d2 ?o) (H (?i @ msg))) (?o @ H (?i @ msg))"
    using holds_Update [OF holds_Update [OF d2(2)]] by simp
  then obtain d3 where d3: "md_Finish ops (md_Update ops (md_Update ops d2 ?o) (H (?i @ msg))) out_len
      = (md_Size ops, H (?o @ H (?i @ msg)), d3)" "holds d3 []"
    using Finish_hash assms(3) by blast
  have "hmac_rfc2104 H key msg = H (?o @ H (?i @ msg))"
    by (simp add: hmac_rfc2104_def Let_def xor.commute)
  with d3 show ?thesis
    using assms(2) k d2(1) by (simp add: ComputeHmac_def kBlockSize_def)
qed

end

end
