(* ===== verification/Md5.thy ===== *)
theory Md5
  imports Message_Digest
begin

text \<open>
  \<^verbatim>\<open>webrtc/base/md5.{h,cc}\<close> and \<^verbatim>\<open>md5digest.h\<close>: the in-tree MD5.

  The model is the little-endian build (\<^verbatim>\<open>ARCH_CPU_LITTLE_ENDIAN\<close>, where \<^verbatim>\<open>ByteReverse\<close> is
  empty): \<open>md5_in\<close> is the 64-byte object \<^verbatim>\<open>ctx->in\<close>, and \<open>md5_words\<close> reads it as the sixteen
  \<^verbatim>\<open>uint32\<close> it is declared as. The two words of \<^verbatim>\<open>ctx->bits\<close> are two fields.
\<close>

record MD5Context =
  md5_buf :: "uint32 list"
  md5_bits0 :: uint32
  md5_bits1 :: uint32
  md5_in :: bytes

definition MD5Init :: "MD5Context \<Rightarrow> MD5Context" where
  "MD5Init ctx =
     ctx\<lparr>md5_buf := [0x67452301, 0xefcdab89, 0x98badcfe, 0x10325476],
         md5_bits0 := 0, md5_bits1 := 0\<rparr>"

section \<open>The compression function\<close>

definition MD5_F1 :: "uint32 \<Rightarrow> uint32 \<Rightarrow> uint32 \<Rightarrow> uint32" where
  "MD5_F1 x y z = z XOR (x AND (y XOR z))"

definition MD5_F2 :: "uint32 \<Rightarrow> uint32 \<Rightarrow> uint32 \<Rightarrow> uint32" where
  "MD5_F2 x y z = MD5_F1 z x y"

definition MD5_F3 :: "uint32 \<Rightarrow> uint32 \<Rightarrow> uint32 \<Rightarrow> uint32" where
  "MD5_F3 x y z = x XOR y XOR z"

definition MD5_F4 :: "uint32 \<Rightarrow> uint32 \<Rightarrow> uint32 \<Rightarrow> uint32" where
  "MD5_F4 x y z = y XOR (x OR NOT z)"

definition MD5STEP ::
  "(uint32 \<Rightarrow> uint32 \<Rightarrow> uint32 \<Rightarrow> uint32) \<Rightarrow> uint32 \<Rightarrow> uint32 \<Rightarrow> uint32 \<Rightarrow> uint32 \<Rightarrow> uint32 \<Rightarrow> nat \<Rightarrow> uint32" where
  "MD5STEP f w x y z data s =
     (let w = w + (f x y z + data);
          w = push_bit s w OR drop_bit (32 - s) w
      in w + x)"

definition MD5Transform :: "uint32 list \<Rightarrow> uint32 list \<Rightarrow> uint32 list" where
  "MD5Transform buf inp =
     (let a = buf ! 0; b = buf ! 1; c = buf ! 2; d = buf ! 3;
          a = MD5STEP MD5_F1 a b c d (inp ! 0 + 0xd76aa478) 7;
          d = MD5STEP MD5_F1 d a b c (inp ! 1 + 0xe8c7b756) 12;
          c = MD5STEP MD5_F1 c d a b (inp ! 2 + 0x242070db) 17;
          b = MD5STEP MD5_F1 b c d a (inp ! 3 + 0xc1bdceee) 22;
          a = MD5STEP MD5_F1 a b c d (inp ! 4 + 0xf57c0faf) 7;
          d = MD5STEP MD5_F1 d a b c (inp ! 5 + 0x4787c62a) 12;
          c = MD5STEP MD5_F1 c d a b (inp ! 6 + 0xa8304613) 17;
          b = MD5STEP MD5_F1 b c d a (inp ! 7 + 0xfd469501) 22;
          a = MD5STEP MD5_F1 a b c d (inp ! 8 + 0x698098d8) 7;
          d = MD5STEP MD5_F1 d a b c (inp ! 9 + 0x8b44f7af) 12;
          c = MD5STEP MD5_F1 c d a b (inp ! 10 + 0xffff5bb1) 17;
          b = MD5STEP MD5_F1 b c d a (inp ! 11 + 0x895cd7be) 22;
          a = MD5STEP MD5_F1 a b c d (inp ! 12 + 0x6b901122) 7;
          d = MD5STEP MD5_F1 d a b c (inp ! 13 + 0xfd987193) 12;
          c = MD5STEP MD5_F1 c d a b (inp ! 14 + 0xa679438e) 17;
          b = MD5STEP MD5_F1 b c d a (inp ! 15 + 0x49b40821) 22;
          a = MD5STEP MD5_F2 a b c d (inp ! 1 + 0xf61e2562) 5;
          d = MD5STEP MD5_F2 d a b c (inp ! 6 + 0xc040b340) 9;
          c = MD5STEP MD5_F2 c d a b (inp ! 11 + 0x265e5a51) 14;
          b = MD5STEP MD5_F2 b c d a (inp ! 0 + 0xe9b6c7aa) 20;
          a = MD5STEP MD5_F2 a b c d (inp ! 5 + 0xd62f105d) 5;
          d = MD5STEP MD5_F2 d a b c (inp ! 10 + 0x02441453) 9;
          c = MD5STEP MD5_F2 c d a b (inp ! 15 + 0xd8a1e681) 14;
          b = MD5STEP MD5_F2 b c d a (inp ! 4 + 0xe7d3fbc8) 20;
          a = MD5STEP MD5_F2 a b c d (inp ! 9 + 0x21e1cde6) 5;
          d = MD5STEP MD5_F2 d a b c (inp ! 14 + 0xc33707d6) 9;
          c = MD5STEP MD5_F2 c d a b (inp ! 3 + 0xf4d50d87) 14;
          b = MD5STEP MD5_F2 b c d a (inp ! 8 + 0x455a14ed) 20;
          a = MD5STEP MD5_F2 a b c d (inp ! 13 + 0xa9e3e905) 5;
          d = MD5STEP MD5_F2 d a b c (inp ! 2 + 0xfcefa3f8) 9;
          c = MD5STEP MD5_F2 c d a b (inp ! 7 + 0x676f02d9) 14;
          b = MD5STEP MD5_F2 b c d a (inp ! 12 + 0x8d2a4c8a) 20;
          a = MD5STEP MD5_F3 a b c d (inp ! 5 + 0xfffa3942) 4;
          d = MD5STEP MD5_F3 d a b c (inp ! 8 + 0x8771f681) 11;
          c = MD5STEP MD5_F3 c d a b (inp ! 11 + 0x6d9d6122) 16;
          b = MD5STEP MD5_F3 b c d a (inp ! 14 + 0xfde5380c) 23;
          a = MD5STEP MD5_F3 a b c d (inp ! 1 + 0xa4beea44) 4;
          d = MD5STEP MD5_F3 d a b c (inp ! 4 + 0x4bdecfa9) 11;
          c = MD5STEP MD5_F3 c d a b (inp ! 7 + 0xf6bb4b60) 16;
          b = MD5STEP MD5_F3 b c d a (inp ! 10 + 0xbebfbc70) 23;
          a = MD5STEP MD5_F3 a b c d (inp ! 13 + 0x289b7ec6) 4;
          d = MD5STEP MD5_F3 d a b c (inp ! 0 + 0xeaa127fa) 11;
          c = MD5STEP MD5_F3 c d a b (inp ! 3 + 0xd4ef3085) 16;
          b = MD5STEP MD5_F3 b c d a (inp ! 6 + 0x04881d05) 23;
          a = MD5STEP MD5_F3 a b c d (inp ! 9 + 0xd9d4d039) 4;
          d = MD5STEP MD5_F3 d a b c (inp ! 12 + 0xe6db99e5) 11;
          c = MD5STEP MD5_F3 c d a b (inp ! 15 + 0x1fa27cf8) 16;
          b = MD5STEP MD5_F3 b c d a (inp ! 2 + 0xc4ac5665) 23;
          a = MD5STEP MD5_F4 a b c d (inp ! 0 + 0xf4292244) 6;
          d = MD5STEP MD5_F4 d a b c (inp ! 7 + 0x432aff97) 10;
          c = MD5STEP MD5_F4 c d a b (inp ! 14 + 0xab9423a7) 15;
          b = MD5STEP MD5_F4 b c d a (inp ! 5 + 0xfc93a039) 21;
          a = MD5STEP MD5_F4 a b c d (inp ! 12 + 0x655b59c3) 6;
          d = MD5STEP MD5_F4 d a b c (inp ! 3 + 0x8f0ccc92) 10;
          c = MD5STEP MD5_F4 c d a b (inp ! 10 + 0xffeff47d) 15;
          b = MD5STEP MD5_F4 b c d a (inp ! 1 + 0x85845dd1) 21;
          a = MD5STEP MD5_F4 a b c d (inp ! 8 + 0x6fa87e4f) 6;
          d = MD5STEP MD5_F4 d a b c (inp ! 15 + 0xfe2ce6e0) 10;
          c = MD5STEP MD5_F4 c d a b (inp ! 6 + 0xa3014314) 15;
          b = MD5STEP MD5_F4 b c d a (inp ! 13 + 0x4e0811a1) 21;
          a = MD5STEP MD5_F4 a b c d (inp ! 4 + 0xf7537e82) 6;
          d = MD5STEP MD5_F4 d a b c (inp ! 11 + 0xbd3af235) 10;
          c = MD5STEP MD5_F4 c d a b (inp ! 2 + 0x2ad7d2bb) 15;
          b = MD5STEP MD5_F4 b c d a (inp ! 9 + 0xeb86d391) 21
      in [buf ! 0 + a, buf ! 1 + b, buf ! 2 + c, buf ! 3 + d])"

definition md5_words :: "bytes \<Rightarrow> uint32 list" where
  "md5_words block = map (\<lambda>i. GetLE32 (drop (4 * i) block)) [0..<16]"

section \<open>Streaming\<close>

text \<open>The loop over whole 64-byte chunks of the input, and the final copy of what is left.\<close>

function MD5Update_chunks :: "MD5Context \<Rightarrow> bytes \<Rightarrow> MD5Context" where
  "MD5Update_chunks ctx buf =
     (if length buf \<ge> 64 then
        let ctx = ctx\<lparr>md5_in := blit (md5_in ctx) 0 (take 64 buf)\<rparr>;
            ctx = ctx\<lparr>md5_buf := MD5Transform (md5_buf ctx) (md5_words (md5_in ctx))\<rparr>
        in MD5Update_chunks ctx (drop 64 buf)
      else ctx\<lparr>md5_in := blit (md5_in ctx) 0 buf\<rparr>)"
  by pat_completeness auto
termination
  by (relation "measure (\<lambda>(ctx, buf). length buf)") auto

definition MD5Update :: "MD5Context \<Rightarrow> bytes \<Rightarrow> MD5Context" where
  "MD5Update ctx buf =
     (let len = length buf;
          t = md5_bits0 ctx;
          ctx = ctx\<lparr>md5_bits0 := t + push_bit 3 (of_nat len)\<rparr>;
          ctx = (if md5_bits0 ctx < t then ctx\<lparr>md5_bits1 := md5_bits1 ctx + 1\<rparr> else ctx);
          ctx = ctx\<lparr>md5_bits1 := md5_bits1 ctx + of_nat (len div 2 ^ 29)\<rparr>;
          t = drop_bit 3 t AND 0x3f
      in if t \<noteq> 0 then
           let p = unat t; t = 64 - t in
           if len < unat t then ctx\<lparr>md5_in := blit (md5_in ctx) p buf\<rparr>
           else
             let ctx = ctx\<lparr>md5_in := blit (md5_in ctx) p (take (unat t) buf)\<rparr>;
                 ctx = ctx\<lparr>md5_buf := MD5Transform (md5_buf ctx) (md5_words (md5_in ctx))\<rparr>
             in MD5Update_chunks ctx (drop (unat t) buf)
         else MD5Update_chunks ctx buf)"

text \<open>The digest and the wiped context.\<close>

definition MD5Final :: "MD5Context \<Rightarrow> bytes \<times> MD5Context" where
  "MD5Final ctx =
     (let count = unat (drop_bit 3 (md5_bits0 ctx) AND 0x3F);
          ctx = ctx\<lparr>md5_in := (md5_in ctx)[count := 0x80]\<rparr>;
          p = count + 1;
          count = 64 - 1 - count;
          ctx = (if count < 8 then
                   let ctx = ctx\<lparr>md5_in := blit (md5_in ctx) p (replicate count 0)\<rparr>;
                       ctx = ctx\<lparr>md5_buf := MD5Transform (md5_buf ctx) (md5_words (md5_in ctx))\<rparr>
                   in ctx\<lparr>md5_in := blit (md5_in ctx) 0 (replicate 56 0)\<rparr>
                 else ctx\<lparr>md5_in := blit (md5_in ctx) p (replicate (count - 8) 0)\<rparr>);
          inp = (md5_words (md5_in ctx))[14 := md5_bits0 ctx, 15 := md5_bits1 ctx];
          buf = MD5Transform (md5_buf ctx) inp
      in (concat (map (host_bytes False 4) buf),
          \<lparr>md5_buf = [0, 0, 0, 0], md5_bits0 = 0, md5_bits1 = 0, md5_in = replicate 64 0\<rparr>))"

section \<open>The digest object\<close>

definition Md5Digest_new :: MD5Context where
  "Md5Digest_new =
     MD5Init \<lparr>md5_buf = [0, 0, 0, 0], md5_bits0 = 0, md5_bits1 = 0, md5_in = replicate 64 0\<rparr>"

definition Md5Digest_Finish :: "MD5Context \<Rightarrow> nat \<Rightarrow> nat \<times> bytes \<times> MD5Context" where
  "Md5Digest_Finish ctx len =
     (if len < 16 then (0, [], ctx)
      else case MD5Final ctx of (buf, ctx) \<Rightarrow> (16, buf, MD5Init ctx))"

definition Md5Digest :: "MD5Context MessageDigest" where
  "Md5Digest = \<lparr>md_Size = 16, md_Update = MD5Update, md_Finish = Md5Digest_Finish\<rparr>"

section \<open>The hash function\<close>

text \<open>RFC 1321: pad to whole blocks, with the 64-bit little-endian bit count at the end.\<close>

definition md5_compress :: "uint32 list \<Rightarrow> bytes \<Rightarrow> uint32 list" where
  "md5_compress s block = MD5Transform s (md5_words block)"

definition md5_length_field :: "nat \<Rightarrow> bytes" where
  "md5_length_field n = host_bytes False 4 (bit_count_lo n) @ host_bytes False 4 (bit_count_hi n)"

definition md5_pad :: "bytes \<Rightarrow> bytes" where
  "md5_pad m = m @ 0x80 # replicate (pad_zeros (length m)) 0 @ md5_length_field (length m)"

definition md5_hash :: "bytes \<Rightarrow> bytes" where
  "md5_hash m =
     concat (map (host_bytes False 4)
       (fst (absorb md5_compress [0x67452301, 0xefcdab89, 0x98badcfe, 0x10325476] (md5_pad m))))"

definition md5_holds :: "MD5Context \<Rightarrow> bytes \<Rightarrow> bool" where
  "md5_holds ctx m \<longleftrightarrow>
     absorb md5_compress [0x67452301, 0xefcdab89, 0x98badcfe, 0x10325476] m
       = (md5_buf ctx, take (length m mod 64) (md5_in ctx)) \<and>
     length (md5_in ctx) = 64 \<and>
     md5_bits0 ctx = bit_count_lo (length m) \<and> md5_bits1 ctx = bit_count_hi (length m)"

declare MD5Update_chunks.simps [simp del]

lemma length_MD5Transform [simp]: "length (MD5Transform s w) = 4"
  by (simp only: MD5Transform_def length_Let Let_const list.size)

lemma length_md5_words [simp]: "length (md5_words b) = 16"
  by (simp add: md5_words_def)

lemma MD5Update_chunks_block:
  assumes "64 \<le> length buf" and "length (md5_in ctx) = 64"
  shows "MD5Update_chunks ctx buf = MD5Update_chunks
     (ctx\<lparr>md5_in := take 64 buf, md5_buf := md5_compress (md5_buf ctx) (take 64 buf)\<rparr>) (drop 64 buf)"
  using assms by (subst MD5Update_chunks.simps) (simp add: md5_compress_def blit_def)

lemma MD5Update_chunks_tail:
  "length buf < 64 \<Longrightarrow> MD5Update_chunks ctx buf = ctx\<lparr>md5_in := blit (md5_in ctx) 0 buf\<rparr>"
  by (subst MD5Update_chunks.simps) simp

lemma MD5Update_chunks_absorb:
  assumes "length (md5_in ctx) = 64"
  shows "absorb md5_compress (md5_buf ctx) buf
     = (md5_buf (MD5Update_chunks ctx buf), take (length buf mod 64) (md5_in (MD5Update_chunks ctx buf))) \<and>
   length (md5_in (MD5Update_chunks ctx buf)) = 64 \<and>
   md5_bits0 (MD5Update_chunks ctx buf) = md5_bits0 ctx \<and>
   md5_bits1 (MD5Update_chunks ctx buf) = md5_bits1 ctx"
  using assms
proof (induction buf arbitrary: ctx rule: length_induct)
  case (1 buf)
  show ?case
  proof (cases "length buf \<ge> 64")
    case True
    let ?c = "ctx\<lparr>md5_in := take 64 buf, md5_buf := md5_compress (md5_buf ctx) (take 64 buf)\<rparr>"
    have "length (drop 64 buf) < length buf" "length (md5_in ?c) = 64"
      using True by auto
    with 1 have "absorb md5_compress (md5_buf ?c) (drop 64 buf)
        = (md5_buf (MD5Update_chunks ?c (drop 64 buf)),
           take (length (drop 64 buf) mod 64) (md5_in (MD5Update_chunks ?c (drop 64 buf)))) \<and>
      length (md5_in (MD5Update_chunks ?c (drop 64 buf))) = 64 \<and>
      md5_bits0 (MD5Update_chunks ?c (drop 64 buf)) = md5_bits0 ?c \<and>
      md5_bits1 (MD5Update_chunks ?c (drop 64 buf)) = md5_bits1 ?c"
      by blast
    with True 1(2) show ?thesis
      by (simp add: MD5Update_chunks_block absorb_block le_mod_geq)
  next
    case False
    then show ?thesis
      using 1(2) by (simp add: MD5Update_chunks_tail blit_def)
  qed
qed

section \<open>The block function is that of RFC 1321\<close>

text \<open>
  The 64 rounds as one loop: the nonlinear functions, the constants
  \<open>floor (2 ^ 32 * abs (sin (i + 1)))\<close>, the order of the message words and the rotations.
\<close>

definition md5_ref_F :: "nat \<Rightarrow> uint32 \<Rightarrow> uint32 \<Rightarrow> uint32 \<Rightarrow> uint32" where
  "md5_ref_F i x y z =
     (if i < 16 then (x AND y) OR (NOT x AND z)
      else if i < 32 then (x AND z) OR (y AND NOT z)
      else if i < 48 then x XOR y XOR z
      else y XOR (x OR NOT z))"

definition md5_ref_T :: "uint32 list" where
  "md5_ref_T = [
    0xd76aa478, 0xe8c7b756, 0x242070db, 0xc1bdceee, 0xf57c0faf, 0x4787c62a, 0xa8304613, 0xfd469501,
    0x698098d8, 0x8b44f7af, 0xffff5bb1, 0x895cd7be, 0x6b901122, 0xfd987193, 0xa679438e, 0x49b40821,
    0xf61e2562, 0xc040b340, 0x265e5a51, 0xe9b6c7aa, 0xd62f105d, 0x02441453, 0xd8a1e681, 0xe7d3fbc8,
    0x21e1cde6, 0xc33707d6, 0xf4d50d87, 0x455a14ed, 0xa9e3e905, 0xfcefa3f8, 0x676f02d9, 0x8d2a4c8a,
    0xfffa3942, 0x8771f681, 0x6d9d6122, 0xfde5380c, 0xa4beea44, 0x4bdecfa9, 0xf6bb4b60, 0xbebfbc70,
    0x289b7ec6, 0xeaa127fa, 0xd4ef3085, 0x04881d05, 0xd9d4d039, 0xe6db99e5, 0x1fa27cf8, 0xc4ac5665,
    0xf4292244, 0x432aff97, 0xab9423a7, 0xfc93a039, 0x655b59c3, 0x8f0ccc92, 0xffeff47d, 0x85845dd1,
    0x6fa87e4f, 0xfe2ce6e0, 0xa3014314, 0x4e0811a1, 0xf7537e82, 0xbd3af235, 0x2ad7d2bb, 0xeb86d391]"

definition md5_ref_g :: "nat \<Rightarrow> nat" where
  "md5_ref_g i = (if i < 16 then i else if i < 32 then (5 * i + 1) mod 16
                  else if i < 48 then (3 * i + 5) mod 16 else (7 * i) mod 16)"

definition md5_ref_s :: "nat \<Rightarrow> nat" where
  "md5_ref_s i = (if i < 16 then [7, 12, 17, 22] else if i < 32 then [5, 9, 14, 20]
                  else if i < 48 then [4, 11, 16, 23] else [6, 10, 15, 21]) ! (i mod 4)"

fun md5_ref_step ::
  "uint32 list \<Rightarrow> uint32 \<times> uint32 \<times> uint32 \<times> uint32 \<Rightarrow>
   (uint32 \<Rightarrow> uint32 \<Rightarrow> uint32 \<Rightarrow> uint32) \<times> nat \<times> uint32 \<times> nat \<Rightarrow> uint32 \<times> uint32 \<times> uint32 \<times> uint32" where
  "md5_ref_step X (a, b, c, d) (f, g, t, s) =
     (d, b + word_rotl s (a + f b c d + X ! g + t), b, c)"

definition md5_rfc1321 :: "uint32 list \<Rightarrow> uint32 list \<Rightarrow> uint32 list" where
  "md5_rfc1321 H X =
     (case foldl (md5_ref_step X) (H ! 0, H ! 1, H ! 2, H ! 3)
        (map (\<lambda>i. (md5_ref_F i, md5_ref_g i, md5_ref_T ! i, md5_ref_s i)) [0..<64]) of
        (a, b, c, d) \<Rightarrow> [H ! 0 + a, H ! 1 + b, H ! 2 + c, H ! 3 + d])"

lemma md5_functions:
  "i < 16 \<Longrightarrow> md5_ref_F i = MD5_F1"
  "16 \<le> i \<Longrightarrow> i < 32 \<Longrightarrow> md5_ref_F i = MD5_F2"
  "32 \<le> i \<Longrightarrow> i < 48 \<Longrightarrow> md5_ref_F i = MD5_F3"
  "48 \<le> i \<Longrightarrow> md5_ref_F i = MD5_F4"
  by (auto simp: md5_ref_F_def MD5_F1_def MD5_F2_def MD5_F3_def MD5_F4_def bit_simps
      intro!: ext bit_word_eqI)

lemma md5_params:
  "map (\<lambda>i. (md5_ref_F i, md5_ref_g i, md5_ref_T ! i, md5_ref_s i)) [0..<64] = [
    (MD5_F1, 0, 0xd76aa478, 7), (MD5_F1, 1, 0xe8c7b756, 12), (MD5_F1, 2, 0x242070db, 17), (MD5_F1, 3, 0xc1bdceee, 22),
    (MD5_F1, 4, 0xf57c0faf, 7), (MD5_F1, 5, 0x4787c62a, 12), (MD5_F1, 6, 0xa8304613, 17), (MD5_F1, 7, 0xfd469501, 22),
    (MD5_F1, 8, 0x698098d8, 7), (MD5_F1, 9, 0x8b44f7af, 12), (MD5_F1, 10, 0xffff5bb1, 17), (MD5_F1, 11, 0x895cd7be, 22),
    (MD5_F1, 12, 0x6b901122, 7), (MD5_F1, 13, 0xfd987193, 12), (MD5_F1, 14, 0xa679438e, 17), (MD5_F1, 15, 0x49b40821, 22),
    (MD5_F2, 1, 0xf61e2562, 5), (MD5_F2, 6, 0xc040b340, 9), (MD5_F2, 11, 0x265e5a51, 14), (MD5_F2, 0, 0xe9b6c7aa, 20),
    (MD5_F2, 5, 0xd62f105d, 5), (MD5_F2, 10, 0x02441453, 9), (MD5_F2, 15, 0xd8a1e681, 14), (MD5_F2, 4, 0xe7d3fbc8, 20),
    (MD5_F2, 9, 0x21e1cde6, 5), (MD5_F2, 14, 0xc33707d6, 9), (MD5_F2, 3, 0xf4d50d87, 14), (MD5_F2, 8, 0x455a14ed, 20),
    (MD5_F2, 13, 0xa9e3e905, 5), (MD5_F2, 2, 0xfcefa3f8, 9), (MD5_F2, 7, 0x676f02d9, 14), (MD5_F2, 12, 0x8d2a4c8a, 20),
    (MD5_F3, 5, 0xfffa3942, 4), (MD5_F3, 8, 0x8771f681, 11), (MD5_F3, 11, 0x6d9d6122, 16), (MD5_F3, 14, 0xfde5380c, 23),
    (MD5_F3, 1, 0xa4beea44, 4), (MD5_F3, 4, 0x4bdecfa9, 11), (MD5_F3, 7, 0xf6bb4b60, 16), (MD5_F3, 10, 0xbebfbc70, 23),
    (MD5_F3, 13, 0x289b7ec6, 4), (MD5_F3, 0, 0xeaa127fa, 11), (MD5_F3, 3, 0xd4ef3085, 16), (MD5_F3, 6, 0x04881d05, 23),
    (MD5_F3, 9, 0xd9d4d039, 4), (MD5_F3, 12, 0xe6db99e5, 11), (MD5_F3, 15, 0x1fa27cf8, 16), (MD5_F3, 2, 0xc4ac5665, 23),
    (MD5_F4, 0, 0xf4292244, 6), (MD5_F4, 7, 0x432aff97, 10), (MD5_F4, 14, 0xab9423a7, 15), (MD5_F4, 5, 0xfc93a039, 21),
    (MD5_F4, 12, 0x655b59c3, 6), (MD5_F4, 3, 0x8f0ccc92, 10), (MD5_F4, 10, 0xffeff47d, 15), (MD5_F4, 1, 0x85845dd1, 21),
    (MD5_F4, 8, 0x6fa87e4f, 6), (MD5_F4, 15, 0xfe2ce6e0, 10), (MD5_F4, 6, 0xa3014314, 15), (MD5_F4, 13, 0x4e0811a1, 21),
    (MD5_F4, 4, 0xf7537e82, 6), (MD5_F4, 11, 0xbd3af235, 10), (MD5_F4, 2, 0x2ad7d2bb, 15), (MD5_F4, 9, 0xeb86d391, 21)]"
  by (simp add: upt_rec md5_functions md5_ref_g_def md5_ref_T_def md5_ref_s_def)

lemma word_rotl_shifts:
  assumes "s < 32"
  shows "word_rotl s (w :: uint32) = push_bit s w OR drop_bit (32 - s) w"
proof (rule bit_word_eqI)
  fix n assume n: "n < LENGTH(32)"
  show "bit (word_rotl s w) n = bit (push_bit s w OR drop_bit (32 - s) w) n"
  proof (cases "n < s")
    case True
    then have "(n + (32 - s)) mod 32 = 32 - s + n" using assms by simp
    with True n assms show ?thesis by (simp add: bit_word_rotl_iff bit_simps)
  next
    case False
    then have "(n + (32 - s)) mod 32 = n - s" using n by (simp add: le_mod_geq)
    moreover have "\<not> bit w (32 - s + n)" using False n assms bit_imp_le_length [of w "32 - s + n"] by auto
    ultimately show ?thesis using False n assms by (simp add: bit_word_rotl_iff bit_simps)
  qed
qed

lemma MD5STEP_rotl: "s < 32 \<Longrightarrow> b + word_rotl s (a + f b c d + x + t) = MD5STEP f a b c d (x + t) s"
  by (simp add: MD5STEP_def Let_def word_rotl_shifts add.assoc add.commute add.left_commute)

fun md5_ref_out :: "uint32 list \<Rightarrow> uint32 \<times> uint32 \<times> uint32 \<times> uint32 \<Rightarrow> uint32 list" where
  "md5_ref_out H (a, b, c, d) = [H ! 0 + a, H ! 1 + b, H ! 2 + c, H ! 3 + d]"

lemma md5_ref_out_step:
  "s < 32 \<Longrightarrow> md5_ref_out H (foldl (md5_ref_step X) (a, b, c, d) ((f, g, t, s) # ps))
     = (let a = MD5STEP f a b c d (X ! g + t) s in md5_ref_out H (foldl (md5_ref_step X) (d, a, b, c) ps))"
  by (simp add: MD5STEP_rotl)

lemma MD5Transform_eq: "MD5Transform H X = md5_rfc1321 H X"
proof -
  have "md5_rfc1321 H X = md5_ref_out H (foldl (md5_ref_step X) (H ! 0, H ! 1, H ! 2, H ! 3)
      (map (\<lambda>i. (md5_ref_F i, md5_ref_g i, md5_ref_T ! i, md5_ref_s i)) [0..<64]))"
    by (simp add: md5_rfc1321_def split: prod.split)
  also have "\<dots> = MD5Transform H X"
    by (simp only: md5_params MD5Transform_def md5_ref_out_step Let_def [of "H ! 0"] Let_def [of "H ! 1"]
        Let_def [of "H ! 2"] Let_def [of "H ! 3"] rel_simps md5_ref_out.simps foldl_Nil)
  finally show ?thesis by simp
qed

lemma md5_holds_Init: "length (md5_in ctx) = 64 \<Longrightarrow> md5_holds (MD5Init ctx) []"
  by (simp add: md5_holds_def MD5Init_def bit_count_lo_def bit_count_hi_def)

text \<open>The counter part of \<open>MD5Update\<close>.\<close>

definition md5_counted :: "MD5Context \<Rightarrow> nat \<Rightarrow> MD5Context" where
  "md5_counted ctx n = ctx\<lparr>md5_bits0 := bit_count_lo n, md5_bits1 := bit_count_hi n\<rparr>"

lemma MD5Update_eq:
  assumes "md5_bits0 ctx = bit_count_lo n" and "md5_bits1 ctx = bit_count_hi n"
  shows "MD5Update ctx buf =
    (let c = md5_counted ctx (n + length buf); t = n mod 64 in
     if t \<noteq> 0 then
       if length buf < 64 - t then c\<lparr>md5_in := blit (md5_in ctx) t buf\<rparr>
       else let blk = blit (md5_in ctx) t (take (64 - t) buf)
            in MD5Update_chunks (c\<lparr>md5_in := blk, md5_buf := md5_compress (md5_buf ctx) blk\<rparr>)
                 (drop (64 - t) buf)
     else MD5Update_chunks c buf)"
proof -
  have lo: "bit_count_lo n + push_bit 3 (of_nat (length buf)) = bit_count_lo (n + length buf)"
    using bit_count_lo_add [of n "length buf"]
    by (simp add: bit_count_lo_def push_bit_eq_mult mult.commute)
  define t where "t = drop_bit 3 (bit_count_lo n) AND 63"
  have t: "unat t = n mod 64" unfolding t_def by (rule bit_count_index)
  have t64: "unat (64 - t) = 64 - n mod 64"
    using t by (subst unat_sub) (auto simp: word_le_nat_alt)
  have t0: "t = 0 \<longleftrightarrow> n mod 64 = 0"
    using t by (metis unat_eq_zero)
  have "md5_counted ctx (n + length buf) =
    (let c = ctx\<lparr>md5_bits0 := bit_count_lo (n + length buf)\<rparr>;
         c = (if md5_bits0 c < bit_count_lo n then c\<lparr>md5_bits1 := md5_bits1 c + 1\<rparr> else c)
     in c\<lparr>md5_bits1 := md5_bits1 c + of_nat (length buf div 2 ^ 29)\<rparr>)"
    using assms bit_count_hi_add [of n "length buf"] bit_count_carry(2) [of n "length buf"]
    by (cases ctx) (auto simp: md5_counted_def Let_def)
  then show ?thesis
    unfolding MD5Update_def Let_def lo assms(1) t_def [symmetric] t t64 t0 md5_compress_def
    by simp
qed

lemma md5_holds_Update:
  assumes "md5_holds ctx m"
  shows "md5_holds (MD5Update ctx xs) (m @ xs)"
proof -
  define n t where "n = length m" and "t = length m mod 64"
  define r where "r = take t (md5_in ctx)"
  define c where "c = md5_counted ctx (n + length xs)"
  let ?iv = "[0x67452301, 0xefcdab89, 0x98badcfe, 0x10325476] :: uint32 list"
  have h: "absorb md5_compress ?iv m = (md5_buf ctx, r)" "length (md5_in ctx) = 64"
    and bits: "md5_bits0 ctx = bit_count_lo n" "md5_bits1 ctx = bit_count_hi n"
    using assms by (auto simp: md5_holds_def n_def t_def r_def)
  have t: "t < 64" and r: "length r = t" using h(2) by (auto simp: t_def r_def)
  have app: "absorb md5_compress ?iv (m @ xs) = absorb md5_compress (md5_buf ctx) (r @ xs)"
    using h(1) by (simp only: absorb_append [of _ _ m] prod.case)
  have lenmod: "length (m @ xs) mod 64 = (t + length xs) mod 64"
    by (simp add: t_def mod_add_left_eq)
  have c: "md5_buf c = md5_buf ctx" "md5_in c = md5_in ctx"
    "md5_bits0 c = bit_count_lo (length (m @ xs))" "md5_bits1 c = bit_count_hi (length (m @ xs))"
    by (simp_all add: c_def md5_counted_def n_def)
  note eq = MD5Update_eq [OF bits, of xs, folded c_def t_def [folded n_def], unfolded Let_def]
  consider (aligned) "t = 0" | (short) "t \<noteq> 0" "length xs < 64 - t" | (fill) "t \<noteq> 0" "64 - t \<le> length xs"
    by linarith
  then show ?thesis
  proof cases
    case aligned
    then have "MD5Update ctx xs = MD5Update_chunks c xs" "r = []" using eq r by simp_all
    with aligned show ?thesis
      using MD5Update_chunks_absorb [of c xs] app h(2) lenmod unfolding md5_holds_def c by simp
  next
    case short
    then have "MD5Update ctx xs = c\<lparr>md5_in := blit (md5_in ctx) t xs\<rparr>" "(t + length xs) mod 64 = t + length xs"
      using eq by simp_all
    with short show ?thesis
      using app h(2) lenmod r t c by (simp add: md5_holds_def take_blit_append r_def)
  next
    case fill
    define blk where "blk = blit (md5_in ctx) t (take (64 - t) xs)"
    let ?f = "c\<lparr>md5_in := blk, md5_buf := md5_compress (md5_buf ctx) blk\<rparr>"
    have blk: "blk = r @ take (64 - t) xs" using fill h(2) by (simp add: blk_def blit_def r_def)
    have "MD5Update ctx xs = MD5Update_chunks ?f (drop (64 - t) xs)"
      using eq fill by (simp add: blk_def)
    moreover have "absorb md5_compress (md5_buf ctx) (r @ xs)
        = absorb md5_compress (md5_compress (md5_buf ctx) blk) (drop (64 - t) xs)"
      using fill r t blk by (subst absorb_block) simp_all
    moreover have "length (drop (64 - t) xs) mod 64 = (t + length xs) mod 64"
      using fill t by (simp add: le_mod_geq add.commute)
    moreover have "length blk = 64" using blk r fill t by simp
    ultimately show ?thesis
      using app lenmod MD5Update_chunks_absorb [of ?f "drop (64 - t) xs"] c
      unfolding md5_holds_def by simp
  qed
qed

lemma GetLE32_host_bytes [simp]: "GetLE32 (host_bytes False 4 v @ rest) = v"
  by (simp add: net_simps host_bytes_def)

lemma md5_words_length_field:
  assumes "length blk = 64"
  shows "(md5_words blk)[14 := bit_count_lo n, 15 := bit_count_hi n]
    = md5_words (take 56 blk @ md5_length_field n)"
proof (rule nth_equalityI)
  fix i assume "i < length ((md5_words blk)[14 := bit_count_lo n, 15 := bit_count_hi n])"
  then consider "i < 14" | "i = 14" | "i = 15" by fastforce
  then show "(md5_words blk)[14 := bit_count_lo n, 15 := bit_count_hi n] ! i
    = md5_words (take 56 blk @ md5_length_field n) ! i"
  proof cases
    case 1
    then have "4 \<le> 56 - 4 * i" by arith
    then have "take 4 (drop (4 * i) (take 56 blk @ md5_length_field n)) = take 4 (drop (4 * i) blk)"
      using assms by (simp add: drop_take min_def)
    with 1 show ?thesis using assms by (simp add: md5_words_def net_simps md5_length_field_def)
  next
    case 3
    have "GetLE32 (host_bytes False 4 (bit_count_hi n)) = bit_count_hi n"
      using GetLE32_host_bytes [of "bit_count_hi n" "[]"] by simp
    with 3 show ?thesis using assms by (simp add: md5_words_def md5_length_field_def)
  qed (use assms in \<open>simp add: md5_words_def md5_length_field_def\<close>)
qed simp

lemma mark_end:
  assumes "t < length b"
  shows "blit (b[t := x]) (Suc t) z = take t b @ x # z @ drop (t + 1 + length z) b"
  using assms by (simp add: blit_def take_Suc_conv_app_nth)

lemma md5_Final:
  assumes "md5_holds ctx m"
  shows "fst (MD5Final ctx) = md5_hash m"
proof -
  define n t where "n = length m" and "t = length m mod 64"
  define r where "r = take t (md5_in ctx)"
  let ?iv = "[0x67452301, 0xefcdab89, 0x98badcfe, 0x10325476] :: uint32 list"
  have h: "absorb md5_compress ?iv m = (md5_buf ctx, r)" "length (md5_in ctx) = 64"
    and bits: "md5_bits0 ctx = bit_count_lo n" "md5_bits1 ctx = bit_count_hi n"
    using assms by (auto simp: md5_holds_def n_def t_def r_def)
  have t: "t < 64" and r: "length r = t" using h(2) by (auto simp: t_def r_def)
  have idx: "unat (drop_bit 3 (md5_bits0 ctx) AND 0x3F) = t"
    using bit_count_index [of n] by (simp add: bits t_def n_def)
  have pad: "absorb md5_compress ?iv (md5_pad m) = absorb md5_compress (md5_buf ctx)
      (r @ 0x80 # replicate (if t < 56 then 55 - t else 119 - t) 0 @ md5_length_field n)"
    using h(1) by (simp only: md5_pad_def absorb_append [of _ _ m] prod.case pad_zeros_eq n_def t_def)
  have lf: "length (md5_length_field n) = 8" by (simp add: md5_length_field_def)
  have tl: "(0::uint8) # replicate k 0 = replicate (Suc k) 0" for k by simp
  show ?thesis
  proof (cases "t < 56")
    case True
    define b where "b = blit ((md5_in ctx)[t := 0x80]) (t + 1) (replicate (55 - t) 0)"
    have b: "take 56 b = r @ 0x80 # replicate (55 - t) 0" "length b = 64"
      using True h(2) r unfolding b_def by (simp_all add: mark_end r_def take_Cons')
    have "\<not> 63 - t < 8" using True by arith
    then have "fst (MD5Final ctx) = concat (map (host_bytes False 4)
        (md5_compress (md5_buf ctx) (take 56 b @ md5_length_field n)))"
      using True md5_words_length_field [OF b(2), of n] unfolding MD5Final_def Let_def idx
      by (simp add: bits b_def md5_compress_def)
    with True r lf show ?thesis
      by (simp add: md5_hash_def pad b absorb_block)
  next
    case False
    define b where "b = blit ((md5_in ctx)[t := 0x80]) (t + 1) (replicate (63 - t) 0)"
    define c where "c = blit b 0 (replicate 56 0)"
    have b: "b = r @ 0x80 # replicate (63 - t) 0" "length b = 64"
      using False t h(2) r unfolding b_def by (simp_all add: mark_end r_def)
    have c: "take 56 c = replicate 56 0" "length c = 64" using b(2) by (simp_all add: c_def blit_def)
    have "63 - t < 8" using False by arith
    then have "fst (MD5Final ctx) = concat (map (host_bytes False 4)
        (md5_compress (md5_compress (md5_buf ctx) b) (take 56 c @ md5_length_field n)))"
      using False md5_words_length_field [OF c(2), of n] unfolding MD5Final_def Let_def idx
      by (simp add: bits c_def b_def md5_compress_def)
    moreover have "r @ 0x80 # replicate (119 - t) 0 @ md5_length_field n = b @ take 56 c @ md5_length_field n"
      using t c by (simp add: b flip: replicate_add append_assoc [of "replicate _ _"])
    then have "absorb md5_compress ?iv (md5_pad m)
        = absorb md5_compress (md5_buf ctx) (b @ take 56 c @ md5_length_field n)"
      using pad False by (simp only: if_False)
    ultimately show ?thesis
      using b(2) c lf by (simp add: md5_hash_def absorb_block)
  qed
qed

lemma length_md5_hash [simp]: "length (md5_hash m) = 16"
proof -
  have "length (concat (map (host_bytes False 4) ws)) = 4 * length ws" for ws :: "uint32 list"
    by (induction ws) auto
  then show ?thesis
    using absorb_invariant [of "\<lambda>s. length s = 4" _ md5_compress]
    by (simp add: md5_hash_def md5_compress_def)
qed

lemma MD5Final_context: "MD5Init (snd (MD5Final ctx)) = Md5Digest_new"
  by (simp add: MD5Final_def Let_def Md5Digest_new_def)

lemma md5_holds_new: "md5_holds Md5Digest_new []"
  unfolding Md5Digest_new_def by (rule md5_holds_Init) simp

interpretation md5: message_digest Md5Digest md5_holds md5_hash
proof unfold_locales
  fix d m len
  assume "md5_holds d m" and "md_Size Md5Digest \<le> len"
  then show "\<exists>d'. md_Finish Md5Digest d len = (md_Size Md5Digest, md5_hash m, d') \<and> md5_holds d' []"
    using md5_Final [of d m] MD5Final_context [of d] md5_holds_new
    by (auto simp: Md5Digest_def Md5Digest_Finish_def split: prod.splits)
qed (auto simp: Md5Digest_def Md5Digest_Finish_def md5_holds_Update)

end
