(* ===== verification/Sha1.thy ===== *)
theory Sha1
  imports Message_Digest
begin

text \<open>
  \<^verbatim>\<open>webrtc/base/sha1.{h,cc}\<close> and \<^verbatim>\<open>sha1digest.h\<close>: the SHA-1 block function, its streaming
  interface and the digest object, for the little-endian build with \<^verbatim>\<open>SHA1HANDSOFF\<close>. The static
  workspace \<^verbatim>\<open>SHA1Transform\<close> copies the block into is the list \<open>l\<close> of sixteen words the round
  macros rewrite.

  Results: \<open>SHA1Transform\<close> is the FIPS 180-1 compression function with its 80-word message
  schedule, and \<open>Sha1Digest\<close> keeps the \<open>message_digest\<close> contract.
\<close>

unbundle bit_operations_syntax

record SHA1_CTX =
  sha1_state :: "uint32 list"
  sha1_count0 :: uint32
  sha1_count1 :: uint32
  sha1_buffer :: bytes

section \<open>The round macros\<close>

definition rol :: "uint32 \<Rightarrow> nat \<Rightarrow> uint32" where
  "rol v bits = push_bit bits v OR drop_bit (32 - bits) v"

definition blk0 :: "uint32 list \<Rightarrow> nat \<Rightarrow> uint32 list" where
  "blk0 l i = l[i := (rol (l ! i) 24 AND 0xFF00FF00) OR (rol (l ! i) 8 AND 0x00FF00FF)]"

definition blk :: "uint32 list \<Rightarrow> nat \<Rightarrow> uint32 list" where
  "blk l i = l[i mod 16 := rol (l ! ((i + 13) mod 16) XOR l ! ((i + 8) mod 16) XOR
                              l ! ((i + 2) mod 16) XOR l ! (i mod 16)) 1]"

definition SHA1_R0 ::
  "uint32 \<Rightarrow> uint32 \<Rightarrow> uint32 \<Rightarrow> uint32 \<Rightarrow> uint32 \<Rightarrow> nat \<Rightarrow> uint32 list \<Rightarrow> uint32 \<times> uint32 \<times> uint32 list" where
  "SHA1_R0 v w x y z i l =
     (let l = blk0 l i
      in (z + (((w AND (x XOR y)) XOR y) + l ! i + 0x5A827999 + rol v 5), rol w 30, l))"

definition SHA1_R1 ::
  "uint32 \<Rightarrow> uint32 \<Rightarrow> uint32 \<Rightarrow> uint32 \<Rightarrow> uint32 \<Rightarrow> nat \<Rightarrow> uint32 list \<Rightarrow> uint32 \<times> uint32 \<times> uint32 list" where
  "SHA1_R1 v w x y z i l =
     (let l = blk l i
      in (z + (((w AND (x XOR y)) XOR y) + l ! (i mod 16) + 0x5A827999 + rol v 5), rol w 30, l))"

definition SHA1_R2 ::
  "uint32 \<Rightarrow> uint32 \<Rightarrow> uint32 \<Rightarrow> uint32 \<Rightarrow> uint32 \<Rightarrow> nat \<Rightarrow> uint32 list \<Rightarrow> uint32 \<times> uint32 \<times> uint32 list" where
  "SHA1_R2 v w x y z i l =
     (let l = blk l i
      in (z + ((w XOR x XOR y) + l ! (i mod 16) + 0x6ED9EBA1 + rol v 5), rol w 30, l))"

definition SHA1_R3 ::
  "uint32 \<Rightarrow> uint32 \<Rightarrow> uint32 \<Rightarrow> uint32 \<Rightarrow> uint32 \<Rightarrow> nat \<Rightarrow> uint32 list \<Rightarrow> uint32 \<times> uint32 \<times> uint32 list" where
  "SHA1_R3 v w x y z i l =
     (let l = blk l i
      in (z + ((((w OR x) AND y) OR (w AND x)) + l ! (i mod 16) + 0x8F1BBCDC + rol v 5), rol w 30, l))"

definition SHA1_R4 ::
  "uint32 \<Rightarrow> uint32 \<Rightarrow> uint32 \<Rightarrow> uint32 \<Rightarrow> uint32 \<Rightarrow> nat \<Rightarrow> uint32 list \<Rightarrow> uint32 \<times> uint32 \<times> uint32 list" where
  "SHA1_R4 v w x y z i l =
     (let l = blk l i
      in (z + ((w XOR x XOR y) + l ! (i mod 16) + 0xCA62C1D6 + rol v 5), rol w 30, l))"

section \<open>The block function\<close>

text \<open>The workspace read as sixteen host words.\<close>

definition sha1_words :: "bytes \<Rightarrow> uint32 list" where
  "sha1_words buffer = map (\<lambda>i. host_word False (take 4 (drop (4 * i) buffer))) [0..<16]"

definition SHA1Transform :: "uint32 list \<Rightarrow> bytes \<Rightarrow> uint32 list" where
  "SHA1Transform state buffer =
     (let l = sha1_words buffer;
          a = state ! 0; b = state ! 1; c = state ! 2; d = state ! 3; e = state ! 4;
          (e, b, l) = SHA1_R0 a b c d e 0 l; (d, a, l) = SHA1_R0 e a b c d 1 l;
          (c, e, l) = SHA1_R0 d e a b c 2 l; (b, d, l) = SHA1_R0 c d e a b 3 l;
          (a, c, l) = SHA1_R0 b c d e a 4 l; (e, b, l) = SHA1_R0 a b c d e 5 l;
          (d, a, l) = SHA1_R0 e a b c d 6 l; (c, e, l) = SHA1_R0 d e a b c 7 l;
          (b, d, l) = SHA1_R0 c d e a b 8 l; (a, c, l) = SHA1_R0 b c d e a 9 l;
          (e, b, l) = SHA1_R0 a b c d e 10 l; (d, a, l) = SHA1_R0 e a b c d 11 l;
          (c, e, l) = SHA1_R0 d e a b c 12 l; (b, d, l) = SHA1_R0 c d e a b 13 l;
          (a, c, l) = SHA1_R0 b c d e a 14 l; (e, b, l) = SHA1_R0 a b c d e 15 l;
          (d, a, l) = SHA1_R1 e a b c d 16 l; (c, e, l) = SHA1_R1 d e a b c 17 l;
          (b, d, l) = SHA1_R1 c d e a b 18 l; (a, c, l) = SHA1_R1 b c d e a 19 l;
          (e, b, l) = SHA1_R2 a b c d e 20 l; (d, a, l) = SHA1_R2 e a b c d 21 l;
          (c, e, l) = SHA1_R2 d e a b c 22 l; (b, d, l) = SHA1_R2 c d e a b 23 l;
          (a, c, l) = SHA1_R2 b c d e a 24 l; (e, b, l) = SHA1_R2 a b c d e 25 l;
          (d, a, l) = SHA1_R2 e a b c d 26 l; (c, e, l) = SHA1_R2 d e a b c 27 l;
          (b, d, l) = SHA1_R2 c d e a b 28 l; (a, c, l) = SHA1_R2 b c d e a 29 l;
          (e, b, l) = SHA1_R2 a b c d e 30 l; (d, a, l) = SHA1_R2 e a b c d 31 l;
          (c, e, l) = SHA1_R2 d e a b c 32 l; (b, d, l) = SHA1_R2 c d e a b 33 l;
          (a, c, l) = SHA1_R2 b c d e a 34 l; (e, b, l) = SHA1_R2 a b c d e 35 l;
          (d, a, l) = SHA1_R2 e a b c d 36 l; (c, e, l) = SHA1_R2 d e a b c 37 l;
          (b, d, l) = SHA1_R2 c d e a b 38 l; (a, c, l) = SHA1_R2 b c d e a 39 l;
          (e, b, l) = SHA1_R3 a b c d e 40 l; (d, a, l) = SHA1_R3 e a b c d 41 l;
          (c, e, l) = SHA1_R3 d e a b c 42 l; (b, d, l) = SHA1_R3 c d e a b 43 l;
          (a, c, l) = SHA1_R3 b c d e a 44 l; (e, b, l) = SHA1_R3 a b c d e 45 l;
          (d, a, l) = SHA1_R3 e a b c d 46 l; (c, e, l) = SHA1_R3 d e a b c 47 l;
          (b, d, l) = SHA1_R3 c d e a b 48 l; (a, c, l) = SHA1_R3 b c d e a 49 l;
          (e, b, l) = SHA1_R3 a b c d e 50 l; (d, a, l) = SHA1_R3 e a b c d 51 l;
          (c, e, l) = SHA1_R3 d e a b c 52 l; (b, d, l) = SHA1_R3 c d e a b 53 l;
          (a, c, l) = SHA1_R3 b c d e a 54 l; (e, b, l) = SHA1_R3 a b c d e 55 l;
          (d, a, l) = SHA1_R3 e a b c d 56 l; (c, e, l) = SHA1_R3 d e a b c 57 l;
          (b, d, l) = SHA1_R3 c d e a b 58 l; (a, c, l) = SHA1_R3 b c d e a 59 l;
          (e, b, l) = SHA1_R4 a b c d e 60 l; (d, a, l) = SHA1_R4 e a b c d 61 l;
          (c, e, l) = SHA1_R4 d e a b c 62 l; (b, d, l) = SHA1_R4 c d e a b 63 l;
          (a, c, l) = SHA1_R4 b c d e a 64 l; (e, b, l) = SHA1_R4 a b c d e 65 l;
          (d, a, l) = SHA1_R4 e a b c d 66 l; (c, e, l) = SHA1_R4 d e a b c 67 l;
          (b, d, l) = SHA1_R4 c d e a b 68 l; (a, c, l) = SHA1_R4 b c d e a 69 l;
          (e, b, l) = SHA1_R4 a b c d e 70 l; (d, a, l) = SHA1_R4 e a b c d 71 l;
          (c, e, l) = SHA1_R4 d e a b c 72 l; (b, d, l) = SHA1_R4 c d e a b 73 l;
          (a, c, l) = SHA1_R4 b c d e a 74 l; (e, b, l) = SHA1_R4 a b c d e 75 l;
          (d, a, l) = SHA1_R4 e a b c d 76 l; (c, e, l) = SHA1_R4 d e a b c 77 l;
          (b, d, l) = SHA1_R4 c d e a b 78 l; (a, c, l) = SHA1_R4 b c d e a 79 l
      in [state ! 0 + a, state ! 1 + b, state ! 2 + c, state ! 3 + d, state ! 4 + e])"

section \<open>Streaming\<close>

definition SHA1Init :: "SHA1_CTX \<Rightarrow> SHA1_CTX" where
  "SHA1Init context = context\<lparr>
     sha1_state := [0x67452301, 0xEFCDAB89, 0x98BADCFE, 0x10325476, 0xC3D2E1F0],
     sha1_count0 := 0, sha1_count1 := 0\<rparr>"

text \<open>The loop over the whole blocks of the input; it returns the state and the offset reached.\<close>

function SHA1Update_blocks :: "uint32 list \<Rightarrow> bytes \<Rightarrow> nat \<Rightarrow> uint32 list \<times> nat" where
  "SHA1Update_blocks state data i =
     (if i + 63 < length data
      then SHA1Update_blocks (SHA1Transform state (take 64 (drop i data))) data (i + 64)
      else (state, i))"
  by pat_completeness auto
termination
  by (relation "measure (\<lambda>(state, data, i). length data - i)") auto

declare SHA1Update_blocks.simps [simp del]

definition SHA1Update :: "SHA1_CTX \<Rightarrow> bytes \<Rightarrow> SHA1_CTX" where
  "SHA1Update context data =
     (let input_len = length data;
          index = unat (drop_bit 3 (sha1_count0 context) AND 63);
          bits = of_nat (input_len * 8);
          context = context\<lparr>sha1_count0 := sha1_count0 context + bits\<rparr>;
          context = (if sha1_count0 context < bits
                     then context\<lparr>sha1_count1 := sha1_count1 context + 1\<rparr> else context);
          context = context\<lparr>sha1_count1 := sha1_count1 context + of_nat (input_len div 2 ^ 29)\<rparr>
      in if index + input_len > 63 then
           let i = 64 - index;
               buffer = blit (sha1_buffer context) index (take i data);
               (state, i) = SHA1Update_blocks (SHA1Transform (sha1_state context) buffer) data i
           in context\<lparr>sha1_state := state, sha1_buffer := blit buffer 0 (drop i data)\<rparr>
         else context\<lparr>sha1_buffer := blit (sha1_buffer context) index data\<rparr>)"

lemma and_504_iff: "c AND 504 = 448 \<longleftrightarrow> unat c div 8 mod 64 = 56" for c :: uint32
proof -
  have m: "(504 :: uint32) = push_bit 3 (mask 6)" "(63 :: uint32) = mask 6"
    by (simp_all add: mask_eq_exp_minus_1)
  have "c AND 504 = push_bit 3 (drop_bit 3 c AND 63)"
    unfolding m by (rule bit_word_eqI) (auto simp: bit_simps)
  moreover have "drop_bit 3 (push_bit 3 (drop_bit 3 c AND 63)) = drop_bit 3 c AND 63"
    unfolding m by (rule bit_word_eqI) (auto simp: bit_simps)
  moreover have "drop_bit 3 448 = (56 :: uint32)" "push_bit 3 56 = (448 :: uint32)" by simp_all
  ultimately have "c AND 504 = 448 \<longleftrightarrow> drop_bit 3 c AND 63 = 56" by metis
  also have "\<dots> \<longleftrightarrow> unat (drop_bit 3 c AND 63) = 56"
    by (simp add: word_unat_eq_iff)
  finally show ?thesis by (simp only: unat_and_63)
qed

text \<open>The padding loop of \<open>SHA1Final\<close>: it ends because each round advances the byte index by one.\<close>

lemma sha1_count0_Update:
  "sha1_count0 (SHA1Update context data) = sha1_count0 context + of_nat (length data * 8)"
  by (simp add: SHA1Update_def Let_def split: prod.split)

lemma pad_step:
  fixes k :: nat
  assumes "k < 64" and "k \<noteq> 56"
  shows "(120 - k) mod 64 = Suc ((120 - Suc k mod 64) mod 64)"
proof -
  consider "k < 56" | "56 < k" "k < 63" | "k = 63" using assms by linarith
  then show ?thesis by cases (simp_all add: le_mod_geq)
qed

lemma pad_index_decreases:
  fixes c :: uint32
  assumes "unat c div 8 mod 64 \<noteq> 56"
  shows "(120 - unat (c + 8) div 8 mod 64) mod 64 < (120 - unat c div 8 mod 64) mod 64"
proof -
  define k where "k = unat c div 8 mod 64"
  have "unat (c + 8) div 8 mod 64 = (unat c + 8) mod 2 ^ 32 div 8 mod 64"
    by (simp add: unat_word_ariths)
  also have "\<dots> = (unat c div 8 + 1) mod 2 ^ 29 mod 64"
    using div_add_self2 [of 8 "unat c"] mod_mult2_eq [of "unat c + 8" 8 "2 ^ 29"] by simp
  also have "\<dots> = (k + 1) mod 64"
    unfolding k_def by (subst mod_mod_cancel) (auto simp: mod_Suc_eq)
  finally have "unat (c + 8) div 8 mod 64 = (k + 1) mod 64" .
  with assms pad_step [of k] show ?thesis by (simp add: k_def)
qed

function SHA1Final_pad :: "SHA1_CTX \<Rightarrow> SHA1_CTX" where
  "SHA1Final_pad context =
     (if sha1_count0 context AND 504 \<noteq> 448
      then SHA1Final_pad (SHA1Update context [0]) else context)"
  by pat_completeness auto
termination
  by (relation "measure (\<lambda>context. (120 - unat (sha1_count0 context) div 8 mod 64) mod 64)")
    (auto simp: sha1_count0_Update and_504_iff intro: pad_index_decreases)

declare SHA1Final_pad.simps [simp del]

definition SHA1Final :: "SHA1_CTX \<Rightarrow> bytes \<times> SHA1_CTX" where
  "SHA1Final context =
     (let finalcount = map (\<lambda>i. ucast (drop_bit ((3 - i mod 4) * 8)
            (if i \<ge> 4 then sha1_count0 context else sha1_count1 context) AND 255)) [0..<8];
          context = SHA1Update context [0x80];
          context = SHA1Final_pad context;
          context = SHA1Update context finalcount;
          digest = map (\<lambda>i. ucast (drop_bit ((3 - i mod 4) * 8) (sha1_state context ! (i div 4)) AND 255))
            [0..<20];
          context = context\<lparr>sha1_buffer := replicate 64 0, sha1_state := replicate 5 0,
                           sha1_count0 := 0, sha1_count1 := 0\<rparr>;
          context = context\<lparr>sha1_state := SHA1Transform (sha1_state context) (sha1_buffer context)\<rparr>
      in (digest, context))"

section \<open>The digest object\<close>

definition Sha1Digest_new :: SHA1_CTX where
  "Sha1Digest_new = SHA1Init \<lparr>sha1_state = replicate 5 0, sha1_count0 = 0, sha1_count1 = 0,
     sha1_buffer = replicate 64 0\<rparr>"

definition Sha1Digest_Finish :: "SHA1_CTX \<Rightarrow> nat \<Rightarrow> nat \<times> bytes \<times> SHA1_CTX" where
  "Sha1Digest_Finish ctx len =
     (if len < 20 then (0, [], ctx)
      else case SHA1Final ctx of (buf, ctx) \<Rightarrow> (20, buf, SHA1Init ctx))"

definition Sha1Digest :: "SHA1_CTX MessageDigest" where
  "Sha1Digest = \<lparr>md_Size = 20, md_Update = SHA1Update, md_Finish = Sha1Digest_Finish\<rparr>"

section \<open>The FIPS 180-1 reference\<close>

definition sha1_f :: "nat \<Rightarrow> uint32 \<Rightarrow> uint32 \<Rightarrow> uint32 \<Rightarrow> uint32" where
  "sha1_f t b c d =
     (if t < 20 then (b AND c) OR (NOT b AND d)
      else if t < 40 then b XOR c XOR d
      else if t < 60 then (b AND c) OR (b AND d) OR (c AND d)
      else b XOR c XOR d)"

definition sha1_K :: "nat \<Rightarrow> uint32" where
  "sha1_K t = (if t < 20 then 0x5A827999 else if t < 40 then 0x6ED9EBA1
               else if t < 60 then 0x8F1BBCDC else 0xCA62C1D6)"

function sha1_W :: "bytes \<Rightarrow> nat \<Rightarrow> uint32" where
  "sha1_W block t =
     (if t < 16 then be_word (take 4 (drop (4 * t) block))
      else rol (sha1_W block (t - 3) XOR sha1_W block (t - 8) XOR
                sha1_W block (t - 14) XOR sha1_W block (t - 16)) 1)"
  by pat_completeness auto
termination
  by (relation "measure snd") auto

declare sha1_W.simps [simp del]

fun sha1_round ::
  "bytes \<Rightarrow> uint32 \<times> uint32 \<times> uint32 \<times> uint32 \<times> uint32 \<Rightarrow> nat \<Rightarrow>
   uint32 \<times> uint32 \<times> uint32 \<times> uint32 \<times> uint32" where
  "sha1_round block (a, b, c, d, e) t =
     (rol a 5 + sha1_f t b c d + e + sha1_W block t + sha1_K t, a, rol b 30, c, d)"

definition sha1_fips180 :: "uint32 list \<Rightarrow> bytes \<Rightarrow> uint32 list" where
  "sha1_fips180 H block =
     (case foldl (sha1_round block) (H ! 0, H ! 1, H ! 2, H ! 3, H ! 4) [0..<80] of
        (a, b, c, d, e) \<Rightarrow> [H ! 0 + a, H ! 1 + b, H ! 2 + c, H ! 3 + d, H ! 4 + e])"

definition sha1_pad :: "bytes \<Rightarrow> bytes" where
  "sha1_pad m = m @ 0x80 # replicate (pad_zeros (length m)) 0 @
     be_bytes 4 (bit_count_hi (length m)) @ be_bytes 4 (bit_count_lo (length m))"

definition sha1_hash :: "bytes \<Rightarrow> bytes" where
  "sha1_hash m = concat (map (be_bytes 4)
     (fst (absorb sha1_fips180 [0x67452301, 0xEFCDAB89, 0x98BADCFE, 0x10325476, 0xC3D2E1F0] (sha1_pad m))))"

section \<open>The block function is the reference\<close>

text \<open>One round of the unrolled code with the roles of the five variables rotated.\<close>

fun sha1_step ::
  "uint32 \<times> uint32 \<times> uint32 \<times> uint32 \<times> uint32 \<times> uint32 list \<Rightarrow> nat \<Rightarrow>
   uint32 \<times> uint32 \<times> uint32 \<times> uint32 \<times> uint32 \<times> uint32 list" where
  "sha1_step (a, b, c, d, e, l) t =
     (let (e, b, l) = (if t < 16 then SHA1_R0 a b c d e t l else if t < 20 then SHA1_R1 a b c d e t l
                       else if t < 40 then SHA1_R2 a b c d e t l else if t < 60 then SHA1_R3 a b c d e t l
                       else SHA1_R4 a b c d e t l)
      in (e, a, b, c, d, l))"

fun sha1_out ::
  "uint32 list \<Rightarrow> uint32 \<times> uint32 \<times> uint32 \<times> uint32 \<times> uint32 \<times> uint32 list \<Rightarrow> uint32 list" where
  "sha1_out s (a, b, c, d, e, l) = [s ! 0 + a, s ! 1 + b, s ! 2 + c, s ! 3 + d, s ! 4 + e]"

lemma sha1_out_R0: "t < 16 \<Longrightarrow> sha1_out s (foldl sha1_step (a, b, c, d, e, l) (t # ts))
    = (let (e, b, l) = SHA1_R0 a b c d e t l in sha1_out s (foldl sha1_step (e, a, b, c, d, l) ts))"
  and sha1_out_R1: "16 \<le> t \<Longrightarrow> t < 20 \<Longrightarrow> sha1_out s (foldl sha1_step (a, b, c, d, e, l) (t # ts))
    = (let (e, b, l) = SHA1_R1 a b c d e t l in sha1_out s (foldl sha1_step (e, a, b, c, d, l) ts))"
  and sha1_out_R2: "20 \<le> t \<Longrightarrow> t < 40 \<Longrightarrow> sha1_out s (foldl sha1_step (a, b, c, d, e, l) (t # ts))
    = (let (e, b, l) = SHA1_R2 a b c d e t l in sha1_out s (foldl sha1_step (e, a, b, c, d, l) ts))"
  and sha1_out_R3: "40 \<le> t \<Longrightarrow> t < 60 \<Longrightarrow> sha1_out s (foldl sha1_step (a, b, c, d, e, l) (t # ts))
    = (let (e, b, l) = SHA1_R3 a b c d e t l in sha1_out s (foldl sha1_step (e, a, b, c, d, l) ts))"
  and sha1_out_R4: "60 \<le> t \<Longrightarrow> sha1_out s (foldl sha1_step (a, b, c, d, e, l) (t # ts))
    = (let (e, b, l) = SHA1_R4 a b c d e t l in sha1_out s (foldl sha1_step (e, a, b, c, d, l) ts))"
  by (simp_all split: prod.split)

lemma upt_80: "[0..<80] = [0, 1, 2, 3, 4, 5, 6, 7, 8, 9, 10, 11, 12, 13, 14, 15, 16, 17, 18, 19, 20, 21, 22, 23, 24, 25, 26, 27, 28, 29, 30, 31, 32, 33, 34, 35, 36, 37, 38, 39, 40, 41, 42, 43, 44, 45, 46, 47, 48, 49, 50, 51, 52, 53, 54, 55, 56, 57, 58, 59, 60, 61, 62, 63, 64, 65, 66, 67, 68, 69, 70, 71, 72, 73, 74, 75, 76, 77, 78, 79]"
  by (simp add: upt_conv_Cons)

lemma SHA1Transform_steps:
  "SHA1Transform s buffer =
     sha1_out s (foldl sha1_step (s ! 0, s ! 1, s ! 2, s ! 3, s ! 4, sha1_words buffer) [0..<80])"
  unfolding upt_80
  by (simp add: sha1_out_R0 sha1_out_R1 sha1_out_R2 sha1_out_R3 sha1_out_R4 SHA1Transform_def
      Let_def del: foldl_Cons sha1_step.simps)

lemma sha1_functions:
  fixes b c d :: uint32
  shows "(b AND (c XOR d)) XOR d = (b AND c) OR (NOT b AND d)"
    and "((b OR c) AND d) OR (b AND c) = (b AND c) OR (b AND d) OR (c AND d)"
  by (auto intro!: bit_word_eqI simp: bit_simps dest: bit_imp_le_length)

lemma sha1_step_round:
  assumes "t < 16 \<Longrightarrow> blk0 l t = l' \<and> l' ! t = sha1_W block t"
    and "16 \<le> t \<Longrightarrow> blk l t = l' \<and> l' ! (t mod 16) = sha1_W block t"
  shows "sha1_step (a, b, c, d, e, l) t =
    (case sha1_round block (a, b, c, d, e) t of (a, b, c, d, e) \<Rightarrow> (a, b, c, d, e, l'))"
  using assms
  by (simp add: SHA1_R0_def SHA1_R1_def SHA1_R2_def SHA1_R3_def SHA1_R4_def Let_def
      sha1_f_def sha1_K_def sha1_functions add.assoc add.commute add.left_commute)

text \<open>The little-endian load followed by the byte swap of \<open>blk0\<close> is a big-endian load.\<close>

lemma byte_swap:
  assumes "length w = 4"
  shows "(rol (host_word False w) 24 AND 0xFF00FF00) OR (rol (host_word False w) 8 AND 0x00FF00FF) = be_word w"
proof -
  obtain a b c d where w: "w = [a, b, c, d]"
    using assms by (auto simp: numeral_eq_Suc length_Suc_conv)
  have m: "(0xFF00FF00 :: uint32) = push_bit 8 (mask 8) OR push_bit 24 (mask 8)"
    "(0x00FF00FF :: uint32) = mask 8 OR push_bit 16 (mask 8)"
    by (simp_all add: mask_eq_exp_minus_1)
  have b8: "8 \<le> n \<Longrightarrow> \<not> bit x n" for x :: uint8 and n
    using bit_imp_le_length [of x n] by auto
  show ?thesis
  proof (rule bit_word_eqI)
    fix n assume "n < LENGTH(32)"
    then consider "n < 8" | "8 \<le> n" "n < 16" | "16 \<le> n" "n < 24" | "24 \<le> n" "n < 32" by fastforce
    then show "bit ((rol (host_word False w) 24 AND 0xFF00FF00) OR
        (rol (host_word False w) 8 AND 0x00FF00FF)) n = bit (be_word w :: uint32) n"
      unfolding m w host_word_def rol_def by cases (simp_all add: bit_simps b8 less_diff_conv2)
  qed
qed

lemma length_sha1_words [simp]: "length (sha1_words b) = 16"
  by (simp add: sha1_words_def)

lemma sha1_steps_16:
  assumes "length block = 64" and "t \<le> 16"
  shows "foldl sha1_step (a, b, c, d, e, sha1_words block) [0..<t] =
    (case foldl (sha1_round block) (a, b, c, d, e) [0..<t] of (a, b, c, d, e) \<Rightarrow>
      (a, b, c, d, e, map (sha1_W block) [0..<t] @ drop t (sha1_words block)))"
  using assms(2)
proof (induction t)
  case (Suc t)
  let ?l = "map (sha1_W block) [0..<t] @ drop t (sha1_words block)"
  let ?l' = "map (sha1_W block) [0..<Suc t] @ drop (Suc t) (sha1_words block)"
  have dr: "drop t (sha1_words block) = host_word False (take 4 (drop (4 * t) block)) # drop (Suc t) (sha1_words block)"
    using Suc.prems by (subst Cons_nth_drop_Suc [symmetric]) (simp_all add: sha1_words_def)
  have "sha1_W block t = be_word (take 4 (drop (4 * t) block))"
    using Suc.prems by (simp add: sha1_W.simps)
  then have "blk0 ?l t = ?l'"
    using Suc.prems assms(1) by (simp add: blk0_def nth_append dr list_update_append byte_swap)
  moreover have "?l' ! t = sha1_W block t" by (simp add: nth_append)
  ultimately have "sha1_step (a', b', c', d', e', ?l) t
      = (case sha1_round block (a', b', c', d', e') t of (a, b, c, d, e) \<Rightarrow> (a, b, c, d, e, ?l'))"
    for a' b' c' d' e'
    using Suc.prems by (intro sha1_step_round) auto
  with Suc show ?case by (simp split: prod.split del: sha1_step.simps sha1_round.simps)
qed simp

text \<open>After round 15 the workspace is a ring holding the last sixteen schedule words.\<close>

definition sha1_ring :: "bytes \<Rightarrow> nat \<Rightarrow> uint32 list" where
  "sha1_ring block t = map (\<lambda>i. sha1_W block (i + 16 * ((t - 1 - i) div 16))) [0..<16]"

lemma ring_index: "j < t \<Longrightarrow> t \<le> j + 16 \<Longrightarrow> j mod 16 + 16 * ((t - 1 - j mod 16) div 16) = (j :: nat)"
proof -
  assume j: "j < t" "t \<le> j + 16"
  define q i where "q = j div 16" and "i = j mod 16"
  have "j = 16 * q + i" by (simp add: q_def i_def)
  with j have "t - 1 - i = (t - 1 - j) + 16 * q" "t - 1 - j < 16" by auto
  then have "(t - 1 - i) div 16 = q" by simp
  with \<open>j = 16 * q + i\<close> show ?thesis by (simp add: i_def)
qed

lemma sha1_ring_nth:
  "j < t \<Longrightarrow> t \<le> j + 16 \<Longrightarrow> sha1_ring block t ! (j mod 16) = sha1_W block j"
  using ring_index [of j t] by (simp add: sha1_ring_def)

lemma sha1_ring_Suc:
  "16 \<le> t \<Longrightarrow> sha1_ring block (Suc t) = (sha1_ring block t)[t mod 16 := sha1_W block t]"
proof (rule nth_equalityI)
  fix i assume t: "16 \<le> t" and "i < length (sha1_ring block (Suc t))"
  then have i: "i < 16" by (simp add: sha1_ring_def)
  show "sha1_ring block (Suc t) ! i = (sha1_ring block t)[t mod 16 := sha1_W block t] ! i"
  proof (cases "i = t mod 16")
    case True
    then show ?thesis
      using sha1_ring_nth [of t "Suc t" block] by (simp add: sha1_ring_def)
  next
    case False
    have "Suc (t - 1 - i) mod 16 \<noteq> 0"
    proof
      assume "Suc (t - 1 - i) mod 16 = 0"
      then obtain q where "Suc (t - 1 - i) = 16 * q" by (auto simp: mod_eq_0_iff_dvd)
      then have "t = i + 16 * q" using t i by simp
      with False i show False by simp
    qed
    then have "(t - i) div 16 = (t - 1 - i) div 16"
      using t i div_Suc [of "t - 1 - i" 16] by (simp add: Suc_diff_Suc)
    with False i show ?thesis by (simp add: sha1_ring_def)
  qed
qed (simp add: sha1_ring_def)

lemma sha1_blk_ring:
  assumes "16 \<le> t"
  shows "blk (sha1_ring block t) t = sha1_ring block (Suc t)"
proof -
  have "sha1_ring block t ! ((t + 13) mod 16) = sha1_W block (t - 3)"
    "sha1_ring block t ! ((t + 8) mod 16) = sha1_W block (t - 8)"
    "sha1_ring block t ! ((t + 2) mod 16) = sha1_W block (t - 14)"
    "sha1_ring block t ! (t mod 16) = sha1_W block (t - 16)"
    using assms sha1_ring_nth [of "t - 3" t block] sha1_ring_nth [of "t - 8" t block]
      sha1_ring_nth [of "t - 14" t block] sha1_ring_nth [of "t - 16" t block]
      mod_add_self2 [of "t - 3" 16] mod_add_self2 [of "t - 8" 16] mod_add_self2 [of "t - 14" 16]
      mod_add_self2 [of "t - 16" 16]
    by (simp_all add: add.commute)
  with assms show ?thesis
    by (simp add: blk_def sha1_ring_Suc sha1_W.simps [of block t])
qed

lemma sha1_steps_80:
  assumes "length block = 64"
  shows "foldl sha1_step (a, b, c, d, e, sha1_words block) [0..<16 + k] =
    (case foldl (sha1_round block) (a, b, c, d, e) [0..<16 + k] of (a, b, c, d, e) \<Rightarrow>
      (a, b, c, d, e, sha1_ring block (16 + k)))"
proof (induction k)
  case 0
  have "map (sha1_W block) [0..<16] @ drop 16 (sha1_words block) = sha1_ring block 16"
    by (simp add: sha1_ring_def)
  with sha1_steps_16 [OF assms, of 16] show ?case by simp
next
  case (Suc k)
  have "sha1_step (a', b', c', d', e', sha1_ring block (16 + k)) (16 + k)
      = (case sha1_round block (a', b', c', d', e') (16 + k) of (a, b, c, d, e) \<Rightarrow>
          (a, b, c, d, e, sha1_ring block (16 + Suc k)))" for a' b' c' d' e'
    using sha1_blk_ring [of "16 + k" block] sha1_ring_nth [of "16 + k" "Suc (16 + k)" block]
    by (intro sha1_step_round) auto
  moreover have "[0..<16 + Suc k] = [0..<16 + k] @ [16 + k]"
    by (simp only: add_Suc_right upt_Suc) simp
  ultimately show ?case
    using Suc by (simp only: foldl_append foldl_Cons foldl_Nil split: prod.split) simp
qed

lemma SHA1Transform_eq:
  assumes "length block = 64"
  shows "SHA1Transform s block = sha1_fips180 s block"
  using sha1_steps_80 [OF assms, of _ _ _ _ _ 64]
  unfolding SHA1Transform_steps sha1_fips180_def by (simp split: prod.split)

section \<open>Streaming keeps the digest contract\<close>

abbreviation sha1_iv :: "uint32 list" where
  "sha1_iv \<equiv> [0x67452301, 0xEFCDAB89, 0x98BADCFE, 0x10325476, 0xC3D2E1F0]"

definition sha1_holds :: "SHA1_CTX \<Rightarrow> bytes \<Rightarrow> bool" where
  "sha1_holds ctx m \<longleftrightarrow>
     absorb SHA1Transform sha1_iv m = (sha1_state ctx, take (length m mod 64) (sha1_buffer ctx)) \<and>
     length (sha1_buffer ctx) = 64 \<and>
     sha1_count0 ctx = bit_count_lo (length m) \<and> sha1_count1 ctx = bit_count_hi (length m)"

lemma SHA1Update_blocks_absorb:
  "i \<le> length data \<Longrightarrow> SHA1Update_blocks s data i = (s', i') \<Longrightarrow>
   absorb SHA1Transform s (drop i data) = (s', drop i' data) \<and> i' \<le> length data \<and> length data - i' < 64"
proof (induction s data i rule: SHA1Update_blocks.induct)
  case (1 s data i)
  show ?case
  proof (cases "i + 63 < length data")
    case True
    with 1 have "absorb SHA1Transform (SHA1Transform s (take 64 (drop i data))) (drop (i + 64) data)
        = (s', drop i' data) \<and> i' \<le> length data \<and> length data - i' < 64"
      by (simp add: SHA1Update_blocks.simps [of s])
    with True show ?thesis by (simp add: absorb_block add.commute)
  next
    case False
    with 1 show ?thesis by (auto simp: SHA1Update_blocks.simps [of s])
  qed
qed

text \<open>The counter part of \<open>SHA1Update\<close>.\<close>

definition sha1_counted :: "SHA1_CTX \<Rightarrow> nat \<Rightarrow> SHA1_CTX" where
  "sha1_counted ctx n = ctx\<lparr>sha1_count0 := bit_count_lo n, sha1_count1 := bit_count_hi n\<rparr>"

lemma SHA1Update_eq:
  assumes "sha1_count0 ctx = bit_count_lo n" and "sha1_count1 ctx = bit_count_hi n"
  shows "SHA1Update ctx data =
    (let c = sha1_counted ctx (n + length data); t = n mod 64 in
     if t + length data > 63 then
       let buffer = blit (sha1_buffer ctx) t (take (64 - t) data);
           (state, i) = SHA1Update_blocks (SHA1Transform (sha1_state ctx) buffer) data (64 - t)
       in c\<lparr>sha1_state := state, sha1_buffer := blit buffer 0 (drop i data)\<rparr>
     else c\<lparr>sha1_buffer := blit (sha1_buffer ctx) t data\<rparr>)"
proof -
  have lo: "of_nat (length data * 8) = bit_count_lo (length data)"
    by (simp add: bit_count_lo_def mult.commute)
  have "sha1_counted ctx (n + length data) =
    (let context = ctx\<lparr>sha1_count0 := sha1_count0 ctx + bit_count_lo (length data)\<rparr>;
         context = (if sha1_count0 context < bit_count_lo (length data)
                    then context\<lparr>sha1_count1 := sha1_count1 context + 1\<rparr> else context)
     in context\<lparr>sha1_count1 := sha1_count1 context + of_nat (length data div 2 ^ 29)\<rparr>)"
    using assms bit_count_hi_add [of n "length data"] bit_count_carry(1) [of n "length data"]
    by (cases ctx) (auto simp: sha1_counted_def bit_count_lo_add Let_def)
  then show ?thesis
    unfolding SHA1Update_def Let_def lo assms(1) bit_count_index
    by (simp split: prod.split)
qed

lemma sha1_holds_Update:
  assumes "sha1_holds ctx m"
  shows "sha1_holds (SHA1Update ctx xs) (m @ xs)"
proof -
  define n t where "n = length m" and "t = length m mod 64"
  define r where "r = take t (sha1_buffer ctx)"
  define c where "c = sha1_counted ctx (n + length xs)"
  have h: "absorb SHA1Transform sha1_iv m = (sha1_state ctx, r)" "length (sha1_buffer ctx) = 64"
    and bits: "sha1_count0 ctx = bit_count_lo n" "sha1_count1 ctx = bit_count_hi n"
    using assms by (auto simp: sha1_holds_def n_def t_def r_def)
  have t: "t < 64" and r: "length r = t" using h(2) by (auto simp: t_def r_def)
  have app: "absorb SHA1Transform sha1_iv (m @ xs) = absorb SHA1Transform (sha1_state ctx) (r @ xs)"
    using h(1) by (simp only: absorb_append [of _ _ m] prod.case)
  have lenmod: "length (m @ xs) mod 64 = (t + length xs) mod 64"
    by (simp add: t_def mod_add_left_eq)
  have c: "sha1_state c = sha1_state ctx" "sha1_buffer c = sha1_buffer ctx"
    "sha1_count0 c = bit_count_lo (length (m @ xs))" "sha1_count1 c = bit_count_hi (length (m @ xs))"
    by (simp_all add: c_def sha1_counted_def n_def)
  note eq = SHA1Update_eq [OF bits, of xs, folded c_def t_def [folded n_def], unfolded Let_def]
  show ?thesis
  proof (cases "t + length xs > 63")
    case True
    define buffer where "buffer = blit (sha1_buffer ctx) t (take (64 - t) xs)"
    obtain s' i' where b: "SHA1Update_blocks (SHA1Transform (sha1_state ctx) buffer) xs (64 - t) = (s', i')"
      by fastforce
    have buf: "buffer = r @ take (64 - t) xs" using True h(2) by (simp add: buffer_def blit_def r_def)
    have ab: "absorb SHA1Transform (SHA1Transform (sha1_state ctx) buffer) (drop (64 - t) xs) = (s', drop i' xs)"
      and i': "i' \<le> length xs" "length xs - i' < 64"
      using SHA1Update_blocks_absorb [OF _ b] True by auto
    have all: "absorb SHA1Transform sha1_iv (m @ xs) = (s', drop i' xs)"
      using True r t ab buf app by (simp add: absorb_block)
    then have "length (m @ xs) mod 64 = length xs - i'" using absorb_length by fastforce
    moreover have "SHA1Update ctx xs = c\<lparr>sha1_state := s', sha1_buffer := blit buffer 0 (drop i' xs)\<rparr>"
      using eq True b by (simp add: buffer_def)
    moreover have "length buffer = 64" using buf r True t by simp
    ultimately show ?thesis
      using all c i' unfolding sha1_holds_def by (simp add: blit_def)
  next
    case False
    then have "SHA1Update ctx xs = c\<lparr>sha1_buffer := blit (sha1_buffer ctx) t xs\<rparr>"
      "(t + length xs) mod 64 = t + length xs" using eq by simp_all
    with False show ?thesis
      using app h(2) lenmod r t c by (simp add: sha1_holds_def take_blit_append r_def)
  qed
qed

lemma sha1_holds_pad:
  "sha1_holds ctx m \<Longrightarrow> sha1_holds (SHA1Final_pad ctx) (m @ replicate ((120 - length m mod 64) mod 64) 0)"
proof (induction ctx arbitrary: m rule: SHA1Final_pad.induct)
  case (1 ctx)
  have iff: "sha1_count0 ctx AND 504 = 448 \<longleftrightarrow> length m mod 64 = 56"
    using 1(2) bit_count_index [of "length m"] by (simp add: and_504_iff unat_and_63 sha1_holds_def)
  show ?case
  proof (cases "length m mod 64 = 56")
    case True
    with 1(2) iff show ?thesis by (simp add: SHA1Final_pad.simps [of ctx])
  next
    case False
    have "sha1_holds (SHA1Update ctx [0]) (m @ [0])" using 1(2) by (rule sha1_holds_Update)
    with False 1(1) [of "m @ [0]"] iff have "sha1_holds (SHA1Final_pad ctx)
        ((m @ [0]) @ replicate ((120 - length (m @ [0]) mod 64) mod 64) 0)"
      by (subst SHA1Final_pad.simps) simp
    moreover have "(120 - length m mod 64) mod 64 = Suc ((120 - length (m @ [0]) mod 64) mod 64)"
      using False pad_step [of "length m mod 64"] by (simp add: mod_Suc_eq)
    ultimately show ?thesis by simp
  qed
qed

lemma ucast_and_255: "ucast (v AND 255) = (ucast v :: uint8)" for v :: uint32
proof -
  have m: "(255 :: uint32) = mask 8" by (simp add: mask_eq_exp_minus_1)
  show ?thesis unfolding m by (rule bit_word_eqI) (auto simp: bit_simps)
qed

lemma sha1_final_count:
  "map (\<lambda>i. ucast (drop_bit ((3 - i mod 4) * 8) (if i \<ge> 4 then lo else hi) AND 255)) [0..<8]
     = be_bytes 4 hi @ be_bytes 4 (lo :: uint32)"
  by (simp add: ucast_and_255 be_bytes_explicit upt_rec)

lemma sha1_digest_bytes:
  assumes "length s = 5"
  shows "map (\<lambda>i. ucast (drop_bit ((3 - i mod 4) * 8) (s ! (i div 4)) AND 255)) [0..<20]
     = concat (map (be_bytes 4) (s :: uint32 list))"
proof -
  obtain a b c d e where "s = [a, b, c, d, e]"
    using assms by (auto simp: numeral_eq_Suc length_Suc_conv)
  then show ?thesis by (simp add: ucast_and_255 be_bytes_explicit upt_rec)
qed

lemma length_sha1_out [simp]: "length (sha1_out s p) = 5"
  by (cases p) simp

lemma length_SHA1Transform [simp]: "length (SHA1Transform s b) = 5"
  by (simp add: SHA1Transform_steps)

lemma length_sha1_fips180 [simp]: "length (sha1_fips180 s b) = 5"
  by (simp add: sha1_fips180_def split: prod.split)

lemma length_sha1_hash [simp]: "length (sha1_hash m) = 20"
proof -
  have "length (concat (map (be_bytes 4) ws)) = 4 * length ws" for ws :: "uint32 list"
    by (induction ws) auto
  then show ?thesis
    using absorb_invariant [of "\<lambda>s. length s = 5" sha1_iv sha1_fips180] by (simp add: sha1_hash_def)
qed

lemma sha1_pad_blocks: "length (sha1_pad m) mod 64 = 0"
  using pad_zeros_length [of "length m"] mod_add_left_eq [of "length m + 1 + pad_zeros (length m)" 64 8]
  by (simp add: sha1_pad_def add.commute add.left_commute)

lemma sha1_Final:
  assumes "sha1_holds ctx m"
  shows "fst (SHA1Final ctx) = sha1_hash m"
proof -
  let ?lf = "be_bytes 4 (bit_count_hi (length m)) @ be_bytes 4 (bit_count_lo (length m))"
  let ?c = "SHA1Update (SHA1Final_pad (SHA1Update ctx [0x80])) ?lf"
  have "pad_zeros (length m) = (120 - length (m @ [0x80]) mod 64) mod 64"
    by (auto simp: pad_zeros_def mod_Suc)
  then have "sha1_holds ?c (sha1_pad m)"
    using sha1_holds_Update [OF sha1_holds_pad [OF sha1_holds_Update [OF assms, of "[0x80]"]], of ?lf]
    by (simp add: sha1_pad_def)
  then have "absorb SHA1Transform sha1_iv (sha1_pad m) = (sha1_state ?c, [])"
    using sha1_pad_blocks [of m] by (simp add: sha1_holds_def)
  then have st: "sha1_state ?c = fst (absorb SHA1Transform sha1_iv (sha1_pad m))" by simp
  then have "length (sha1_state ?c) = 5"
    using absorb_invariant [of "\<lambda>s. length s = 5" sha1_iv SHA1Transform "sha1_pad m"] by simp
  moreover have "absorb SHA1Transform sha1_iv (sha1_pad m) = absorb sha1_fips180 sha1_iv (sha1_pad m)"
    by (rule absorb_cong) (rule SHA1Transform_eq)
  moreover have "sha1_count0 ctx = bit_count_lo (length m)" "sha1_count1 ctx = bit_count_hi (length m)"
    using assms by (simp_all add: sha1_holds_def)
  ultimately show ?thesis
    unfolding SHA1Final_def Let_def fst_conv sha1_final_count
    by (simp add: sha1_digest_bytes sha1_hash_def st)
qed

lemma sha1_holds_new: "sha1_holds Sha1Digest_new []"
  by (simp add: sha1_holds_def Sha1Digest_new_def SHA1Init_def bit_count_lo_def bit_count_hi_def)

lemma sha1_holds_finished: "sha1_holds (SHA1Init (snd (SHA1Final ctx))) []"
  by (simp add: sha1_holds_def SHA1Init_def SHA1Final_def Let_def bit_count_lo_def bit_count_hi_def)

interpretation sha1: message_digest Sha1Digest sha1_holds sha1_hash
proof unfold_locales
  fix d m len
  assume "sha1_holds d m" and "md_Size Sha1Digest \<le> len"
  then show "\<exists>d'. md_Finish Sha1Digest d len = (md_Size Sha1Digest, sha1_hash m, d') \<and> sha1_holds d' []"
    using sha1_Final [of d m] sha1_holds_finished [of d]
    by (auto simp: Sha1Digest_def Sha1Digest_Finish_def split: prod.splits)
qed (auto simp: Sha1Digest_def Sha1Digest_Finish_def sha1_holds_Update)

end
