(* ===== verification/Digests.thy ===== *)
theory Digests
  imports Md5 Sha1 String_Encode
begin

text \<open>
  The algorithm-indexed half of \<^verbatim>\<open>webrtc/base/messagedigest.cc\<close>: the factory and the
  digest and HMAC entry points that take an algorithm name, in the build without OpenSSL, where
  the in-tree MD5 and SHA-1 are the implementations. A digest object of either class is a value
  of \<open>Digest\<close>, and \<open>AnyDigest\<close> is the dispatch on its class.
\<close>

section \<open>The factory\<close>

definition DIGEST_MD5 :: string where "DIGEST_MD5 = ''md5''"
definition DIGEST_SHA_1 :: string where "DIGEST_SHA_1 = ''sha-1''"
definition DIGEST_SHA_224 :: string where "DIGEST_SHA_224 = ''sha-224''"
definition DIGEST_SHA_256 :: string where "DIGEST_SHA_256 = ''sha-256''"
definition DIGEST_SHA_384 :: string where "DIGEST_SHA_384 = ''sha-384''"
definition DIGEST_SHA_512 :: string where "DIGEST_SHA_512 = ''sha-512''"

datatype Digest = DigestMd5 MD5Context | DigestSha1 SHA1_CTX

definition MessageDigestFactory_Create :: "string \<Rightarrow> Digest option" where
  "MessageDigestFactory_Create alg =
     (if alg = DIGEST_MD5 then Some (DigestMd5 Md5Digest_new)
      else if alg = DIGEST_SHA_1 then Some (DigestSha1 Sha1Digest_new)
      else None)"

definition IsFips180DigestAlgorithm :: "string \<Rightarrow> bool" where
  "IsFips180DigestAlgorithm alg \<longleftrightarrow>
     alg = DIGEST_SHA_1 \<or> alg = DIGEST_SHA_224 \<or> alg = DIGEST_SHA_256 \<or>
     alg = DIGEST_SHA_384 \<or> alg = DIGEST_SHA_512"

section \<open>Digests and HMACs by name\<close>

definition Digest_Size :: "Digest \<Rightarrow> nat" where
  "Digest_Size d = (case d of DigestMd5 _ \<Rightarrow> md_Size Md5Digest | DigestSha1 _ \<Rightarrow> md_Size Sha1Digest)"

definition Digest_Compute :: "Digest \<Rightarrow> bytes \<Rightarrow> nat \<Rightarrow> nat \<times> bytes" where
  "Digest_Compute d input out_len =
     (case d of
        DigestMd5 c \<Rightarrow> (case ComputeDigest Md5Digest c input out_len of (n, out, _) \<Rightarrow> (n, out))
      | DigestSha1 c \<Rightarrow> (case ComputeDigest Sha1Digest c input out_len of (n, out, _) \<Rightarrow> (n, out)))"

definition Digest_Hmac :: "Digest \<Rightarrow> bytes \<Rightarrow> bytes \<Rightarrow> nat \<Rightarrow> nat \<times> bytes" where
  "Digest_Hmac d key input out_len =
     (case d of
        DigestMd5 c \<Rightarrow> (case ComputeHmac Md5Digest c key input out_len of (n, out, _) \<Rightarrow> (n, out))
      | DigestSha1 c \<Rightarrow> (case ComputeHmac Sha1Digest c key input out_len of (n, out, _) \<Rightarrow> (n, out)))"

definition ComputeDigest_alg :: "string \<Rightarrow> bytes \<Rightarrow> nat \<Rightarrow> nat \<times> bytes" where
  "ComputeDigest_alg alg input out_len =
     (case MessageDigestFactory_Create alg of
        Some d \<Rightarrow> Digest_Compute d input out_len
      | None \<Rightarrow> (0, []))"

text \<open>The string versions return the hexadecimal dump of the digest.\<close>

definition ComputeDigest_hex :: "Digest \<Rightarrow> bytes \<Rightarrow> bytes" where
  "ComputeDigest_hex d input =
     (let out = blit (replicate (Digest_Size d) 0) 0 (snd (Digest_Compute d input (Digest_Size d)))
      in hex_encode_str (take (Digest_Size d) out))"

definition ComputeDigest_alg_hex :: "string \<Rightarrow> bytes \<Rightarrow> bytes option" where
  "ComputeDigest_alg_hex alg input =
     (case MessageDigestFactory_Create alg of
        None \<Rightarrow> None
      | Some d \<Rightarrow> Some (ComputeDigest_hex d input))"

definition ComputeHmac_alg :: "string \<Rightarrow> bytes \<Rightarrow> bytes \<Rightarrow> nat \<Rightarrow> nat \<times> bytes" where
  "ComputeHmac_alg alg key input out_len =
     (case MessageDigestFactory_Create alg of
        None \<Rightarrow> (0, [])
      | Some d \<Rightarrow> Digest_Hmac d key input out_len)"

definition ComputeHmac_hex :: "Digest \<Rightarrow> bytes \<Rightarrow> bytes \<Rightarrow> bytes" where
  "ComputeHmac_hex d key input =
     (let out = blit (replicate (Digest_Size d) 0) 0 (snd (Digest_Hmac d key input (Digest_Size d)))
      in hex_encode_str (take (Digest_Size d) out))"

definition ComputeHmac_alg_hex :: "string \<Rightarrow> bytes \<Rightarrow> bytes \<Rightarrow> bytes option" where
  "ComputeHmac_alg_hex alg key input =
     (case MessageDigestFactory_Create alg of
        None \<Rightarrow> None
      | Some d \<Rightarrow> Some (ComputeHmac_hex d key input))"

section \<open>What they compute\<close>

lemma Md5Digest_Size [simp]: "md_Size Md5Digest = 16"
  by (simp add: Md5Digest_def)

lemma Sha1Digest_Size [simp]: "md_Size Sha1Digest = 20"
  by (simp add: Sha1Digest_def)

lemma ComputeHmac_md5:
  "ComputeHmac_alg DIGEST_MD5 key msg out_len =
     (if out_len < 16 then (0, []) else (16, hmac_rfc2104 md5_hash key msg))"
  using md5.ComputeHmac_rfc2104 [OF md5_holds_new, of out_len key msg]
  by (auto simp: ComputeHmac_alg_def MessageDigestFactory_Create_def Digest_Hmac_def ComputeHmac_def
      md5.Finish_short Let_def split: prod.splits)

lemma ComputeHmac_sha1:
  "ComputeHmac_alg DIGEST_SHA_1 key msg out_len =
     (if out_len < 20 then (0, []) else (20, hmac_rfc2104 sha1_hash key msg))"
  using sha1.ComputeHmac_rfc2104 [OF sha1_holds_new, of out_len key msg]
  by (auto simp: ComputeHmac_alg_def MessageDigestFactory_Create_def Digest_Hmac_def ComputeHmac_def
      sha1.Finish_short Let_def DIGEST_MD5_def DIGEST_SHA_1_def split: prod.splits)

lemma length_hmac_sha1 [simp]: "length (hmac_rfc2104 sha1_hash key msg) = 20"
  by (simp add: hmac_rfc2104_def Let_def)

section \<open>Properties\<close>

text \<open>C17: \<^verbatim>\<open>SHA1Transform\<close>, with its unrolled rounds over a sixteen-word workspace that is rewritten in
  place, is the FIPS 180-1 compression function with its 80-word message schedule.\<close>

theorem sha1_transform_fips180:
  assumes "length block = 64"
  shows "SHA1Transform state block = sha1_fips180 state block"
  using assms by (rule SHA1Transform_eq)

theorem sha1_transform_fips180_witness:
  "SHA1Transform (replicate 5 0) (replicate 64 0) = sha1_fips180 (replicate 5 0) (replicate 64 0)"
  by (rule sha1_transform_fips180) simp

text \<open>C29: However a message is cut into \<^verbatim>\<open>Update\<close> calls, \<^verbatim>\<open>Finish\<close> returns the SHA-1 hash of the whole
  message (padding, length field and all) and resets the object, so that the next message is
  hashed from the start; a buffer that is too short gives 0 and changes nothing.\<close>

theorem sha1_digest_streaming:
  "(case md_Finish Sha1Digest (foldl (md_Update Sha1Digest) Sha1Digest_new xss) len of (n, out, d) \<Rightarrow>
      if len < 20 then n = 0 \<and> out = [] \<and> d = foldl (md_Update Sha1Digest) Sha1Digest_new xss
      else n = 20 \<and> out = sha1_hash (concat xss) \<and>
           fst (snd (ComputeDigest Sha1Digest d msg 20)) = sha1_hash msg)"
proof -
  have h: "sha1_holds (foldl (md_Update Sha1Digest) Sha1Digest_new xss) (concat xss)"
    using sha1.holds_foldl [OF sha1_holds_new] by simp
  show ?thesis
  proof (cases "len < 20")
    case False
    then obtain d where d: "md_Finish Sha1Digest (foldl (md_Update Sha1Digest) Sha1Digest_new xss) len
        = (20, sha1_hash (concat xss), d)" "sha1_holds d []"
      using sha1.Finish_hash [OF h, of len] by auto
    with False sha1.ComputeDigest_hash [OF d(2), of 20 msg] show ?thesis by auto
  qed (simp add: sha1.Finish_short)
qed

text \<open>The same for MD5, with its little-endian length field.\<close>

theorem md5_digest_streaming:
  "(case md_Finish Md5Digest (foldl (md_Update Md5Digest) Md5Digest_new xss) len of (n, out, d) \<Rightarrow>
      if len < 16 then n = 0 \<and> out = [] \<and> d = foldl (md_Update Md5Digest) Md5Digest_new xss
      else n = 16 \<and> out = md5_hash (concat xss) \<and>
           fst (snd (ComputeDigest Md5Digest d msg 16)) = md5_hash msg)"
proof -
  have h: "md5_holds (foldl (md_Update Md5Digest) Md5Digest_new xss) (concat xss)"
    using md5.holds_foldl [OF md5_holds_new] by simp
  show ?thesis
  proof (cases "len < 16")
    case False
    then obtain d where d: "md_Finish Md5Digest (foldl (md_Update Md5Digest) Md5Digest_new xss) len
        = (16, md5_hash (concat xss), d)" "md5_holds d []"
      using md5.Finish_hash [OF h, of len] by auto
    with False md5.ComputeDigest_hash [OF d(2), of 16 msg] show ?thesis by auto
  qed (simp add: md5.Finish_short)
qed

text \<open>C19: \<^verbatim>\<open>ComputeHmac\<close> by algorithm name is the HMAC of RFC 2104 over SHA-1 and MD5, for keys of any
  length; it returns 0 when the output buffer is too short or the algorithm is unknown.\<close>

theorem compute_hmac_rfc2104:
  "ComputeHmac_alg alg key msg out_len =
     (if alg = DIGEST_SHA_1 \<and> 20 \<le> out_len then (20, hmac_rfc2104 sha1_hash key msg)
      else if alg = DIGEST_MD5 \<and> 16 \<le> out_len then (16, hmac_rfc2104 md5_hash key msg)
      else (0, []))"
proof -
  have "DIGEST_SHA_1 \<noteq> DIGEST_MD5" by (simp add: DIGEST_SHA_1_def DIGEST_MD5_def)
  moreover have "alg \<noteq> DIGEST_SHA_1 \<Longrightarrow> alg \<noteq> DIGEST_MD5 \<Longrightarrow> ComputeHmac_alg alg key msg out_len = (0, [])"
    by (simp add: ComputeHmac_alg_def MessageDigestFactory_Create_def)
  ultimately show ?thesis
    by (cases "alg = DIGEST_SHA_1"; cases "alg = DIGEST_MD5") (simp_all add: ComputeHmac_sha1 ComputeHmac_md5)
qed

end
