(* ===== verification/Crc32.thy ===== *)
theory Crc32
  imports Prelude
begin

text \<open>
  \<^verbatim>\<open>webrtc/base/crc32.{h,cc}\<close>: the table-driven CRC-32 behind the STUN fingerprint.

  The static table starts zeroed and is filled on first use; \<open>EnsureCrc32TableInited\<close> takes and
  returns it, and \<open>UpdateCrc32\<close> threads it like the program does. The reference definition
  \<open>crc32_bitwise\<close> shifts the polynomial in bit by bit; the table version is proved equal to it.
\<close>

definition kCrc32Polynomial :: uint32 where
  "kCrc32Polynomial = 0xEDB88320"

text \<open>One round of the inner loop, and the eight rounds that make a table entry.\<close>

definition crc32_round :: "uint32 \<Rightarrow> uint32" where
  "crc32_round c = (if c AND 1 \<noteq> 0 then kCrc32Polynomial XOR drop_bit 1 c else drop_bit 1 c)"

definition crc32_entry :: "uint32 \<Rightarrow> uint32" where
  "crc32_entry i = (crc32_round ^^ 8) i"

definition kCrc32Table_initial :: "uint32 list" where
  "kCrc32Table_initial = replicate 256 0"

definition EnsureCrc32TableInited :: "uint32 list \<Rightarrow> uint32 list" where
  "EnsureCrc32TableInited kCrc32Table =
     (if kCrc32Table ! (length kCrc32Table - 1) \<noteq> 0 then kCrc32Table
      else map (\<lambda>i. crc32_entry (of_nat i)) [0..<length kCrc32Table])"

definition crc32_step :: "uint32 list \<Rightarrow> uint32 \<Rightarrow> uint8 \<Rightarrow> uint32" where
  "crc32_step table c u = table ! unat ((c XOR ucast u) AND 0xFF) XOR drop_bit 8 c"

definition UpdateCrc32 :: "uint32 list \<Rightarrow> uint32 \<Rightarrow> bytes \<Rightarrow> uint32 \<times> uint32 list" where
  "UpdateCrc32 kCrc32Table start buf =
     (let table = EnsureCrc32TableInited kCrc32Table;
          c = start XOR 0xFFFFFFFF;
          c = foldl (crc32_step table) c buf
      in (c XOR 0xFFFFFFFF, table))"

definition ComputeCrc32 :: "uint32 list \<Rightarrow> bytes \<Rightarrow> uint32 \<times> uint32 list" where
  "ComputeCrc32 kCrc32Table buf = UpdateCrc32 kCrc32Table 0 buf"

text \<open>The table as the program can ever see it: still zeroed, or filled.\<close>

definition crc32_table_ok :: "uint32 list \<Rightarrow> bool" where
  "crc32_table_ok t \<longleftrightarrow>
     t = kCrc32Table_initial \<or> t = map (\<lambda>i. crc32_entry (of_nat i)) [0..<256]"

section \<open>Reference definition\<close>

text \<open>The register of a bit-serial CRC: the byte is added to the low end, then eight rounds.\<close>

definition crc32_bitwise :: "uint32 \<Rightarrow> bytes \<Rightarrow> uint32" where
  "crc32_bitwise start buf =
     foldl (\<lambda>c u. (crc32_round ^^ 8) (c XOR ucast u)) (start XOR 0xFFFFFFFF) buf XOR 0xFFFFFFFF"

section \<open>The table\<close>

lemma and_1_neq_0: "(x AND 1 \<noteq> 0) \<longleftrightarrow> bit (x :: uint32) 0"
  by (simp add: and_one_eq odd_iff_mod_2_eq_one bit_0)

lemma word_FF_eq_mask: "(0xFF :: uint32) = mask 8"
  by (simp add: mask_eq_exp_minus_1)

lemma crc32_round_xor: "crc32_round (a XOR b) = crc32_round a XOR crc32_round b"
  by (simp add: crc32_round_def and_1_neq_0 bit_xor_iff)
    (auto simp: xor.assoc xor.left_commute)

lemma crc32_rounds_xor: "(crc32_round ^^ n) (a XOR b) = (crc32_round ^^ n) a XOR (crc32_round ^^ n) b"
  by (induction n) (simp_all add: crc32_round_xor)

text \<open>A register whose low \<open>n\<close> bits are clear is just shifted by \<open>n\<close> rounds.\<close>

lemma crc32_rounds_clear:
  "(\<And>k. k < n \<Longrightarrow> \<not> bit a k) \<Longrightarrow> (crc32_round ^^ n) a = drop_bit n a"
proof (induction n arbitrary: a)
  case (Suc n)
  have r: "crc32_round a = drop_bit 1 a"
    using Suc.prems by (simp add: crc32_round_def and_1_neq_0)
  have "(crc32_round ^^ n) (drop_bit 1 a) = drop_bit n (drop_bit 1 a)"
    by (rule Suc.IH) (auto simp: bit_drop_bit_eq Suc.prems)
  then show ?case
    by (simp only: funpow_Suc_right o_apply r drop_bit_drop_bit) simp
qed simp

lemma crc32_rounds_split:
  "(crc32_round ^^ 8) c = crc32_entry (c AND 0xFF) XOR drop_bit 8 c"
proof -
  have c: "c = (c AND 0xFF) XOR push_bit 8 (drop_bit 8 c)"
    by (rule bit_word_eqI) (auto simp: bit_simps word_FF_eq_mask)
  have "drop_bit 8 (push_bit 8 (drop_bit 8 c)) = drop_bit 8 c"
    by (rule bit_word_eqI) (auto simp: bit_simps dest: bit_imp_le_length)
  then have hi: "(crc32_round ^^ 8) (push_bit 8 (drop_bit 8 c)) = drop_bit 8 c"
    by (subst crc32_rounds_clear) (auto simp: bit_push_bit_iff)
  show ?thesis
    by (subst c, subst crc32_rounds_xor) (simp only: hi crc32_entry_def)
qed

text \<open>The rounds are injective: the polynomial's top bit marks whether a one was shifted out.\<close>

lemma crc32_round_eq_0: "crc32_round a = 0 \<Longrightarrow> a = 0"
proof -
  assume z: "crc32_round a = 0"
  have top: "bit kCrc32Polynomial 31" "\<not> bit (drop_bit 1 a) 31"
    using bit_imp_le_length [of a 32] by (auto simp: kCrc32Polynomial_def bit_drop_bit_eq)
  have "\<not> bit a 0"
  proof
    assume "bit a 0"
    with z have "bit (kCrc32Polynomial XOR drop_bit 1 a) 31 = bit (0 :: uint32) 31"
      by (simp add: crc32_round_def and_1_neq_0)
    with top show False by (simp add: bit_xor_iff)
  qed
  with z have sh: "\<not> bit a 0" "drop_bit 1 a = 0"
    by (auto simp: crc32_round_def and_1_neq_0)
  show "a = 0"
  proof (rule bit_word_eqI)
    fix k
    have "bit (drop_bit 1 a) (k - 1) = bit (0 :: uint32) (k - 1)"
      by (simp only: sh(2))
    then show "bit a k = bit (0 :: uint32) k"
      using sh(1) by (cases k) (simp_all only: bit_drop_bit_eq o_apply, simp_all)
  qed
qed

lemma crc32_rounds_inject: "(crc32_round ^^ n) a = (crc32_round ^^ n) b \<longleftrightarrow> a = b"
proof
  assume "(crc32_round ^^ n) a = (crc32_round ^^ n) b"
  then have "(crc32_round ^^ n) (a XOR b) = 0"
    by (simp add: crc32_rounds_xor)
  then have "a XOR b = 0"
    by (induction n) (auto dest: crc32_round_eq_0)
  then show "a = b"
    using word_xor_right_cancel [of a b b] by simp
qed simp

lemma crc32_entry_0: "crc32_entry 0 = 0"
  by (simp add: crc32_entry_def crc32_rounds_clear)

lemma crc32_entry_255: "crc32_entry 255 \<noteq> 0"
  using crc32_rounds_inject [of 8 255 0] crc32_entry_0 by (simp add: crc32_entry_def)

lemma EnsureCrc32TableInited_ok:
  assumes "crc32_table_ok t"
  shows "EnsureCrc32TableInited t = map (\<lambda>i. crc32_entry (of_nat i)) [0..<256]"
    and "crc32_table_ok (EnsureCrc32TableInited t)"
proof -
  let ?full = "map (\<lambda>i. crc32_entry (of_nat i)) [0..<256]"
  have last: "?full ! 255 = crc32_entry 255"
    by (simp add: nth_map)
  have "t = kCrc32Table_initial \<or> t = ?full"
    using assms by (simp add: crc32_table_ok_def)
  then show eq: "EnsureCrc32TableInited t = ?full"
  proof
    assume "t = kCrc32Table_initial"
    then show ?thesis
      by (simp add: EnsureCrc32TableInited_def kCrc32Table_initial_def)
  next
    assume "t = ?full"
    with last crc32_entry_255 show ?thesis
      by (simp only: EnsureCrc32TableInited_def length_map length_upt) simp
  qed
  then show "crc32_table_ok (EnsureCrc32TableInited t)"
    by (simp add: crc32_table_ok_def)
qed

lemma crc32_step_eq:
  "crc32_step (map (\<lambda>i. crc32_entry (of_nat i)) [0..<256]) c u = (crc32_round ^^ 8) (c XOR ucast u)"
proof -
  let ?i = "(c XOR ucast u) AND 0xFF"
  have "unat ?i < 256"
    using word_and_le1 [of "c XOR ucast u" "0xFF"] by (simp add: word_le_nat_alt)
  then have t: "map (\<lambda>i. crc32_entry (of_nat i)) [0..<256] ! unat ?i = crc32_entry ?i"
    by simp
  have "drop_bit 8 (c XOR ucast u) = drop_bit 8 c"
    by (rule bit_word_eqI) (auto simp: bit_simps dest: bit_imp_le_length)
  then show ?thesis
    by (simp only: crc32_step_def t crc32_rounds_split)
qed

lemma UpdateCrc32_eq:
  assumes "crc32_table_ok t"
  shows "UpdateCrc32 t start buf = (crc32_bitwise start buf, map (\<lambda>i. crc32_entry (of_nat i)) [0..<256])"
proof -
  have step: "crc32_step (map (\<lambda>i. crc32_entry (of_nat i)) [0..<256])
      = (\<lambda>c u. (crc32_round ^^ 8) (c XOR ucast u))"
    by (intro ext crc32_step_eq)
  show ?thesis
    by (simp only: UpdateCrc32_def Let_def EnsureCrc32TableInited_ok (1) [OF assms] step crc32_bitwise_def)
qed

section \<open>Error detection\<close>

lemma crc32_register_inject:
  "foldl (\<lambda>c u. (crc32_round ^^ 8) (c XOR ucast u)) c xs
     = foldl (\<lambda>c u. (crc32_round ^^ 8) (c XOR ucast u)) d xs \<longleftrightarrow> c = d"
proof (induction xs arbitrary: c d)
  case (Cons x xs)
  show ?case by (simp only: foldl_Cons Cons.IH crc32_rounds_inject word_xor_right_cancel)
qed simp

lemma crc32_byte_inject:
  assumes "x \<noteq> y"
  shows "crc32_bitwise start (ps @ x # ss) \<noteq> crc32_bitwise start (ps @ y # ss)"
proof -
  let ?F = "\<lambda>c u. (crc32_round ^^ 8) (c XOR ucast u)"
  define c where "c = foldl ?F (start XOR 0xFFFFFFFF) ps"
  have "(ucast x :: uint32) \<noteq> ucast y"
    using assms by (simp add: ucast_up_inject)
  then have "c XOR ucast x \<noteq> c XOR ucast y"
    by (simp only: word_xor_left_cancel not_False_eq_True)
  then have "foldl ?F (?F c x) ss \<noteq> foldl ?F (?F c y) ss"
    unfolding crc32_register_inject crc32_rounds_inject .
  then have "foldl ?F (?F c x) ss XOR 0xFFFFFFFF \<noteq> foldl ?F (?F c y) ss XOR 0xFFFFFFFF"
    by (simp only: word_xor_right_cancel not_False_eq_True)
  then show ?thesis
    by (simp only: crc32_bitwise_def foldl_append foldl_Cons c_def not_False_eq_True)
qed

section \<open>Properties\<close>

text \<open>C18: The table-driven \<^verbatim>\<open>UpdateCrc32\<close>, with its lazily built table, computes the bit-by-bit CRC-32 and
  leaves the table built; a CRC continued over a second buffer is the CRC of the concatenation.\<close>

theorem crc32_update_correct:
  assumes "crc32_table_ok t"
  shows "UpdateCrc32 t start buf = (crc32_bitwise start buf, EnsureCrc32TableInited t) \<and>
    crc32_table_ok (EnsureCrc32TableInited t) \<and>
    (case UpdateCrc32 t start buf of (c, t') \<Rightarrow>
       fst (UpdateCrc32 t' c buf') = fst (UpdateCrc32 t start (buf @ buf')))"
proof -
  note E = EnsureCrc32TableInited_ok [OF assms]
  show ?thesis
    unfolding UpdateCrc32_eq [OF assms] E(1) [symmetric] prod.case UpdateCrc32_eq [OF E(2)] fst_conv
    using E(2) by (simp add: crc32_bitwise_def xor.assoc)
qed

theorem crc32_update_correct_witness:
  "crc32_table_ok kCrc32Table_initial \<and>
   UpdateCrc32 kCrc32Table_initial 0 [0x31] = (crc32_bitwise 0 [0x31], EnsureCrc32TableInited kCrc32Table_initial) \<and>
   fst (UpdateCrc32 kCrc32Table_initial 0 [0x31]) = 0x83DCEFB7"
proof -
  have ok: "crc32_table_ok kCrc32Table_initial" by (simp add: crc32_table_ok_def)
  have "crc32_bitwise 0 [0x31] = 0x83DCEFB7" by code_simp
  with ok crc32_update_correct [OF ok, of 0 "[0x31]"] show ?thesis by simp
qed

text \<open>Two messages that differ in exactly one byte have different checksums.\<close>

theorem crc32_detects_byte_error:
  assumes "x \<noteq> y"
  shows "fst (ComputeCrc32 kCrc32Table_initial (ps @ x # ss)) \<noteq> fst (ComputeCrc32 kCrc32Table_initial (ps @ y # ss))"
proof -
  have ok: "crc32_table_ok kCrc32Table_initial" by (simp add: crc32_table_ok_def)
  show ?thesis
    unfolding ComputeCrc32_def UpdateCrc32_eq [OF ok] fst_conv by (rule crc32_byte_inject [OF assms])
qed

theorem crc32_detects_byte_error_witness:
  "fst (ComputeCrc32 kCrc32Table_initial ([7] @ 1 # [9])) \<noteq> fst (ComputeCrc32 kCrc32Table_initial ([7] @ 2 # [9]))"
  by (rule crc32_detects_byte_error) simp

end
