(* ===== verification/Stun.thy ===== *)
theory Stun
  imports Byte_Buffer Ip_Address Digests Crc32 "HOL-Library.Signed_Division"
begin

text \<open>
  \<^verbatim>\<open>webrtc/p2p/base/stun.{h,cc}\<close>: STUN messages and attributes, their parser and serialiser, the
  MESSAGE-INTEGRITY and FINGERPRINT attributes, and the message subclasses for relays, TURN and
  ICE.

  An attribute object is its type, its length field and a value of \<open>StunValue\<close>, one constructor
  per attribute class. The owner of an attribute is the message that holds it; all the code reads
  of it is the transaction id, so the operations take that as an argument. A read that fails is
  \<open>None\<close> (what it had already stored in the object is dropped); a write that fails is \<open>None\<close>.
  \<open>h\<close> is the byte order of the host. The bytes of a byte-string attribute with a null pointer
  are the empty list.
\<close>

unbundle bit_operations_syntax

section \<open>Constants\<close>

datatype StunAttributeValueType =
  STUN_VALUE_UNKNOWN | STUN_VALUE_ADDRESS | STUN_VALUE_XOR_ADDRESS | STUN_VALUE_UINT32
| STUN_VALUE_UINT64 | STUN_VALUE_BYTE_STRING | STUN_VALUE_ERROR_CODE | STUN_VALUE_UINT16_LIST

definition STUN_ATTR_MAPPED_ADDRESS :: uint16 where "STUN_ATTR_MAPPED_ADDRESS = 0x0001"
definition STUN_ATTR_USERNAME :: uint16 where "STUN_ATTR_USERNAME = 0x0006"
definition STUN_ATTR_MESSAGE_INTEGRITY :: uint16 where "STUN_ATTR_MESSAGE_INTEGRITY = 0x0008"
definition STUN_ATTR_ERROR_CODE :: uint16 where "STUN_ATTR_ERROR_CODE = 0x0009"
definition STUN_ATTR_UNKNOWN_ATTRIBUTES :: uint16 where "STUN_ATTR_UNKNOWN_ATTRIBUTES = 0x000a"
definition STUN_ATTR_REALM :: uint16 where "STUN_ATTR_REALM = 0x0014"
definition STUN_ATTR_NONCE :: uint16 where "STUN_ATTR_NONCE = 0x0015"
definition STUN_ATTR_XOR_MAPPED_ADDRESS :: uint16 where "STUN_ATTR_XOR_MAPPED_ADDRESS = 0x0020"
definition STUN_ATTR_SOFTWARE :: uint16 where "STUN_ATTR_SOFTWARE = 0x8022"
definition STUN_ATTR_ALTERNATE_SERVER :: uint16 where "STUN_ATTR_ALTERNATE_SERVER = 0x8023"
definition STUN_ATTR_FINGERPRINT :: uint16 where "STUN_ATTR_FINGERPRINT = 0x8028"
definition STUN_ATTR_RETRANSMIT_COUNT :: uint16 where "STUN_ATTR_RETRANSMIT_COUNT = 0xFF00"

definition STUN_ADDRESS_IPV4 :: uint8 where "STUN_ADDRESS_IPV4 = 1"
definition STUN_ADDRESS_IPV6 :: uint8 where "STUN_ADDRESS_IPV6 = 2"
definition STUN_FINGERPRINT_XOR_VALUE :: uint32 where "STUN_FINGERPRINT_XOR_VALUE = 0x5354554E"
definition kStunTypeMask :: int where "kStunTypeMask = 0x0110"
definition kStunAttributeHeaderSize :: nat where "kStunAttributeHeaderSize = 4"
definition kStunHeaderSize :: nat where "kStunHeaderSize = 20"
definition kStunTransactionIdOffset :: nat where "kStunTransactionIdOffset = 8"
definition kStunTransactionIdLength :: nat where "kStunTransactionIdLength = 12"
definition kStunMagicCookie :: uint32 where "kStunMagicCookie = 0x2112A442"
definition kStunMagicCookieLength :: nat where "kStunMagicCookieLength = 4"
definition kStunLegacyTransactionIdLength :: nat where "kStunLegacyTransactionIdLength = 16"
definition kStunMessageIntegritySize :: nat where "kStunMessageIntegritySize = 20"

text \<open>The attributes of relays, TURN and ICE.\<close>

abbreviation STUN_ATTR_LIFETIME :: uint16 where "STUN_ATTR_LIFETIME \<equiv> 0x000d"
abbreviation STUN_ATTR_MAGIC_COOKIE :: uint16 where "STUN_ATTR_MAGIC_COOKIE \<equiv> 0x000f"
abbreviation STUN_ATTR_BANDWIDTH :: uint16 where "STUN_ATTR_BANDWIDTH \<equiv> 0x0010"
abbreviation STUN_ATTR_DESTINATION_ADDRESS :: uint16 where "STUN_ATTR_DESTINATION_ADDRESS \<equiv> 0x0011"
abbreviation STUN_ATTR_SOURCE_ADDRESS2 :: uint16 where "STUN_ATTR_SOURCE_ADDRESS2 \<equiv> 0x0012"
abbreviation STUN_ATTR_DATA :: uint16 where "STUN_ATTR_DATA \<equiv> 0x0013"
abbreviation STUN_ATTR_OPTIONS :: uint16 where "STUN_ATTR_OPTIONS \<equiv> 0x8001"

abbreviation STUN_ATTR_CHANNEL_NUMBER :: uint16 where "STUN_ATTR_CHANNEL_NUMBER \<equiv> 0x000C"
abbreviation STUN_ATTR_TURN_LIFETIME :: uint16 where "STUN_ATTR_TURN_LIFETIME \<equiv> 0x000d"
abbreviation STUN_ATTR_XOR_PEER_ADDRESS :: uint16 where "STUN_ATTR_XOR_PEER_ADDRESS \<equiv> 0x0012"
abbreviation STUN_ATTR_XOR_RELAYED_ADDRESS :: uint16 where "STUN_ATTR_XOR_RELAYED_ADDRESS \<equiv> 0x0016"
abbreviation STUN_ATTR_EVEN_PORT :: uint16 where "STUN_ATTR_EVEN_PORT \<equiv> 0x0018"
abbreviation STUN_ATTR_REQUESTED_TRANSPORT :: uint16 where "STUN_ATTR_REQUESTED_TRANSPORT \<equiv> 0x0019"
abbreviation STUN_ATTR_DONT_FRAGMENT :: uint16 where "STUN_ATTR_DONT_FRAGMENT \<equiv> 0x001A"
abbreviation STUN_ATTR_RESERVATION_TOKEN :: uint16 where "STUN_ATTR_RESERVATION_TOKEN \<equiv> 0x0022"

abbreviation STUN_ATTR_PRIORITY :: uint16 where "STUN_ATTR_PRIORITY \<equiv> 0x0024"
abbreviation STUN_ATTR_USE_CANDIDATE :: uint16 where "STUN_ATTR_USE_CANDIDATE \<equiv> 0x0025"
abbreviation STUN_ATTR_ICE_CONTROLLED :: uint16 where "STUN_ATTR_ICE_CONTROLLED \<equiv> 0x8029"
abbreviation STUN_ATTR_ICE_CONTROLLING :: uint16 where "STUN_ATTR_ICE_CONTROLLING \<equiv> 0x802A"

definition EMPTY_TRANSACTION_ID :: bytes where
  "EMPTY_TRANSACTION_ID = ascii ''0000000000000000''"

section \<open>Attributes\<close>

text \<open>\<^verbatim>\<open>rtc::SocketAddress\<close>, as far as STUN uses it.\<close>

record SocketAddress =
  sa_ip :: IPAddress
  sa_port :: uint16

datatype StunValue =
  VAddress SocketAddress
| VXorAddress SocketAddress
| VUInt32 uint32
| VUInt64 uint64
| VByteString bytes
| VErrorCode uint8 uint8 bytes
| VUInt16List "uint16 list"

record StunAttribute =
  at_type :: uint16
  at_length :: uint16
  at_value :: StunValue

definition value_type :: "StunAttribute \<Rightarrow> StunAttributeValueType" where
  "value_type a =
     (case at_value a of
        VAddress _ \<Rightarrow> STUN_VALUE_ADDRESS | VXorAddress _ \<Rightarrow> STUN_VALUE_XOR_ADDRESS
      | VUInt32 _ \<Rightarrow> STUN_VALUE_UINT32 | VUInt64 _ \<Rightarrow> STUN_VALUE_UINT64
      | VByteString _ \<Rightarrow> STUN_VALUE_BYTE_STRING | VErrorCode _ _ _ \<Rightarrow> STUN_VALUE_ERROR_CODE
      | VUInt16List _ \<Rightarrow> STUN_VALUE_UINT16_LIST)"

definition ConsumePadding :: "uint16 \<Rightarrow> ByteBuffer \<Rightarrow> ByteBuffer" where
  "ConsumePadding len buf =
     (let remainder = unat len mod 4 in
      if remainder > 0 then
        (case ByteBuffer_Consume (4 - remainder) buf of None \<Rightarrow> buf | Some buf' \<Rightarrow> buf')
      else buf)"

definition WritePadding :: "uint16 \<Rightarrow> ByteBuffer \<Rightarrow> ByteBuffer" where
  "WritePadding len buf =
     (let remainder = unat len mod 4 in
      if remainder > 0 then WriteBytes (replicate (4 - remainder) 0) buf else buf)"

subsection \<open>Addresses\<close>

definition family_of :: "SocketAddress \<Rightarrow> uint8" where
  "family_of addr =
     (case ip_family (sa_ip addr) of
        AF_INET \<Rightarrow> STUN_ADDRESS_IPV4 | AF_INET6 \<Rightarrow> STUN_ADDRESS_IPV6 | AF_UNSPEC \<Rightarrow> 0)"

definition EnsureAddressLength :: "SocketAddress \<Rightarrow> uint16" where
  "EnsureAddressLength addr =
     (case ip_family (sa_ip addr) of AF_INET \<Rightarrow> 8 | AF_INET6 \<Rightarrow> 20 | AF_UNSPEC \<Rightarrow> 0)"

definition StunAddressAttribute_new :: "uint16 \<Rightarrow> SocketAddress \<Rightarrow> StunAttribute" where
  "StunAddressAttribute_new ty addr =
     \<lparr>at_type = ty, at_length = EnsureAddressLength addr, at_value = VAddress addr\<rparr>"

definition StunXorAddressAttribute_new :: "uint16 \<Rightarrow> SocketAddress \<Rightarrow> StunAttribute" where
  "StunXorAddressAttribute_new ty addr =
     \<lparr>at_type = ty, at_length = EnsureAddressLength addr, at_value = VXorAddress addr\<rparr>"

definition StunAddressAttribute_Read :: "bool \<Rightarrow> uint16 \<Rightarrow> ByteBuffer \<Rightarrow> (SocketAddress \<times> ByteBuffer) option" where
  "StunAddressAttribute_Read h len buf =
     Option.bind (ReadUInt8 h buf) (\<lambda>(dummy, buf).
     Option.bind (ReadUInt8 h buf) (\<lambda>(stun_family, buf).
     Option.bind (ReadUInt16 h buf) (\<lambda>(port, buf).
     if stun_family = STUN_ADDRESS_IPV4 then
       if len \<noteq> 8 then None
       else Option.bind (ReadBytes 4 buf) (\<lambda>(v4addr, buf).
              Some (\<lparr>sa_ip = IPAddress_v4 v4addr, sa_port = port\<rparr>, buf))
     else if stun_family = STUN_ADDRESS_IPV6 then
       if len \<noteq> 20 then None
       else Option.bind (ReadBytes 16 buf) (\<lambda>(v6addr, buf).
              Some (\<lparr>sa_ip = IPAddress_v6 v6addr, sa_port = port\<rparr>, buf))
     else None)))"

definition WriteIP :: "IPAddress \<Rightarrow> ByteBuffer \<Rightarrow> ByteBuffer" where
  "WriteIP ip buf =
     (case ip_family ip of
        AF_INET \<Rightarrow> WriteBytes (ipv4_address ip) buf
      | AF_INET6 \<Rightarrow> WriteBytes (ipv6_address ip) buf
      | AF_UNSPEC \<Rightarrow> buf)"

definition StunAddressAttribute_Write :: "bool \<Rightarrow> SocketAddress \<Rightarrow> ByteBuffer \<Rightarrow> ByteBuffer option" where
  "StunAddressAttribute_Write h addr buf =
     (let address_family = family_of addr in
      if address_family = 0 then None
      else
        let buf = WriteUInt8 h 0 buf;
            buf = WriteUInt8 h address_family buf;
            buf = WriteUInt16 h (sa_port addr) buf
        in Some (WriteIP (sa_ip addr) buf))"

text \<open>The owner is \<open>Some\<close> of its transaction id, or \<open>None\<close> for an attribute without one.\<close>

definition GetXoredIP :: "bool \<Rightarrow> bytes option \<Rightarrow> IPAddress \<Rightarrow> IPAddress" where
  "GetXoredIP h owner ip =
     (case owner of
        None \<Rightarrow> IPAddress_unspec
      | Some transaction_id \<Rightarrow>
          (case ip_family ip of
             AF_INET \<Rightarrow>
               IPAddress_v4 (host_bytes h 4 (host_word h (ipv4_address ip) XOR HostToNetwork32 h kStunMagicCookie))
           | AF_INET6 \<Rightarrow>
               if length transaction_id = kStunTransactionIdLength then
                 let ip_as_ints = v6_as_ints h (ipv6_address ip);
                     transactionid_as_ints = map (\<lambda>i. host_word h (take 4 (drop (4 * i) transaction_id))) [0..<3]
                 in IPAddress_v6 (v6_of_ints h
                      [ip_as_ints ! 0 XOR HostToNetwork32 h kStunMagicCookie,
                       ip_as_ints ! 1 XOR transactionid_as_ints ! 0,
                       ip_as_ints ! 2 XOR transactionid_as_ints ! 1,
                       ip_as_ints ! 3 XOR transactionid_as_ints ! 2])
               else IPAddress_unspec
           | AF_UNSPEC \<Rightarrow> IPAddress_unspec))"

definition xored_port :: "uint16 \<Rightarrow> uint16" where
  "xored_port port = ucast ((ucast port :: uint32) XOR drop_bit 16 kStunMagicCookie)"

definition StunXorAddressAttribute_Read ::
  "bool \<Rightarrow> bytes option \<Rightarrow> uint16 \<Rightarrow> ByteBuffer \<Rightarrow> (SocketAddress \<times> ByteBuffer) option" where
  "StunXorAddressAttribute_Read h owner len buf =
     Option.bind (StunAddressAttribute_Read h len buf) (\<lambda>(addr, buf).
       let xoredport = xored_port (sa_port addr);
           xored_ip = GetXoredIP h owner (sa_ip addr)
       in Some (\<lparr>sa_ip = xored_ip, sa_port = xoredport\<rparr>, buf))"

definition StunXorAddressAttribute_Write ::
  "bool \<Rightarrow> bytes option \<Rightarrow> SocketAddress \<Rightarrow> ByteBuffer \<Rightarrow> ByteBuffer option" where
  "StunXorAddressAttribute_Write h owner addr buf =
     (let address_family = family_of addr in
      if address_family = 0 then None
      else
        let xored_ip = GetXoredIP h owner (sa_ip addr) in
        if ip_family xored_ip = AF_UNSPEC then None
        else
          let buf = WriteUInt8 h 0 buf;
              buf = WriteUInt8 h (family_of addr) buf;
              buf = WriteUInt16 h (xored_port (sa_port addr)) buf
          in Some (WriteIP xored_ip buf))"

subsection \<open>Integers\<close>

definition StunUInt32Attribute_new :: "uint16 \<Rightarrow> uint32 \<Rightarrow> StunAttribute" where
  "StunUInt32Attribute_new ty v = \<lparr>at_type = ty, at_length = 4, at_value = VUInt32 v\<rparr>"

definition StunUInt32_GetBit :: "uint32 \<Rightarrow> nat \<Rightarrow> bool" where
  "StunUInt32_GetBit bits index \<longleftrightarrow> drop_bit index bits AND 0x1 \<noteq> 0"

definition StunUInt32_SetBit :: "uint32 \<Rightarrow> nat \<Rightarrow> bool \<Rightarrow> uint32" where
  "StunUInt32_SetBit bits index v =
     (let bits = bits AND NOT (push_bit index 1)
      in bits OR (if v then push_bit index 1 else 0))"

definition StunUInt32Attribute_Read :: "bool \<Rightarrow> uint16 \<Rightarrow> ByteBuffer \<Rightarrow> (uint32 \<times> ByteBuffer) option" where
  "StunUInt32Attribute_Read h len buf = (if len \<noteq> 4 then None else ReadUInt32 h buf)"

definition StunUInt64Attribute_new :: "uint16 \<Rightarrow> uint64 \<Rightarrow> StunAttribute" where
  "StunUInt64Attribute_new ty v = \<lparr>at_type = ty, at_length = 8, at_value = VUInt64 v\<rparr>"

definition StunUInt64Attribute_Read :: "bool \<Rightarrow> uint16 \<Rightarrow> ByteBuffer \<Rightarrow> (uint64 \<times> ByteBuffer) option" where
  "StunUInt64Attribute_Read h len buf = (if len \<noteq> 8 then None else ReadUInt64 h buf)"

subsection \<open>Byte strings\<close>

definition StunByteStringAttribute_CopyBytes :: "bytes \<Rightarrow> StunAttribute \<Rightarrow> StunAttribute" where
  "StunByteStringAttribute_CopyBytes bs a = a\<lparr>at_length := of_nat (length bs), at_value := VByteString bs\<rparr>"

definition StunByteStringAttribute_new :: "uint16 \<Rightarrow> bytes \<Rightarrow> StunAttribute" where
  "StunByteStringAttribute_new ty bs =
     StunByteStringAttribute_CopyBytes bs \<lparr>at_type = ty, at_length = 0, at_value = VByteString []\<rparr>"

definition StunByteStringAttribute_Read :: "uint16 \<Rightarrow> ByteBuffer \<Rightarrow> (bytes \<times> ByteBuffer) option" where
  "StunByteStringAttribute_Read len buf =
     Option.bind (ReadBytes (unat len) buf) (\<lambda>(bs, buf). Some (bs, ConsumePadding len buf))"

definition StunByteStringAttribute_Write :: "uint16 \<Rightarrow> bytes \<Rightarrow> ByteBuffer \<Rightarrow> ByteBuffer" where
  "StunByteStringAttribute_Write len bs buf = WritePadding len (WriteBytes (take (unat len) bs) buf)"

subsection \<open>Error codes\<close>

definition StunErrorCode_SetCode :: "int \<Rightarrow> uint8 \<times> uint8" where
  "StunErrorCode_SetCode code = (of_int (code sdiv 100), of_int (code smod 100))"

definition StunErrorCode_code :: "uint8 \<Rightarrow> uint8 \<Rightarrow> int" where
  "StunErrorCode_code eclass number = uint eclass * 100 + uint number"

definition StunErrorCodeAttribute_new :: "uint16 \<Rightarrow> int \<Rightarrow> bytes \<Rightarrow> StunAttribute" where
  "StunErrorCodeAttribute_new ty code reason =
     (case StunErrorCode_SetCode code of (c, n) \<Rightarrow>
        \<lparr>at_type = ty, at_length = 4 + of_nat (length reason), at_value = VErrorCode c n reason\<rparr>)"

definition StunErrorCodeAttribute_Read ::
  "bool \<Rightarrow> uint16 \<Rightarrow> bytes \<Rightarrow> ByteBuffer \<Rightarrow> ((uint8 \<times> uint8 \<times> bytes) \<times> ByteBuffer) option" where
  "StunErrorCodeAttribute_Read h len reason buf =
     (if len < 4 then None
      else Option.bind (ReadUInt32 h buf) (\<lambda>(val, buf).
        let eclass = ucast (drop_bit 8 val AND 0x7); number = ucast (val AND 0xff) in
        Option.bind (ReadString reason (unat len - 4) buf) (\<lambda>(reason, buf).
          Some ((eclass, number, reason), ConsumePadding len buf))))"

definition StunErrorCodeAttribute_Write ::
  "bool \<Rightarrow> uint16 \<Rightarrow> uint8 \<Rightarrow> uint8 \<Rightarrow> bytes \<Rightarrow> ByteBuffer \<Rightarrow> ByteBuffer" where
  "StunErrorCodeAttribute_Write h len eclass number reason buf =
     (let buf = WriteUInt32 h (push_bit 8 (ucast eclass) OR ucast number) buf;
          buf = WriteString reason buf
      in WritePadding len buf)"

subsection \<open>Lists of attribute types\<close>

definition StunUInt16ListAttribute_AddType :: "uint16 \<Rightarrow> StunAttribute \<Rightarrow> StunAttribute" where
  "StunUInt16ListAttribute_AddType v a =
     (case at_value a of
        VUInt16List types \<Rightarrow>
          a\<lparr>at_value := VUInt16List (types @ [v]), at_length := of_nat (length (types @ [v]) * 2)\<rparr>
      | _ \<Rightarrow> a)"

fun read_uint16s :: "bool \<Rightarrow> nat \<Rightarrow> uint16 list \<Rightarrow> ByteBuffer \<Rightarrow> (uint16 list \<times> ByteBuffer) option" where
  "read_uint16s h 0 types buf = Some (types, buf)"
| "read_uint16s h (Suc n) types buf =
     Option.bind (ReadUInt16 h buf) (\<lambda>(attr, buf). read_uint16s h n (types @ [attr]) buf)"

definition StunUInt16ListAttribute_Read ::
  "bool \<Rightarrow> uint16 \<Rightarrow> uint16 list \<Rightarrow> ByteBuffer \<Rightarrow> (uint16 list \<times> ByteBuffer) option" where
  "StunUInt16ListAttribute_Read h len types buf =
     (if unat len mod 2 \<noteq> 0 then None
      else Option.bind (read_uint16s h (unat len div 2) types buf) (\<lambda>(types, buf).
        Some (types, ConsumePadding len buf)))"

definition StunUInt16ListAttribute_Write :: "bool \<Rightarrow> uint16 \<Rightarrow> uint16 list \<Rightarrow> ByteBuffer \<Rightarrow> ByteBuffer" where
  "StunUInt16ListAttribute_Write h len types buf =
     WritePadding len (fold (WriteUInt16 h) types buf)"

subsection \<open>Construction by type, and the virtual methods\<close>

definition StunAttribute_Create :: "StunAttributeValueType \<Rightarrow> uint16 \<Rightarrow> uint16 \<Rightarrow> StunAttribute option" where
  "StunAttribute_Create vt ty len =
     (case vt of
        STUN_VALUE_ADDRESS \<Rightarrow>
          Some \<lparr>at_type = ty, at_length = len, at_value = VAddress \<lparr>sa_ip = IPAddress_unspec, sa_port = 0\<rparr>\<rparr>
      | STUN_VALUE_XOR_ADDRESS \<Rightarrow>
          Some \<lparr>at_type = ty, at_length = len, at_value = VXorAddress \<lparr>sa_ip = IPAddress_unspec, sa_port = 0\<rparr>\<rparr>
      | STUN_VALUE_UINT32 \<Rightarrow> Some (StunUInt32Attribute_new ty 0)
      | STUN_VALUE_UINT64 \<Rightarrow> Some (StunUInt64Attribute_new ty 0)
      | STUN_VALUE_BYTE_STRING \<Rightarrow> Some \<lparr>at_type = ty, at_length = len, at_value = VByteString []\<rparr>
      | STUN_VALUE_ERROR_CODE \<Rightarrow> Some \<lparr>at_type = ty, at_length = len, at_value = VErrorCode 0 0 []\<rparr>
      | STUN_VALUE_UINT16_LIST \<Rightarrow> Some \<lparr>at_type = ty, at_length = len, at_value = VUInt16List []\<rparr>
      | STUN_VALUE_UNKNOWN \<Rightarrow> None)"

definition StunAttribute_Read ::
  "bool \<Rightarrow> bytes option \<Rightarrow> StunAttribute \<Rightarrow> ByteBuffer \<Rightarrow> (StunAttribute \<times> ByteBuffer) option" where
  "StunAttribute_Read h owner a buf =
     (case at_value a of
        VAddress _ \<Rightarrow> Option.bind (StunAddressAttribute_Read h (at_length a) buf) (\<lambda>(addr, buf).
          Some (a\<lparr>at_value := VAddress addr, at_length := EnsureAddressLength addr\<rparr>, buf))
      | VXorAddress _ \<Rightarrow> Option.bind (StunXorAddressAttribute_Read h owner (at_length a) buf) (\<lambda>(addr, buf).
          Some (a\<lparr>at_value := VXorAddress addr, at_length := EnsureAddressLength addr\<rparr>, buf))
      | VUInt32 _ \<Rightarrow> Option.bind (StunUInt32Attribute_Read h (at_length a) buf) (\<lambda>(v, buf).
          Some (a\<lparr>at_value := VUInt32 v\<rparr>, buf))
      | VUInt64 _ \<Rightarrow> Option.bind (StunUInt64Attribute_Read h (at_length a) buf) (\<lambda>(v, buf).
          Some (a\<lparr>at_value := VUInt64 v\<rparr>, buf))
      | VByteString _ \<Rightarrow> Option.bind (StunByteStringAttribute_Read (at_length a) buf) (\<lambda>(bs, buf).
          Some (a\<lparr>at_value := VByteString bs\<rparr>, buf))
      | VErrorCode _ _ reason \<Rightarrow>
          Option.bind (StunErrorCodeAttribute_Read h (at_length a) reason buf) (\<lambda>((c, n, reason), buf).
          Some (a\<lparr>at_value := VErrorCode c n reason\<rparr>, buf))
      | VUInt16List types \<Rightarrow>
          Option.bind (StunUInt16ListAttribute_Read h (at_length a) types buf) (\<lambda>(types, buf).
          Some (a\<lparr>at_value := VUInt16List types\<rparr>, buf)))"

definition StunAttribute_Write ::
  "bool \<Rightarrow> bytes option \<Rightarrow> StunAttribute \<Rightarrow> ByteBuffer \<Rightarrow> ByteBuffer option" where
  "StunAttribute_Write h owner a buf =
     (case at_value a of
        VAddress addr \<Rightarrow> StunAddressAttribute_Write h addr buf
      | VXorAddress addr \<Rightarrow> StunXorAddressAttribute_Write h owner addr buf
      | VUInt32 v \<Rightarrow> Some (WriteUInt32 h v buf)
      | VUInt64 v \<Rightarrow> Some (WriteUInt64 h v buf)
      | VByteString bs \<Rightarrow> Some (StunByteStringAttribute_Write (at_length a) bs buf)
      | VErrorCode c n reason \<Rightarrow> Some (StunErrorCodeAttribute_Write h (at_length a) c n reason buf)
      | VUInt16List types \<Rightarrow> Some (StunUInt16ListAttribute_Write h (at_length a) types buf))"

subsection \<open>Accessors and setters\<close>

text \<open>An index out of range (the \<open>ASSERT\<close>s, or undefined behaviour of the vector) is \<open>None\<close>.\<close>

definition StunAddressAttribute_SetAddress :: "SocketAddress \<Rightarrow> StunAttribute \<Rightarrow> StunAttribute" where
  "StunAddressAttribute_SetAddress addr a =
     (case at_value a of
        VAddress _ \<Rightarrow> a\<lparr>at_value := VAddress addr, at_length := EnsureAddressLength addr\<rparr>
      | VXorAddress _ \<Rightarrow> a\<lparr>at_value := VXorAddress addr, at_length := EnsureAddressLength addr\<rparr>
      | _ \<Rightarrow> a)"

definition StunAddressAttribute_SetIP :: "IPAddress \<Rightarrow> StunAttribute \<Rightarrow> StunAttribute" where
  "StunAddressAttribute_SetIP ip a =
     (case at_value a of
        VAddress addr \<Rightarrow> StunAddressAttribute_SetAddress (addr\<lparr>sa_ip := ip\<rparr>) a
      | VXorAddress addr \<Rightarrow> StunAddressAttribute_SetAddress (addr\<lparr>sa_ip := ip\<rparr>) a
      | _ \<Rightarrow> a)"

definition StunAddressAttribute_SetPort :: "uint16 \<Rightarrow> StunAttribute \<Rightarrow> StunAttribute" where
  "StunAddressAttribute_SetPort port a =
     (case at_value a of
        VAddress addr \<Rightarrow> a\<lparr>at_value := VAddress (addr\<lparr>sa_port := port\<rparr>)\<rparr>
      | VXorAddress addr \<Rightarrow> a\<lparr>at_value := VXorAddress (addr\<lparr>sa_port := port\<rparr>)\<rparr>
      | _ \<Rightarrow> a)"

definition StunByteStringAttribute_GetByte :: "nat \<Rightarrow> StunAttribute \<Rightarrow> uint8 option" where
  "StunByteStringAttribute_GetByte index a =
     (case at_value a of
        VByteString bs \<Rightarrow> if index < unat (at_length a) \<and> index < length bs then Some (bs ! index) else None
      | _ \<Rightarrow> None)"

definition StunByteStringAttribute_SetByte :: "nat \<Rightarrow> uint8 \<Rightarrow> StunAttribute \<Rightarrow> StunAttribute option" where
  "StunByteStringAttribute_SetByte index v a =
     (case at_value a of
        VByteString bs \<Rightarrow>
          if index < unat (at_length a) \<and> index < length bs then Some (a\<lparr>at_value := VByteString (bs[index := v])\<rparr>)
          else None
      | _ \<Rightarrow> None)"

definition StunErrorCodeAttribute_SetReason :: "bytes \<Rightarrow> StunAttribute \<Rightarrow> StunAttribute" where
  "StunErrorCodeAttribute_SetReason reason a =
     (case at_value a of
        VErrorCode c n _ \<Rightarrow> a\<lparr>at_length := 4 + of_nat (length reason), at_value := VErrorCode c n reason\<rparr>
      | _ \<Rightarrow> a)"

definition StunUInt16ListAttribute_GetType :: "nat \<Rightarrow> StunAttribute \<Rightarrow> uint16 option" where
  "StunUInt16ListAttribute_GetType index a =
     (case at_value a of VUInt16List ts \<Rightarrow> if index < length ts then Some (ts ! index) else None | _ \<Rightarrow> None)"

definition StunUInt16ListAttribute_SetType :: "nat \<Rightarrow> uint16 \<Rightarrow> StunAttribute \<Rightarrow> StunAttribute option" where
  "StunUInt16ListAttribute_SetType index v a =
     (case at_value a of
        VUInt16List ts \<Rightarrow> if index < length ts then Some (a\<lparr>at_value := VUInt16List (ts[index := v])\<rparr>) else None
      | _ \<Rightarrow> None)"

section \<open>Messages\<close>

text \<open>The subclass decides which attribute types are known.\<close>

datatype StunMessageClass = Class_StunMessage | Class_RelayMessage | Class_TurnMessage | Class_IceMessage

record StunMessage =
  sm_class :: StunMessageClass
  sm_type :: uint16
  sm_length :: uint16
  sm_transaction_id :: bytes
  sm_attrs :: "StunAttribute list"

definition IsValidTransactionId :: "bytes \<Rightarrow> bool" where
  "IsValidTransactionId transaction_id \<longleftrightarrow>
     length transaction_id = kStunTransactionIdLength \<or>
     length transaction_id = kStunLegacyTransactionIdLength"

definition StunMessage_new :: "StunMessageClass \<Rightarrow> StunMessage" where
  "StunMessage_new cls = \<lparr>sm_class = cls, sm_type = 0, sm_length = 0,
     sm_transaction_id = EMPTY_TRANSACTION_ID, sm_attrs = []\<rparr>"

definition StunMessage_SetType :: "int \<Rightarrow> StunMessage \<Rightarrow> StunMessage" where
  "StunMessage_SetType ty msg = msg\<lparr>sm_type := of_int ty\<rparr>"

definition IsLegacy :: "StunMessage \<Rightarrow> bool" where
  "IsLegacy msg \<longleftrightarrow> length (sm_transaction_id msg) = kStunLegacyTransactionIdLength"

definition SetTransactionID :: "bytes \<Rightarrow> StunMessage \<Rightarrow> StunMessage option" where
  "SetTransactionID str msg =
     (if \<not> IsValidTransactionId str then None else Some (msg\<lparr>sm_transaction_id := str\<rparr>))"

definition StunMessage_GetAttributeValueType :: "uint16 \<Rightarrow> StunAttributeValueType" where
  "StunMessage_GetAttributeValueType ty =
     (if ty = STUN_ATTR_MAPPED_ADDRESS then STUN_VALUE_ADDRESS
      else if ty = STUN_ATTR_USERNAME then STUN_VALUE_BYTE_STRING
      else if ty = STUN_ATTR_MESSAGE_INTEGRITY then STUN_VALUE_BYTE_STRING
      else if ty = STUN_ATTR_ERROR_CODE then STUN_VALUE_ERROR_CODE
      else if ty = STUN_ATTR_UNKNOWN_ATTRIBUTES then STUN_VALUE_UINT16_LIST
      else if ty = STUN_ATTR_REALM then STUN_VALUE_BYTE_STRING
      else if ty = STUN_ATTR_NONCE then STUN_VALUE_BYTE_STRING
      else if ty = STUN_ATTR_XOR_MAPPED_ADDRESS then STUN_VALUE_XOR_ADDRESS
      else if ty = STUN_ATTR_SOFTWARE then STUN_VALUE_BYTE_STRING
      else if ty = STUN_ATTR_ALTERNATE_SERVER then STUN_VALUE_ADDRESS
      else if ty = STUN_ATTR_FINGERPRINT then STUN_VALUE_UINT32
      else if ty = STUN_ATTR_RETRANSMIT_COUNT then STUN_VALUE_UINT32
      else STUN_VALUE_UNKNOWN)"

definition RelayMessage_GetAttributeValueType :: "uint16 \<Rightarrow> StunAttributeValueType" where
  "RelayMessage_GetAttributeValueType ty =
     (if ty = STUN_ATTR_LIFETIME then STUN_VALUE_UINT32
      else if ty = STUN_ATTR_MAGIC_COOKIE then STUN_VALUE_BYTE_STRING
      else if ty = STUN_ATTR_BANDWIDTH then STUN_VALUE_UINT32
      else if ty = STUN_ATTR_DESTINATION_ADDRESS then STUN_VALUE_ADDRESS
      else if ty = STUN_ATTR_SOURCE_ADDRESS2 then STUN_VALUE_ADDRESS
      else if ty = STUN_ATTR_DATA then STUN_VALUE_BYTE_STRING
      else if ty = STUN_ATTR_OPTIONS then STUN_VALUE_UINT32
      else StunMessage_GetAttributeValueType ty)"

definition TurnMessage_GetAttributeValueType :: "uint16 \<Rightarrow> StunAttributeValueType" where
  "TurnMessage_GetAttributeValueType ty =
     (if ty = STUN_ATTR_CHANNEL_NUMBER then STUN_VALUE_UINT32
      else if ty = STUN_ATTR_TURN_LIFETIME then STUN_VALUE_UINT32
      else if ty = STUN_ATTR_XOR_PEER_ADDRESS then STUN_VALUE_XOR_ADDRESS
      else if ty = STUN_ATTR_DATA then STUN_VALUE_BYTE_STRING
      else if ty = STUN_ATTR_XOR_RELAYED_ADDRESS then STUN_VALUE_XOR_ADDRESS
      else if ty = STUN_ATTR_EVEN_PORT then STUN_VALUE_BYTE_STRING
      else if ty = STUN_ATTR_REQUESTED_TRANSPORT then STUN_VALUE_UINT32
      else if ty = STUN_ATTR_DONT_FRAGMENT then STUN_VALUE_BYTE_STRING
      else if ty = STUN_ATTR_RESERVATION_TOKEN then STUN_VALUE_BYTE_STRING
      else StunMessage_GetAttributeValueType ty)"

definition IceMessage_GetAttributeValueType :: "uint16 \<Rightarrow> StunAttributeValueType" where
  "IceMessage_GetAttributeValueType ty =
     (if ty = STUN_ATTR_PRIORITY then STUN_VALUE_UINT32
      else if ty = STUN_ATTR_USE_CANDIDATE then STUN_VALUE_BYTE_STRING
      else if ty = STUN_ATTR_ICE_CONTROLLED then STUN_VALUE_UINT64
      else if ty = STUN_ATTR_ICE_CONTROLLING then STUN_VALUE_UINT64
      else StunMessage_GetAttributeValueType ty)"

definition GetAttributeValueType :: "StunMessageClass \<Rightarrow> uint16 \<Rightarrow> StunAttributeValueType" where
  "GetAttributeValueType cls =
     (case cls of
        Class_StunMessage \<Rightarrow> StunMessage_GetAttributeValueType
      | Class_RelayMessage \<Rightarrow> RelayMessage_GetAttributeValueType
      | Class_TurnMessage \<Rightarrow> TurnMessage_GetAttributeValueType
      | Class_IceMessage \<Rightarrow> IceMessage_GetAttributeValueType)"

definition CreateAttribute :: "StunMessageClass \<Rightarrow> uint16 \<Rightarrow> uint16 \<Rightarrow> StunAttribute option" where
  "CreateAttribute cls ty len = StunAttribute_Create (GetAttributeValueType cls ty) ty len"

definition AddAttribute :: "StunAttribute \<Rightarrow> StunMessage \<Rightarrow> StunMessage option" where
  "AddAttribute attr msg =
     (if value_type attr \<noteq> GetAttributeValueType (sm_class msg) (at_type attr) then None
      else
        let attr_length = unat (at_length attr);
            attr_length = (if attr_length mod 4 \<noteq> 0 then attr_length + (4 - attr_length mod 4) else attr_length)
        in Some (msg\<lparr>sm_attrs := sm_attrs msg @ [attr],
                     sm_length := sm_length msg + of_nat (attr_length + 4)\<rparr>))"

definition GetAttribute :: "uint16 \<Rightarrow> StunMessage \<Rightarrow> StunAttribute option" where
  "GetAttribute ty msg = find (\<lambda>a. at_type a = ty) (sm_attrs msg)"

text \<open>The typed getters return the attribute and cast the pointer without a check.\<close>

definition GetUInt32 :: "uint16 \<Rightarrow> StunMessage \<Rightarrow> StunAttribute option" where
  "GetUInt32 ty msg = GetAttribute ty msg"

definition GetUInt64 :: "uint16 \<Rightarrow> StunMessage \<Rightarrow> StunAttribute option" where
  "GetUInt64 ty msg = GetAttribute ty msg"

definition GetByteString :: "uint16 \<Rightarrow> StunMessage \<Rightarrow> StunAttribute option" where
  "GetByteString ty msg = GetAttribute ty msg"

definition GetErrorCode :: "StunMessage \<Rightarrow> StunAttribute option" where
  "GetErrorCode msg = GetAttribute STUN_ATTR_ERROR_CODE msg"

definition GetUnknownAttributes :: "StunMessage \<Rightarrow> StunAttribute option" where
  "GetUnknownAttributes msg = GetAttribute STUN_ATTR_UNKNOWN_ATTRIBUTES msg"

definition GetAddress :: "uint16 \<Rightarrow> StunMessage \<Rightarrow> StunAttribute option" where
  "GetAddress ty msg =
     (if ty = STUN_ATTR_MAPPED_ADDRESS then
        (case GetAttribute STUN_ATTR_MAPPED_ADDRESS msg of
           None \<Rightarrow> GetAttribute STUN_ATTR_XOR_MAPPED_ADDRESS msg
         | Some a \<Rightarrow> Some a)
      else GetAttribute ty msg)"

subsection \<open>Parsing\<close>

text \<open>The loop ends because every attribute takes its four-byte header off the buffer.\<close>

lemma ReadBytes_Length:
  "ReadBytes n b = Some (xs, b') \<Longrightarrow> n \<le> ByteBuffer_Length b \<and> ByteBuffer_Length b' = ByteBuffer_Length b - n"
  by (auto simp: ReadBytes_def ByteBuffer_Length_def split: if_splits)

lemma ReadUInt_Length:
  "ReadUInt8 h b = Some (v8, b') \<Longrightarrow> ByteBuffer_Length b' \<le> ByteBuffer_Length b"
  "ReadUInt16 h b = Some (v16, b') \<Longrightarrow> 2 \<le> ByteBuffer_Length b \<and> ByteBuffer_Length b' = ByteBuffer_Length b - 2"
  "ReadUInt32 h b = Some (v32, b') \<Longrightarrow> ByteBuffer_Length b' \<le> ByteBuffer_Length b"
  "ReadUInt64 h b = Some (v64, b') \<Longrightarrow> ByteBuffer_Length b' \<le> ByteBuffer_Length b"
  "ReadString s n b = Some (t, b') \<Longrightarrow> ByteBuffer_Length b' \<le> ByteBuffer_Length b"
  by (auto simp: ReadUInt8_def ReadUInt16_def ReadUInt32_def ReadUInt64_def ReadString_def
      ByteBuffer_Length_def Let_def dest!: ReadBytes_Length split: option.splits if_splits)

lemma Consume_Length: "ByteBuffer_Consume n b = Some b' \<Longrightarrow> ByteBuffer_Length b' \<le> ByteBuffer_Length b"
  by (auto simp: ByteBuffer_Consume_def ByteBuffer_Length_def split: if_splits)

lemma ConsumePadding_Length: "ByteBuffer_Length (ConsumePadding len b) \<le> ByteBuffer_Length b"
  by (auto simp: ConsumePadding_def Let_def split: option.splits dest: Consume_Length)

lemma read_uint16s_Length: "read_uint16s h n ts b = Some (ts', b') \<Longrightarrow> ByteBuffer_Length b' \<le> ByteBuffer_Length b"
proof (induction n arbitrary: ts b)
  case (Suc n)
  then obtain v b1 where v: "ReadUInt16 h b = Some (v, b1)" "read_uint16s h n (ts @ [v]) b1 = Some (ts', b')"
    by (auto simp: bind_eq_Some_conv)
  with Suc.IH ReadUInt_Length(2) [OF v(1)] show ?case by (metis diff_le_self le_trans)
qed simp

lemma StunAttribute_Read_Length:
  "StunAttribute_Read h owner a b = Some (a', b') \<Longrightarrow> ByteBuffer_Length b' \<le> ByteBuffer_Length b"
  by (cases "at_value a")
    (auto simp: StunAttribute_Read_def StunAddressAttribute_Read_def StunXorAddressAttribute_Read_def
      StunUInt32Attribute_Read_def StunUInt64Attribute_Read_def StunByteStringAttribute_Read_def
      StunErrorCodeAttribute_Read_def StunUInt16ListAttribute_Read_def Let_def bind_eq_Some_conv
      split: if_splits
      dest!: ReadUInt_Length ReadBytes_Length read_uint16s_Length
      intro: le_trans [OF ConsumePadding_Length])

function StunMessage_read_attrs ::
  "bool \<Rightarrow> StunMessageClass \<Rightarrow> bytes \<Rightarrow> nat \<Rightarrow> StunAttribute list \<Rightarrow> ByteBuffer \<Rightarrow>
   (StunAttribute list \<times> ByteBuffer) option" where
  "StunMessage_read_attrs h cls transaction_id rest attrs buf =
     (if ByteBuffer_Length buf > rest then
        Option.bind (ReadUInt16 h buf) (\<lambda>(attr_type, buf1).
        Option.bind (ReadUInt16 h buf1) (\<lambda>(attr_length, buf2).
        (case CreateAttribute cls attr_type attr_length of
           None \<Rightarrow>
             let attr_length = (if unat attr_length mod 4 \<noteq> 0
                                then attr_length + of_nat (4 - unat attr_length mod 4) else attr_length)
             in Option.bind (ByteBuffer_Consume (unat attr_length) buf2)
                  (StunMessage_read_attrs h cls transaction_id rest attrs)
         | Some attr \<Rightarrow>
             Option.bind (StunAttribute_Read h (Some transaction_id) attr buf2) (\<lambda>(attr, buf3).
               StunMessage_read_attrs h cls transaction_id rest (attrs @ [attr]) buf3))))
      else Some (attrs, buf))"
  by pat_completeness auto
termination
  by (relation "measure (\<lambda>(h, cls, t, rest, attrs, buf). ByteBuffer_Length buf)")
    (auto dest!: ReadUInt_Length(2) Consume_Length StunAttribute_Read_Length)

declare StunMessage_read_attrs.simps [simp del]

definition StunMessage_Read :: "bool \<Rightarrow> StunMessage \<Rightarrow> ByteBuffer \<Rightarrow> (StunMessage \<times> ByteBuffer) option" where
  "StunMessage_Read h msg buf =
     Option.bind (ReadUInt16 h buf) (\<lambda>(ty, buf).
     if ty AND 0x8000 \<noteq> 0 then None
     else Option.bind (ReadUInt16 h buf) (\<lambda>(len, buf).
     Option.bind (ReadString [] kStunMagicCookieLength buf) (\<lambda>(magic_cookie, buf).
     Option.bind (ReadString [] kStunTransactionIdLength buf) (\<lambda>(transaction_id, buf).
     let magic_cookie_int = host_word h magic_cookie;
         transaction_id = (if NetworkToHost32 h magic_cookie_int \<noteq> kStunMagicCookie
                           then magic_cookie @ transaction_id else transaction_id) in
     if unat len \<noteq> ByteBuffer_Length buf then None
     else
       let rest = ByteBuffer_Length buf - unat len in
       Option.bind (StunMessage_read_attrs h (sm_class msg) transaction_id rest [] buf) (\<lambda>(attrs, buf).
         Some (msg\<lparr>sm_type := ty, sm_length := len, sm_transaction_id := transaction_id, sm_attrs := attrs\<rparr>,
               buf))))))"

subsection \<open>Serialising\<close>

fun write_attrs :: "bool \<Rightarrow> bytes option \<Rightarrow> StunAttribute list \<Rightarrow> ByteBuffer \<Rightarrow> ByteBuffer option" where
  "write_attrs h owner [] buf = Some buf"
| "write_attrs h owner (a # attrs) buf =
     (let buf = WriteUInt16 h (at_type a) buf;
          buf = WriteUInt16 h (at_length a) buf
      in Option.bind (StunAttribute_Write h owner a buf) (write_attrs h owner attrs))"

definition StunMessage_Write :: "bool \<Rightarrow> StunMessage \<Rightarrow> ByteBuffer \<Rightarrow> ByteBuffer option" where
  "StunMessage_Write h msg buf =
     (let buf = WriteUInt16 h (sm_type msg) buf;
          buf = WriteUInt16 h (sm_length msg) buf;
          buf = (if \<not> IsLegacy msg then WriteUInt32 h kStunMagicCookie buf else buf);
          buf = WriteString (sm_transaction_id msg) buf
      in write_attrs h (Some (sm_transaction_id msg)) (sm_attrs msg) buf)"

section \<open>Integrity and fingerprint\<close>

text \<open>
  The validators are static functions on a memory region of \<open>size\<close> bytes. An access outside of it
  is undefined behaviour, the result \<open>None\<close>.
\<close>

definition mem_GetBE16 :: "bytes \<Rightarrow> nat \<Rightarrow> uint16 option" where
  "mem_GetBE16 data pos = (if pos + 2 \<le> length data then Some (GetBE16 (drop pos data)) else None)"

datatype MI_scan = MI_Undefined | MI_Malformed | MI_Absent | MI_At nat

function find_message_integrity :: "bytes \<Rightarrow> nat \<Rightarrow> MI_scan" where
  "find_message_integrity data current_pos =
     (if current_pos < length data then
        (case (mem_GetBE16 data current_pos, mem_GetBE16 data (current_pos + 2)) of
           (Some attr_type, Some attr_length) \<Rightarrow>
             if attr_type = STUN_ATTR_MESSAGE_INTEGRITY then
               if unat attr_length \<noteq> kStunMessageIntegritySize \<or> current_pos + unat attr_length > length data
               then MI_Malformed
               else MI_At current_pos
             else
               let next = current_pos + 2 + 2 + unat attr_length
               in find_message_integrity data
                    (if unat attr_length mod 4 \<noteq> 0 then next + (4 - unat attr_length mod 4) else next)
         | _ \<Rightarrow> MI_Undefined)
      else MI_Absent)"
  by pat_completeness auto
termination
  by (relation "measure (\<lambda>(data, pos). length data - pos)") auto

declare find_message_integrity.simps [simp del]

definition ValidateMessageIntegrity :: "bytes \<Rightarrow> bytes \<Rightarrow> bool option" where
  "ValidateMessageIntegrity data password =
     (let size = length data in
      if size mod 4 \<noteq> 0 then Some False
      else case mem_GetBE16 data 2 of
        None \<Rightarrow> None
      | Some msg_length \<Rightarrow>
          if size \<noteq> unat msg_length + kStunHeaderSize then Some False
          else case find_message_integrity data kStunHeaderSize of
            MI_Undefined \<Rightarrow> None
          | MI_Malformed \<Rightarrow> Some False
          | MI_Absent \<Rightarrow> Some False
          | MI_At mi_pos \<Rightarrow>
              let temp_data = take mi_pos data;
                  temp_data =
                    (if size > mi_pos + kStunAttributeHeaderSize + kStunMessageIntegritySize then
                       let extra_offset = size - (mi_pos + kStunAttributeHeaderSize + kStunMessageIntegritySize);
                           new_adjusted_len = size - extra_offset - kStunHeaderSize
                       in take 2 temp_data @ SetBE16 (drop 2 temp_data) (of_nat new_adjusted_len)
                     else temp_data)
              in case ComputeHmac_alg DIGEST_SHA_1 password (take mi_pos temp_data) kStunMessageIntegritySize of
                   (ret, hmac) \<Rightarrow>
                     if ret \<noteq> kStunMessageIntegritySize then Some False
                     else if mi_pos + kStunAttributeHeaderSize + kStunMessageIntegritySize > size then None
                     else Some (take kStunMessageIntegritySize (drop (mi_pos + kStunAttributeHeaderSize) data) = hmac))"

text \<open>
  The last attribute of the message, through the pointer that \<open>AddAttribute\<close> stored in it.
\<close>

definition set_last_attr :: "(StunAttribute \<Rightarrow> StunAttribute) \<Rightarrow> StunMessage \<Rightarrow> StunMessage" where
  "set_last_attr f msg = msg\<lparr>sm_attrs := butlast (sm_attrs msg) @ [f (last (sm_attrs msg))]\<rparr>"

definition AddMessageIntegrity :: "bool \<Rightarrow> bytes \<Rightarrow> StunMessage \<Rightarrow> bool \<times> StunMessage" where
  "AddMessageIntegrity h key msg =
     (let msg_integrity_attr = StunByteStringAttribute_new STUN_ATTR_MESSAGE_INTEGRITY
            (replicate kStunMessageIntegritySize (ascii_char (CHR ''0''))) in
      case AddAttribute msg_integrity_attr msg of
        None \<Rightarrow> (False, msg)
      | Some msg \<Rightarrow>
          (case StunMessage_Write h msg ByteBuffer_new of
             None \<Rightarrow> (False, msg)
           | Some buf \<Rightarrow>
               let msg_len_for_hmac =
                     ByteBuffer_Length buf - kStunAttributeHeaderSize - unat (at_length msg_integrity_attr)
               in case ComputeHmac_alg DIGEST_SHA_1 key (take msg_len_for_hmac (ByteBuffer_Data buf))
                         kStunMessageIntegritySize of
                    (ret, hmac) \<Rightarrow>
                      if ret \<noteq> kStunMessageIntegritySize then (False, msg)
                      else (True, set_last_attr (StunByteStringAttribute_CopyBytes hmac) msg)))"

text \<open>\<open>t\<close> is the lazily built CRC table.\<close>

definition ValidateFingerprint :: "uint32 list \<Rightarrow> bytes \<Rightarrow> bool" where
  "ValidateFingerprint t data =
     (let size = length data;
          fingerprint_attr_size = kStunAttributeHeaderSize + 4 in
      if size mod 4 \<noteq> 0 \<or> size < kStunHeaderSize + fingerprint_attr_size then False
      else
        let magic_cookie = drop (kStunTransactionIdOffset - kStunMagicCookieLength) data in
        if GetBE32 magic_cookie \<noteq> kStunMagicCookie then False
        else
          let fingerprint_attr_data = drop (size - fingerprint_attr_size) data in
          if GetBE16 fingerprint_attr_data \<noteq> STUN_ATTR_FINGERPRINT \<or> GetBE16 (drop 2 fingerprint_attr_data) \<noteq> 4
          then False
          else
            let fingerprint = GetBE32 (drop kStunAttributeHeaderSize fingerprint_attr_data)
            in fingerprint XOR STUN_FINGERPRINT_XOR_VALUE
                 = fst (ComputeCrc32 t (take (size - fingerprint_attr_size) data)))"

definition AddFingerprint :: "bool \<Rightarrow> uint32 list \<Rightarrow> StunMessage \<Rightarrow> bool \<times> StunMessage" where
  "AddFingerprint h t msg =
     (let fingerprint_attr = StunUInt32Attribute_new STUN_ATTR_FINGERPRINT 0 in
      case AddAttribute fingerprint_attr msg of
        None \<Rightarrow> (False, msg)
      | Some msg \<Rightarrow>
          (case StunMessage_Write h msg ByteBuffer_new of
             None \<Rightarrow> (False, msg)
           | Some buf \<Rightarrow>
               let msg_len_for_crc32 =
                     ByteBuffer_Length buf - kStunAttributeHeaderSize - unat (at_length fingerprint_attr);
                   c = fst (ComputeCrc32 t (take msg_len_for_crc32 (ByteBuffer_Data buf)))
               in (True, set_last_attr (\<lambda>a. a\<lparr>at_value := VUInt32 (c XOR STUN_FINGERPRINT_XOR_VALUE)\<rparr>) msg)))"

section \<open>Message types and credentials\<close>

definition IsStunRequestType :: "int \<Rightarrow> bool" where
  "IsStunRequestType msg_type \<longleftrightarrow> msg_type AND kStunTypeMask = 0x000"
definition IsStunIndicationType :: "int \<Rightarrow> bool" where
  "IsStunIndicationType msg_type \<longleftrightarrow> msg_type AND kStunTypeMask = 0x010"
definition IsStunSuccessResponseType :: "int \<Rightarrow> bool" where
  "IsStunSuccessResponseType msg_type \<longleftrightarrow> msg_type AND kStunTypeMask = 0x100"
definition IsStunErrorResponseType :: "int \<Rightarrow> bool" where
  "IsStunErrorResponseType msg_type \<longleftrightarrow> msg_type AND kStunTypeMask = 0x110"

definition GetStunSuccessResponseType :: "int \<Rightarrow> int" where
  "GetStunSuccessResponseType req_type = (if IsStunRequestType req_type then req_type OR 0x100 else - 1)"
definition GetStunErrorResponseType :: "int \<Rightarrow> int" where
  "GetStunErrorResponseType req_type = (if IsStunRequestType req_type then req_type OR 0x110 else - 1)"

definition ComputeStunCredentialHash :: "bytes \<Rightarrow> bytes \<Rightarrow> bytes \<Rightarrow> bytes option" where
  "ComputeStunCredentialHash username realm password =
     (let input = username @ ascii '':'' @ realm @ ascii '':'' @ password in
      case ComputeDigest_alg DIGEST_MD5 input 64 of
        (n, digest) \<Rightarrow> if n = 0 then None else Some (take n digest))"

end
