(* ===== verification/Stun_Wire.thy ===== *)
theory Stun_Wire
  imports Stun
begin

text \<open>
  The wire format of STUN messages (RFC 5389, section 6 and 15) as functions from messages to
  bytes, and the proofs that \<open>StunMessage_Write\<close> produces that format on hosts of either byte
  order and that \<open>StunMessage_Read\<close> inverts it. The step from buffers to byte lists is made once, in
  the combinator rules for \<open>parses\<close> and \<open>emits\<close>.
\<close>

unbundle bit_operations_syntax

section \<open>Parsers and serialisers over buffers\<close>

definition parses :: "(ByteBuffer \<Rightarrow> ('v \<times> ByteBuffer) option) \<Rightarrow> bytes \<Rightarrow> 'v \<Rightarrow> bool" where
  "parses r xs v \<longleftrightarrow> (\<forall>b ys. bb_net b \<longrightarrow> bb_contents b = xs @ ys \<longrightarrow>
     (\<exists>b'. r b = Some (v, b') \<and> bb_net b' \<and> bb_contents b' = ys))"

lemma parsesD:
  assumes "parses r xs v" and "bb_net b" and "bb_contents b = xs @ ys"
  obtains b' where "r b = Some (v, b')" and "bb_net b'" and "bb_contents b' = ys"
  using assms unfolding parses_def by blast

lemma parses_return: "parses (\<lambda>b. Some (v, b)) [] v"
  by (simp add: parses_def)

lemma parses_bind:
  assumes "parses r xs v" and "parses (k v) ys w"
  shows "parses (\<lambda>b. Option.bind (r b) (\<lambda>(v, b). k v b)) (xs @ ys) w"
  unfolding parses_def
proof (intro allI impI)
  fix b zs assume b: "bb_net b" "bb_contents b = (xs @ ys) @ zs"
  obtain b1 where 1: "r b = Some (v, b1)" "bb_net b1" "bb_contents b1 = ys @ zs"
    by (rule parsesD [OF assms(1) b(1), of "ys @ zs"]) (use b(2) in simp_all)
  obtain b2 where "k v b1 = Some (w, b2)" "bb_net b2" "bb_contents b2 = zs"
    by (rule parsesD [OF assms(2) 1(2,3)])
  with 1 show "\<exists>b'. Option.bind (r b) (\<lambda>(v, b). k v b) = Some (w, b') \<and> bb_net b' \<and> bb_contents b' = zs"
    by simp
qed

lemma parses_map:
  assumes "parses r xs v"
  shows "parses (\<lambda>b. Option.bind (r b) (\<lambda>(v, b). Some (f v, b))) xs (f v)"
  using parses_bind [OF assms, of "\<lambda>v b. Some (f v, b)" "[]" "f v"] parses_return [of "f v"] by simp

lemma parses_reads: "bb_reads r n f \<Longrightarrow> length xs = n \<Longrightarrow> parses r xs (f xs)"
  unfolding parses_def by (metis bb_readsD)

lemma parses_UInt:
  "parses (ReadUInt8 h) [v8] v8"
  "parses (ReadUInt16 h) (be_bytes 2 v16) v16"
  "parses (ReadUInt32 h) (be_bytes 4 v32) v32"
  "parses (ReadUInt64 h) (be_bytes 8 v64) v64"
proof -
  show "parses (ReadUInt8 h) [v8] v8"
    using parses_reads [OF bb_reads_ReadUInt(1) [of h], of "[v8]"] by simp
  show "parses (ReadUInt16 h) (be_bytes 2 v16) v16"
    using parses_reads [OF bb_reads_ReadUInt(2) [of h], of "be_bytes 2 v16"] by simp
  show "parses (ReadUInt32 h) (be_bytes 4 v32) v32"
    using parses_reads [OF bb_reads_ReadUInt(3) [of h], of "be_bytes 4 v32"] by simp
  show "parses (ReadUInt64 h) (be_bytes 8 v64) v64"
    using parses_reads [OF bb_reads_ReadUInt(4) [of h], of "be_bytes 8 v64"] by simp
qed

lemma parses_Bytes: "length xs = n \<Longrightarrow> parses (ReadBytes n) xs xs"
  using parses_reads [OF bb_reads_ReadBytes, of xs n] by simp

lemma parses_String: "length xs = n \<Longrightarrow> parses (ReadString s n) xs (s @ xs)"
  using parses_reads [OF bb_reads_ReadString, of xs n] by simp

definition emits :: "(ByteBuffer \<Rightarrow> ByteBuffer) \<Rightarrow> bytes \<Rightarrow> bool" where
  "emits w xs \<longleftrightarrow> (\<forall>b. bb_net b \<longrightarrow> bb_net (w b) \<and> bb_contents (w b) = bb_contents b @ xs)"

lemma emits_comp: "emits v xs \<Longrightarrow> emits w ys \<Longrightarrow> emits (\<lambda>b. w (v b)) (xs @ ys)"
  by (simp add: emits_def)

lemma emits_id: "emits (\<lambda>b. b) []"
  by (simp add: emits_def)

lemma emits_Write:
  "emits (WriteUInt8 h v8) [v8]"
  "emits (WriteUInt16 h v16) (be_bytes 2 v16)"
  "emits (WriteUInt32 h v32) (be_bytes 4 v32)"
  "emits (WriteUInt64 h v64) (be_bytes 8 v64)"
  "emits (WriteString xs) xs"
  "emits (WriteBytes xs) xs"
  by (simp_all add: emits_def buf_simps inv_intros)

lemma emits_fold: "emits (fold (WriteUInt16 h) ts) (concat (map (be_bytes 2) ts))"
proof (induction ts)
  case (Cons t ts)
  with emits_comp [OF emits_Write(2) [of h t] Cons.IH] show ?case by (simp add: comp_def)
qed (simp add: emits_id [unfolded id_def [symmetric]] emits_def)

section \<open>Padding\<close>

definition pad4 :: "nat \<Rightarrow> nat" where
  "pad4 n = (4 - n mod 4) mod 4"

lemma pad4_eq: "pad4 n = (if n mod 4 > 0 then 4 - n mod 4 else 0)"
  by (simp add: pad4_def)

lemma pad4_mod [simp]: "(n + pad4 n) mod 4 = 0"
proof -
  define q r where "q = n div 4" and "r = n mod 4"
  have "n = 4 * q + r" "r < 4" by (simp_all add: q_def r_def)
  then have "n + pad4 n = 4 * (if r > 0 then q + 1 else q)" by (auto simp: pad4_eq r_def [symmetric])
  then show ?thesis by simp
qed

lemma emits_WritePadding: "emits (WritePadding len) (replicate (pad4 (unat len)) 0)"
  using emits_Write(6) emits_id by (auto simp: WritePadding_def pad4_eq Let_def emits_def)

lemma parses_ConsumePadding:
  assumes "bb_net b" and "bb_contents b = replicate (pad4 (unat len)) 0 @ ys"
  shows "bb_net (ConsumePadding len b)" and "bb_contents (ConsumePadding len b) = ys"
  using Consume_Some [OF assms(1), of "pad4 (unat len)"] assms
  by (auto simp: ConsumePadding_def pad4_eq Let_def split: if_splits)

lemma parses_padded:
  assumes "parses r xs v"
  shows "parses (\<lambda>b. Option.bind (r b) (\<lambda>(v, b). Some (f v, ConsumePadding len b)))
    (xs @ replicate (pad4 (unat len)) 0) (f v)"
  by (rule parses_bind [OF assms]) (auto simp: parses_def parses_ConsumePadding)

section \<open>XOR-ed addresses\<close>

definition xor_bytes :: "bytes \<Rightarrow> bytes \<Rightarrow> bytes" where
  "xor_bytes xs ys = map2 (XOR) xs ys"

lemma length_xor_bytes [simp]: "length (xor_bytes xs ys) = min (length xs) (length ys)"
  by (simp add: xor_bytes_def)

lemma xor_bytes_self: "length xs \<le> length ys \<Longrightarrow> xor_bytes (xor_bytes xs ys) ys = xs"
  by (rule nth_equalityI) (simp_all add: xor_bytes_def xor.assoc)

lemma xor_bytes_append:
  "length a = length c \<Longrightarrow> xor_bytes (a @ b) (c @ d) = xor_bytes a c @ xor_bytes b d"
  by (simp add: xor_bytes_def)

lemma be_bytes_xor: "be_bytes n (v XOR w) = xor_bytes (be_bytes n v) (be_bytes n (w :: 'a::len word))"
  by (induction n) (simp_all add: xor_bytes_def bit_eq_iff bit_simps drop_bit_xor unsigned_xor_eq)

lemma rev_xor_bytes: "length xs = length ys \<Longrightarrow> rev (xor_bytes xs ys) = xor_bytes (rev xs) (rev ys)"
  by (simp add: xor_bytes_def zip_rev rev_map)

lemma host_bytes_xor: "host_bytes h n (v XOR w) = xor_bytes (host_bytes h n v) (host_bytes h n w)"
  by (simp add: host_bytes_def be_bytes_xor rev_xor_bytes)

lemma host_bytes_xor_word:
  "length xs = 4 \<Longrightarrow> length ys = 4 \<Longrightarrow>
   host_bytes h 4 (host_word h xs XOR host_word h ys :: uint32) = xor_bytes xs ys"
  by (simp add: host_bytes_xor)

definition cookie_bytes :: bytes where
  "cookie_bytes = be_bytes 4 kStunMagicCookie"

lemma length_cookie_bytes [simp]: "length cookie_bytes = 4"
  by (simp add: cookie_bytes_def)

lemma host_bytes_cookie: "host_bytes h 4 (HostToNetwork32 h kStunMagicCookie) = cookie_bytes"
  by (simp add: net_simps cookie_bytes_def)

definition ip_bytes :: "IPAddress \<Rightarrow> bytes" where
  "ip_bytes ip = (case ip_family ip of AF_INET \<Rightarrow> ipv4_address ip | AF_INET6 \<Rightarrow> ipv6_address ip | AF_UNSPEC \<Rightarrow> [])"

lemma take_drop_step: "take n (drop m xs) @ drop (n + m) xs = drop m xs"
  by (metis append_take_drop_id drop_drop)

lemma split16: "length xs = 16 \<Longrightarrow>
    xs = take 4 xs @ take 4 (drop 4 xs) @ take 4 (drop 8 xs) @ take 4 (drop 12 xs)"
  using take_drop_step [of 4 8 xs] take_drop_step [of 4 4 xs] append_take_drop_id [of 4 xs]
  by (simp del: append_take_drop_id)

lemma GetXoredIP_v4 [simp]:
  "length b = 4 \<Longrightarrow> GetXoredIP h (Some tid) (IPAddress_v4 b) = IPAddress_v4 (xor_bytes b cookie_bytes)"
  by (simp add: GetXoredIP_def host_bytes_xor host_bytes_cookie)

lemma GetXoredIP_v6 [simp]:
  assumes "length b = 16" and "length tid = 12"
  shows "GetXoredIP h (Some tid) (IPAddress_v6 b) = IPAddress_v6 (xor_bytes b (cookie_bytes @ tid))"
proof -
  let ?t = "\<lambda>i. take 4 (drop (4 * i) tid)" and ?b = "\<lambda>i. take 4 (drop (4 * i) b)"
  have b: "b = ?b 0 @ ?b 1 @ ?b 2 @ ?b 3" using split16 [OF assms(1)] by simp
  have t: "cookie_bytes @ tid = cookie_bytes @ ?t 0 @ ?t 1 @ ?t 2"
    using split16 [of "cookie_bytes @ tid"] assms(2) by simp
  have "xor_bytes b (cookie_bytes @ tid) = xor_bytes (?b 0) cookie_bytes @ xor_bytes (?b 1) (?t 0) @
      xor_bytes (?b 2) (?t 1) @ xor_bytes (?b 3) (?t 2)"
    by (subst t, subst (1) b) (simp add: xor_bytes_append assms)
  then show ?thesis
    by (simp add: GetXoredIP_def kStunTransactionIdLength_def assms v6_as_ints_def v6_of_ints_def upt_rec
        host_bytes_xor host_bytes_cookie)
qed

lemma xored_port_eq: "xored_port p = p XOR 0x2112"
proof -
  have "ucast (ucast p XOR c :: uint32) = p XOR ucast c" for c :: uint32
    by (rule bit_word_eqI) (auto simp: bit_simps)
  moreover have "drop_bit 16 kStunMagicCookie = 0x2112" by (simp add: kStunMagicCookie_def)
  ultimately show ?thesis by (simp add: xored_port_def)
qed

lemma xored_port_self [simp]: "xored_port (xored_port p) = p"
  by (simp add: xored_port_eq xor.assoc)

section \<open>The format of attributes\<close>

definition stun_payload :: "bytes \<Rightarrow> StunValue \<Rightarrow> bytes" where
  "stun_payload tid v =
     (case v of
        VAddress a \<Rightarrow> [0, family_of a] @ be_bytes 2 (sa_port a) @ ip_bytes (sa_ip a)
      | VXorAddress a \<Rightarrow>
          [0, family_of a] @ be_bytes 2 (xored_port (sa_port a)) @ xor_bytes (ip_bytes (sa_ip a)) (cookie_bytes @ tid)
      | VUInt32 w \<Rightarrow> be_bytes 4 w
      | VUInt64 w \<Rightarrow> be_bytes 8 w
      | VByteString bs \<Rightarrow> bs
      | VErrorCode c n reason \<Rightarrow> [0, 0, c, n] @ reason
      | VUInt16List ts \<Rightarrow> concat (map (be_bytes 2) ts))"

definition stun_attr_body :: "bytes \<Rightarrow> StunAttribute \<Rightarrow> bytes" where
  "stun_attr_body tid a = stun_payload tid (at_value a) @ replicate (pad4 (unat (at_length a))) 0"

definition stun_attr_bytes :: "bytes \<Rightarrow> StunAttribute \<Rightarrow> bytes" where
  "stun_attr_bytes tid a = be_bytes 2 (at_type a) @ be_bytes 2 (at_length a) @ stun_attr_body tid a"

text \<open>Attributes as the constructors and setters build them, valid for the class of the message.\<close>

definition stun_value_wf :: "bytes \<Rightarrow> uint16 \<Rightarrow> StunValue \<Rightarrow> bool" where
  "stun_value_wf tid len v \<longleftrightarrow>
     (case v of
        VAddress a \<Rightarrow> ip_wf (sa_ip a) \<and> ip_family (sa_ip a) \<noteq> AF_UNSPEC \<and> len = EnsureAddressLength a
      | VXorAddress a \<Rightarrow> ip_wf (sa_ip a) \<and> ip_family (sa_ip a) \<noteq> AF_UNSPEC \<and> len = EnsureAddressLength a \<and>
          (ip_family (sa_ip a) = AF_INET6 \<longrightarrow> length tid = 12)
      | VUInt32 _ \<Rightarrow> len = 4
      | VUInt64 _ \<Rightarrow> len = 8
      | VByteString bs \<Rightarrow> unat len = length bs
      | VErrorCode c n reason \<Rightarrow> c < 8 \<and> unat len = 4 + length reason
      | VUInt16List ts \<Rightarrow> unat len = 2 * length ts)"

definition stun_attr_wf :: "StunMessageClass \<Rightarrow> bytes \<Rightarrow> StunAttribute \<Rightarrow> bool" where
  "stun_attr_wf cls tid a \<longleftrightarrow>
     value_type a = GetAttributeValueType cls (at_type a) \<and> stun_value_wf tid (at_length a) (at_value a)"

lemma error_code_word:
  "be_bytes 4 (push_bit 8 (ucast c) OR ucast n :: uint32) = [0, 0, c, (n :: uint8)]"
  by (auto simp: be_bytes_explicit bit_simps intro!: bit_word_eqI dest: bit_uint8D)

lemma error_code_fields:
  fixes c n :: uint8
  defines "w \<equiv> push_bit 8 (ucast c) OR ucast n :: uint32"
  assumes "c < 8"
  shows "ucast (drop_bit 8 w AND 0x7) = c" and "ucast (w AND 0xff) = n"
proof -
  have m: "(0x7 :: uint32) = mask 3" "(0xff :: uint32) = mask 8" by (simp_all add: mask_eq_exp_minus_1)
  have c: "bit c k \<Longrightarrow> k < 3" for k
  proof -
    assume "bit c k"
    moreover have "take_bit 3 c = c" using assms(2)
      by (simp add: word_unat_eq_iff unsigned_take_bit_eq take_bit_nat_eq_self_iff word_less_nat_alt)
    ultimately have "bit (take_bit 3 c) k" by simp
    then show "k < 3" by (simp add: bit_take_bit_iff)
  qed
  show "ucast (drop_bit 8 w AND 0x7) = c"
    unfolding w_def m by (rule bit_word_eqI) (auto simp: bit_simps dest: bit_uint8D c)
  show "ucast (w AND 0xff) = n"
    unfolding w_def m by (rule bit_word_eqI) (auto simp: bit_simps dest: bit_uint8D)
qed

section \<open>Attributes are written in the format\<close>

lemma emits_WriteIP: "emits (WriteIP ip) (ip_bytes ip)"
  by (cases "ip_family ip") (simp_all add: emits_def WriteIP_def ip_bytes_def buf_simps inv_intros)

lemma emits_address:
  "emits (\<lambda>buf. WriteIP ip (WriteUInt16 h p (WriteUInt8 h fam (WriteUInt8 h 0 buf))))
     ([0, fam] @ be_bytes 2 p @ ip_bytes ip)"
  using emits_comp [OF emits_comp [OF emits_comp [OF emits_Write(1) [of h 0] emits_Write(1) [of h fam]]
        emits_Write(2) [of h p]] emits_WriteIP [of ip]] by simp

lemma family_of_nonzero: "ip_family (sa_ip a) \<noteq> AF_UNSPEC \<Longrightarrow> family_of a \<noteq> 0"
  by (cases "ip_family (sa_ip a)") (simp_all add: family_of_def STUN_ADDRESS_IPV4_def STUN_ADDRESS_IPV6_def)

lemma GetXoredIP_wf:
  assumes "ip_wf ip" and "ip_family ip \<noteq> AF_UNSPEC" and "ip_family ip = AF_INET6 \<longrightarrow> length tid = 12"
    and "12 \<le> length tid"
  shows "ip_wf (GetXoredIP h (Some tid) ip)" and "ip_family (GetXoredIP h (Some tid) ip) = ip_family ip"
    and "ip_bytes (GetXoredIP h (Some tid) ip) = xor_bytes (ip_bytes ip) (cookie_bytes @ tid)"
    and "GetXoredIP h' (Some tid) (GetXoredIP h (Some tid) ip) = ip"
  using assms(1)
proof -
  have "ip_wf (GetXoredIP h (Some tid) ip) \<and> ip_family (GetXoredIP h (Some tid) ip) = ip_family ip \<and>
    ip_bytes (GetXoredIP h (Some tid) ip) = xor_bytes (ip_bytes ip) (cookie_bytes @ tid) \<and>
    GetXoredIP h' (Some tid) (GetXoredIP h (Some tid) ip) = ip"
    using assms(1)
  proof (cases ip rule: ip_wf_cases)
    case unspec
    with assms(2) show ?thesis by simp
  next
    case (v4 b)
    have "xor_bytes b (cookie_bytes @ tid) = xor_bytes b cookie_bytes"
      using xor_bytes_append [of b cookie_bytes "[]" tid] v4(2) by (simp add: xor_bytes_def)
    with v4 show ?thesis by (simp add: ip_bytes_def xor_bytes_self)
  next
    case (v6 b)
    with assms(3) show ?thesis by (simp add: ip_bytes_def xor_bytes_self)
  qed
  then show "ip_wf (GetXoredIP h (Some tid) ip)" and "ip_family (GetXoredIP h (Some tid) ip) = ip_family ip"
    and "ip_bytes (GetXoredIP h (Some tid) ip) = xor_bytes (ip_bytes ip) (cookie_bytes @ tid)"
    and "GetXoredIP h' (Some tid) (GetXoredIP h (Some tid) ip) = ip" by blast+
qed

definition emits_opt :: "(ByteBuffer \<Rightarrow> ByteBuffer option) \<Rightarrow> bytes \<Rightarrow> bool" where
  "emits_opt w xs \<longleftrightarrow> (\<forall>b. bb_net b \<longrightarrow> (\<exists>b'. w b = Some b' \<and> bb_net b' \<and> bb_contents b' = bb_contents b @ xs))"

lemma emits_opt_Some: "emits w xs \<Longrightarrow> emits_opt (\<lambda>b. Some (w b)) xs"
  by (simp add: emits_opt_def emits_def)

lemma emits_optD:
  assumes "emits_opt w xs" and "bb_net b"
  obtains b' where "w b = Some b'" and "bb_net b'" and "bb_contents b' = bb_contents b @ xs"
  using assms unfolding emits_opt_def by blast

lemma emits_padded: "emits w xs \<Longrightarrow> emits (\<lambda>b. WritePadding len (w b)) (xs @ replicate (pad4 (unat len)) 0)"
  by (rule emits_comp [OF _ emits_WritePadding])

lemma no_pad [simp]: "pad4 4 = 0" "pad4 8 = 0" "pad4 20 = 0"
  by (simp_all add: pad4_def)

lemma EnsureAddressLength_pad [simp]: "pad4 (unat (EnsureAddressLength a)) = 0"
  by (cases "ip_family (sa_ip a)") (simp_all add: EnsureAddressLength_def pad4_def)

lemma emits_attr:
  assumes "stun_value_wf tid (at_length a) (at_value a)" and "12 \<le> length tid"
  shows "emits_opt (StunAttribute_Write h (Some tid) a) (stun_attr_body tid a)"
proof (cases "at_value a")
  case (VAddress x)
  with assms family_of_nonzero [of x] show ?thesis
    using emits_opt_Some [OF emits_address [of "sa_ip x" h "sa_port x" "family_of x"]]
    by (simp add: StunAttribute_Write_def [abs_def] StunAddressAttribute_Write_def [abs_def] stun_attr_body_def
        stun_payload_def stun_value_wf_def Let_def)
next
  case (VXorAddress x)
  with assms family_of_nonzero [of x] GetXoredIP_wf [of "sa_ip x" tid h] show ?thesis
    using emits_opt_Some [OF emits_address [of "GetXoredIP h (Some tid) (sa_ip x)" h "xored_port (sa_port x)" "family_of x"]]
    by (simp add: StunAttribute_Write_def [abs_def] StunXorAddressAttribute_Write_def [abs_def] stun_attr_body_def
        stun_payload_def stun_value_wf_def Let_def)
next
  case (VByteString bs)
  with assms show ?thesis
    using emits_opt_Some [OF emits_padded [OF emits_Write(6) [of bs], of "at_length a"]]
    by (simp add: StunAttribute_Write_def [abs_def] StunByteStringAttribute_Write_def [abs_def] stun_attr_body_def
        stun_payload_def stun_value_wf_def)
next
  case (VErrorCode c n reason)
  with assms show ?thesis
    using emits_opt_Some [OF emits_padded [OF emits_comp [OF
          emits_Write(3) [of h "push_bit 8 (ucast c) OR ucast n"] emits_Write(5) [of reason]], of "at_length a"]]
    by (simp add: StunAttribute_Write_def [abs_def] StunErrorCodeAttribute_Write_def [abs_def] stun_attr_body_def
        stun_payload_def Let_def error_code_word)
next
  case (VUInt16List ts)
  with assms show ?thesis
    using emits_opt_Some [OF emits_padded [OF emits_fold [of h ts], of "at_length a"]]
    by (simp add: StunAttribute_Write_def [abs_def] StunUInt16ListAttribute_Write_def [abs_def] stun_attr_body_def
        stun_payload_def)
qed (use assms emits_opt_Some [OF emits_Write(3) [of h]] emits_opt_Some [OF emits_Write(4) [of h]] in
    \<open>simp_all add: StunAttribute_Write_def [abs_def] stun_attr_body_def stun_payload_def stun_value_wf_def\<close>)

section \<open>Attributes are read back\<close>

lemma parses_address_header:
  assumes "parses (\<lambda>buf. if fam = STUN_ADDRESS_IPV4 then
       if len \<noteq> 8 then None
       else Option.bind (ReadBytes 4 buf) (\<lambda>(v4addr, buf). Some (\<lparr>sa_ip = IPAddress_v4 v4addr, sa_port = p\<rparr>, buf))
     else if fam = STUN_ADDRESS_IPV6 then
       if len \<noteq> 20 then None
       else Option.bind (ReadBytes 16 buf) (\<lambda>(v6addr, buf). Some (\<lparr>sa_ip = IPAddress_v6 v6addr, sa_port = p\<rparr>, buf))
     else None) b x"
  shows "parses (StunAddressAttribute_Read h len) ([0] @ [fam] @ be_bytes 2 p @ b) x"
  unfolding StunAddressAttribute_Read_def
  by (rule parses_bind [OF parses_UInt(1)], rule parses_bind [OF parses_UInt(1)],
      rule parses_bind [OF parses_UInt(2)], rule assms)

lemma parses_address:
  assumes "ip_wf (sa_ip x)" and "ip_family (sa_ip x) \<noteq> AF_UNSPEC"
  shows "parses (StunAddressAttribute_Read h (EnsureAddressLength x))
    ([0, family_of x] @ be_bytes 2 (sa_port x) @ ip_bytes (sa_ip x)) x"
  using assms(1)
proof (cases "sa_ip x" rule: ip_wf_cases)
  case unspec
  with assms(2) show ?thesis by simp
next
  case (v4 b)
  then have "parses (\<lambda>buf. Option.bind (ReadBytes 4 buf) (\<lambda>(v, buf). Some (\<lparr>sa_ip = IPAddress_v4 v, sa_port = sa_port x\<rparr>, buf)))
      b \<lparr>sa_ip = IPAddress_v4 b, sa_port = sa_port x\<rparr>"
    by (intro parses_map parses_Bytes)
  with v4 parses_address_header [of STUN_ADDRESS_IPV4 8 "sa_port x" b x h] show ?thesis
    by (cases x) (simp add: family_of_def EnsureAddressLength_def ip_bytes_def)
next
  case (v6 b)
  then have "parses (\<lambda>buf. Option.bind (ReadBytes 16 buf) (\<lambda>(v, buf). Some (\<lparr>sa_ip = IPAddress_v6 v, sa_port = sa_port x\<rparr>, buf)))
      b \<lparr>sa_ip = IPAddress_v6 b, sa_port = sa_port x\<rparr>"
    by (intro parses_map parses_Bytes)
  moreover have "STUN_ADDRESS_IPV6 \<noteq> STUN_ADDRESS_IPV4"
    by (simp add: STUN_ADDRESS_IPV4_def STUN_ADDRESS_IPV6_def)
  ultimately show ?thesis
    using v6 parses_address_header [of STUN_ADDRESS_IPV6 20 "sa_port x" b x h]
    by (cases x) (simp add: family_of_def EnsureAddressLength_def ip_bytes_def)
qed

lemma parses_xor_address:
  assumes "ip_wf (sa_ip x)" and "ip_family (sa_ip x) \<noteq> AF_UNSPEC"
    and "ip_family (sa_ip x) = AF_INET6 \<longrightarrow> length tid = 12" and "12 \<le> length tid"
  shows "parses (StunXorAddressAttribute_Read h (Some tid) (EnsureAddressLength x))
    ([0, family_of x] @ be_bytes 2 (xored_port (sa_port x)) @ xor_bytes (ip_bytes (sa_ip x)) (cookie_bytes @ tid)) x"
proof -
  note g = GetXoredIP_wf [OF assms]
  let ?y = "\<lparr>sa_ip = GetXoredIP h (Some tid) (sa_ip x), sa_port = xored_port (sa_port x)\<rparr>"
  have "family_of ?y = family_of x" "EnsureAddressLength ?y = EnsureAddressLength x"
    using g(2) by (simp_all add: family_of_def EnsureAddressLength_def)
  with parses_address [of ?y h] g(1,2) assms(2)
  have "parses (StunAddressAttribute_Read h (EnsureAddressLength x))
      ([0, family_of x] @ be_bytes 2 (xored_port (sa_port x)) @ xor_bytes (ip_bytes (sa_ip x)) (cookie_bytes @ tid)) ?y"
    by (simp add: g(3))
  from parses_map [OF this, of "\<lambda>addr. \<lparr>sa_ip = GetXoredIP h (Some tid) (sa_ip addr), sa_port = xored_port (sa_port addr)\<rparr>"]
  moreover have "\<lparr>sa_ip = sa_ip x, sa_port = sa_port x\<rparr> = x" by (cases x) simp
  ultimately show ?thesis
    by (simp add: StunXorAddressAttribute_Read_def [abs_def] Let_def g(4))
qed

lemma parses_uint16s:
  "parses (read_uint16s h (length ts) us) (concat (map (be_bytes 2) ts)) (us @ ts)"
proof (induction ts arbitrary: us)
  case (Cons t ts)
  from parses_bind [where k = "\<lambda>v. read_uint16s h (length ts) (us @ [v])", OF parses_UInt(2) [of h t] Cons.IH [of "us @ [t]"]]
  show ?case by simp
qed (simp add: parses_def)

lemma parses_error_code:
  assumes "c < 8" and "unat len = 4 + length reason"
  shows "parses (StunErrorCodeAttribute_Read h len []) ([0, 0, c, n] @ reason @ replicate (pad4 (unat len)) 0) (c, n, reason)"
proof -
  let ?w = "push_bit 8 (ucast c) OR ucast n :: uint32"
  have "\<not> len < 4" using assms(2) by (simp add: word_less_nat_alt)
  then have "StunErrorCodeAttribute_Read h len [] = (\<lambda>buf. Option.bind (ReadUInt32 h buf) (\<lambda>(val, buf).
      Option.bind (ReadString [] (unat len - 4) buf) (\<lambda>(reason, buf).
        Some ((ucast (drop_bit 8 val AND 0x7), ucast (val AND 0xff), reason), ConsumePadding len buf))))"
    by (simp add: StunErrorCodeAttribute_Read_def [abs_def] Let_def)
  moreover have "parses (\<lambda>buf. Option.bind (ReadUInt32 h buf) (\<lambda>(val, buf).
      Option.bind (ReadString [] (unat len - 4) buf) (\<lambda>(reason, buf).
        Some ((ucast (drop_bit 8 val AND 0x7) :: uint8, ucast (val AND 0xff) :: uint8, reason),
              ConsumePadding len buf))))
      (be_bytes 4 ?w @ reason @ replicate (pad4 (unat len)) 0)
      (ucast (drop_bit 8 ?w AND 0x7), ucast (?w AND 0xff), [] @ reason)"
    using assms(2) by (intro parses_bind [OF parses_UInt(3)] parses_padded parses_String) simp
  ultimately show ?thesis
    using error_code_fields [OF assms(1), of n] by (simp add: error_code_word)
qed

lemmas attr_read_defs = stun_attr_wf_def stun_value_wf_def CreateAttribute_def value_type_def
  StunAttribute_Create_def StunAttribute_Read_def [abs_def] stun_attr_body_def stun_payload_def
  StunUInt32Attribute_new_def StunUInt64Attribute_new_def

text \<open>What \<open>CreateAttribute\<close> makes of a header reads the body into the attribute that was written.\<close>

lemma parses_attr:
  assumes "stun_attr_wf cls tid a" and "12 \<le> length tid"
  shows "\<exists>a0. CreateAttribute cls (at_type a) (at_length a) = Some a0 \<and>
    parses (StunAttribute_Read h (Some tid) a0) (stun_attr_body tid a) a"
proof -
  obtain ty len v where a: "a = \<lparr>at_type = ty, at_length = len, at_value = v\<rparr>" by (cases a)
  let ?set = "\<lambda>len v. \<lparr>at_type = ty, at_length = len, at_value = v\<rparr>"
  have vt: "GetAttributeValueType cls ty = value_type a" and wf: "stun_value_wf tid len v"
    using assms(1) by (simp_all add: stun_attr_wf_def a)
  show ?thesis
  proof (cases v)
    case (VAddress x)
    with wf parses_map [OF parses_address [of x h], of "\<lambda>x. ?set (EnsureAddressLength x) (VAddress x)"]
    show ?thesis by (simp add: a attr_read_defs vt)
  next
    case (VXorAddress x)
    with wf assms(2) parses_map [OF parses_xor_address [of x tid h], of "\<lambda>x. ?set (EnsureAddressLength x) (VXorAddress x)"]
    show ?thesis by (simp add: a attr_read_defs vt)
  next
    case (VUInt32 w)
    with wf parses_map [OF parses_UInt(3) [of h w], of "\<lambda>w. ?set 4 (VUInt32 w)"]
    show ?thesis by (simp add: a attr_read_defs vt StunUInt32Attribute_Read_def [abs_def])
  next
    case (VUInt64 w)
    with wf parses_map [OF parses_UInt(4) [of h w], of "\<lambda>w. ?set 8 (VUInt64 w)"]
    show ?thesis by (simp add: a attr_read_defs vt StunUInt64Attribute_Read_def [abs_def])
  next
    case (VByteString bs)
    with wf have "length bs = unat len" by (simp add: stun_value_wf_def)
    from parses_map [OF parses_padded [OF parses_Bytes [OF this], of "\<lambda>bs. bs" len], of "\<lambda>bs. ?set len (VByteString bs)"] VByteString
    show ?thesis by (simp add: a attr_read_defs vt StunByteStringAttribute_Read_def [abs_def])
  next
    case (VErrorCode c n reason)
    with wf have "c < 8" "unat len = 4 + length reason" by (simp_all add: stun_value_wf_def)
    from parses_map [OF parses_error_code [OF this, of h n], of "\<lambda>(c, n, reason). ?set len (VErrorCode c n reason)"] VErrorCode
    show ?thesis by (simp add: a attr_read_defs vt case_prod_beta')
  next
    case (VUInt16List ts)
    with wf have "unat len div 2 = length ts" "unat len mod 2 = 0" by (simp_all add: stun_value_wf_def)
    with parses_map [OF parses_padded [OF parses_uint16s [of h ts "[]"], of "\<lambda>ts. ts" len], of "\<lambda>ts. ?set len (VUInt16List ts)"] VUInt16List
    show ?thesis by (simp add: a attr_read_defs vt StunUInt16ListAttribute_Read_def [abs_def])
  qed
qed

section \<open>Messages\<close>

definition stun_attrs_bytes :: "StunMessage \<Rightarrow> bytes" where
  "stun_attrs_bytes m = concat (map (stun_attr_bytes (sm_transaction_id m)) (sm_attrs m))"

definition stun_id_bytes :: "StunMessage \<Rightarrow> bytes" where
  "stun_id_bytes m = (if IsLegacy m then [] else cookie_bytes) @ sm_transaction_id m"

definition stun_bytes :: "StunMessage \<Rightarrow> bytes" where
  "stun_bytes m = be_bytes 2 (sm_type m) @ be_bytes 2 (sm_length m) @ stun_id_bytes m @ stun_attrs_bytes m"

text \<open>
  Messages as the setters and \<open>AddAttribute\<close> build them. The transaction id of a legacy (RFC 3489)
  message must not begin with the magic cookie, or it reads as a modern one.
\<close>

definition stun_msg_wf :: "StunMessage \<Rightarrow> bool" where
  "stun_msg_wf m \<longleftrightarrow> IsValidTransactionId (sm_transaction_id m) \<and>
     (IsLegacy m \<longrightarrow> take 4 (sm_transaction_id m) \<noteq> cookie_bytes) \<and>
     sm_type m AND 0x8000 = 0 \<and>
     (\<forall>a\<in>set (sm_attrs m). stun_attr_wf (sm_class m) (sm_transaction_id m) a) \<and>
     unat (sm_length m) = length (stun_attrs_bytes m)"

lemma length_stun_id_bytes:
  "IsValidTransactionId (sm_transaction_id m) \<Longrightarrow> length (stun_id_bytes m) = 16"
  by (auto simp: IsValidTransactionId_def stun_id_bytes_def IsLegacy_def kStunTransactionIdLength_def
      kStunLegacyTransactionIdLength_def)

lemma valid_id_length: "IsValidTransactionId tid \<Longrightarrow> 12 \<le> length tid"
  by (auto simp: IsValidTransactionId_def kStunTransactionIdLength_def kStunLegacyTransactionIdLength_def)

lemma emits_attrs:
  assumes "\<forall>a\<in>set attrs. stun_attr_wf cls tid a" and "12 \<le> length tid"
  shows "emits_opt (write_attrs h (Some tid) attrs) (concat (map (stun_attr_bytes tid) attrs))"
  using assms(1)
proof (induction attrs)
  case (Cons a attrs)
  then have a: "stun_value_wf tid (at_length a) (at_value a)" by (simp add: stun_attr_wf_def)
  have IH: "emits_opt (write_attrs h (Some tid) attrs) (concat (map (stun_attr_bytes tid) attrs))"
    using Cons by simp
  show ?case
    unfolding emits_opt_def
  proof (intro allI impI)
    fix b assume b: "bb_net b"
    let ?b = "WriteUInt16 h (at_length a) (WriteUInt16 h (at_type a) b)"
    have h: "bb_net ?b" "bb_contents ?b = bb_contents b @ be_bytes 2 (at_type a) @ be_bytes 2 (at_length a)"
      using b by (simp_all add: buf_simps inv_intros)
    obtain b1 where 1: "StunAttribute_Write h (Some tid) a ?b = Some b1" "bb_net b1"
      "bb_contents b1 = bb_contents ?b @ stun_attr_body tid a"
      by (rule emits_optD [OF emits_attr [OF a assms(2)] h(1)])
    obtain b2 where "write_attrs h (Some tid) attrs b1 = Some b2" "bb_net b2"
      "bb_contents b2 = bb_contents b1 @ concat (map (stun_attr_bytes tid) attrs)"
      by (rule emits_optD [OF IH 1(2)])
    with 1 h show "\<exists>b'. write_attrs h (Some tid) (a # attrs) b = Some b' \<and> bb_net b' \<and>
        bb_contents b' = bb_contents b @ concat (map (stun_attr_bytes tid) (a # attrs))"
      by (simp add: Let_def stun_attr_bytes_def)
  qed
qed (simp add: emits_opt_def)

lemma emits_message:
  assumes "stun_msg_wf m"
  shows "emits_opt (StunMessage_Write h m) (stun_bytes m)"
  unfolding emits_opt_def
proof (intro allI impI)
  fix b assume b: "bb_net b"
  let ?b = "WriteString (sm_transaction_id m) (if \<not> IsLegacy m then WriteUInt32 h kStunMagicCookie
      (WriteUInt16 h (sm_length m) (WriteUInt16 h (sm_type m) b)) else WriteUInt16 h (sm_length m) (WriteUInt16 h (sm_type m) b))"
  have h: "bb_net ?b" "bb_contents ?b = bb_contents b @ be_bytes 2 (sm_type m) @ be_bytes 2 (sm_length m) @ stun_id_bytes m"
    using b by (simp_all add: buf_simps inv_intros stun_id_bytes_def cookie_bytes_def)
  have "\<forall>a\<in>set (sm_attrs m). stun_attr_wf (sm_class m) (sm_transaction_id m) a" "12 \<le> length (sm_transaction_id m)"
    using assms valid_id_length by (auto simp: stun_msg_wf_def)
  then obtain b1 where "write_attrs h (Some (sm_transaction_id m)) (sm_attrs m) ?b = Some b1" "bb_net b1"
      "bb_contents b1 = bb_contents ?b @ stun_attrs_bytes m"
    using emits_optD [OF emits_attrs h(1)] unfolding stun_attrs_bytes_def by metis
  with h show "\<exists>b'. StunMessage_Write h m b = Some b' \<and> bb_net b' \<and> bb_contents b' = bb_contents b @ stun_bytes m"
    by (simp add: StunMessage_Write_def Let_def stun_bytes_def)
qed

lemma parses_attrs:
  assumes "\<forall>a\<in>set attrs. stun_attr_wf cls tid a" and "12 \<le> length tid"
    and "bb_net b" and "bb_contents b = concat (map (stun_attr_bytes tid) attrs)"
  shows "\<exists>b'. StunMessage_read_attrs h cls tid 0 acc b = Some (acc @ attrs, b') \<and> bb_net b' \<and> bb_contents b' = []"
  using assms(1,3,4)
proof (induction attrs arbitrary: acc b)
  case Nil
  then have "ByteBuffer_Length b = 0" using length_bb_contents [of b] by simp
  with Nil show ?case by (simp add: StunMessage_read_attrs.simps)
next
  case (Cons a attrs)
  let ?r = "concat (map (stun_attr_bytes tid) attrs)"
  have c: "bb_contents b = be_bytes 2 (at_type a) @ be_bytes 2 (at_length a) @ stun_attr_body tid a @ ?r"
    using Cons.prems(3) by (simp add: stun_attr_bytes_def [of tid a])
  then have "ByteBuffer_Length b > 0" using length_bb_contents [of b] Cons.prems(2) by simp
  obtain b1 where 1: "ReadUInt16 h b = Some (at_type a, b1)" "bb_net b1"
    "bb_contents b1 = be_bytes 2 (at_length a) @ stun_attr_body tid a @ ?r"
    by (rule parsesD [OF parses_UInt(2) Cons.prems(2) c])
  obtain b2 where 2: "ReadUInt16 h b1 = Some (at_length a, b2)" "bb_net b2"
    "bb_contents b2 = stun_attr_body tid a @ ?r"
    by (rule parsesD [OF parses_UInt(2) 1(2,3)])
  obtain a0 where a0: "CreateAttribute cls (at_type a) (at_length a) = Some a0"
    "parses (StunAttribute_Read h (Some tid) a0) (stun_attr_body tid a) a"
    using parses_attr [of cls tid a h] Cons.prems(1) assms(2) by auto
  obtain b3 where 3: "StunAttribute_Read h (Some tid) a0 b2 = Some (a, b3)" "bb_net b3" "bb_contents b3 = ?r"
    by (rule parsesD [OF a0(2) 2(2,3)])
  from Cons.IH [OF _ 3(2,3), of "acc @ [a]"] Cons.prems(1)
  obtain b' where "StunMessage_read_attrs h cls tid 0 (acc @ [a]) b3 = Some ((acc @ [a]) @ attrs, b')"
    "bb_net b'" "bb_contents b' = []" by auto
  then show ?case
    using \<open>ByteBuffer_Length b > 0\<close> 1(1) 2(1) 3(1) a0(1) by (subst StunMessage_read_attrs.simps) simp
qed

lemma cookie_check: "length c = 4 \<Longrightarrow> NetworkToHost32 h (host_word h c) \<noteq> kStunMagicCookie \<longleftrightarrow> c \<noteq> cookie_bytes"
  using be_word4_inject [of c cookie_bytes] by (simp add: v4_order cookie_bytes_def)

lemma parses_message:
  assumes "stun_msg_wf m" and "sm_class m0 = sm_class m" and "bb_net b" and "bb_contents b = stun_bytes m"
  shows "\<exists>b'. StunMessage_Read h m0 b = Some (m, b') \<and> bb_net b' \<and> bb_contents b' = []"
proof -
  let ?tid = "sm_transaction_id m" and ?id = "stun_id_bytes m"
  have wf: "IsValidTransactionId ?tid" "IsLegacy m \<longrightarrow> take 4 ?tid \<noteq> cookie_bytes" "sm_type m AND 0x8000 = 0"
    "\<forall>a\<in>set (sm_attrs m). stun_attr_wf (sm_class m) ?tid a" "unat (sm_length m) = length (stun_attrs_bytes m)"
    using assms(1) by (auto simp: stun_msg_wf_def)
  have id: "length ?id = 16" by (rule length_stun_id_bytes [OF wf(1)])
  have c: "bb_contents b = be_bytes 2 (sm_type m) @ be_bytes 2 (sm_length m) @ take 4 ?id @ drop 4 ?id @ stun_attrs_bytes m"
    using assms(4) by (simp add: stun_bytes_def flip: append_assoc)
  obtain b1 where 1: "ReadUInt16 h b = Some (sm_type m, b1)" "bb_net b1"
    "bb_contents b1 = be_bytes 2 (sm_length m) @ take 4 ?id @ drop 4 ?id @ stun_attrs_bytes m"
    by (rule parsesD [OF parses_UInt(2) assms(3) c])
  obtain b2 where 2: "ReadUInt16 h b1 = Some (sm_length m, b2)" "bb_net b2"
    "bb_contents b2 = take 4 ?id @ drop 4 ?id @ stun_attrs_bytes m"
    by (rule parsesD [OF parses_UInt(2) 1(2,3)])
  obtain b3 where 3: "ReadString [] 4 b2 = Some ([] @ take 4 ?id, b3)" "bb_net b3"
    "bb_contents b3 = drop 4 ?id @ stun_attrs_bytes m"
    by (rule parsesD [OF parses_String [where s = "[]"] 2(2,3)]) (use id in simp_all)
  obtain b4 where 4: "ReadString [] 12 b3 = Some ([] @ drop 4 ?id, b4)" "bb_net b4" "bb_contents b4 = stun_attrs_bytes m"
    by (rule parsesD [OF parses_String [where s = "[]"] 3(2,3)]) (use id in simp_all)
  have tid: "NetworkToHost32 h (host_word h (take 4 ?id)) \<noteq> kStunMagicCookie \<Longrightarrow> ?id = ?tid"
    "NetworkToHost32 h (host_word h (take 4 ?id)) = kStunMagicCookie \<Longrightarrow> drop 4 ?id = ?tid"
    using wf(2) id cookie_check [of "take 4 ?id" h] by (auto simp: stun_id_bytes_def split: if_splits)
  have len: "ByteBuffer_Length b4 = unat (sm_length m)"
    using length_bb_contents [of b4] 4(2,3) wf(5) by simp
  obtain b' where "StunMessage_read_attrs h (sm_class m) ?tid 0 [] b4 = Some (sm_attrs m, b')" "bb_net b'" "bb_contents b' = []"
    using parses_attrs [OF wf(4) valid_id_length [OF wf(1)] 4(2), of h "[]"] 4(3) by (auto simp: stun_attrs_bytes_def)
  moreover have "m0\<lparr>sm_type := sm_type m, sm_length := sm_length m, sm_transaction_id := ?tid, sm_attrs := sm_attrs m\<rparr> = m"
    using assms(2) by (cases m; cases m0) simp
  moreover have "(if NetworkToHost32 h (host_word h (take 4 ?id)) \<noteq> kStunMagicCookie then take 4 ?id @ drop 4 ?id else drop 4 ?id) = ?tid"
    using tid by (simp only: append_take_drop_id split: if_split) blast
  ultimately show ?thesis
    using 1(1) 2(1) 3(1) 4(1) len wf(3) assms(2)
    by (simp only: StunMessage_Read_def kStunMagicCookieLength_def kStunTransactionIdLength_def Let_def
        bind.bind_lunit prod.case append_Nil simp_thms if_False if_True diff_self_eq_0) simp
qed

end
