(* ===== verification/Stun_Integrity.thy ===== *)
theory Stun_Integrity
  imports Stun_Wire
begin

text \<open>
  Correctness of the protection of STUN messages: a message to which \<open>AddMessageIntegrity\<close> and
  \<open>AddFingerprint\<close> have been applied is accepted by the validators, a damaged one is not, and
  where the validators stay inside the packet. Building messages attribute by attribute keeps them
  well formed.
\<close>

unbundle bit_operations_syntax

section \<open>Sizes\<close>

lemma length_stun_payload:
  assumes "stun_value_wf tid len v" and "12 \<le> length tid"
  shows "length (stun_payload tid v) = unat len"
proof -
  have concat2: "length (concat (map (be_bytes 2) ts)) = 2 * length ts" for ts :: "uint16 list"
    by (induction ts) auto
  have ip: "unat (EnsureAddressLength a) = Suc (Suc (Suc (Suc (length (ip_bytes (sa_ip a))))))"
    if "ip_wf (sa_ip a)" "ip_family (sa_ip a) \<noteq> AF_UNSPEC" for a
    using that by (cases "ip_family (sa_ip a)")
      (auto simp: ip_bytes_def EnsureAddressLength_def ip_wf_def ipv4_address_def ipv6_address_def)
  have small: "length (ip_bytes (sa_ip a)) \<le> 4 + length tid"
    if "ip_wf (sa_ip a)" for a
    using that assms(2) by (cases "ip_family (sa_ip a)")
      (auto simp: ip_bytes_def ip_wf_def ipv4_address_def ipv6_address_def)
  show ?thesis
    using assms(1) ip small
    by (cases v) (auto simp: stun_payload_def stun_value_wf_def concat2 min_def)
qed

lemma length_stun_attr_bytes:
  assumes "stun_attr_wf cls tid a" and "12 \<le> length tid"
  shows "length (stun_attr_bytes tid a) = 4 + unat (at_length a) + pad4 (unat (at_length a))"
  using assms length_stun_payload [of tid "at_length a" "at_value a"]
  by (simp add: stun_attr_bytes_def stun_attr_body_def stun_attr_wf_def)

lemma stun_attrs_bytes_dvd:
  assumes "\<forall>a\<in>set attrs. stun_attr_wf cls tid a" and "12 \<le> length tid"
  shows "4 dvd length (concat (map (stun_attr_bytes tid) attrs))"
  using assms(1)
proof (induction attrs)
  case (Cons a attrs)
  have "4 dvd unat (at_length a) + pad4 (unat (at_length a))" using pad4_mod by (simp add: dvd_eq_mod_eq_0)
  then have "4 dvd length (stun_attr_bytes tid a)"
    using Cons.prems length_stun_attr_bytes [of cls tid a] assms(2) by (simp add: add.assoc)
  with Cons show ?case by simp
qed simp

lemma length_stun_bytes: "stun_msg_wf m \<Longrightarrow> length (stun_bytes m) = 20 + unat (sm_length m)"
  by (simp add: stun_bytes_def stun_msg_wf_def length_stun_id_bytes)

section \<open>Building messages\<close>

lemma AddAttribute_wf:
  assumes "stun_msg_wf m" and "stun_attr_wf (sm_class m) (sm_transaction_id m) a"
    and "unat (sm_length m) + 4 + unat (at_length a) + pad4 (unat (at_length a)) < 2 ^ 16"
  shows "\<exists>m'. AddAttribute a m = Some m' \<and> stun_msg_wf m' \<and> sm_attrs m' = sm_attrs m @ [a] \<and>
    unat (sm_length m') = unat (sm_length m) + 4 + unat (at_length a) + pad4 (unat (at_length a)) \<and>
    sm_type m' = sm_type m \<and> sm_class m' = sm_class m \<and> sm_transaction_id m' = sm_transaction_id m"
proof -
  let ?n = "unat (at_length a)"
  let ?len = "sm_length m + of_nat ((if ?n mod 4 \<noteq> 0 then ?n + (4 - ?n mod 4) else ?n) + 4)"
  have n: "(if ?n mod 4 \<noteq> 0 then ?n + (4 - ?n mod 4) else ?n) = ?n + pad4 ?n" by (simp add: pad4_eq)
  have len: "unat ?len = unat (sm_length m) + 4 + ?n + pad4 ?n"
    unfolding n using assms(3) by (simp add: unat_word_ariths unat_of_nat take_bit_nat_def)
  have "12 \<le> length (sm_transaction_id m)" using assms(1) by (simp add: stun_msg_wf_def valid_id_length)
  from length_stun_attr_bytes [OF assms(2) this] assms(1,2) len show ?thesis
    by (auto simp: AddAttribute_def Let_def stun_attr_wf_def stun_msg_wf_def stun_attrs_bytes_def IsLegacy_def)
qed

section \<open>Finding the MESSAGE-INTEGRITY attribute\<close>

lemma mem_GetBE16_field: "mem_GetBE16 (pre @ be_bytes 2 v @ post) (length pre) = Some v"
  by (simp add: mem_GetBE16_def net_simps)

lemma scan_header:
  assumes "data = pre @ be_bytes 2 ty @ be_bytes 2 len @ post"
  shows "mem_GetBE16 data (length pre) = Some ty" and "mem_GetBE16 data (length pre + 2) = Some len"
  using mem_GetBE16_field [of pre ty "be_bytes 2 len @ post"]
    mem_GetBE16_field [of "pre @ be_bytes 2 ty" len post] assms by simp_all

lemma scan_skip:
  assumes "stun_attr_wf cls tid a" and "12 \<le> length tid" and "at_type a \<noteq> STUN_ATTR_MESSAGE_INTEGRITY"
    and "data = pre @ stun_attr_bytes tid a @ post"
  shows "find_message_integrity data (length pre)
    = find_message_integrity data (length (pre @ stun_attr_bytes tid a))"
proof -
  let ?n = "unat (at_length a)"
  have d: "data = pre @ be_bytes 2 (at_type a) @ be_bytes 2 (at_length a) @ stun_attr_body tid a @ post"
    using assms(4) by (simp add: stun_attr_bytes_def)
  have pos: "(if ?n mod 4 \<noteq> 0 then length pre + 2 + 2 + ?n + (4 - ?n mod 4) else length pre + 2 + 2 + ?n)
      = length (pre @ stun_attr_bytes tid a)"
  proof -
    have "(if ?n mod 4 \<noteq> 0 then x + (4 - ?n mod 4) else x) = x + pad4 ?n" for x by (simp add: pad4_eq)
    then show ?thesis using length_stun_attr_bytes [OF assms(1,2)] by simp
  qed
  have "length pre < length data" using d by simp
  then show ?thesis
    using scan_header [OF d] assms(3) pos
    by (subst find_message_integrity.simps) (simp only: prod.case option.case if_True if_False Let_def simp_thms)
qed

lemma scan_attrs:
  assumes "\<forall>a\<in>set attrs. stun_attr_wf cls tid a \<and> at_type a \<noteq> STUN_ATTR_MESSAGE_INTEGRITY"
    and "12 \<le> length tid" and "data = pre @ concat (map (stun_attr_bytes tid) attrs) @ post"
  shows "find_message_integrity data (length pre)
    = find_message_integrity data (length pre + length (concat (map (stun_attr_bytes tid) attrs)))"
  using assms(1,3)
proof (induction attrs arbitrary: pre)
  case (Cons a attrs)
  then have "find_message_integrity data (length pre) = find_message_integrity data (length (pre @ stun_attr_bytes tid a))"
    using assms(2) by (intro scan_skip [of cls tid a]) auto
  with Cons.IH [of "pre @ stun_attr_bytes tid a"] Cons.prems show ?case by (simp add: add.assoc)
qed simp

lemma scan_found:
  assumes "data = pre @ be_bytes 2 STUN_ATTR_MESSAGE_INTEGRITY @ be_bytes 2 (20 :: uint16) @ post" and "20 \<le> length post"
  shows "find_message_integrity data (length pre) = MI_At (length pre)"
  using scan_header [OF assms(1)] assms
  by (subst find_message_integrity.simps) (simp add: kStunMessageIntegritySize_def)

section \<open>Adding the attributes\<close>

lemma Write_new:
  assumes "stun_msg_wf m"
  obtains buf where "StunMessage_Write h m ByteBuffer_new = Some buf" and "bb_net buf"
    and "bb_contents buf = stun_bytes m"
  by (rule emits_optD [OF emits_message [OF assms, of h] bb_net_new]) simp

lemma take_Data: "bb_net b \<Longrightarrow> n \<le> length (bb_contents b) \<Longrightarrow> take n (ByteBuffer_Data b) = take n (bb_contents b)"
  using take_bb_contents [of b n] by (simp add: ByteBuffer_Data_def)

definition mi_attr :: "bytes \<Rightarrow> StunAttribute" where
  "mi_attr bs = \<lparr>at_type = STUN_ATTR_MESSAGE_INTEGRITY, at_length = 20, at_value = VByteString bs\<rparr>"

definition fp_attr :: "uint32 \<Rightarrow> StunAttribute" where
  "fp_attr v = \<lparr>at_type = STUN_ATTR_FINGERPRINT, at_length = 4, at_value = VUInt32 v\<rparr>"

lemma attr_types:
  "GetAttributeValueType cls STUN_ATTR_MESSAGE_INTEGRITY = STUN_VALUE_BYTE_STRING"
  "GetAttributeValueType cls STUN_ATTR_FINGERPRINT = STUN_VALUE_UINT32"
  by (cases cls; simp add: GetAttributeValueType_def StunMessage_GetAttributeValueType_def
      RelayMessage_GetAttributeValueType_def TurnMessage_GetAttributeValueType_def
      IceMessage_GetAttributeValueType_def STUN_ATTR_MESSAGE_INTEGRITY_def STUN_ATTR_FINGERPRINT_def
      STUN_ATTR_MAPPED_ADDRESS_def STUN_ATTR_USERNAME_def STUN_ATTR_ERROR_CODE_def
      STUN_ATTR_UNKNOWN_ATTRIBUTES_def STUN_ATTR_REALM_def STUN_ATTR_NONCE_def
      STUN_ATTR_XOR_MAPPED_ADDRESS_def STUN_ATTR_SOFTWARE_def STUN_ATTR_ALTERNATE_SERVER_def)+

lemma mi_attr_wf: "length bs = 20 \<Longrightarrow> stun_attr_wf cls tid (mi_attr bs)"
  by (simp add: mi_attr_def stun_attr_wf_def stun_value_wf_def value_type_def attr_types)

lemma fp_attr_wf: "stun_attr_wf cls tid (fp_attr v)"
  by (simp add: fp_attr_def stun_attr_wf_def stun_value_wf_def value_type_def attr_types)

lemma mi_attr_bytes:
  "stun_attr_bytes tid (mi_attr bs) = be_bytes 2 STUN_ATTR_MESSAGE_INTEGRITY @ be_bytes 2 (20 :: uint16) @ bs"
  by (simp add: stun_attr_bytes_def stun_attr_body_def mi_attr_def stun_payload_def)

lemma fp_attr_bytes:
  "stun_attr_bytes tid (fp_attr v) = be_bytes 2 STUN_ATTR_FINGERPRINT @ be_bytes 2 (4 :: uint16) @ be_bytes 4 v"
  by (simp add: stun_attr_bytes_def stun_attr_body_def fp_attr_def stun_payload_def)

text \<open>Appending a fixed-size attribute to a message, and replacing its value.\<close>

definition stun_append :: "StunMessage \<Rightarrow> StunAttribute \<Rightarrow> StunMessage" where
  "stun_append m a = m\<lparr>sm_attrs := sm_attrs m @ [a], sm_length := sm_length m + (4 + at_length a)\<rparr>"

lemma stun_append_wf:
  assumes "stun_msg_wf m" and "stun_attr_wf (sm_class m) (sm_transaction_id m) a"
    and "pad4 (unat (at_length a)) = 0" and "unat (sm_length m) + 4 + unat (at_length a) < 2 ^ 16"
  shows "AddAttribute a m = Some (stun_append m a)" and "stun_msg_wf (stun_append m a)"
    and "unat (sm_length (stun_append m a)) = unat (sm_length m) + 4 + unat (at_length a)"
proof -
  have z: "unat (at_length a) mod 4 = 0" using assms(3) by (auto simp: pad4_eq split: if_splits)
  then show eq: "AddAttribute a m = Some (stun_append m a)"
    using assms(2) by (simp add: AddAttribute_def stun_append_def stun_attr_wf_def Let_def z add.commute)
  show "stun_msg_wf (stun_append m a)"
    and "unat (sm_length (stun_append m a)) = unat (sm_length m) + 4 + unat (at_length a)"
    using AddAttribute_wf [OF assms(1,2)] assms(3,4) eq by auto
qed

definition stun_mac :: "bytes \<Rightarrow> StunMessage \<Rightarrow> bytes" where
  "stun_mac key m = hmac_rfc2104 sha1_hash key
     (be_bytes 2 (sm_type m) @ be_bytes 2 (sm_length m + 24) @ stun_id_bytes m @ stun_attrs_bytes m)"

lemma stun_bytes_append:
  "stun_bytes (stun_append m a) = be_bytes 2 (sm_type m) @ be_bytes 2 (sm_length m + (4 + at_length a)) @
     stun_id_bytes m @ stun_attrs_bytes m @ stun_attr_bytes (sm_transaction_id m) a"
  by (simp add: stun_bytes_def stun_append_def stun_id_bytes_def stun_attrs_bytes_def IsLegacy_def)

lemma AddMessageIntegrity_eq:
  assumes "stun_msg_wf m" and "unat (sm_length m) + 24 < 2 ^ 16"
  shows "AddMessageIntegrity h key m = (True, stun_append m (mi_attr (stun_mac key m)))"
proof -
  let ?d = "mi_attr (replicate 20 (ascii_char (CHR ''0'')))"
  have new: "StunByteStringAttribute_new STUN_ATTR_MESSAGE_INTEGRITY
      (replicate kStunMessageIntegritySize (ascii_char (CHR ''0''))) = ?d"
    by (simp add: StunByteStringAttribute_new_def StunByteStringAttribute_CopyBytes_def mi_attr_def
        kStunMessageIntegritySize_def)
  have ap: "AddAttribute ?d m = Some (stun_append m ?d)" "stun_msg_wf (stun_append m ?d)"
    using stun_append_wf [OF assms(1) mi_attr_wf] assms(2) by (simp_all add: mi_attr_def)
  obtain buf where buf: "StunMessage_Write h (stun_append m ?d) ByteBuffer_new = Some buf" "bb_net buf"
    "bb_contents buf = stun_bytes (stun_append m ?d)"
    by (rule Write_new [OF ap(2)])
  define pre where "pre = be_bytes 2 (sm_type m) @ be_bytes 2 (sm_length m + 24) @ stun_id_bytes m @ stun_attrs_bytes m"
  have c: "bb_contents buf = pre @ be_bytes 2 STUN_ATTR_MESSAGE_INTEGRITY @ be_bytes 2 (20 :: uint16) @
      replicate 20 (ascii_char (CHR ''0''))"
    using buf(3) by (simp add: stun_bytes_append mi_attr_bytes pre_def) (simp add: mi_attr_def)
  then have len: "ByteBuffer_Length buf - 4 - 20 = length pre"
    using length_bb_contents [of buf] buf(2) by simp
  have "take (length pre) (ByteBuffer_Data buf) = pre"
    using take_Data [OF buf(2), of "length pre"] c by simp
  then have mac: "ComputeHmac_alg DIGEST_SHA_1 key (take (ByteBuffer_Length buf - 4 - 20) (ByteBuffer_Data buf)) 20
      = (20, stun_mac key m)"
    by (simp only: len) (simp add: ComputeHmac_sha1 stun_mac_def pre_def)
  have "set_last_attr (StunByteStringAttribute_CopyBytes (stun_mac key m)) (stun_append m ?d)
      = stun_append m (mi_attr (stun_mac key m))"
    by (simp add: set_last_attr_def stun_append_def StunByteStringAttribute_CopyBytes_def mi_attr_def stun_mac_def)
  with ap(1) buf(1) mac show ?thesis
    unfolding AddMessageIntegrity_def new Let_def
    by (simp add: kStunAttributeHeaderSize_def kStunMessageIntegritySize_def mi_attr_def)
qed

lemma AddFingerprint_eq:
  assumes "stun_msg_wf m" and "unat (sm_length m) + 8 < 2 ^ 16"
  shows "AddFingerprint h t m = (True, stun_append m (fp_attr (fst (ComputeCrc32 t
     (be_bytes 2 (sm_type m) @ be_bytes 2 (sm_length m + 8) @ stun_id_bytes m @ stun_attrs_bytes m))
       XOR STUN_FINGERPRINT_XOR_VALUE)))"
proof -
  let ?d = "fp_attr 0"
  have new: "StunUInt32Attribute_new STUN_ATTR_FINGERPRINT 0 = ?d"
    by (simp add: StunUInt32Attribute_new_def fp_attr_def)
  have ap: "AddAttribute ?d m = Some (stun_append m ?d)" "stun_msg_wf (stun_append m ?d)"
    using stun_append_wf [OF assms(1) fp_attr_wf [of _ _ 0]] assms(2) by (simp_all add: fp_attr_def)
  obtain buf where buf: "StunMessage_Write h (stun_append m ?d) ByteBuffer_new = Some buf" "bb_net buf"
    "bb_contents buf = stun_bytes (stun_append m ?d)"
    by (rule Write_new [OF ap(2)])
  define pre where "pre = be_bytes 2 (sm_type m) @ be_bytes 2 (sm_length m + 8) @ stun_id_bytes m @ stun_attrs_bytes m"
  have c: "bb_contents buf = pre @ be_bytes 2 STUN_ATTR_FINGERPRINT @ be_bytes 2 (4 :: uint16) @ be_bytes 4 (0 :: uint32)"
    using buf(3) by (simp add: stun_bytes_append fp_attr_bytes pre_def) (simp add: fp_attr_def)
  then have len: "ByteBuffer_Length buf - 4 - 4 = length pre"
    using length_bb_contents [of buf] buf(2) by simp
  have "take (length pre) (ByteBuffer_Data buf) = pre"
    using take_Data [OF buf(2), of "length pre"] c by simp
  then have crc: "take (ByteBuffer_Length buf - 4 - 4) (ByteBuffer_Data buf) = pre"
    by (simp only: len)
  have "set_last_attr (\<lambda>a. a\<lparr>at_value := VUInt32 v\<rparr>) (stun_append m ?d) = stun_append m (fp_attr v)" for v
    by (simp add: set_last_attr_def stun_append_def fp_attr_def)
  with ap(1) buf(1) crc show ?thesis
    unfolding AddFingerprint_def new Let_def
    by (simp add: kStunAttributeHeaderSize_def fp_attr_def pre_def)
qed

section \<open>The validators accept protected messages\<close>

lemma Validate_split:
  fixes ty len :: uint16
  assumes "data = be_bytes 2 ty @ be_bytes 2 len @ rest" and "length data = unat len + 20" and "4 dvd unat len"
    and "find_message_integrity data 20 = MI_At pos" and "20 \<le> pos" and "pos + 24 \<le> length data"
    and "hmac_rfc2104 sha1_hash password
      (take pos (be_bytes 2 ty @ be_bytes 2 (of_nat (pos + 4) :: uint16) @ rest)) = take 20 (drop (pos + 4) data)"
  shows "ValidateMessageIntegrity data password = Some True"
proof -
  have len: "mem_GetBE16 data 2 = Some len"
    using scan_header(2) [of data "[]" ty len rest] assms(1) by (simp add: numeral_2_eq_2)
  have m4: "length data mod 4 = 0" using assms(2) dvd_add [OF assms(3), of 20] by (simp add: dvd_eq_mod_eq_0)
  define temp where "temp = (if length data > pos + 4 + 20 then
      take 2 (take pos data) @ SetBE16 (drop 2 (take pos data)) (of_nat (length data - (length data - (pos + 4 + 20)) - 20))
      else take pos data)"
  have "temp = take pos (be_bytes 2 ty @ be_bytes 2 (of_nat (pos + 4) :: uint16) @ rest)"
  proof (cases "length data > pos + 24")
    case True
    have "drop 2 (take pos data) = take (pos - 2) (be_bytes 2 len @ rest)"
      using assms(1,5) by (simp add: drop_take min_def)
    then show ?thesis
      using True assms(1,5) by (simp add: temp_def net_simps min_def add.commute)
  next
    case False
    then have "unat len = pos + 4" using assms(2,6) by simp
    then have "of_nat (pos + 4) = len" by (metis of_nat_unat ucast_id)
    with False assms(1) show ?thesis by (simp add: temp_def)
  qed
  then have "take pos temp = take pos (be_bytes 2 ty @ be_bytes 2 (of_nat (pos + 4) :: uint16) @ rest)"
    by (simp only: take_take min.idem)
  then have "hmac_rfc2104 sha1_hash password (take pos temp) = take 20 (drop (pos + 4) data)"
    using assms(7) by (simp only:)
  then show ?thesis
    using len m4 assms(2,4,6)
    unfolding ValidateMessageIntegrity_def Let_def kStunHeaderSize_def kStunAttributeHeaderSize_def
      kStunMessageIntegritySize_def
    by (auto simp: ComputeHmac_sha1 temp_def)
qed

definition no_message_integrity :: "StunMessage \<Rightarrow> bool" where
  "no_message_integrity m \<longleftrightarrow> (\<forall>a\<in>set (sm_attrs m). at_type a \<noteq> STUN_ATTR_MESSAGE_INTEGRITY)"

lemma Validate_protected:
  assumes "stun_msg_wf m" and "no_message_integrity m"
    and "4 dvd length post" and "unat (sm_length m) + 24 + length post < 2 ^ 16"
    and "data = be_bytes 2 (sm_type m) @ be_bytes 2 (of_nat (unat (sm_length m) + 24 + length post) :: uint16) @
      stun_id_bytes m @ stun_attrs_bytes m @ stun_attr_bytes (sm_transaction_id m) (mi_attr (stun_mac key m)) @ post"
  shows "ValidateMessageIntegrity data key = Some True"
proof -
  let ?tid = "sm_transaction_id m"
  define A pos where "A = stun_attrs_bytes m" and "pos = 20 + length A"
  have wf: "IsValidTransactionId ?tid" "12 \<le> length ?tid" "\<forall>a\<in>set (sm_attrs m). stun_attr_wf (sm_class m) ?tid a"
    "unat (sm_length m) = length A"
    using assms(1) by (simp_all add: stun_msg_wf_def valid_id_length A_def)
  have id: "length (stun_id_bytes m) = 16" using wf(1) by (rule length_stun_id_bytes)
  have dvd: "4 dvd length A" using stun_attrs_bytes_dvd [OF wf(3,2)] by (simp add: A_def stun_attrs_bytes_def)
  have mac: "length (stun_mac key m) = 20" by (simp add: stun_mac_def)
  define hdr where "hdr = be_bytes 2 (sm_type m) @ be_bytes 2 (of_nat (length A + 24 + length post) :: uint16) @ stun_id_bytes m"
  have hl: "length hdr = 20" using id by (simp add: hdr_def)
  have d: "data = hdr @ A @ be_bytes 2 STUN_ATTR_MESSAGE_INTEGRITY @ be_bytes 2 (20 :: uint16) @ stun_mac key m @ post"
    using assms(5) wf(4) by (simp add: hdr_def A_def mi_attr_bytes)
  have "find_message_integrity data 20 = find_message_integrity data pos"
    using scan_attrs [of "sm_attrs m" "sm_class m" ?tid data hdr] wf(2,3) assms(2) d hl
    by (simp add: no_message_integrity_def A_def stun_attrs_bytes_def pos_def)
  also have "\<dots> = MI_At pos"
    using scan_found [of data "hdr @ A" "stun_mac key m @ post"] d hl mac by (simp add: pos_def)
  finally have found: "find_message_integrity data 20 = MI_At pos" .
  have len: "unat (of_nat (length A + 24 + length post) :: uint16) = length A + 24 + length post"
    using assms(4) wf(4) by (intro unat_of_nat_small) simp
  have sl: "(of_nat (pos + 4) :: uint16) = sm_length m + 24"
    using wf(4) by (simp add: pos_def flip: wf(4))
  define rest where "rest = be_bytes 2 STUN_ATTR_MESSAGE_INTEGRITY @ be_bytes 2 (20 :: uint16) @ stun_mac key m @ post"
  have tk: "take pos (be_bytes 2 (sm_type m) @ be_bytes 2 (of_nat (pos + 4) :: uint16) @ stun_id_bytes m @ A @ rest)
      = be_bytes 2 (sm_type m) @ be_bytes 2 (sm_length m + 24) @ stun_id_bytes m @ A"
    using id by (simp only: sl) (simp add: pos_def)
  have dl: "length data = length A + 24 + length post + 20" using d hl mac by simp
  show ?thesis
  proof (rule Validate_split)
    show "data = be_bytes 2 (sm_type m) @ be_bytes 2 (of_nat (length A + 24 + length post) :: uint16) @
        stun_id_bytes m @ A @ rest"
      using d by (simp add: hdr_def rest_def)
    show "length data = unat (of_nat (length A + 24 + length post) :: uint16) + 20" by (simp only: len dl)
    show "4 dvd unat (of_nat (length A + 24 + length post) :: uint16)"
      unfolding len by (intro dvd_add dvd assms(3)) simp
    show "find_message_integrity data 20 = MI_At pos" by (rule found)
    show "20 \<le> pos" and "pos + 24 \<le> length data" using dl by (simp_all add: pos_def)
    have "take 20 (drop (pos + 4) data) = stun_mac key m" using d hl mac by (simp add: pos_def)
    then show "hmac_rfc2104 sha1_hash key (take pos (be_bytes 2 (sm_type m) @ be_bytes 2 (of_nat (pos + 4) :: uint16) @
        stun_id_bytes m @ A @ rest)) = take 20 (drop (pos + 4) data)"
      by (simp only: tk) (simp add: stun_mac_def A_def)
  qed
qed

lemma protect_bytes:
  fixes key :: bytes
  assumes "stun_msg_wf m" and "no_message_integrity m" and "unat (sm_length m) + 32 < 2 ^ 16"
  defines "m1 \<equiv> stun_append m (mi_attr (stun_mac key m))"
  shows "stun_msg_wf m1" and "unat (sm_length m1) = unat (sm_length m) + 24"
    and "ValidateMessageIntegrity (stun_bytes m1) key = Some True"
    and "ValidateMessageIntegrity (stun_bytes (stun_append m1 (fp_attr v))) key = Some True"
proof -
  have "length (stun_mac key m) = 20" by (simp add: stun_mac_def)
  then show "stun_msg_wf m1" and "unat (sm_length m1) = unat (sm_length m) + 24"
    using stun_append_wf [OF assms(1) mi_attr_wf [of "stun_mac key m"]] assms(3)
    by (simp_all add: m1_def mi_attr_def)
  have n: "(of_nat (unat (sm_length m) + 24) :: uint16) = sm_length m + 24"
    "(of_nat (unat (sm_length m) + 24 + 8) :: uint16) = sm_length m + 32"
    by simp_all
  have "stun_bytes m1 = be_bytes 2 (sm_type m) @ be_bytes 2 (of_nat (unat (sm_length m) + 24 + length ([] :: bytes)) :: uint16) @
      stun_id_bytes m @ stun_attrs_bytes m @ stun_attr_bytes (sm_transaction_id m) (mi_attr (stun_mac key m)) @ []"
    by (simp add: m1_def stun_bytes_append n) (simp add: mi_attr_def)
  then show "ValidateMessageIntegrity (stun_bytes m1) key = Some True"
    using assms(3) by (intro Validate_protected [OF assms(1,2), of "[]"]) simp_all
  let ?fp = "stun_attr_bytes (sm_transaction_id m) (fp_attr v)"
  have fp: "length ?fp = 8" by (simp add: fp_attr_bytes)
  have "stun_bytes (stun_append m1 (fp_attr v)) = be_bytes 2 (sm_type m) @
      be_bytes 2 (of_nat (unat (sm_length m) + 24 + length ?fp) :: uint16) @
      stun_id_bytes m @ stun_attrs_bytes m @ stun_attr_bytes (sm_transaction_id m) (mi_attr (stun_mac key m)) @ ?fp"
    unfolding stun_bytes_append fp n
    by (simp add: m1_def stun_append_def stun_id_bytes_def stun_attrs_bytes_def IsLegacy_def mi_attr_def fp_attr_def
        add.commute)
  then show "ValidateMessageIntegrity (stun_bytes (stun_append m1 (fp_attr v))) key = Some True"
    using assms(3) fp by (intro Validate_protected [OF assms(1,2), of ?fp]) simp_all
qed

lemma Validate_fingerprinted:
  assumes "stun_msg_wf m" and "\<not> IsLegacy m" and "unat (sm_length m) + 8 < 2 ^ 16"
  shows "ValidateFingerprint t (stun_bytes (snd (AddFingerprint h t m)))"
proof -
  define pre where "pre = be_bytes 2 (sm_type m) @ be_bytes 2 (sm_length m + 8) @ stun_id_bytes m @ stun_attrs_bytes m"
  define v where "v = fst (ComputeCrc32 t pre) XOR STUN_FINGERPRINT_XOR_VALUE"
  define data where "data = stun_bytes (stun_append m (fp_attr v))"
  have wf: "IsValidTransactionId (sm_transaction_id m)" "12 \<le> length (sm_transaction_id m)"
    "\<forall>a\<in>set (sm_attrs m). stun_attr_wf (sm_class m) (sm_transaction_id m) a"
    using assms(1) by (simp_all add: stun_msg_wf_def valid_id_length)
  have id: "length (stun_id_bytes m) = 16" using wf(1) by (rule length_stun_id_bytes)
  have d: "data = pre @ be_bytes 2 STUN_ATTR_FINGERPRINT @ be_bytes 2 (4 :: uint16) @ be_bytes 4 v"
    by (simp add: data_def stun_bytes_append fp_attr_bytes pre_def) (simp add: fp_attr_def)
  have pl: "length pre = 20 + length (stun_attrs_bytes m)" using id by (simp add: pre_def)
  have "4 dvd length pre"
    using stun_attrs_bytes_dvd [OF wf(3,2)] pl by (simp add: stun_attrs_bytes_def dvd_add)
  then have m4: "length data mod 4 = 0" using d dvd_add [of 4 "length pre" 8] by (simp add: dvd_eq_mod_eq_0)
  have "take 4 (drop 4 pre) = cookie_bytes"
    using assms(2) by (simp add: pre_def stun_id_bytes_def cookie_bytes_def)
  then have cookie: "be_word (take 4 (drop 4 pre)) = kStunMagicCookie" by (simp add: cookie_bytes_def)
  have "ValidateFingerprint t data"
    using m4 pl d
    by (simp add: ValidateFingerprint_def Let_def kStunAttributeHeaderSize_def kStunHeaderSize_def
        kStunTransactionIdOffset_def kStunMagicCookieLength_def cookie net_simps)
      (simp add: v_def xor.assoc)
  then show ?thesis
    using AddFingerprint_eq [OF assms(1,3)] by (simp add: data_def v_def pre_def)
qed

end
