(* ===== verification/Stun_Correct.thy ===== *)
theory Stun_Correct
  imports Stun_Integrity
begin

text \<open>
  What the STUN code promises: the serialiser and the parser are inverse to each other on
  well-formed messages, parsing ends with a well-typed message that accounts for every byte,
  protected messages are accepted, damaged ones are rejected, and where the integrity check leaves
  the packet.
\<close>

unbundle bit_operations_syntax

section \<open>The fingerprint\<close>

definition fp_tail :: "uint32 \<Rightarrow> bytes" where
  "fp_tail c = be_bytes 2 STUN_ATTR_FINGERPRINT @ be_bytes 2 (4 :: uint16) @ be_bytes 4 (c XOR STUN_FINGERPRINT_XOR_VALUE)"

lemma fp_tail_inject: "fp_tail c = fp_tail d \<Longrightarrow> c = d"
proof -
  assume "fp_tail c = fp_tail d"
  then have "be_bytes 4 (c XOR STUN_FINGERPRINT_XOR_VALUE) = be_bytes 4 (d XOR STUN_FINGERPRINT_XOR_VALUE)"
    by (simp add: fp_tail_def)
  then have "(be_word (be_bytes 4 (c XOR STUN_FINGERPRINT_XOR_VALUE)) :: uint32)
      = be_word (be_bytes 4 (d XOR STUN_FINGERPRINT_XOR_VALUE))" by (simp only:)
  then show "c = d" by (simp add: word_xor_right_cancel)
qed

lemma ValidateFingerprint_tail:
  assumes "ValidateFingerprint t data"
  shows "28 \<le> length data"
    and "drop (length data - 8) data = fp_tail (fst (ComputeCrc32 t (take (length data - 8) data)))"
proof -
  let ?d = "drop (length data - 8) data"
  show n: "28 \<le> length data"
    using assms by (auto simp: ValidateFingerprint_def Let_def kStunAttributeHeaderSize_def kStunHeaderSize_def
        split: if_splits)
  then have l: "length ?d = 8" by simp
  have w: "be_word (take 2 ?d) = STUN_ATTR_FINGERPRINT" "be_word (take 2 (drop 2 ?d)) = (4 :: uint16)"
    "be_word (drop 4 ?d) XOR STUN_FINGERPRINT_XOR_VALUE = fst (ComputeCrc32 t (take (length data - 8) data))"
    using assms n by (simp_all add: ValidateFingerprint_def Let_def kStunAttributeHeaderSize_def kStunHeaderSize_def
        net_simps split: if_splits)
  have "be_bytes 2 (be_word (take 2 ?d) :: uint16) = take 2 ?d" using l by (intro be_bytes_be_word) simp_all
  then have b1: "take 2 ?d = be_bytes 2 STUN_ATTR_FINGERPRINT" by (simp only: w(1))
  have "be_bytes 2 (be_word (take 2 (drop 2 ?d)) :: uint16) = take 2 (drop 2 ?d)"
    using l by (intro be_bytes_be_word) simp_all
  then have b2: "take 2 (drop 2 ?d) = be_bytes 2 (4 :: uint16)" by (simp only: w(2))
  have b3: "be_bytes 4 (be_word (drop 4 ?d) :: uint32) = drop 4 ?d"
    using l by (intro be_bytes_be_word) simp_all
  have "?d = take 2 ?d @ take 2 (drop 2 ?d) @ drop 2 (drop 2 ?d)" by (simp only: append_take_drop_id)
  also have "drop 2 (drop 2 ?d) = be_bytes 4 (be_word (drop 4 ?d) :: uint32)"
    unfolding b3 drop_drop [of 2 2] by simp
  also have "take 2 ?d @ take 2 (drop 2 ?d) @ be_bytes 4 (be_word (drop 4 ?d) :: uint32)
      = fp_tail (fst (ComputeCrc32 t (take (length data - 8) data)))"
    unfolding fp_tail_def w(3) [symmetric] word_xor_self_inverse b1 b2 ..
  finally show "?d = fp_tail (fst (ComputeCrc32 t (take (length data - 8) data)))" .
qed

section \<open>Parsing\<close>

lemma CreateAttribute_value_type:
  "CreateAttribute cls ty len = Some a \<Longrightarrow> value_type a = GetAttributeValueType cls ty \<and> at_type a = ty"
  by (cases "GetAttributeValueType cls ty")
    (auto simp: CreateAttribute_def StunAttribute_Create_def value_type_def StunUInt32Attribute_new_def
      StunUInt64Attribute_new_def)

lemma StunAttribute_Read_value_type:
  "StunAttribute_Read h owner a b = Some (a', b') \<Longrightarrow> value_type a' = value_type a \<and> at_type a' = at_type a"
  by (cases "at_value a") (auto simp: StunAttribute_Read_def value_type_def bind_eq_Some_conv)

definition attr_typed :: "StunMessageClass \<Rightarrow> StunAttribute \<Rightarrow> bool" where
  "attr_typed cls a \<longleftrightarrow> value_type a = GetAttributeValueType cls (at_type a)"

lemma read_attrs_result:
  assumes "StunMessage_read_attrs h cls tid rest attrs b = Some (attrs', b')"
  shows "ByteBuffer_Length b' \<le> rest \<and> (\<exists>new. attrs' = attrs @ new \<and>
    4 * length new + ByteBuffer_Length b' \<le> ByteBuffer_Length b \<and> list_all (attr_typed cls) new)"
  using assms
proof (induction h cls tid rest attrs b rule: StunMessage_read_attrs.induct)
  case (1 h cls tid rest attrs b)
  note unfold = StunMessage_read_attrs.simps [of h cls tid rest attrs b]
  show ?case
  proof (cases "rest < ByteBuffer_Length b")
    case False
    with "1.prems" show ?thesis by (simp add: unfold)
  next
    case True
    with "1.prems" obtain ty b1 len b2 where r: "ReadUInt16 h b = Some (ty, b1)" "ReadUInt16 h b1 = Some (len, b2)"
      by (auto simp: unfold bind_eq_Some_conv)
    have l: "ByteBuffer_Length b2 + 4 = ByteBuffer_Length b"
      using ReadUInt_Length(2) [OF r(1)] ReadUInt_Length(2) [OF r(2)] by linarith
    show ?thesis
    proof (cases "CreateAttribute cls ty len")
      case None
      let ?len = "if unat len mod 4 \<noteq> 0 then len + of_nat (4 - unat len mod 4) else len"
      have "Option.bind (ByteBuffer_Consume (unat ?len) b2) (StunMessage_read_attrs h cls tid rest attrs) = Some (attrs', b')"
        using "1.prems" True unfolding unfold
        by (simp only: r None Let_def bind.simps prod.case option.case if_True)
      then obtain b3 where 3: "ByteBuffer_Consume (unat ?len) b2 = Some b3"
        "StunMessage_read_attrs h cls tid rest attrs b3 = Some (attrs', b')"
        unfolding bind_eq_Some_conv by blast
      from "1.IH"(1) [OF True r(1) refl r(2) refl None refl 3] obtain new where
        "ByteBuffer_Length b' \<le> rest" "attrs' = attrs @ new" "list_all (attr_typed cls) new"
        "4 * length new + ByteBuffer_Length b' \<le> ByteBuffer_Length b3" by blast
      with Consume_Length [OF 3(1)] l show ?thesis by auto
    next
      case (Some a)
      have "Option.bind (StunAttribute_Read h (Some tid) a b2)
          (\<lambda>(a', b3). StunMessage_read_attrs h cls tid rest (attrs @ [a']) b3) = Some (attrs', b')"
        using "1.prems" True unfolding unfold
        by (simp only: r Some Let_def bind.simps prod.case option.case if_True)
      then obtain a' b3 where 3: "StunAttribute_Read h (Some tid) a b2 = Some (a', b3)"
        "StunMessage_read_attrs h cls tid rest (attrs @ [a']) b3 = Some (attrs', b')"
        by (auto simp: bind_eq_Some_conv)
      from "1.IH"(2) [OF True r(1) refl r(2) refl Some 3(1) refl 3(2)] obtain new where
        "ByteBuffer_Length b' \<le> rest" "attrs' = attrs @ a' # new" "list_all (attr_typed cls) new"
        "4 * length new + ByteBuffer_Length b' \<le> ByteBuffer_Length b3" by auto
      moreover have "attr_typed cls a'"
        using CreateAttribute_value_type [OF Some] StunAttribute_Read_value_type [OF 3(1)]
        by (simp add: attr_typed_def)
      ultimately show ?thesis
        using StunAttribute_Read_Length [OF 3(1)] l by (intro conjI exI [of _ "a' # new"]) simp_all
    qed
  qed
qed

section \<open>The reach of the integrity check\<close>

lemma mem_GetBE16_aligned:
  assumes "4 dvd length data" and "4 dvd pos" and "pos < length data"
  shows "\<exists>ty len. mem_GetBE16 data pos = Some ty \<and> mem_GetBE16 data (pos + 2) = Some len"
proof -
  obtain a b where "length data = 4 * a" "pos = 4 * b" using assms(1,2) by (auto elim!: dvdE)
  with assms(3) have "pos + 4 \<le> length data" by simp
  then show ?thesis by (simp add: mem_GetBE16_def)
qed

lemma find_message_integrity_aligned:
  assumes "4 dvd length data" and "4 dvd pos"
  shows "find_message_integrity data pos \<noteq> MI_Undefined \<and>
    (\<forall>p. find_message_integrity data pos = MI_At p \<longrightarrow> 4 dvd p \<and> pos \<le> p \<and> p + 20 \<le> length data)"
  using assms
proof (induction data pos rule: find_message_integrity.induct)
  case (1 data pos)
  show ?case
  proof (cases "pos < length data")
    case False
    then show ?thesis by (simp add: find_message_integrity.simps [of data pos])
  next
    case True
    then obtain ty len where w: "mem_GetBE16 data pos = Some ty" "mem_GetBE16 data (pos + 2) = Some len"
      using mem_GetBE16_aligned "1.prems" by blast
    define N where "N = (let next = pos + 2 + 2 + unat len
      in if unat len mod 4 \<noteq> 0 then next + (4 - unat len mod 4) else next)"
    have n: "N = (pos + 4) + (unat len + pad4 (unat len))"
      unfolding N_def Let_def using mod_less_divisor [of 4 "unat len"] by (auto simp: pad4_eq)
    have "4 dvd N"
      unfolding n using dvd_add [OF dvd_add [OF "1.prems"(2), of 4], of "unat len + pad4 (unat len)"]
      by (simp add: dvd_eq_mod_eq_0 add.assoc)
    have "pos \<le> N" unfolding n by simp
    show ?thesis
    proof (cases "ty = STUN_ATTR_MESSAGE_INTEGRITY")
      case ty: True
      then have "find_message_integrity data pos
          = (if unat len \<noteq> 20 \<or> pos + unat len > length data then MI_Malformed else MI_At pos)"
        using True w unfolding find_message_integrity.simps [of data pos] kStunMessageIntegritySize_def
        by (simp only: if_True if_False prod.case option.case simp_thms)
      then show ?thesis using "1.prems"(2) by (simp split: if_splits)
    next
      case ty: False
      then have "find_message_integrity data pos = find_message_integrity data N"
        using True w unfolding find_message_integrity.simps [of data pos] N_def
        by (simp only: if_True if_False prod.case option.case Let_def simp_thms)
      moreover from "1.IH" [OF True refl w ty refl "1.prems"(1)] \<open>4 dvd N\<close>
      have "find_message_integrity data N \<noteq> MI_Undefined \<and>
         (\<forall>p. find_message_integrity data N = MI_At p \<longrightarrow> 4 dvd p \<and> N \<le> p \<and> p + 20 \<le> length data)"
        unfolding N_def Let_def by blast
      ultimately show ?thesis using \<open>pos \<le> N\<close> by (metis le_trans)
    qed
  qed
qed

lemma Validate_consistent:
  assumes "length data mod 4 = 0" and "mem_GetBE16 data 2 = Some len" and "length data = unat len + 20"
  shows "ValidateMessageIntegrity data key = None \<longleftrightarrow>
    (case find_message_integrity data 20 of MI_Undefined \<Rightarrow> True | MI_At p \<Rightarrow> p + 4 + 20 > length data | _ \<Rightarrow> False)"
proof -
  have s: "(length data mod 4 \<noteq> 0) = False" "(length data \<noteq> unat len + 20) = False" using assms by simp_all
  show ?thesis
    unfolding ValidateMessageIntegrity_def Let_def kStunHeaderSize_def kStunAttributeHeaderSize_def
      kStunMessageIntegritySize_def assms(2) option.case s if_False ComputeHmac_sha1 prod.case
    by (simp split: MI_scan.split)
qed

section \<open>Properties\<close>

text \<open>C6: A well-formed message written by \<open>StunMessage::Write\<close> on a host of one byte order and
  read by \<open>StunMessage::Read\<close> on a host of any byte order comes back unchanged, every attribute
  included, and the reader consumes the packet exactly.\<close>

theorem stun_message_roundtrip:
  assumes "stun_msg_wf m"
  shows "\<exists>buf rest. StunMessage_Write h1 m ByteBuffer_new = Some buf \<and> bb_contents buf = stun_bytes m \<and>
    StunMessage_Read h2 (StunMessage_new (sm_class m)) buf = Some (m, rest) \<and> ByteBuffer_Length rest = 0"
proof -
  obtain buf where buf: "StunMessage_Write h1 m ByteBuffer_new = Some buf" "bb_net buf" "bb_contents buf = stun_bytes m"
    by (rule Write_new [OF assms])
  obtain rest where "StunMessage_Read h2 (StunMessage_new (sm_class m)) buf = Some (m, rest)"
    "bb_net rest" "bb_contents rest = []"
    using parses_message [OF assms _ buf(2,3), of "StunMessage_new (sm_class m)" h2] by (auto simp: StunMessage_new_def)
  moreover from this(2,3) have "ByteBuffer_Length rest = 0" using length_bb_contents [of rest] by (simp add: bb_net_def)
  ultimately show ?thesis using buf(1,3) by blast
qed

text \<open>A binding request with a padded USERNAME, an obfuscated IPv4 address and a PRIORITY.\<close>

definition sample_request :: StunMessage where
  "sample_request = \<lparr>sm_class = Class_IceMessage, sm_type = 1, sm_length = 28,
     sm_transaction_id = ascii ''0123456789ab'',
     sm_attrs = [\<lparr>at_type = STUN_ATTR_USERNAME, at_length = 3, at_value = VByteString [97, 98, 99]\<rparr>,
       \<lparr>at_type = STUN_ATTR_XOR_MAPPED_ADDRESS, at_length = 8,
        at_value = VXorAddress \<lparr>sa_ip = IPAddress_v4 [192, 168, 1, 7], sa_port = 3478\<rparr>\<rparr>,
       \<lparr>at_type = STUN_ATTR_PRIORITY, at_length = 4, at_value = VUInt32 77\<rparr>]\<rparr>"

lemma sample_request_wf: "stun_msg_wf sample_request" and sample_request_plain: "no_message_integrity sample_request"
    and sample_request_rfc5389: "\<not> IsLegacy sample_request" and sample_request_length: "unat (sm_length sample_request) = 28"
  by code_simp+

theorem stun_message_roundtrip_witness:
  "stun_msg_wf sample_request \<and> (\<exists>buf rest. StunMessage_Write False sample_request ByteBuffer_new = Some buf \<and>
     bb_contents buf = stun_bytes sample_request \<and>
     StunMessage_Read True (StunMessage_new (sm_class sample_request)) buf = Some (sample_request, rest) \<and>
     ByteBuffer_Length rest = 0)"
  using stun_message_roundtrip [OF sample_request_wf, of False True] sample_request_wf by blast

text \<open>C7: A message protected with \<open>AddMessageIntegrity\<close> and then \<open>AddFingerprint\<close>, written to the
  wire, passes \<open>ValidateMessageIntegrity\<close> with the same key and \<open>ValidateFingerprint\<close>; the peer
  reads back the protected message.\<close>

theorem stun_protected_accepted:
  assumes "stun_msg_wf m" and "no_message_integrity m" and "\<not> IsLegacy m" and "unat (sm_length m) + 32 < 2 ^ 16"
  shows "\<exists>m1 m2 buf. AddMessageIntegrity h key m = (True, m1) \<and> AddFingerprint h t m1 = (True, m2) \<and>
    StunMessage_Write h m2 ByteBuffer_new = Some buf \<and>
    ValidateMessageIntegrity (bb_contents buf) key = Some True \<and> ValidateFingerprint t (bb_contents buf) \<and>
    (\<exists>rest. StunMessage_Read h' (StunMessage_new (sm_class m)) buf = Some (m2, rest))"
proof -
  let ?m1 = "stun_append m (mi_attr (stun_mac key m))"
  note p = protect_bytes [OF assms(1,2,4), of key]
  have m1: "AddMessageIntegrity h key m = (True, ?m1)"
    using AddMessageIntegrity_eq [OF assms(1), of h key] assms(4) by simp
  have l1: "unat (sm_length ?m1) + 8 < 2 ^ 16" using p(2) assms(4) by simp
  obtain v where m2: "AddFingerprint h t ?m1 = (True, stun_append ?m1 (fp_attr v))"
    using AddFingerprint_eq [OF p(1) l1, of h t] by blast
  have "\<not> IsLegacy ?m1" using assms(3) by (simp add: IsLegacy_def stun_append_def)
  from Validate_fingerprinted [OF p(1) this l1, of t h] m2
  have fp: "ValidateFingerprint t (stun_bytes (stun_append ?m1 (fp_attr v)))" by simp
  have wf: "stun_msg_wf (stun_append ?m1 (fp_attr v))"
    using stun_append_wf(2) [OF p(1) fp_attr_wf [of _ _ v]] l1 by (simp add: fp_attr_def)
  obtain buf where buf: "StunMessage_Write h (stun_append ?m1 (fp_attr v)) ByteBuffer_new = Some buf" "bb_net buf"
    "bb_contents buf = stun_bytes (stun_append ?m1 (fp_attr v))"
    by (rule Write_new [OF wf])
  have cls: "sm_class (StunMessage_new (sm_class m)) = sm_class (stun_append ?m1 (fp_attr v))"
    by (simp add: StunMessage_new_def stun_append_def)
  from m1 m2 buf(1) fp p(4) [of v] parses_message [OF wf cls buf(2,3), of h'] show ?thesis
    by (auto simp: buf(3))
qed

theorem stun_protected_accepted_witness:
  "\<exists>m1 m2 buf. AddMessageIntegrity False [1, 2, 3] sample_request = (True, m1) \<and>
    AddFingerprint False kCrc32Table_initial m1 = (True, m2) \<and>
    StunMessage_Write False m2 ByteBuffer_new = Some buf \<and>
    ValidateMessageIntegrity (bb_contents buf) [1, 2, 3] = Some True \<and>
    ValidateFingerprint kCrc32Table_initial (bb_contents buf) \<and>
    (\<exists>rest. StunMessage_Read True (StunMessage_new (sm_class sample_request)) buf = Some (m2, rest))"
  by (rule stun_protected_accepted [OF sample_request_wf sample_request_plain sample_request_rfc5389])
    (simp add: sample_request_length)

text \<open>C20: Damage to a single byte, anywhere in a packet with a valid FINGERPRINT, makes
  \<open>ValidateFingerprint\<close> reject it.\<close>

theorem stun_fingerprint_detects_damage:
  assumes "crc32_table_ok t" and "ValidateFingerprint t data" and "i < length data" and "x \<noteq> data ! i"
  shows "\<not> ValidateFingerprint t (data[i := x])"
proof
  let ?n = "length data - 8" and ?data = "data[i := x]"
  assume "ValidateFingerprint t ?data"
  from ValidateFingerprint_tail [OF this] have d': "drop ?n ?data = fp_tail (fst (ComputeCrc32 t (take ?n ?data)))" by simp
  note d = ValidateFingerprint_tail [OF assms(2)]
  show False
  proof (cases "i < ?n")
    case True
    define ps ss where "ps = take i data" and "ss = take (?n - Suc i) (drop (Suc i) data)"
    have tk1: "take ?n data = ps @ data ! i # ss"
      using True id_take_nth_drop [of i "take ?n data"] by (simp add: ps_def ss_def drop_take)
    have "take ?n ?data = (take ?n data)[i := x]" by (rule take_update_swap)
    then have tk: "take ?n data = ps @ data ! i # ss" "take ?n ?data = ps @ x # ss"
      using assms(3) tk1 by (simp_all add: list_update_append ps_def)
    have "drop ?n ?data = drop ?n data" using True by simp
    then have "fst (ComputeCrc32 t (take ?n data)) = fst (ComputeCrc32 t (take ?n ?data))"
      using fp_tail_inject d(2) d' by metis
    then have "crc32_bitwise 0 (ps @ data ! i # ss) = crc32_bitwise 0 (ps @ x # ss)"
      by (simp add: tk ComputeCrc32_def UpdateCrc32_eq [OF assms(1)])
    with crc32_byte_inject [OF assms(4)] show False by metis
  next
    case False
    then have "take ?n ?data = take ?n data" by simp
    with d(2) d' have "drop ?n ?data = drop ?n data" by simp
    moreover have "drop ?n ?data ! (i - ?n) = x" "drop ?n data ! (i - ?n) = data ! i"
      using False assms(3) d(1) by simp_all
    ultimately show False using assms(4) by simp
  qed
qed

theorem stun_fingerprint_detects_damage_witness:
  "let t = kCrc32Table_initial; data = stun_bytes (snd (AddFingerprint False t sample_request))
   in crc32_table_ok t \<and> ValidateFingerprint t data \<and> \<not> ValidateFingerprint t (data[1 := data ! 1 XOR 1])"
proof -
  define t data where "t = kCrc32Table_initial" and "data = stun_bytes (snd (AddFingerprint False t sample_request))"
  have ok: "crc32_table_ok t" by (simp add: t_def crc32_table_ok_def)
  have valid: "ValidateFingerprint t data"
    unfolding data_def by (rule Validate_fingerprinted [OF sample_request_wf sample_request_rfc5389])
      (simp add: sample_request_length)
  have "1 < length data" using ValidateFingerprint_tail(1) [OF valid] by simp
  moreover have "data ! 1 XOR 1 \<noteq> data ! 1" by (metis word_xor_left_cancel xor.right_neutral zero_neq_one)
  ultimately have "\<not> ValidateFingerprint t (data[1 := data ! 1 XOR 1])"
    by (rule stun_fingerprint_detects_damage [OF ok valid])
  with ok valid show ?thesis by (simp only: Let_def t_def [symmetric] data_def [symmetric] simp_thms)
qed

text \<open>C30: \<open>ValidateMessageIntegrity\<close> stays inside the packet except in two cases: an empty packet,
  whose length field it reads, and a packet of consistent length whose first MESSAGE-INTEGRITY
  attribute starts exactly 20 bytes before the end, where the bound check has forgotten the
  attribute header and the comparison reads four bytes past the packet.\<close>

theorem stun_validate_integrity_reach:
  "ValidateMessageIntegrity data key = None \<longleftrightarrow>
     data = [] \<or> 4 dvd length data \<and> length data = unat (GetBE16 (drop 2 data)) + 20 \<and>
       find_message_integrity data 20 = MI_At (length data - 20)"
proof (cases "4 dvd length data \<and> data \<noteq> []")
  case False
  then show ?thesis
    by (cases "data = []") (auto simp: ValidateMessageIntegrity_def Let_def mem_GetBE16_def dvd_eq_mod_eq_0)
next
  case True
  then have "4 \<le> length data" by (cases data) (auto dest: dvd_imp_le)
  then have len: "mem_GetBE16 data 2 = Some (GetBE16 (drop 2 data))" by (simp add: mem_GetBE16_def)
  have m4: "length data mod 4 = 0" using True by (simp add: dvd_eq_mod_eq_0)
  show ?thesis
  proof (cases "length data = unat (GetBE16 (drop 2 data)) + 20")
    case False
    with True len m4 show ?thesis
      by (simp add: ValidateMessageIntegrity_def Let_def kStunHeaderSize_def)
  next
    case size: True
    have at: "(p + 4 + 20 > length data) = (p = length data - 20)"
      if "find_message_integrity data 20 = MI_At p" for p
    proof -
      have "4 dvd p" "p + 20 \<le> length data"
        using find_message_integrity_aligned [of data 20] that True by auto
      then obtain a b where "length data = 4 * a" "p = 4 * b" using True by (auto elim!: dvdE)
      with \<open>p + 20 \<le> length data\<close> show ?thesis by presburger
    qed
    note none = Validate_consistent [OF m4 len size]
    show ?thesis
    proof (cases "find_message_integrity data 20")
      case (MI_At p)
      show ?thesis unfolding none MI_At MI_scan.case at [OF MI_At] using True size by blast
    next
      case MI_Undefined
      moreover have "4 dvd (20 :: nat)" by simp
      ultimately show ?thesis using True find_message_integrity_aligned [of data 20] by blast
    next
      case MI_Malformed
      show ?thesis unfolding none MI_Malformed MI_scan.case using True by blast
    next
      case MI_Absent
      show ?thesis unfolding none MI_Absent MI_scan.case using True by blast
    qed
  qed
qed

text \<open>C23: Whatever the packet, when \<open>StunMessage::Read\<close> succeeds it has consumed the packet exactly:
  the length field counts the bytes after the header, every attribute took at least its four-byte
  header, the transaction id is valid and every attribute has the representation that the
  message class gives to its type.\<close>

theorem stun_read_well_typed:
  assumes "bb_inv b" and "StunMessage_Read h m0 b = Some (m, rest)"
  shows "ByteBuffer_Length rest = 0 \<and> ByteBuffer_Length b = kStunHeaderSize + unat (sm_length m) \<and>
    4 * length (sm_attrs m) \<le> unat (sm_length m) \<and> IsValidTransactionId (sm_transaction_id m) \<and>
    sm_class m = sm_class m0 \<and>
    list_all (\<lambda>a. value_type a = GetAttributeValueType (sm_class m0) (at_type a)) (sm_attrs m)"
proof -
  from assms(2) obtain ty b1 len b2 cookie b3 tid b4 attrs where
    r: "ReadUInt16 h b = Some (ty, b1)" "ReadUInt16 h b1 = Some (len, b2)"
      "ReadString [] kStunMagicCookieLength b2 = Some (cookie, b3)"
      "ReadString [] kStunTransactionIdLength b3 = Some (tid, b4)"
      "unat len = ByteBuffer_Length b4"
    and m: "StunMessage_read_attrs h (sm_class m0) (sm_transaction_id m) 0 [] b4 = Some (attrs, rest)"
      "sm_attrs m = attrs" "sm_length m = len" "sm_class m = sm_class m0"
      "sm_transaction_id m = cookie @ tid \<or> sm_transaction_id m = tid"
    unfolding StunMessage_Read_def
    by (auto simp: bind_eq_Some_conv Let_def split: if_splits)
  have l: "ByteBuffer_Length b = 20 + ByteBuffer_Length b4" and t: "length cookie = 4" "length tid = 12"
    using ReadUInt_Length(2) [OF r(1)] ReadUInt_Length(2) [OF r(2)] r(1-4) assms(1)
    by (auto simp: ReadString_def ReadUInt16_def ReadBytes_def ByteBuffer_Length_def bb_inv_def Let_def
        kStunMagicCookieLength_def kStunTransactionIdLength_def split: if_splits option.splits)
  from read_attrs_result [OF m(1)] have "ByteBuffer_Length rest = 0" "4 * length attrs \<le> ByteBuffer_Length b4"
    "list_all (attr_typed (sm_class m0)) attrs" by auto
  with l t m r(5) show ?thesis
    by (auto simp: kStunHeaderSize_def IsValidTransactionId_def kStunTransactionIdLength_def
        kStunLegacyTransactionIdLength_def attr_typed_def [abs_def])
qed

theorem stun_read_well_typed_witness:
  "let b = ByteBuffer_of (stun_bytes sample_request)
   in bb_inv b \<and> (\<exists>rest. StunMessage_Read True (StunMessage_new Class_IceMessage) b = Some (sample_request, rest) \<and>
     ByteBuffer_Length rest = 0 \<and> ByteBuffer_Length b = 48 \<and> IsValidTransactionId (sm_transaction_id sample_request))"
proof -
  let ?b = "ByteBuffer_of (stun_bytes sample_request)"
  have b: "bb_net ?b" "bb_contents ?b = stun_bytes sample_request"
    by (simp_all add: ByteBuffer_of_def ByteBuffer_Construct_def bb_net_def bb_inv_def bb_contents_def blit_def)
  have cls: "sm_class (StunMessage_new Class_IceMessage) = sm_class sample_request"
    by (simp add: StunMessage_new_def sample_request_def)
  obtain rest where r: "StunMessage_Read True (StunMessage_new Class_IceMessage) ?b = Some (sample_request, rest)"
    using parses_message [OF sample_request_wf cls b, of True] by blast
  have "bb_inv ?b" using b(1) by simp
  with stun_read_well_typed [OF this r] r show ?thesis
    unfolding Let_def by (simp add: sample_request_length kStunHeaderSize_def)
qed

text \<open>\<open>AddAttribute\<close> refuses exactly the attributes whose representation is not the one of their
  type in this message class. An attribute that is well formed and fits into the 16-bit length
  keeps the message well formed: the length field stays the size of the serialised attributes,
  padding included.\<close>

theorem stun_add_attribute:
  assumes "stun_msg_wf m" and "value_type a = GetAttributeValueType (sm_class m) (at_type a) \<Longrightarrow>
      stun_value_wf (sm_transaction_id m) (at_length a) (at_value a)"
    and "unat (sm_length m) + 4 + unat (at_length a) + pad4 (unat (at_length a)) < 2 ^ 16"
  shows "case AddAttribute a m of
      None \<Rightarrow> value_type a \<noteq> GetAttributeValueType (sm_class m) (at_type a)
    | Some m' \<Rightarrow> value_type a = GetAttributeValueType (sm_class m) (at_type a) \<and>
        stun_msg_wf m' \<and> sm_attrs m' = sm_attrs m @ [a] \<and>
        length (stun_bytes m') = length (stun_bytes m) + 4 + unat (at_length a) + pad4 (unat (at_length a)) \<and>
        length (stun_bytes m') = kStunHeaderSize + unat (sm_length m')"
proof (cases "value_type a = GetAttributeValueType (sm_class m) (at_type a)")
  case False
  then show ?thesis by (simp add: AddAttribute_def)
next
  case True
  with assms(2) have "stun_attr_wf (sm_class m) (sm_transaction_id m) a" by (simp add: stun_attr_wf_def)
  from AddAttribute_wf [OF assms(1) this assms(3)] assms(1) True show ?thesis
    by (auto simp: length_stun_bytes kStunHeaderSize_def)
qed

theorem stun_add_attribute_witness:
  "let a = \<lparr>at_type = STUN_ATTR_NONCE, at_length = 2, at_value = VByteString [7, 8]\<rparr>
   in stun_msg_wf sample_request \<and> (\<exists>m'. AddAttribute a sample_request = Some m' \<and> stun_msg_wf m' \<and>
     length (stun_bytes m') = length (stun_bytes sample_request) + 8)"
proof -
  let ?a = "\<lparr>at_type = STUN_ATTR_NONCE, at_length = 2, at_value = VByteString [7, 8]\<rparr>"
  have "stun_attr_wf (sm_class sample_request) (sm_transaction_id sample_request) ?a" by code_simp
  moreover have n: "unat (at_length ?a) = 2" "pad4 2 = 2" by (simp_all add: pad4_def)
  moreover have "unat (sm_length sample_request) + 4 + 2 + 2 < (2 :: nat) ^ 16" by (simp add: sample_request_length)
  ultimately have "case AddAttribute ?a sample_request of
      None \<Rightarrow> value_type ?a \<noteq> GetAttributeValueType (sm_class sample_request) (at_type ?a)
    | Some m' \<Rightarrow> stun_msg_wf m' \<and> length (stun_bytes m') = length (stun_bytes sample_request) + 4 + 2 + 2"
    using stun_add_attribute [OF sample_request_wf, of ?a] unfolding n stun_attr_wf_def by (simp split: option.splits)
  moreover have "value_type ?a = GetAttributeValueType (sm_class sample_request) (at_type ?a)" by code_simp
  ultimately show ?thesis using sample_request_wf unfolding Let_def by (auto split: option.splits)
qed

end
