(* ===== verification/Stun_Request.thy ===== *)
theory Stun_Request
  imports Stun_Integrity Time_Utils "HOL-Library.AList" "HOL-Library.Monad_Syntax"
begin

text \<open>
  \<^verbatim>\<open>webrtc/p2p/base/stunrequest.{h,cc}\<close>: STUN requests that wait for a response, their retransmission
  and the manager that matches responses to them.

  A request object is known by its transaction id. The manager holds the requests, the messages that
  its thread has yet to dispatch to them (the time when each is due, and the request), and a log of the
  calls to the virtual methods and the signal. \<open>prepare\<close> is the virtual method \<^verbatim>\<open>Prepare\<close>; \<^verbatim>\<open>OnResponse\<close>,
  \<^verbatim>\<open>OnErrorResponse\<close> and \<^verbatim>\<open>OnTimeout\<close> do not call the manager. Time is in milliseconds. A failed
  \<^verbatim>\<open>ASSERT\<close> and an undefined shift are \<open>None\<close>.
\<close>

unbundle bit_operations_syntax

section \<open>Requests and their manager\<close>

definition MAX_SENDS :: int where "MAX_SENDS = 9"
definition DELAY_UNIT :: int where "DELAY_UNIT = 100"
definition DELAY_MAX_FACTOR :: int where "DELAY_MAX_FACTOR = 16"

record StunRequest =
  rq_count :: int
  rq_timeout :: bool
  rq_msg :: StunMessage
  rq_tstamp :: uint32

text \<open>
  The log: the start of a request, packets with the time when they were signalled, and what became of
  the request. The data of a packet is \<open>None\<close> when \<^verbatim>\<open>Write\<close> failed on the way.
\<close>

datatype StunRequestEvent =
    Started bytes
  | SendPacket nat bytes "bytes option"
  | OnResponse bytes StunMessage
  | OnErrorResponse bytes StunMessage
  | OnTimeout nat bytes

record StunRequestManager =
  rm_requests :: "(bytes \<times> StunRequest) list"
  rm_posted :: "(nat \<times> bytes) list"
  rm_log :: "StunRequestEvent list"

definition StunRequestManager_new :: StunRequestManager where
  "StunRequestManager_new = \<lparr>rm_requests = [], rm_posted = [], rm_log = []\<rparr>"

text \<open>The log has the latest event first.\<close>

definition rm_event :: "StunRequestEvent \<Rightarrow> StunRequestManager \<Rightarrow> StunRequestManager" where
  "rm_event e m = m\<lparr>rm_log := e # rm_log m\<rparr>"

definition PostDelayed :: "nat \<Rightarrow> int \<Rightarrow> bytes \<Rightarrow> StunRequestManager \<Rightarrow> StunRequestManager" where
  "PostDelayed now delay rid m = m\<lparr>rm_posted := rm_posted m @ [(now + nat delay, rid)]\<rparr>"

definition Thread_Clear :: "bytes \<Rightarrow> StunRequestManager \<Rightarrow> StunRequestManager" where
  "Thread_Clear rid m = m\<lparr>rm_posted := filter (\<lambda>(due, rid'). rid' \<noteq> rid) (rm_posted m)\<rparr>"

text \<open>\<open>random_id\<close> is the random string of 12 bytes.\<close>

definition StunRequest_new :: "bytes \<Rightarrow> StunMessage \<Rightarrow> StunRequest option" where
  "StunRequest_new random_id request = do {
     msg \<leftarrow> SetTransactionID random_id request;
     Some \<lparr>rq_count = 0, rq_timeout = False, rq_msg = msg, rq_tstamp = 0\<rparr> }"

definition StunRequest_id :: "StunRequest \<Rightarrow> bytes" where
  "StunRequest_id r = sm_transaction_id (rq_msg r)"

definition StunRequest_type :: "StunRequest \<Rightarrow> int" where
  "StunRequest_type r = uint (sm_type (rq_msg r))"

definition StunRequest_Construct :: "(StunMessage \<Rightarrow> StunMessage) \<Rightarrow> StunRequest \<Rightarrow> StunRequest option" where
  "StunRequest_Construct prepare r =
     (if sm_type (rq_msg r) = 0 then
        let r = r\<lparr>rq_msg := prepare (rq_msg r)\<rparr> in do { assert_opt (sm_type (rq_msg r) \<noteq> 0); Some r }
      else Some r)"

definition StunRequest_Elapsed :: "uint32 \<Rightarrow> StunRequest \<Rightarrow> uint32" where
  "StunRequest_Elapsed now r = word_of_int (TimeDiff now (rq_tstamp r))"

definition GetNextDelay :: "StunRequest \<Rightarrow> (int \<times> StunRequest) option" where
  "GetNextDelay r = do {
     assert_opt (0 \<le> rq_count r \<and> rq_count r < 31);
     let delay = DELAY_UNIT * min (push_bit (nat (rq_count r)) 1) DELAY_MAX_FACTOR;
     let r = r\<lparr>rq_count := rq_count r + 1\<rparr>;
     Some (delay, if rq_count r = MAX_SENDS then r\<lparr>rq_timeout := True\<rparr> else r) }"

section \<open>The operations\<close>

definition SendDelayed :: "(StunMessage \<Rightarrow> StunMessage) \<Rightarrow> nat \<Rightarrow> StunRequest \<Rightarrow> int \<Rightarrow> StunRequestManager \<Rightarrow> StunRequestManager option" where
  "SendDelayed prepare now request delay m = do {
     assert_opt (map_of (rm_requests m) (StunRequest_id request) = None);
     request \<leftarrow> StunRequest_Construct prepare request;
     let m = rm_event (Started (StunRequest_id request))
       (m\<lparr>rm_requests := AList.update (StunRequest_id request) request (rm_requests m)\<rparr>);
     Some (PostDelayed now delay (StunRequest_id request) m) }"

definition Manager_Send :: "(StunMessage \<Rightarrow> StunMessage) \<Rightarrow> nat \<Rightarrow> StunRequest \<Rightarrow> StunRequestManager \<Rightarrow> StunRequestManager option" where
  "Manager_Send prepare now request m = SendDelayed prepare now request 0 m"

definition Manager_Remove :: "bytes \<Rightarrow> StunRequestManager \<Rightarrow> StunRequestManager" where
  "Manager_Remove rid m =
     (case map_of (rm_requests m) rid of
        None \<Rightarrow> m
      | Some r \<Rightarrow> Thread_Clear rid (m\<lparr>rm_requests := AList.delete rid (rm_requests m)\<rparr>))"

text \<open>The destructor of a request.\<close>

definition delete_request :: "bytes \<Rightarrow> StunRequestManager \<Rightarrow> StunRequestManager" where
  "delete_request rid m = Thread_Clear rid (Manager_Remove rid m)"

definition Manager_Clear :: "StunRequestManager \<Rightarrow> StunRequestManager" where
  "Manager_Clear m = fold delete_request (map (\<lambda>(rid, r). StunRequest_id r) (rm_requests m)) m"

definition CheckResponse :: "StunMessage \<Rightarrow> StunRequestManager \<Rightarrow> bool \<times> StunRequestManager" where
  "CheckResponse msg m =
     (case map_of (rm_requests m) (sm_transaction_id msg) of
        None \<Rightarrow> (False, m)
      | Some request \<Rightarrow>
          let rid = StunRequest_id request in
          if uint (sm_type msg) = GetStunSuccessResponseType (StunRequest_type request)
          then (True, delete_request rid (rm_event (OnResponse rid msg) m))
          else if uint (sm_type msg) = GetStunErrorResponseType (StunRequest_type request)
          then (True, delete_request rid (rm_event (OnErrorResponse rid msg) m))
          else (False, m))"

definition CheckResponse_data :: "bool \<Rightarrow> bytes \<Rightarrow> StunRequestManager \<Rightarrow> bool \<times> StunRequestManager" where
  "CheckResponse_data h data m =
     (if length data < 20 then (False, m)
      else
        case map_of (rm_requests m) (take kStunTransactionIdLength (drop kStunTransactionIdOffset data)) of
          None \<Rightarrow> (False, m)
        | Some request \<Rightarrow>
            (case StunMessage_Read h (StunMessage_new (sm_class (rq_msg request))) (ByteBuffer_of data) of
               None \<Rightarrow> (False, m)
             | Some (response, buf) \<Rightarrow> CheckResponse response m))"

definition Request_OnMessage :: "bool \<Rightarrow> nat \<Rightarrow> bytes \<Rightarrow> StunRequestManager \<Rightarrow> StunRequestManager option" where
  "Request_OnMessage h now rid m = do {
     r \<leftarrow> map_of (rm_requests m) rid;
     if rq_timeout r then Some (delete_request rid (rm_event (OnTimeout now rid) m))
     else do {
       let r = r\<lparr>rq_tstamp := of_nat now\<rparr>;
       let data = map_option (\<lambda>buf. take (ByteBuffer_Length buf) (ByteBuffer_Data buf)) (StunMessage_Write h (rq_msg r) ByteBuffer_new);
       let m = rm_event (SendPacket now rid data) m;
       (delay, r) \<leftarrow> GetNextDelay r;
       Some (PostDelayed now delay rid (m\<lparr>rm_requests := AList.update rid r (rm_requests m)\<rparr>)) } }"

section \<open>What happens to a request\<close>

text \<open>
  The manager, its thread and the network: time passes, the application sends and clears, the thread
  dispatches a message that is due, packets arrive.
\<close>

inductive stun_reachable :: "bool \<Rightarrow> (StunMessage \<Rightarrow> StunMessage) \<Rightarrow> nat \<Rightarrow> StunRequestManager \<Rightarrow> bool" for h prepare where
  init: "stun_reachable h prepare 0 StunRequestManager_new"
| tick: "stun_reachable h prepare now m \<Longrightarrow> now \<le> now' \<Longrightarrow> stun_reachable h prepare now' m"
| send: "stun_reachable h prepare now m \<Longrightarrow> StunRequest_new random_id request = Some r \<Longrightarrow>
    SendDelayed prepare now r delay m = Some m' \<Longrightarrow> stun_reachable h prepare now m'"
| dispatch: "stun_reachable h prepare now m \<Longrightarrow> rm_posted m = xs @ (due, rid) # ys \<Longrightarrow> due \<le> now \<Longrightarrow>
    Request_OnMessage h now rid (m\<lparr>rm_posted := xs @ ys\<rparr>) = Some m' \<Longrightarrow> stun_reachable h prepare now m'"
| response: "stun_reachable h prepare now m \<Longrightarrow> stun_reachable h prepare now (snd (CheckResponse msg m))"
| response_data: "stun_reachable h prepare now m \<Longrightarrow> stun_reachable h prepare now (snd (CheckResponse_data h data m))"
| clear: "stun_reachable h prepare now m \<Longrightarrow> stun_reachable h prepare now (Manager_Clear m)"

fun event_id :: "StunRequestEvent \<Rightarrow> bytes" where
  "event_id (Started rid) = rid"
| "event_id (SendPacket t rid d) = rid"
| "event_id (OnResponse rid msg) = rid"
| "event_id (OnErrorResponse rid msg) = rid"
| "event_id (OnTimeout t rid) = rid"

fun is_outcome :: "StunRequestEvent \<Rightarrow> bool" where
  "is_outcome (Started rid) = False"
| "is_outcome (SendPacket t rid d) = False"
| "is_outcome _ = True"

text \<open>The events of a request since it was started, the latest first.\<close>

fun history :: "bytes \<Rightarrow> StunRequestEvent list \<Rightarrow> StunRequestEvent list" where
  "history rid [] = []"
| "history rid (e # es) = (if e = Started rid then [] else if event_id e = rid then e # history rid es else history rid es)"

fun send_times :: "StunRequestEvent list \<Rightarrow> nat list" where
  "send_times [] = []"
| "send_times (SendPacket t rid d # es) = t # send_times es"
| "send_times (_ # es) = send_times es"

text \<open>The pause after the \<open>k\<close>-th transmission, and lists of times that keep these pauses.\<close>

definition retry_delay :: "nat \<Rightarrow> nat" where
  "retry_delay k = 100 * min (2 ^ k) 16"

fun spaced :: "nat list \<Rightarrow> bool" where
  "spaced (t2 # t1 # ts) \<longleftrightarrow> t1 + retry_delay (length ts) \<le> t2 \<and> spaced (t1 # ts)"
| "spaced ts \<longleftrightarrow> True"

definition due_ok :: "nat list \<Rightarrow> nat \<Rightarrow> bool" where
  "due_ok ts due \<longleftrightarrow> ts = [] \<or> hd ts + retry_delay (length ts - 1) \<le> due"

text \<open>
  A history is a number of transmissions with the right pauses, with at most one outcome after them; a
  timeout comes after nine transmissions and the last pause.
\<close>

definition good_history :: "StunRequestEvent list \<Rightarrow> bool" where
  "good_history es \<longleftrightarrow> spaced (send_times es) \<and> length (send_times es) \<le> 9 \<and> \<not> list_ex is_outcome (tl es) \<and>
     (case es of OnTimeout t rid # _ \<Rightarrow> length (send_times es) = 9 \<and> due_ok (send_times es) t | _ \<Rightarrow> True)"

definition rm_inv :: "StunRequestManager \<Rightarrow> bool" where
  "rm_inv m \<longleftrightarrow> distinct (map snd (rm_posted m)) \<and> snd ` set (rm_posted m) = dom (map_of (rm_requests m)) \<and>
     (\<forall>rid r. map_of (rm_requests m) rid = Some r \<longrightarrow> StunRequest_id r = rid \<and> (rq_timeout r \<longleftrightarrow> rq_count r = 9) \<and>
        \<not> list_ex is_outcome (history rid (rm_log m)) \<and> rq_count r = int (length (send_times (history rid (rm_log m))))) \<and>
     (\<forall>(due, rid) \<in> set (rm_posted m). due_ok (send_times (history rid (rm_log m))) due) \<and>
     (\<forall>rid. good_history (history rid (rm_log m)))"

lemma rm_inv_new: "rm_inv StunRequestManager_new"
  by (simp add: rm_inv_def StunRequestManager_new_def good_history_def)

lemma delete_request_simps [simp]:
  "map_of (rm_requests (delete_request rid m)) = (map_of (rm_requests m))(rid := None)"
  "rm_posted (delete_request rid m) = filter (\<lambda>(due, rid'). rid' \<noteq> rid) (rm_posted m)"
  "rm_log (delete_request rid m) = rm_log m"
  by (cases "map_of (rm_requests m) rid";
      simp add: delete_request_def Manager_Remove_def Thread_Clear_def AList.delete_conv' fun_upd_idem)+

text \<open>The parts of the invariant.\<close>

lemma rm_invD:
  assumes "rm_inv m"
  shows rm_inv_posted: "distinct (map snd (rm_posted m))" "snd ` set (rm_posted m) = dom (map_of (rm_requests m))"
    and rm_inv_request: "\<And>rid r. map_of (rm_requests m) rid = Some r \<Longrightarrow> StunRequest_id r = rid \<and> (rq_timeout r \<longleftrightarrow> rq_count r = 9) \<and>
        \<not> list_ex is_outcome (history rid (rm_log m)) \<and> rq_count r = int (length (send_times (history rid (rm_log m))))"
    and rm_inv_due: "\<And>due rid. (due, rid) \<in> set (rm_posted m) \<Longrightarrow> due_ok (send_times (history rid (rm_log m))) due"
    and rm_inv_good: "\<And>rid. good_history (history rid (rm_log m))"
  using assms unfolding rm_inv_def by blast+

lemma rm_invI:
  assumes "distinct (map snd (rm_posted m))" and "snd ` set (rm_posted m) = dom (map_of (rm_requests m))"
    and "\<And>rid r. map_of (rm_requests m) rid = Some r \<Longrightarrow> StunRequest_id r = rid \<and> (rq_timeout r \<longleftrightarrow> rq_count r = 9) \<and>
        \<not> list_ex is_outcome (history rid (rm_log m)) \<and> rq_count r = int (length (send_times (history rid (rm_log m))))"
    and "\<And>due rid. (due, rid) \<in> set (rm_posted m) \<Longrightarrow> due_ok (send_times (history rid (rm_log m))) due"
    and "\<And>rid. good_history (history rid (rm_log m))"
  shows "rm_inv m"
  using assms unfolding rm_inv_def by blast

lemma rm_inv_delete:
  assumes "rm_inv m" shows "rm_inv (delete_request rid m)"
proof (rule rm_invI)
  note inv = rm_invD [OF assms]
  show "distinct (map snd (rm_posted (delete_request rid m)))" using inv(1) by (simp add: distinct_map_filter)
  have "x \<noteq> rid \<and> x \<in> snd ` set (rm_posted m) \<longleftrightarrow> x \<in> snd ` set (rm_posted (delete_request rid m))" for x by force
  then show "snd ` set (rm_posted (delete_request rid m)) = dom (map_of (rm_requests (delete_request rid m)))"
    unfolding inv(2) by auto
  show "StunRequest_id r = rid' \<and> (rq_timeout r \<longleftrightarrow> rq_count r = 9) \<and> \<not> list_ex is_outcome (history rid' (rm_log (delete_request rid m))) \<and>
      rq_count r = int (length (send_times (history rid' (rm_log (delete_request rid m)))))"
    if "map_of (rm_requests (delete_request rid m)) rid' = Some r" for rid' r
    using inv(3) [of rid' r] that by (simp split: if_split_asm)
  show "due_ok (send_times (history rid' (rm_log (delete_request rid m)))) due"
    if "(due, rid') \<in> set (rm_posted (delete_request rid m))" for due rid'
    using inv(4) [of due rid'] that by simp
qed (use rm_inv_good [OF assms] in simp)

lemma rm_inv_finish:
  assumes inv: "rm_inv m" and r: "map_of (rm_requests m) rid = Some r" and e: "is_outcome e" "event_id e = rid"
    and timeout: "\<And>t. e = OnTimeout t rid \<Longrightarrow> rq_count r = 9 \<and> due_ok (send_times (history rid (rm_log m))) t"
  shows "rm_inv (delete_request rid (rm_event e m))"
proof -
  let ?H = "history rid (rm_log m)"
  have H: "\<not> list_ex is_outcome ?H" "rq_count r = int (length (send_times ?H))" "good_history ?H"
    using inv r by (auto simp: rm_inv_def)
  have times: "send_times (e # ?H) = send_times ?H" using e(1) by (cases e) simp_all
  have "good_history (e # ?H)"
    using H e timeout times by (cases e) (auto simp: good_history_def)
  moreover have "history rid' (e # rm_log m) = (if rid' = rid then e # ?H else history rid' (rm_log m))" for rid'
    using e by (cases e) auto
  moreover have "rm_inv (delete_request rid m)" by (rule rm_inv_delete [OF inv])
  ultimately show ?thesis
    by (intro rm_invI) (use rm_invD [of "delete_request rid m"] in \<open>auto simp: rm_event_def\<close>)
qed

lemma rm_inv_clear: "rm_inv m \<Longrightarrow> rm_inv (Manager_Clear m)"
proof -
  have "rm_inv m \<Longrightarrow> rm_inv (fold delete_request rids m)" for rids
    by (induction rids arbitrary: m) (simp_all add: rm_inv_delete)
  then show "rm_inv m \<Longrightarrow> rm_inv (Manager_Clear m)" by (simp add: Manager_Clear_def)
qed

lemma rm_inv_response: "rm_inv m \<Longrightarrow> rm_inv (snd (CheckResponse msg m))"
  using rm_inv_finish [of m "sm_transaction_id msg" _ "OnResponse (sm_transaction_id msg) msg"]
    rm_inv_finish [of m "sm_transaction_id msg" _ "OnErrorResponse (sm_transaction_id msg) msg"]
  by (auto simp: CheckResponse_def Let_def dest: rm_inv_request split: option.split)

lemma rm_inv_response_data: "rm_inv m \<Longrightarrow> rm_inv (snd (CheckResponse_data h data m))"
  by (auto simp: CheckResponse_data_def rm_inv_response split: option.split)

lemma rm_inv_send:
  assumes inv: "rm_inv m" and new: "StunRequest_new random_id request = Some r"
    and send: "SendDelayed prepare now r delay m = Some m'" and prepare: "\<And>msg. sm_transaction_id (prepare msg) = sm_transaction_id msg"
  shows "rm_inv m'"
proof -
  let ?id = "StunRequest_id r"
  obtain r' where r': "StunRequest_Construct prepare r = Some r'" "map_of (rm_requests m) ?id = None"
    "m' = PostDelayed now delay (StunRequest_id r') (rm_event (Started (StunRequest_id r'))
       (m\<lparr>rm_requests := AList.update (StunRequest_id r') r' (rm_requests m)\<rparr>))"
    using send by (auto simp: SendDelayed_def assert_opt_def split: Option.bind_split_asm if_split_asm)
  have eq: "StunRequest_id r' = ?id" "rq_count r' = 0" "\<not> rq_timeout r'"
    using r'(1) new prepare
    by (auto simp: StunRequest_Construct_def StunRequest_new_def StunRequest_id_def assert_opt_def Let_def
        split: Option.bind_split_asm if_split_asm)
  have m': "map_of (rm_requests m') = (map_of (rm_requests m))(?id \<mapsto> r')" "rm_posted m' = rm_posted m @ [(now + nat delay, ?id)]"
    "rm_log m' = Started ?id # rm_log m"
    using r'(3) eq by (simp_all add: PostDelayed_def rm_event_def AList.update_conv')
  have h: "history rid (rm_log m') = (if rid = ?id then [] else history rid (rm_log m))" for rid by (auto simp: m')
  have fresh: "?id \<notin> snd ` set (rm_posted m)" using rm_inv_posted(2) [OF inv] r'(2) by auto
  note i = rm_invD [OF inv]
  show ?thesis
  proof (rule rm_invI, goal_cases)
    case 1 show ?case using i(1) fresh by (simp add: m')
  next
    case 2 show ?case using i(2) by (simp add: m')
  next
    case (3 rid r) then show ?case using i(3) [of rid r] eq by (auto simp: m' h split: if_split_asm)
  next
    case (4 due rid) then show ?case using i(4) [of due rid] fresh by (auto simp: m' h due_ok_def)
  next
    case (5 rid) show ?case using i(5) [of rid] by (simp add: h good_history_def)
  qed
qed

text \<open>A message that the thread dispatches.\<close>

lemma retry_delay_eq: "DELAY_UNIT * min (2 ^ nat c) DELAY_MAX_FACTOR = int (retry_delay (nat c))"
  by (simp add: DELAY_UNIT_def DELAY_MAX_FACTOR_def retry_delay_def of_nat_min)

lemma OnMessage_cases:
  assumes "rm_inv m" and "map_of (rm_requests m) rid = Some r"
  shows "Request_OnMessage h now rid (m\<lparr>rm_posted := ps\<rparr>) =
    (if rq_count r = 9 then Some (delete_request rid (rm_event (OnTimeout now rid) (m\<lparr>rm_posted := ps\<rparr>)))
     else Some (PostDelayed now (int (retry_delay (nat (rq_count r)))) rid
       ((rm_event (SendPacket now rid
           (map_option (\<lambda>buf. take (ByteBuffer_Length buf) (ByteBuffer_Data buf)) (StunMessage_Write h (rq_msg r) ByteBuffer_new)))
           (m\<lparr>rm_posted := ps\<rparr>))
         \<lparr>rm_requests := AList.update rid (r\<lparr>rq_count := rq_count r + 1, rq_timeout := (rq_count r = 8), rq_tstamp := of_nat now\<rparr>) (rm_requests m)\<rparr>)))"
proof -
  have r: "rq_timeout r \<longleftrightarrow> rq_count r = 9" "rq_count r \<ge> 0" "rq_count r \<le> 9"
    using rm_inv_request [OF assms] rm_inv_good [OF assms(1), of rid] by (auto simp: good_history_def)
  then have d: "GetNextDelay (r\<lparr>rq_tstamp := t\<rparr>) = Some (int (retry_delay (nat (rq_count r))),
      r\<lparr>rq_count := rq_count r + 1, rq_timeout := (rq_count r = 8), rq_tstamp := t\<rparr>)" if "rq_count r \<noteq> 9" for t
    using that by (cases r) (auto simp: GetNextDelay_def assert_opt_def retry_delay_eq MAX_SENDS_def Let_def)
  show ?thesis using r assms(2) by (simp add: Request_OnMessage_def d rm_event_def)
qed

lemma delete_dispatched:
  assumes "rm_posted m = xs @ (due, rid) # ys" and "map_of (rm_requests m) rid = Some r"
  shows "delete_request rid (rm_event e (m\<lparr>rm_posted := xs @ ys\<rparr>)) = delete_request rid (rm_event e m)"
  unfolding delete_request_def Manager_Remove_def Thread_Clear_def rm_event_def by (simp add: assms)

lemma rm_inv_dispatch:
  assumes inv: "rm_inv m" and posted: "rm_posted m = xs @ (due, rid) # ys" and due: "due \<le> now"
    and "Request_OnMessage h now rid (m\<lparr>rm_posted := xs @ ys\<rparr>) = Some m'"
  shows "rm_inv m'"
proof -
  note i = rm_invD [OF inv]
  let ?H = "history rid (rm_log m)"
  have "rid \<in> snd ` set (rm_posted m)" by (simp add: posted)
  then obtain r where r: "map_of (rm_requests m) rid = Some r" unfolding i(2) by blast
  note req = i(3) [OF r] and onm = OnMessage_cases [OF inv r, of h now "xs @ ys"]
  have due_now: "due_ok (send_times ?H) now" using i(4) [of due rid] posted due by (auto simp: due_ok_def)
  show ?thesis
  proof (cases "rq_count r = 9")
    case True
    have "rm_inv (delete_request rid (rm_event (OnTimeout now rid) m))"
      by (rule rm_inv_finish [OF inv r]) (use True due_now in simp_all)
    moreover have "m' = delete_request rid (rm_event (OnTimeout now rid) m)"
      using assms(4) onm True by (simp add: delete_dispatched [OF posted r])
    ultimately show ?thesis by simp
  next
    case False
    let ?n = "length (send_times ?H)" and ?r = "r\<lparr>rq_count := rq_count r + 1, rq_timeout := (rq_count r = 8), rq_tstamp := of_nat now\<rparr>"
    have n: "rq_count r = int ?n" "?n < 9" using req False i(5) [of rid] by (auto simp: good_history_def)
    obtain d where m': "map_of (rm_requests m') = (map_of (rm_requests m))(rid \<mapsto> ?r)" "rm_posted m' = (xs @ ys) @ [(now + retry_delay ?n, rid)]"
      "rm_log m' = SendPacket now rid d # rm_log m"
      using assms(4) onm False n(1) by (auto simp: PostDelayed_def rm_event_def AList.update_conv')
    have h: "history rid' (rm_log m') = (if rid' = rid then SendPacket now rid d # ?H else history rid' (rm_log m))" for rid'
      by (simp add: m')
    have good: "good_history (SendPacket now rid d # ?H)"
      using i(5) [of rid] req n due_now by (cases "send_times ?H") (auto simp: good_history_def due_ok_def)
    have others: "rid \<notin> snd ` set (xs @ ys)" using i(1) by (auto simp: posted)
    then have dom: "insert rid (snd ` set (xs @ ys)) = dom (map_of (rm_requests m))" unfolding i(2) [symmetric] by (auto simp: posted)
    show ?thesis
    proof (rule rm_invI, goal_cases)
      case 1 show ?case using i(1) others by (auto simp: m' posted)
    next
      case 2 show ?case using dom r by (simp add: m' insert_absorb domI)
    next
      case (3 rid' r') then show ?case using i(3) [of rid' r'] req n by (auto simp: m' h StunRequest_id_def split: if_split_asm)
    next
      case (4 due' rid')
      then consider "(due', rid') \<in> set (xs @ ys)" | "due' = now + retry_delay ?n" "rid' = rid" by (auto simp: m')
      then show ?case
      proof cases
        case 1
        with others have "rid' \<noteq> rid" by (metis image_eqI snd_conv)
        with 1 i(4) [of due' rid'] show ?thesis by (auto simp: h posted)
      qed (simp add: h due_ok_def)
    next
      case (5 rid') show ?case using i(5) [of rid'] good by (simp add: h)
    qed
  qed
qed

lemma stun_reachable_inv:
  assumes "stun_reachable h prepare now m" and "\<And>msg. sm_transaction_id (prepare msg) = sm_transaction_id msg"
  shows "rm_inv m"
  using assms(1)
proof (induction rule: stun_reachable.induct)
  case (send now m random_id request r delay m')
  then show ?case by (blast intro: rm_inv_send assms(2))
next
  case (dispatch now m xs due rid ys m')
  then show ?case by (blast intro: rm_inv_dispatch)
qed (auto intro: rm_inv_new rm_inv_response rm_inv_response_data rm_inv_clear)

lemma OnMessage_progress:
  assumes inv: "rm_inv m" and r: "map_of (rm_requests m) rid = Some r"
  defines "H \<equiv> history rid (rm_log m)"
  obtains xs due ys m' where "rm_posted m = xs @ (due, rid) # ys" and "rid \<notin> snd ` set (xs @ ys)"
    and "Request_OnMessage h t rid (m\<lparr>rm_posted := xs @ ys\<rparr>) = Some m'"
    and "if length (send_times H) < 9 then \<exists>d. rm_log m' = SendPacket t rid d # rm_log m
      else rm_log m' = OnTimeout t rid # rm_log m \<and> map_of (rm_requests m') rid = None"
proof -
  note i = rm_invD [OF inv]
  have "rid \<in> snd ` set (rm_posted m)" unfolding i(2) using r by blast
  then obtain due xs ys where p: "rm_posted m = xs @ (due, rid) # ys" by (auto dest: split_list)
  have n: "rq_count r = int (length (send_times H))" "length (send_times H) \<le> 9"
    using i(3) [OF r] i(5) [of rid] by (auto simp: good_history_def H_def)
  have "rid \<notin> snd ` set (xs @ ys)" using i(1) by (auto simp: p)
  with p n that show thesis
    by (cases "rq_count r = 9") (auto simp: OnMessage_cases [OF inv r, of h t "xs @ ys"] PostDelayed_def rm_event_def)
qed

section \<open>Properties\<close>

text \<open>C8: what a request does, in every run of the manager. It is transmitted at most nine times, with pauses
  of at least 100 ms after the first transmission, twice as much after each of the next ones and at most
  1600 ms. It has at most one outcome (a response, an error response or a timeout), which is its last
  event; a timeout comes after nine transmissions and the last pause. As long as it waits, the thread
  holds exactly one message for it, and dispatching that message transmits the request again or, after
  nine times, ends it: no request waits forever.\<close>

theorem stun_request_schedule:
  assumes "stun_reachable h prepare now m" and "\<And>msg. sm_transaction_id (prepare msg) = sm_transaction_id msg"
  shows "let H = history rid (rm_log m) in spaced (send_times H) \<and> length (send_times H) \<le> 9 \<and> \<not> list_ex is_outcome (tl H) \<and>
    (\<forall>t H'. H = OnTimeout t rid # H' \<longrightarrow> length (send_times H) = 9 \<and> hd (send_times H) + 1600 \<le> t) \<and>
    (rid \<in> dom (map_of (rm_requests m)) \<longrightarrow>
      (\<exists>xs due ys m'. rm_posted m = xs @ (due, rid) # ys \<and> rid \<notin> snd ` set (xs @ ys) \<and>
         Request_OnMessage h t rid (m\<lparr>rm_posted := xs @ ys\<rparr>) = Some m' \<and>
         (if length (send_times H) < 9 then \<exists>d. rm_log m' = SendPacket t rid d # rm_log m
          else rm_log m' = OnTimeout t rid # rm_log m \<and> map_of (rm_requests m') rid = None)))"
proof -
  define H where "H = history rid (rm_log m)"
  have inv: "rm_inv m" by (rule stun_reachable_inv [OF assms(1,2)])
  have "good_history H" using rm_inv_good [OF inv] by (simp add: H_def)
  then have "spaced (send_times H) \<and> length (send_times H) \<le> 9 \<and> \<not> list_ex is_outcome (tl H) \<and>
    (\<forall>t H'. H = OnTimeout t rid # H' \<longrightarrow> length (send_times H) = 9 \<and> hd (send_times H) + 1600 \<le> t)"
    by (auto simp: good_history_def due_ok_def retry_delay_def)
  moreover have "\<exists>xs due ys m'. rm_posted m = xs @ (due, rid) # ys \<and> rid \<notin> snd ` set (xs @ ys) \<and>
      Request_OnMessage h t rid (m\<lparr>rm_posted := xs @ ys\<rparr>) = Some m' \<and>
      (if length (send_times H) < 9 then \<exists>d. rm_log m' = SendPacket t rid d # rm_log m
       else rm_log m' = OnTimeout t rid # rm_log m \<and> map_of (rm_requests m') rid = None)"
    if r: "map_of (rm_requests m) rid = Some r" for r
    by (rule OnMessage_progress [OF inv r, of h t, folded H_def]) blast
  ultimately show ?thesis unfolding H_def [symmetric] Let_def by blast
qed

text \<open>A binding request without attributes, sent and transmitted once.\<close>

definition sample_binding :: StunMessage where
  "sample_binding = \<lparr>sm_class = Class_StunMessage, sm_type = 1, sm_length = 0, sm_transaction_id = replicate 12 7, sm_attrs = []\<rparr>"

definition sample_pending :: StunRequest where
  "sample_pending = \<lparr>rq_count = 0, rq_timeout = False, rq_msg = sample_binding, rq_tstamp = 0\<rparr>"

definition sample_manager :: StunRequestManager where
  "sample_manager = \<lparr>rm_requests = [(replicate 12 7, sample_pending)], rm_posted = [(50, replicate 12 7)], rm_log = [Started (replicate 12 7)]\<rparr>"

lemma sample_reachable: "stun_reachable False (\<lambda>msg. msg) 0 sample_manager"
proof (rule stun_reachable.send [OF stun_reachable.init, of "replicate 12 7" sample_binding sample_pending _ 50])
  show "StunRequest_new (replicate 12 7) sample_binding = Some sample_pending"
    by (simp add: StunRequest_new_def SetTransactionID_def IsValidTransactionId_def kStunTransactionIdLength_def sample_binding_def sample_pending_def)
  show "SendDelayed (\<lambda>msg. msg) 0 sample_pending 50 StunRequestManager_new = Some sample_manager"
    by (simp add: SendDelayed_def assert_opt_def StunRequestManager_new_def StunRequest_Construct_def StunRequest_id_def sample_pending_def
        sample_binding_def sample_manager_def PostDelayed_def rm_event_def)
qed

theorem stun_request_schedule_witness:
  "\<exists>m'. Request_OnMessage False 60 (replicate 12 7) (sample_manager\<lparr>rm_posted := []\<rparr>) = Some m' \<and>
     (\<exists>d. rm_log m' = SendPacket 60 (replicate 12 7) d # rm_log sample_manager)"
proof -
  have "history (replicate 12 7) (rm_log sample_manager) = []" "replicate 12 7 \<in> dom (map_of (rm_requests sample_manager))"
    "rm_posted sample_manager = [(50, replicate 12 7)]"
    by (simp_all add: sample_manager_def)
  then show ?thesis
    using stun_request_schedule [OF sample_reachable, of "replicate 12 7" 60] by (auto simp: Cons_eq_append_conv)
qed

text \<open>C22: a well-formed response, written by the peer on a host of any byte order, reaches the request it
  answers: \<^verbatim>\<open>CheckResponse\<close> hands the message as it was written to \<^verbatim>\<open>OnResponse\<close> or \<^verbatim>\<open>OnErrorResponse\<close>,
  according to its type, and ends the request.\<close>

theorem stun_response_reaches_request:
  assumes "stun_reachable h prepare now m" and "\<And>msg. sm_transaction_id (prepare msg) = sm_transaction_id msg"
    and "stun_msg_wf response" and "\<not> IsLegacy response" and "sm_transaction_id response = rid"
    and "map_of (rm_requests m) rid = Some r" and "sm_class response = sm_class (rq_msg r)"
    and "uint (sm_type response) = GetStunSuccessResponseType (StunRequest_type r) \<or>
      uint (sm_type response) = GetStunErrorResponseType (StunRequest_type r)"
  shows "\<exists>buf m'. StunMessage_Write h' response ByteBuffer_new = Some buf \<and>
    CheckResponse_data h (bb_contents buf) m = (True, m') \<and> map_of (rm_requests m') = (map_of (rm_requests m))(rid := None) \<and>
    rm_log m' = (if uint (sm_type response) = GetStunSuccessResponseType (StunRequest_type r)
      then OnResponse rid response else OnErrorResponse rid response) # rm_log m"
proof -
  have rid: "StunRequest_id r = rid" using rm_inv_request [OF stun_reachable_inv [OF assms(1,2)] assms(6)] by simp
  obtain buf where buf: "StunMessage_Write h' response ByteBuffer_new = Some buf" "bb_contents buf = stun_bytes response"
    by (rule Write_new [OF assms(3)])
  have "length (sm_transaction_id response) = 12"
    using assms(3,4) by (auto simp: stun_msg_wf_def IsValidTransactionId_def IsLegacy_def kStunTransactionIdLength_def)
  then have tid: "take kStunTransactionIdLength (drop kStunTransactionIdOffset (stun_bytes response)) = rid"
    using assms(4,5) by (simp add: stun_bytes_def stun_id_bytes_def kStunTransactionIdLength_def kStunTransactionIdOffset_def)
  obtain rest where "StunMessage_Read h (StunMessage_new (sm_class (rq_msg r))) (ByteBuffer_of (stun_bytes response)) = Some (response, rest)"
    using parses_message [OF assms(3) _ bb_net_of bb_contents_of, of "StunMessage_new (sm_class (rq_msg r))" h] assms(7)
    by (auto simp: StunMessage_new_def)
  moreover have "20 \<le> length (stun_bytes response)" by (simp add: length_stun_bytes [OF assms(3)])
  ultimately have "CheckResponse_data h (bb_contents buf) m = CheckResponse response m"
    by (simp add: CheckResponse_data_def buf(2) tid assms(6))
  with buf(1) rid assms(5,6,8) show ?thesis by (auto simp: CheckResponse_def Let_def rm_event_def)
qed

definition sample_answer :: StunMessage where
  "sample_answer = sample_binding\<lparr>sm_type := 0x101\<rparr>"

theorem stun_response_reaches_request_witness:
  "\<exists>buf m'. StunMessage_Write True sample_answer ByteBuffer_new = Some buf \<and>
    CheckResponse_data False (bb_contents buf) sample_manager = (True, m') \<and>
    rm_log m' = OnResponse (replicate 12 7) sample_answer # rm_log sample_manager"
proof -
  have 1: "stun_msg_wf sample_answer" "\<not> IsLegacy sample_answer" "sm_transaction_id sample_answer = replicate 12 7"
    "sm_class sample_answer = sm_class (rq_msg sample_pending)"
    "uint (sm_type sample_answer) = GetStunSuccessResponseType (StunRequest_type sample_pending)" by code_simp+
  have 2: "map_of (rm_requests sample_manager) (replicate 12 7) = Some sample_pending" by (simp add: sample_manager_def)
  show ?thesis
    using stun_response_reaches_request [OF sample_reachable _ 1(1,2,3) 2 1(4) disjI1 [OF 1(5)], of True] 1(5) by auto
qed

end
