(* ===== verification/Stream_Params.thy ===== *)
theory Stream_Params
  imports Prelude "HOL-Library.Multiset"
begin

text \<open>
  \<^verbatim>\<open>talk/media/base/streamparams.{h,cc}\<close>: the description of a media stream by its synchronisation
  sources (SSRCs) and their groups, and the collections of such streams. Strings are byte lists and
  vectors are lists. The printing functions (\<^verbatim>\<open>ToString\<close>) are not here.

  Every collection of streams promises the laws of the locale \<open>stream_store\<close>, which is interpreted on
  the vector of streams and on the three vectors of \<open>MediaStreams\<close>.
\<close>

section \<open>Groups and streams\<close>

definition kFecSsrcGroupSemantics :: bytes where "kFecSsrcGroupSemantics = ascii ''FEC''"
definition kFidSsrcGroupSemantics :: bytes where "kFidSsrcGroupSemantics = ascii ''FID''"
definition kSimSsrcGroupSemantics :: bytes where "kSimSsrcGroupSemantics = ascii ''SIM''"

record SsrcGroup =
  grp_semantics :: bytes
  grp_ssrcs :: "uint32 list"

definition has_semantics :: "bytes \<Rightarrow> SsrcGroup \<Rightarrow> bool" where
  "has_semantics semantics_in g \<longleftrightarrow> grp_semantics g = semantics_in \<and> length (grp_ssrcs g) > 0"

record StreamParams =
  sp_groupid :: bytes
  sp_id :: bytes
  sp_ssrcs :: "uint32 list"
  sp_ssrc_groups :: "SsrcGroup list"
  sp_type :: bytes
  sp_display :: bytes
  sp_cname :: bytes
  sp_sync_label :: bytes

definition StreamParams_new :: StreamParams where
  "StreamParams_new = \<lparr>sp_groupid = [], sp_id = [], sp_ssrcs = [], sp_ssrc_groups = [], sp_type = [],
     sp_display = [], sp_cname = [], sp_sync_label = []\<rparr>"

definition CreateLegacy :: "uint32 \<Rightarrow> StreamParams" where
  "CreateLegacy s = StreamParams_new\<lparr>sp_ssrcs := [s]\<rparr>"

definition first_ssrc :: "StreamParams \<Rightarrow> uint32" where
  "first_ssrc sp = (if sp_ssrcs sp = [] then 0 else sp_ssrcs sp ! 0)"

definition has_ssrcs :: "StreamParams \<Rightarrow> bool" where
  "has_ssrcs sp \<longleftrightarrow> sp_ssrcs sp \<noteq> []"

definition has_ssrc :: "uint32 \<Rightarrow> StreamParams \<Rightarrow> bool" where
  "has_ssrc s sp \<longleftrightarrow> s \<in> set (sp_ssrcs sp)"

definition add_ssrc :: "uint32 \<Rightarrow> StreamParams \<Rightarrow> StreamParams" where
  "add_ssrc s sp = sp\<lparr>sp_ssrcs := sp_ssrcs sp @ [s]\<rparr>"

definition has_ssrc_groups :: "StreamParams \<Rightarrow> bool" where
  "has_ssrc_groups sp \<longleftrightarrow> sp_ssrc_groups sp \<noteq> []"

definition get_ssrc_group :: "bytes \<Rightarrow> StreamParams \<Rightarrow> SsrcGroup option" where
  "get_ssrc_group semantics sp = find (has_semantics semantics) (sp_ssrc_groups sp)"

definition has_ssrc_group :: "bytes \<Rightarrow> StreamParams \<Rightarrow> bool" where
  "has_ssrc_group semantics sp \<longleftrightarrow> get_ssrc_group semantics sp \<noteq> None"

definition AddSecondarySsrc :: "bytes \<Rightarrow> uint32 \<Rightarrow> uint32 \<Rightarrow> StreamParams \<Rightarrow> bool \<times> StreamParams" where
  "AddSecondarySsrc semantics primary_ssrc secondary_ssrc sp =
     (if \<not> has_ssrc primary_ssrc sp then (False, sp)
      else (True, sp\<lparr>sp_ssrcs := sp_ssrcs sp @ [secondary_ssrc],
                     sp_ssrc_groups := sp_ssrc_groups sp @
                       [\<lparr>grp_semantics = semantics, grp_ssrcs = [primary_ssrc, secondary_ssrc]\<rparr>]\<rparr>))"

definition GetSecondarySsrc :: "bytes \<Rightarrow> uint32 \<Rightarrow> StreamParams \<Rightarrow> uint32 option" where
  "GetSecondarySsrc semantics primary_ssrc sp =
     (case find (\<lambda>g. has_semantics semantics g \<and> length (grp_ssrcs g) \<ge> 2 \<and> grp_ssrcs g ! 0 = primary_ssrc) (sp_ssrc_groups sp) of
        None \<Rightarrow> None
      | Some g \<Rightarrow> Some (grp_ssrcs g ! 1))"

definition AddFidSsrc :: "uint32 \<Rightarrow> uint32 \<Rightarrow> StreamParams \<Rightarrow> bool \<times> StreamParams" where
  "AddFidSsrc primary_ssrc fid_ssrc sp = AddSecondarySsrc kFidSsrcGroupSemantics primary_ssrc fid_ssrc sp"

definition GetFidSsrc :: "uint32 \<Rightarrow> StreamParams \<Rightarrow> uint32 option" where
  "GetFidSsrc primary_ssrc sp = GetSecondarySsrc kFidSsrcGroupSemantics primary_ssrc sp"

definition GetPrimarySsrcs :: "StreamParams \<Rightarrow> uint32 list \<Rightarrow> uint32 list" where
  "GetPrimarySsrcs sp ssrcs =
     (case get_ssrc_group kSimSsrcGroupSemantics sp of
        None \<Rightarrow> ssrcs @ [first_ssrc sp]
      | Some sim_group \<Rightarrow> ssrcs @ grp_ssrcs sim_group)"

fun GetFidSsrcs :: "StreamParams \<Rightarrow> uint32 list \<Rightarrow> uint32 list \<Rightarrow> uint32 list" where
  "GetFidSsrcs sp [] fid_ssrcs = fid_ssrcs"
| "GetFidSsrcs sp (p # primary_ssrcs) fid_ssrcs =
     (case GetFidSsrc p sp of
        Some fid_ssrc \<Rightarrow> GetFidSsrcs sp primary_ssrcs (fid_ssrcs @ [fid_ssrc])
      | None \<Rightarrow> GetFidSsrcs sp primary_ssrcs fid_ssrcs)"

section \<open>Selecting streams\<close>

record StreamSelector =
  sel_ssrc :: uint32
  sel_groupid :: bytes
  sel_streamid :: bytes

definition StreamSelector_ssrc :: "uint32 \<Rightarrow> StreamSelector" where
  "StreamSelector_ssrc s = \<lparr>sel_ssrc = s, sel_groupid = [], sel_streamid = []\<rparr>"

definition StreamSelector_ids :: "bytes \<Rightarrow> bytes \<Rightarrow> StreamSelector" where
  "StreamSelector_ids groupid streamid = \<lparr>sel_ssrc = 0, sel_groupid = groupid, sel_streamid = streamid\<rparr>"

definition selector_Matches :: "StreamSelector \<Rightarrow> StreamParams \<Rightarrow> bool" where
  "selector_Matches selector stream \<longleftrightarrow>
     (if sel_ssrc selector = 0
      then sp_groupid stream = sel_groupid selector \<and> sp_id stream = sel_streamid selector
      else has_ssrc (sel_ssrc selector) stream)"

fun GetStream :: "StreamParams list \<Rightarrow> StreamSelector \<Rightarrow> StreamParams option" where
  "GetStream [] selector = None"
| "GetStream (stream # streams) selector =
     (if selector_Matches selector stream then Some stream else GetStream streams selector)"

definition GetStreamBySsrc :: "StreamParams list \<Rightarrow> uint32 \<Rightarrow> StreamParams option" where
  "GetStreamBySsrc streams s = GetStream streams (StreamSelector_ssrc s)"

definition GetStreamByIds :: "StreamParams list \<Rightarrow> bytes \<Rightarrow> bytes \<Rightarrow> StreamParams option" where
  "GetStreamByIds streams groupid sid = GetStream streams (StreamSelector_ids groupid sid)"

fun RemoveStream :: "StreamSelector \<Rightarrow> StreamParams list \<Rightarrow> bool \<times> StreamParams list" where
  "RemoveStream selector [] = (False, [])"
| "RemoveStream selector (stream # streams) =
     (case RemoveStream selector streams of (ret, streams') \<Rightarrow>
        if selector_Matches selector stream then (True, streams') else (ret, stream # streams'))"

definition RemoveStreamBySsrc :: "uint32 \<Rightarrow> StreamParams list \<Rightarrow> bool \<times> StreamParams list" where
  "RemoveStreamBySsrc s streams = RemoveStream (StreamSelector_ssrc s) streams"

definition RemoveStreamByIds :: "bytes \<Rightarrow> bytes \<Rightarrow> StreamParams list \<Rightarrow> bool \<times> StreamParams list" where
  "RemoveStreamByIds groupid sid streams = RemoveStream (StreamSelector_ids groupid sid) streams"

definition AddStream :: "StreamParams \<Rightarrow> StreamParams list \<Rightarrow> StreamParams list" where
  "AddStream stream streams = streams @ [stream]"

section \<open>Shapes of streams\<close>

definition IsOneSsrcStream :: "StreamParams \<Rightarrow> bool" where
  "IsOneSsrcStream sp \<longleftrightarrow>
     (if length (sp_ssrcs sp) = 1 \<and> sp_ssrc_groups sp = [] then True
      else if length (sp_ssrcs sp) = 2 then
        (case get_ssrc_group kFidSsrcGroupSemantics sp of
           Some fid_group \<Rightarrow> sp_ssrcs sp = grp_ssrcs fid_group
         | None \<Rightarrow> False)
      else False)"

fun RemoveFirst :: "uint32 \<Rightarrow> uint32 list \<Rightarrow> uint32 list" where
  "RemoveFirst v [] = []"
| "RemoveFirst v (s # ssrcs) = (if s = v then ssrcs else s # RemoveFirst v ssrcs)"

definition IsSimulcastStream :: "StreamParams \<Rightarrow> bool" where
  "IsSimulcastStream sp \<longleftrightarrow>
     (case get_ssrc_group kSimSsrcGroupSemantics sp of
        None \<Rightarrow> False
      | Some sg \<Rightarrow>
          if length (grp_ssrcs sg) < 2 then False
          else
            let sp_ssrcs = sp_ssrcs sp;
                sp_ssrcs = foldl (\<lambda>l s. RemoveFirst s l) sp_ssrcs (grp_ssrcs sg);
                sp_ssrcs = foldl (\<lambda>l group.
                  if grp_semantics group \<noteq> kFidSsrcGroupSemantics \<or> length (grp_ssrcs group) \<noteq> 2 then l
                  else RemoveFirst (grp_ssrcs group ! 1) l) sp_ssrcs (sp_ssrc_groups sp)
            in length sp_ssrcs = 0)"

section \<open>The streams of a call\<close>

record MediaStreams =
  ms_audio :: "StreamParams list"
  ms_video :: "StreamParams list"
  ms_data :: "StreamParams list"

definition MediaStreams_new :: MediaStreams where
  "MediaStreams_new = \<lparr>ms_audio = [], ms_video = [], ms_data = []\<rparr>"

definition MediaStreams_empty :: "MediaStreams \<Rightarrow> bool" where
  "MediaStreams_empty m \<longleftrightarrow> ms_audio m = [] \<and> ms_video m = [] \<and> ms_data m = []"

definition CopyFrom :: "MediaStreams \<Rightarrow> MediaStreams \<Rightarrow> MediaStreams" where
  "CopyFrom streams m = m\<lparr>ms_audio := ms_audio streams, ms_video := ms_video streams, ms_data := ms_data streams\<rparr>"

definition GetAudioStream :: "MediaStreams \<Rightarrow> StreamSelector \<Rightarrow> StreamParams option" where
  "GetAudioStream m selector = GetStream (ms_audio m) selector"

definition GetVideoStream :: "MediaStreams \<Rightarrow> StreamSelector \<Rightarrow> StreamParams option" where
  "GetVideoStream m selector = GetStream (ms_video m) selector"

definition GetDataStream :: "MediaStreams \<Rightarrow> StreamSelector \<Rightarrow> StreamParams option" where
  "GetDataStream m selector = GetStream (ms_data m) selector"

definition AddAudioStream :: "StreamParams \<Rightarrow> MediaStreams \<Rightarrow> MediaStreams" where
  "AddAudioStream stream m = m\<lparr>ms_audio := AddStream stream (ms_audio m)\<rparr>"

definition AddVideoStream :: "StreamParams \<Rightarrow> MediaStreams \<Rightarrow> MediaStreams" where
  "AddVideoStream stream m = m\<lparr>ms_video := AddStream stream (ms_video m)\<rparr>"

definition AddDataStream :: "StreamParams \<Rightarrow> MediaStreams \<Rightarrow> MediaStreams" where
  "AddDataStream stream m = m\<lparr>ms_data := AddStream stream (ms_data m)\<rparr>"

definition RemoveAudioStream :: "StreamSelector \<Rightarrow> MediaStreams \<Rightarrow> bool \<times> MediaStreams" where
  "RemoveAudioStream selector m = (case RemoveStream selector (ms_audio m) of (ret, s) \<Rightarrow> (ret, m\<lparr>ms_audio := s\<rparr>))"

definition RemoveVideoStream :: "StreamSelector \<Rightarrow> MediaStreams \<Rightarrow> bool \<times> MediaStreams" where
  "RemoveVideoStream selector m = (case RemoveStream selector (ms_video m) of (ret, s) \<Rightarrow> (ret, m\<lparr>ms_video := s\<rparr>))"

definition RemoveDataStream :: "StreamSelector \<Rightarrow> MediaStreams \<Rightarrow> bool \<times> MediaStreams" where
  "RemoveDataStream selector m = (case RemoveStream selector (ms_data m) of (ret, s) \<Rightarrow> (ret, m\<lparr>ms_data := s\<rparr>))"

section \<open>What a collection of streams promises\<close>

locale stream_store =
  fixes get :: "'c \<Rightarrow> StreamSelector \<Rightarrow> StreamParams option"
    and add :: "StreamParams \<Rightarrow> 'c \<Rightarrow> 'c"
    and remove :: "StreamSelector \<Rightarrow> 'c \<Rightarrow> bool \<times> 'c"
  assumes get_matches: "get c k = Some s \<Longrightarrow> selector_Matches k s"
    and get_add: "get (add s c) k = (case get c k of Some r \<Rightarrow> Some r | None \<Rightarrow> if selector_Matches k s then Some s else None)"
    and remove_found: "fst (remove k c) \<longleftrightarrow> get c k \<noteq> None"
    and removed: "get (snd (remove k c)) k' = Some s \<Longrightarrow> \<not> selector_Matches k s"
    and kept: "get c k' = Some s \<Longrightarrow> \<not> selector_Matches k s \<Longrightarrow> get (snd (remove k c)) k' = Some s"
begin

lemma get_remove_same: "get (snd (remove k c)) k = None"
  using get_matches removed by (metis option.exhaust)

lemma remove_twice: "\<not> fst (remove k (snd (remove k c)))"
  by (simp add: remove_found get_remove_same)

lemma remove_added: "selector_Matches k s \<Longrightarrow> fst (remove k (add s c))"
  by (simp add: remove_found get_add split: option.splits)

lemma get_add_all: "get (fold add ss c) k = None \<longleftrightarrow> get c k = None \<and> (\<forall>s\<in>set ss. \<not> selector_Matches k s)"
  by (induction ss arbitrary: c) (auto simp: get_add split: option.splits if_splits)

end

lemma RemoveStream_filter:
  "RemoveStream k streams = (\<exists>s\<in>set streams. selector_Matches k s, filter (\<lambda>s. \<not> selector_Matches k s) streams)"
  by (induction streams) auto

lemma GetStream_append:
  "GetStream (xs @ ys) k = (case GetStream xs k of Some r \<Rightarrow> Some r | None \<Rightarrow> GetStream ys k)"
  by (induction xs) auto

lemma GetStream_None: "GetStream streams k = None \<longleftrightarrow> (\<forall>s\<in>set streams. \<not> selector_Matches k s)"
  by (induction streams) auto

lemma GetStream_Some: "GetStream streams k = Some s \<Longrightarrow> selector_Matches k s \<and> s \<in> set streams"
  by (induction streams) (auto split: if_splits)

lemma GetStream_filter:
  "GetStream streams k' = Some s \<Longrightarrow> P s \<Longrightarrow> GetStream (filter P streams) k' = Some s"
  by (induction streams) (auto split: if_splits)

lemmas stream_store_simps = GetStream_append GetStream_None RemoveStream_filter

interpretation stream_vec: stream_store GetStream AddStream RemoveStream
  by unfold_locales
    (auto simp: stream_store_simps AddStream_def dest: GetStream_Some intro: GetStream_filter split: option.splits)

interpretation audio_streams: stream_store GetAudioStream AddAudioStream RemoveAudioStream
  by unfold_locales
    (auto simp: stream_store_simps AddStream_def GetAudioStream_def AddAudioStream_def RemoveAudioStream_def
      dest: GetStream_Some intro: GetStream_filter split: option.splits)

interpretation video_streams: stream_store GetVideoStream AddVideoStream RemoveVideoStream
  by unfold_locales
    (auto simp: stream_store_simps AddStream_def GetVideoStream_def AddVideoStream_def RemoveVideoStream_def
      dest: GetStream_Some intro: GetStream_filter split: option.splits)

interpretation data_streams: stream_store GetDataStream AddDataStream RemoveDataStream
  by unfold_locales
    (auto simp: stream_store_simps AddStream_def GetDataStream_def AddDataStream_def RemoveDataStream_def
      dest: GetStream_Some intro: GetStream_filter split: option.splits)

section \<open>Secondary sources and simulcast\<close>

lemma find_append: "find P (xs @ ys) = (case find P xs of Some x \<Rightarrow> Some x | None \<Rightarrow> find P ys)"
  by (induction xs) auto

text \<open>A retransmission source is found under its primary source, unless there was one before.\<close>

lemma GetFidSsrc_AddFidSsrc:
  assumes "has_ssrc p sp" and "GetFidSsrc p sp = None"
  shows "\<exists>sp'. AddFidSsrc p s sp = (True, sp') \<and> GetFidSsrc p sp' = Some s \<and> has_ssrc s sp' \<and>
    (\<forall>q. q \<noteq> p \<longrightarrow> GetFidSsrc q sp' = GetFidSsrc q sp)"
  using assms
  by (auto simp: AddFidSsrc_def AddSecondarySsrc_def GetFidSsrc_def GetSecondarySsrc_def find_append has_semantics_def
      has_ssrc_def split: option.splits)

lemma mset_RemoveFirst: "mset (RemoveFirst v l) = mset l - {#v#}"
  by (induction l) (auto simp: add_mset_diff_bothsides)

lemma mset_RemoveFirsts: "mset (foldl (\<lambda>l s. RemoveFirst s l) l vs) = mset l - mset vs"
  by (induction vs arbitrary: l) (auto simp: mset_RemoveFirst)

text \<open>The retransmission sources of a stream.\<close>

definition rtx_ssrcs :: "StreamParams \<Rightarrow> uint32 list" where
  "rtx_ssrcs sp = map (\<lambda>g. grp_ssrcs g ! 1)
     (filter (\<lambda>g. grp_semantics g = kFidSsrcGroupSemantics \<and> length (grp_ssrcs g) = 2) (sp_ssrc_groups sp))"

lemma mset_RemoveFid:
  "mset (foldl (\<lambda>l g. if grp_semantics g \<noteq> kFidSsrcGroupSemantics \<or> length (grp_ssrcs g) \<noteq> 2 then l
      else RemoveFirst (grp_ssrcs g ! 1) l) l gs)
   = mset l - mset (map (\<lambda>g. grp_ssrcs g ! 1)
      (filter (\<lambda>g. grp_semantics g = kFidSsrcGroupSemantics \<and> length (grp_ssrcs g) = 2) gs))"
  by (induction gs arbitrary: l) (auto simp: mset_RemoveFirst)

text \<open>A stream is a simulcast stream exactly when it has a SIM group of at least two sources and every
  one of its sources is accounted for, with its multiplicity, by that group or as a retransmission source.\<close>

theorem stream_simulcast_shape:
  "IsSimulcastStream sp \<longleftrightarrow>
     (\<exists>g. get_ssrc_group kSimSsrcGroupSemantics sp = Some g \<and> 2 \<le> length (grp_ssrcs g) \<and>
        mset (sp_ssrcs sp) \<subseteq># mset (grp_ssrcs g) + mset (rtx_ssrcs sp))"
proof -
  have *: "length (foldl (\<lambda>l g. if grp_semantics g \<noteq> kFidSsrcGroupSemantics \<or> length (grp_ssrcs g) \<noteq> 2 then l
      else RemoveFirst (grp_ssrcs g ! 1) l) (foldl (\<lambda>l s. RemoveFirst s l) (sp_ssrcs sp) (grp_ssrcs g)) (sp_ssrc_groups sp)) = 0
     \<longleftrightarrow> mset (sp_ssrcs sp) \<subseteq># mset (grp_ssrcs g) + mset (rtx_ssrcs sp)" for g
    unfolding length_0_conv mset_zero_iff [symmetric] mset_RemoveFid mset_RemoveFirsts rtx_ssrcs_def
    by (simp add: Diff_eq_empty_iff_mset subset_eq_diff_conv add.commute)
  show ?thesis unfolding IsSimulcastStream_def Let_def * by (auto split: option.splits)
qed

end
