(* ===== verification/Rtp_Utils.thy ===== *)
theory Rtp_Utils
  imports Byte_Order
begin

text \<open>
  \<^verbatim>\<open>talk/media/base/rtputils.{h,cc}\<close>: reading and writing the fields of RTP and RTCP headers.

  A packet is the list of its \<^verbatim>\<open>len\<close> bytes, and the pointers are not null. A reader returns \<open>None\<close>
  where the source returns false. The writers ignore \<^verbatim>\<open>len\<close>: a write outside of the packet is
  undefined, the outer \<open>None\<close>; otherwise they return the success flag and the packet.
\<close>

unbundle bit_operations_syntax

section \<open>Constants and types\<close>

definition kRtpVersion :: int where "kRtpVersion = 2"
definition kRtpFlagsOffset :: nat where "kRtpFlagsOffset = 0"
definition kRtpPayloadTypeOffset :: nat where "kRtpPayloadTypeOffset = 1"
definition kRtpSeqNumOffset :: nat where "kRtpSeqNumOffset = 2"
definition kRtpTimestampOffset :: nat where "kRtpTimestampOffset = 4"
definition kRtpSsrcOffset :: nat where "kRtpSsrcOffset = 8"
definition kRtcpPayloadTypeOffset :: nat where "kRtcpPayloadTypeOffset = 1"
definition kMinRtpPacketLen :: nat where "kMinRtpPacketLen = 12"
definition kMaxRtpPacketLen :: nat where "kMaxRtpPacketLen = 2048"
definition kMinRtcpPacketLen :: nat where "kMinRtcpPacketLen = 4"
definition kRtcpTypeSDES :: int where "kRtcpTypeSDES = 202"

record RtpHeader =
  payload_type :: int
  seq_num :: int
  timestamp :: uint32
  ssrc :: uint32

section \<open>Fields\<close>

definition GetUint8 :: "bytes \<Rightarrow> nat \<Rightarrow> int" where
  "GetUint8 data offset = uint (data ! offset)"

definition GetUint16 :: "bytes \<Rightarrow> nat \<Rightarrow> int" where
  "GetUint16 data offset = uint (GetBE16 (drop offset data))"

definition GetUint32 :: "bytes \<Rightarrow> nat \<Rightarrow> uint32" where
  "GetUint32 data offset = GetBE32 (drop offset data)"

definition SetUint8 :: "bytes \<Rightarrow> nat \<Rightarrow> int \<Rightarrow> (bool \<times> bytes) option" where
  "SetUint8 data offset v =
     (if offset + 1 \<le> length data then Some (True, Set8 data offset (word_of_int v)) else None)"

definition SetUint16 :: "bytes \<Rightarrow> nat \<Rightarrow> int \<Rightarrow> (bool \<times> bytes) option" where
  "SetUint16 data offset v =
     (if offset + 2 \<le> length data
      then Some (True, take offset data @ SetBE16 (drop offset data) (word_of_int v)) else None)"

definition SetUint32 :: "bytes \<Rightarrow> nat \<Rightarrow> uint32 \<Rightarrow> (bool \<times> bytes) option" where
  "SetUint32 data offset v =
     (if offset + 4 \<le> length data then Some (True, take offset data @ SetBE32 (drop offset data) v) else None)"

section \<open>Reading\<close>

definition GetRtpFlags :: "bytes \<Rightarrow> int option" where
  "GetRtpFlags data = (if length data < kMinRtpPacketLen then None else Some (GetUint8 data kRtpFlagsOffset))"

definition GetRtpPayloadType :: "bytes \<Rightarrow> int option" where
  "GetRtpPayloadType data =
     (if length data < kMinRtpPacketLen then None else Some (GetUint8 data kRtpPayloadTypeOffset AND 0x7F))"

definition GetRtpSeqNum :: "bytes \<Rightarrow> int option" where
  "GetRtpSeqNum data = (if length data < kMinRtpPacketLen then None else Some (GetUint16 data kRtpSeqNumOffset))"

definition GetRtpTimestamp :: "bytes \<Rightarrow> uint32 option" where
  "GetRtpTimestamp data = (if length data < kMinRtpPacketLen then None else Some (GetUint32 data kRtpTimestampOffset))"

definition GetRtpSsrc :: "bytes \<Rightarrow> uint32 option" where
  "GetRtpSsrc data = (if length data < kMinRtpPacketLen then None else Some (GetUint32 data kRtpSsrcOffset))"

definition GetRtpHeaderLen :: "bytes \<Rightarrow> nat option" where
  "GetRtpHeaderLen data =
     (let len = length data in
      if len < kMinRtpPacketLen then None
      else
        let header_size = kMinRtpPacketLen + unat (data ! 0 AND 0xF) * 4 in
        if len < header_size then None
        else if data ! 0 AND 0x10 \<noteq> 0 then
          if len < header_size + 4 then None
          else
            let header_size = header_size + (unat (GetBE16 (drop (header_size + 2) data)) + 1) * 4
            in if len < header_size then None else Some header_size
        else Some header_size)"

definition GetRtpVersion :: "bytes \<Rightarrow> int option" where
  "GetRtpVersion data = (if length data = 0 then None else Some (uint (drop_bit 6 (data ! 0) AND 0x3)))"

definition GetRtpHeader :: "bytes \<Rightarrow> RtpHeader option" where
  "GetRtpHeader data =
     (case (GetRtpPayloadType data, GetRtpSeqNum data, GetRtpTimestamp data, GetRtpSsrc data) of
        (Some pt, Some sn, Some ts, Some s) \<Rightarrow> Some \<lparr>payload_type = pt, seq_num = sn, timestamp = ts, ssrc = s\<rparr>
      | _ \<Rightarrow> None)"

definition GetRtcpType :: "bytes \<Rightarrow> int option" where
  "GetRtcpType data =
     (if length data < kMinRtcpPacketLen then None else Some (GetUint8 data kRtcpPayloadTypeOffset))"

definition GetRtcpSsrc :: "bytes \<Rightarrow> uint32 option" where
  "GetRtcpSsrc data =
     (if length data < kMinRtcpPacketLen + 4 then None
      else case GetRtcpType data of
        None \<Rightarrow> None
      | Some pl_type \<Rightarrow> if pl_type = kRtcpTypeSDES then None else Some (GetBE32 (drop 4 data)))"

definition IsRtpPacket :: "bytes \<Rightarrow> bool" where
  "IsRtpPacket data \<longleftrightarrow> \<not> length data < kMinRtpPacketLen \<and> GetRtpVersion data = Some kRtpVersion"

section \<open>Writing\<close>

definition SetRtpHeaderFlags :: "bytes \<Rightarrow> bool \<Rightarrow> bool \<Rightarrow> int \<Rightarrow> (bool \<times> bytes) option" where
  "SetRtpHeaderFlags data padding extension csrc_count =
     (if csrc_count > 0x0F then Some (False, data)
      else
        let flags = 0;
            flags = flags OR push_bit 6 kRtpVersion;
            flags = flags OR push_bit 5 (if padding then 1 else 0);
            flags = flags OR push_bit 4 (if extension then 1 else 0);
            flags = flags OR csrc_count
        in SetUint8 data kRtpFlagsOffset flags)"

definition SetRtpPayloadType :: "bytes \<Rightarrow> int \<Rightarrow> (bool \<times> bytes) option" where
  "SetRtpPayloadType data v =
     (if v \<ge> 0x7F then Some (False, data) else SetUint8 data kRtpPayloadTypeOffset (v AND 0x7F))"

definition SetRtpSeqNum :: "bytes \<Rightarrow> int \<Rightarrow> (bool \<times> bytes) option" where
  "SetRtpSeqNum data v = SetUint16 data kRtpSeqNumOffset v"

definition SetRtpTimestamp :: "bytes \<Rightarrow> uint32 \<Rightarrow> (bool \<times> bytes) option" where
  "SetRtpTimestamp data v = SetUint32 data kRtpTimestampOffset v"

definition SetRtpSsrc :: "bytes \<Rightarrow> uint32 \<Rightarrow> (bool \<times> bytes) option" where
  "SetRtpSsrc data v = SetUint32 data kRtpSsrcOffset v"

text \<open>The operator \<^verbatim>\<open>&&\<close> on two writers: the second runs where the first succeeded.\<close>

definition and_also :: "(bool \<times> bytes) option \<Rightarrow> (bytes \<Rightarrow> (bool \<times> bytes) option) \<Rightarrow> (bool \<times> bytes) option" where
  "and_also r f = (case r of None \<Rightarrow> None | Some (ok, data) \<Rightarrow> if ok then f data else Some (False, data))"

definition SetRtpHeader :: "bytes \<Rightarrow> RtpHeader \<Rightarrow> (bool \<times> bytes) option" where
  "SetRtpHeader data header =
     and_also (and_also (and_also (and_also (SetRtpHeaderFlags data False False 0)
       (\<lambda>data. SetRtpPayloadType data (payload_type header)))
       (\<lambda>data. SetRtpSeqNum data (seq_num header)))
       (\<lambda>data. SetRtpTimestamp data (timestamp header)))
       (\<lambda>data. SetRtpSsrc data (ssrc header))"

section \<open>Correctness\<close>

lemmas rtp_offsets =
  kRtpFlagsOffset_def kRtpPayloadTypeOffset_def kRtpSeqNumOffset_def kRtpTimestampOffset_def kRtpSsrcOffset_def
  kRtcpPayloadTypeOffset_def kMinRtpPacketLen_def kMinRtcpPacketLen_def

lemmas rtp_readers =
  GetRtpFlags_def GetRtpPayloadType_def GetRtpSeqNum_def GetRtpTimestamp_def GetRtpSsrc_def GetRtpVersion_def
  GetUint8_def GetUint16_def GetUint32_def

lemmas rtp_writers =
  SetRtpHeaderFlags_def SetRtpPayloadType_def SetRtpSeqNum_def SetRtpTimestamp_def SetRtpSsrc_def
  SetUint8_def SetUint16_def SetUint32_def and_also_def

text \<open>The header on the wire.\<close>

definition rtp_wire :: "RtpHeader \<Rightarrow> bytes" where
  "rtp_wire header =
     [0x80, word_of_int (payload_type header)] @ be_bytes 2 (word_of_int (seq_num header) :: uint16) @
     be_bytes 4 (timestamp header) @ be_bytes 4 (ssrc header)"

lemma SetRtpHeader_wire:
  assumes "12 \<le> length data" and "0 \<le> payload_type header" and "payload_type header < 127"
  shows "SetRtpHeader data header = Some (True, rtp_wire header @ drop 12 data)"
proof -
  obtain b0 b1 rest where data: "data = b0 # b1 # rest" using length2E [of data] assms(1) by auto
  have pt: "payload_type header AND 127 = payload_type header"
    using assms(2,3) take_bit_int_eq_self [of "payload_type header" 7]
    by (simp add: take_bit_eq_mask mask_numeral)
  show ?thesis
    using assms pt by (simp add: SetRtpHeader_def rtp_writers rtp_offsets data net_simps rtp_wire_def Set8_def
        kRtpVersion_def Let_def)
qed

lemma length_rtp_wire [simp]: "length (rtp_wire header) = 12"
  by (simp add: rtp_wire_def)

lemma int_and_mask7: "0 \<le> (v :: int) \<Longrightarrow> v < 128 \<Longrightarrow> v AND 127 = v"
  using take_bit_int_eq_self [of v 7] by (simp add: take_bit_eq_mask mask_numeral)

lemma GetRtpHeader_wire:
  assumes "0 \<le> payload_type header" and "payload_type header < 128" and "0 \<le> seq_num header" and "seq_num header < 65536"
  shows "GetRtpHeader (rtp_wire header @ rest) = Some header"
proof -
  have "uint (word_of_int (payload_type header) :: uint8) = payload_type header"
      "uint (word_of_int (seq_num header) :: uint16) = seq_num header"
    using assms by (auto simp: unsigned_of_int intro!: take_bit_int_eq_self)
  with assms show ?thesis
    by (simp add: GetRtpHeader_def rtp_readers rtp_offsets rtp_wire_def net_simps be_bytes_explicit [symmetric] int_and_mask7 nth_append)
qed

text \<open>What \<^verbatim>\<open>GetRtpHeaderLen\<close> returns lies inside of the packet: no extension can push it out.\<close>

lemma GetRtpHeaderLen_bounds: "GetRtpHeaderLen data = Some n \<Longrightarrow> 12 \<le> n \<and> n \<le> length data \<and> 4 dvd n"
  by (auto simp: GetRtpHeaderLen_def rtp_offsets Let_def split: if_splits)

text \<open>C27: a header that is written to a packet of at least 12 bytes is read back as it was, the packet is
  an RTP packet of version 2 with a header of 12 bytes, and the payload behind it is untouched.\<close>

theorem rtp_header_roundtrip:
  assumes "12 \<le> length data" and "0 \<le> payload_type header" and "payload_type header < 127"
    and "0 \<le> seq_num header" and "seq_num header < 65536"
  shows "\<exists>packet. SetRtpHeader data header = Some (True, packet) \<and> GetRtpHeader packet = Some header \<and>
    IsRtpPacket packet \<and> GetRtpHeaderLen packet = Some 12 \<and> drop 12 packet = drop 12 data \<and> length packet = length data"
proof -
  let ?p = "rtp_wire header @ drop 12 data"
  have 1: "?p ! 0 = 0x80" by (simp add: rtp_wire_def)
  then have 2: "IsRtpPacket ?p" "GetRtpHeaderLen ?p = Some 12"
    by (simp_all add: IsRtpPacket_def GetRtpVersion_def GetRtpHeaderLen_def rtp_offsets kRtpVersion_def)
  from assms 2 have "SetRtpHeader data header = Some (True, ?p) \<and> GetRtpHeader ?p = Some header \<and>
    IsRtpPacket ?p \<and> GetRtpHeaderLen ?p = Some 12 \<and> drop 12 ?p = drop 12 data \<and> length ?p = length data"
    by (simp add: SetRtpHeader_wire GetRtpHeader_wire)
  then show ?thesis by (rule exI [of _ ?p])
qed

theorem rtp_header_roundtrip_witness:
  "\<exists>packet. SetRtpHeader (replicate 14 7) \<lparr>payload_type = 96, seq_num = 65535, timestamp = 3000, ssrc = 1\<rparr> = Some (True, packet) \<and>
    GetRtpHeader packet = Some \<lparr>payload_type = 96, seq_num = 65535, timestamp = 3000, ssrc = 1\<rparr> \<and> IsRtpPacket packet \<and>
    GetRtpHeaderLen packet = Some 12 \<and> drop 12 packet = drop 12 (replicate 14 7) \<and> length packet = length (replicate 14 (7 :: uint8))"
  by (rule rtp_header_roundtrip) simp_all

end
