(* ===== verification/Demux_Filter.thy ===== *)
theory Demux_Filter
  imports Rtp_Utils Stream_Params
begin

text \<open>
  \<^verbatim>\<open>talk/session/media/rtcpmuxfilter.{h,cc}\<close>, \<^verbatim>\<open>bundlefilter.{h,cc}\<close> and the two functions of
  \<^verbatim>\<open>channel.cc\<close> that combine them: which of the packets that arrive on a transport are RTCP packets,
  and which belong to a channel.

  The negotiation of RTCP multiplexing is shown to follow the signalling: the filter is active exactly
  when the last accepted message was an answer that enabled it.
\<close>

unbundle bit_operations_syntax

section \<open>Negotiating RTCP multiplexing\<close>

datatype ContentSource = CS_LOCAL | CS_REMOTE

datatype MuxState = MUX_INIT | MUX_RECEIVEDOFFER | MUX_SENTOFFER | MUX_SENTPRANSWER | MUX_RECEIVEDPRANSWER | MUX_ACTIVE

text \<open>The order of the enumeration, which \<^verbatim>\<open>DemuxRtcp\<close> compares with.\<close>

fun mux_rank :: "MuxState \<Rightarrow> nat" where
  "mux_rank MUX_INIT = 0"
| "mux_rank MUX_RECEIVEDOFFER = 1"
| "mux_rank MUX_SENTOFFER = 2"
| "mux_rank MUX_SENTPRANSWER = 3"
| "mux_rank MUX_RECEIVEDPRANSWER = 4"
| "mux_rank MUX_ACTIVE = 5"

lemma mux_rank_inject: "mux_rank x = mux_rank y \<longleftrightarrow> x = y"
  by (cases x; cases y) auto

instantiation MuxState :: linorder
begin

definition less_eq_MuxState :: "MuxState \<Rightarrow> MuxState \<Rightarrow> bool" where
  "x \<le> y \<longleftrightarrow> mux_rank x \<le> mux_rank y"

definition less_MuxState :: "MuxState \<Rightarrow> MuxState \<Rightarrow> bool" where
  "x < y \<longleftrightarrow> mux_rank x < mux_rank y"

instance
  by standard (auto simp: less_eq_MuxState_def less_MuxState_def mux_rank_inject)

end

record RtcpMuxFilter =
  mux_state :: MuxState
  mux_offer_enable :: bool

definition RtcpMuxFilter_new :: RtcpMuxFilter where
  "RtcpMuxFilter_new = \<lparr>mux_state = MUX_INIT, mux_offer_enable = False\<rparr>"

definition RtcpMux_IsActive :: "RtcpMuxFilter \<Rightarrow> bool" where
  "RtcpMux_IsActive f \<longleftrightarrow> mux_state f = MUX_SENTPRANSWER \<or> mux_state f = MUX_RECEIVEDPRANSWER \<or> mux_state f = MUX_ACTIVE"

definition RtcpMux_ExpectOffer :: "bool \<Rightarrow> ContentSource \<Rightarrow> RtcpMuxFilter \<Rightarrow> bool" where
  "RtcpMux_ExpectOffer offer_enable source f \<longleftrightarrow>
     mux_state f = MUX_INIT \<or>
     mux_state f = MUX_ACTIVE \<and> offer_enable = mux_offer_enable f \<or>
     mux_state f = MUX_SENTOFFER \<and> source = CS_LOCAL \<or>
     mux_state f = MUX_RECEIVEDOFFER \<and> source = CS_REMOTE"

definition RtcpMux_ExpectAnswer :: "ContentSource \<Rightarrow> RtcpMuxFilter \<Rightarrow> bool" where
  "RtcpMux_ExpectAnswer source f \<longleftrightarrow>
     mux_state f = MUX_SENTOFFER \<and> source = CS_REMOTE \<or>
     mux_state f = MUX_RECEIVEDOFFER \<and> source = CS_LOCAL \<or>
     mux_state f = MUX_SENTPRANSWER \<and> source = CS_LOCAL \<or>
     mux_state f = MUX_RECEIVEDPRANSWER \<and> source = CS_REMOTE"

definition RtcpMux_SetOffer :: "bool \<Rightarrow> ContentSource \<Rightarrow> RtcpMuxFilter \<Rightarrow> bool \<times> RtcpMuxFilter" where
  "RtcpMux_SetOffer offer_enable src f =
     (if \<not> RtcpMux_ExpectOffer offer_enable src f then (False, f)
      else (True, f\<lparr>mux_offer_enable := offer_enable,
                    mux_state := (if src = CS_LOCAL then MUX_SENTOFFER else MUX_RECEIVEDOFFER)\<rparr>))"

definition RtcpMux_SetProvisionalAnswer :: "bool \<Rightarrow> ContentSource \<Rightarrow> RtcpMuxFilter \<Rightarrow> bool \<times> RtcpMuxFilter" where
  "RtcpMux_SetProvisionalAnswer answer_enable src f =
     (if \<not> RtcpMux_ExpectAnswer src f then (False, f)
      else if mux_offer_enable f then
        if answer_enable then
          (True, f\<lparr>mux_state := (if src = CS_REMOTE then MUX_RECEIVEDPRANSWER else MUX_SENTPRANSWER)\<rparr>)
        else
          (True, f\<lparr>mux_state := (if src = CS_REMOTE then MUX_SENTOFFER else MUX_RECEIVEDOFFER)\<rparr>)
      else if answer_enable then (False, f)
      else (True, f))"

definition RtcpMux_SetAnswer :: "bool \<Rightarrow> ContentSource \<Rightarrow> RtcpMuxFilter \<Rightarrow> bool \<times> RtcpMuxFilter" where
  "RtcpMux_SetAnswer answer_enable src f =
     (if \<not> RtcpMux_ExpectAnswer src f then (False, f)
      else if mux_offer_enable f \<and> answer_enable then (True, f\<lparr>mux_state := MUX_ACTIVE\<rparr>)
      else if answer_enable then (False, f)
      else (True, f\<lparr>mux_state := MUX_INIT\<rparr>))"

definition DemuxRtcp :: "bytes \<Rightarrow> RtcpMuxFilter \<Rightarrow> bool" where
  "DemuxRtcp data f \<longleftrightarrow>
     (if \<not> mux_offer_enable f \<or> mux_state f < MUX_SENTOFFER then False
      else let type = (if length data \<ge> 2 then uint (data ! 1 AND 0x7F) else 0)
           in type \<ge> 64 \<and> type < 96)"

section \<open>Demultiplexing a bundle\<close>

record BundleFilter =
  payload_types :: "int set"
  bundle_streams :: "StreamParams list"

definition BundleFilter_new :: BundleFilter where
  "BundleFilter_new = \<lparr>payload_types = {}, bundle_streams = []\<rparr>"

definition AddPayloadType :: "int \<Rightarrow> BundleFilter \<Rightarrow> BundleFilter" where
  "AddPayloadType pt b = b\<lparr>payload_types := insert pt (payload_types b)\<rparr>"

definition Bundle_AddStream :: "StreamParams \<Rightarrow> BundleFilter \<Rightarrow> bool \<times> BundleFilter" where
  "Bundle_AddStream stream b =
     (if GetStreamBySsrc (bundle_streams b) (first_ssrc stream) \<noteq> None then (False, b)
      else (True, b\<lparr>bundle_streams := bundle_streams b @ [stream]\<rparr>))"

definition Bundle_RemoveStream :: "uint32 \<Rightarrow> BundleFilter \<Rightarrow> bool \<times> BundleFilter" where
  "Bundle_RemoveStream s b =
     (case RemoveStreamBySsrc s (bundle_streams b) of (ret, streams) \<Rightarrow> (ret, b\<lparr>bundle_streams := streams\<rparr>))"

definition HasStreams :: "BundleFilter \<Rightarrow> bool" where
  "HasStreams b \<longleftrightarrow> bundle_streams b \<noteq> []"

definition FindStream :: "uint32 \<Rightarrow> BundleFilter \<Rightarrow> bool" where
  "FindStream s b \<longleftrightarrow> (if s = 0 then False else GetStreamBySsrc (bundle_streams b) s \<noteq> None)"

definition FindPayloadType :: "int \<Rightarrow> BundleFilter \<Rightarrow> bool" where
  "FindPayloadType pl_type b \<longleftrightarrow> pl_type \<in> payload_types b"

definition ClearAllPayloadTypes :: "BundleFilter \<Rightarrow> BundleFilter" where
  "ClearAllPayloadTypes b = b\<lparr>payload_types := {}\<rparr>"

definition kSsrc01 :: uint32 where "kSsrc01 = 1"

definition DemuxPacket :: "bytes \<Rightarrow> bool \<Rightarrow> BundleFilter \<Rightarrow> bool" where
  "DemuxPacket data rtcp b \<longleftrightarrow>
     (if \<not> rtcp then
        if \<not> IsRtpPacket data then False
        else (case GetRtpPayloadType data of None \<Rightarrow> False | Some pt \<Rightarrow> FindPayloadType pt b)
      else (case GetRtcpType data of
          None \<Rightarrow> False
        | Some pl_type \<Rightarrow>
            if pl_type = kRtcpTypeSDES then True
            else (case GetRtcpSsrc data of
                None \<Rightarrow> False
              | Some s \<Rightarrow> if s = kSsrc01 then True else \<not> HasStreams b \<or> FindStream s b)))"

section \<open>Packets of a channel\<close>

definition ValidPacket :: "bool \<Rightarrow> bytes \<Rightarrow> bool" where
  "ValidPacket rtcp packet \<longleftrightarrow>
     length packet \<ge> (if \<not> rtcp then kMinRtpPacketLen else kMinRtcpPacketLen) \<and> length packet \<le> kMaxRtpPacketLen"

text \<open>\<open>on_rtcp_channel\<close>: the packet came from the transport channel of RTCP.\<close>

definition PacketIsRtcp :: "bool \<Rightarrow> bytes \<Rightarrow> RtcpMuxFilter \<Rightarrow> bool" where
  "PacketIsRtcp on_rtcp_channel data f \<longleftrightarrow> on_rtcp_channel \<or> DemuxRtcp data f"

definition WantsPacket :: "bool \<Rightarrow> bytes \<Rightarrow> BundleFilter \<Rightarrow> bool" where
  "WantsPacket rtcp packet b \<longleftrightarrow> (if \<not> ValidPacket rtcp packet then False else DemuxPacket packet rtcp b)"

section \<open>The filter follows the signalling\<close>

datatype MuxOp = MuxOffer bool ContentSource | MuxPrAnswer bool ContentSource | MuxAnswer bool ContentSource

fun mux_op :: "MuxOp \<Rightarrow> RtcpMuxFilter \<Rightarrow> bool \<times> RtcpMuxFilter" where
  "mux_op (MuxOffer en src) f = RtcpMux_SetOffer en src f"
| "mux_op (MuxPrAnswer en src) f = RtcpMux_SetProvisionalAnswer en src f"
| "mux_op (MuxAnswer en src) f = RtcpMux_SetAnswer en src f"

text \<open>A history of calls: the filter, and the calls that returned true.\<close>

definition mux_step :: "RtcpMuxFilter \<times> MuxOp list \<Rightarrow> MuxOp \<Rightarrow> RtcpMuxFilter \<times> MuxOp list" where
  "mux_step s cmd = (case mux_op cmd (fst s) of (ok, f) \<Rightarrow> (f, if ok then snd s @ [cmd] else snd s))"

definition mux_run :: "MuxOp list \<Rightarrow> RtcpMuxFilter \<times> MuxOp list" where
  "mux_run cmds = foldl mux_step (RtcpMuxFilter_new, []) cmds"

text \<open>The last accepted message is an answer that enables multiplexing.\<close>

definition mux_agreed :: "MuxOp list \<Rightarrow> bool" where
  "mux_agreed acc \<longleftrightarrow> acc \<noteq> [] \<and> (case last acc of MuxOffer en src \<Rightarrow> False | MuxPrAnswer en src \<Rightarrow> en | MuxAnswer en src \<Rightarrow> en)"

text \<open>The accepted offer that has no final answer yet.\<close>

fun open_offer_step :: "(bool \<times> ContentSource) option \<Rightarrow> MuxOp \<Rightarrow> (bool \<times> ContentSource) option" where
  "open_offer_step r (MuxOffer en src) = Some (en, src)"
| "open_offer_step r (MuxPrAnswer en src) = r"
| "open_offer_step r (MuxAnswer en src) = None"

definition open_offer :: "MuxOp list \<Rightarrow> (bool \<times> ContentSource) option" where
  "open_offer acc = foldl open_offer_step None acc"

lemma mux_agreed_snoc [simp]:
  "mux_agreed (acc @ [cmd]) = (case cmd of MuxOffer en src \<Rightarrow> False | MuxPrAnswer en src \<Rightarrow> en | MuxAnswer en src \<Rightarrow> en)"
  by (simp add: mux_agreed_def)

lemma open_offer_snoc [simp]: "open_offer (acc @ [cmd]) = open_offer_step (open_offer acc) cmd"
  by (simp add: open_offer_def)

definition mux_inv :: "RtcpMuxFilter \<times> MuxOp list \<Rightarrow> bool" where
  "mux_inv s \<longleftrightarrow> (case s of (f, acc) \<Rightarrow> case mux_state f of
      MUX_INIT \<Rightarrow> open_offer acc = None \<and> \<not> mux_agreed acc
    | MUX_RECEIVEDOFFER \<Rightarrow> open_offer acc = Some (mux_offer_enable f, CS_REMOTE) \<and> \<not> mux_agreed acc
    | MUX_SENTOFFER \<Rightarrow> open_offer acc = Some (mux_offer_enable f, CS_LOCAL) \<and> \<not> mux_agreed acc
    | MUX_SENTPRANSWER \<Rightarrow> open_offer acc = Some (True, CS_REMOTE) \<and> mux_offer_enable f \<and> mux_agreed acc
    | MUX_RECEIVEDPRANSWER \<Rightarrow> open_offer acc = Some (True, CS_LOCAL) \<and> mux_offer_enable f \<and> mux_agreed acc
    | MUX_ACTIVE \<Rightarrow> open_offer acc = None \<and> mux_offer_enable f \<and> mux_agreed acc)"

lemma not_CS_LOCAL [simp]: "src \<noteq> CS_LOCAL \<longleftrightarrow> src = CS_REMOTE"
  by (cases src) auto

lemma mux_inv_step: "mux_inv s \<Longrightarrow> mux_inv (mux_step s cmd)"
  by (cases s; cases cmd)
    (auto simp: mux_inv_def mux_step_def RtcpMux_SetOffer_def RtcpMux_SetProvisionalAnswer_def RtcpMux_SetAnswer_def
      RtcpMux_ExpectOffer_def RtcpMux_ExpectAnswer_def split: MuxState.splits ContentSource.splits if_splits)

lemma mux_inv_run: "mux_inv (mux_run cmds)"
proof -
  have "mux_inv s \<Longrightarrow> mux_inv (foldl mux_step s cmds)" for s
    by (induction cmds arbitrary: s) (simp_all add: mux_inv_step del: split_paired_All)
  then show ?thesis by (simp add: mux_run_def mux_inv_def RtcpMuxFilter_new_def open_offer_def mux_agreed_def)
qed

text \<open>The packet types that RFC 5761 sets aside for RTCP.\<close>

definition rtcp_type_range :: "bytes \<Rightarrow> bool" where
  "rtcp_type_range data \<longleftrightarrow> 2 \<le> length data \<and> uint (data ! 1) mod 128 \<in> {64..<96}"

lemma DemuxRtcp_iff:
  "DemuxRtcp data f \<longleftrightarrow> mux_offer_enable f \<and> mux_state f \<ge> MUX_SENTOFFER \<and> rtcp_type_range data"
proof -
  have "uint (w AND 0x7F) = uint w mod 128" for w :: uint8
    using take_bit_eq_mask [of 7 "uint w"] by (simp add: uint_and take_bit_eq_mod mask_numeral)
  then show ?thesis by (auto simp: DemuxRtcp_def rtcp_type_range_def Let_def)
qed


section \<open>Where a packet goes\<close>

lemma rtp_wire_type: "0 \<le> payload_type header \<Longrightarrow> payload_type header < 128 \<Longrightarrow>
  uint ((rtp_wire header @ rest) ! 1) mod 128 = payload_type header"
  by (simp add: rtp_wire_def unsigned_of_int take_bit_eq_mod)

text \<open>C24: an RTP packet whose payload type is outside of the RTCP range is never taken for RTCP, whatever
  has been negotiated, and the channel wants it exactly when its payload type has been added.\<close>

theorem rtp_packet_reaches_channel:
  assumes "SetRtpHeader data header = Some (True, packet)" and "12 \<le> length data" and "length data \<le> 2048"
    and "0 \<le> payload_type header" and "payload_type header < 127" and "payload_type header \<notin> {64..<96}"
  shows "\<not> PacketIsRtcp False packet f \<and>
    (WantsPacket (PacketIsRtcp False packet f) packet b \<longleftrightarrow> payload_type header \<in> payload_types b)"
proof -
  have p: "packet = rtp_wire header @ drop 12 data" using SetRtpHeader_wire [OF assms(2,4,5)] assms(1) by simp
  have 1: "\<not> PacketIsRtcp False packet f"
    using rtp_wire_type [of header "drop 12 data"] assms(4-6) by (simp add: PacketIsRtcp_def DemuxRtcp_iff rtcp_type_range_def p)
  have "IsRtpPacket packet"
    unfolding p by (simp add: IsRtpPacket_def GetRtpVersion_def rtp_offsets kRtpVersion_def) (simp add: rtp_wire_def)
  moreover have "GetRtpPayloadType packet = Some (payload_type header)"
    unfolding p using assms(4,5)
    by (simp add: GetRtpPayloadType_def GetUint8_def rtp_offsets) (simp add: rtp_wire_def unsigned_of_int int_and_mask7 take_bit_int_eq_self)
  ultimately show ?thesis
    using 1 assms(2,3) by (simp add: WantsPacket_def ValidPacket_def DemuxPacket_def FindPayloadType_def kMinRtpPacketLen_def
        kMaxRtpPacketLen_def p)
qed

theorem rtp_packet_reaches_channel_witness:
  "\<exists>packet. SetRtpHeader (replicate 20 0) \<lparr>payload_type = 111, seq_num = 5, timestamp = 960, ssrc = 7\<rparr> = Some (True, packet) \<and>
     (let f = fst (mux_run [MuxOffer True CS_LOCAL, MuxAnswer True CS_REMOTE]) in
      \<not> PacketIsRtcp False packet f \<and>
      (WantsPacket (PacketIsRtcp False packet f) packet (AddPayloadType 111 BundleFilter_new) \<longleftrightarrow>
         111 \<in> payload_types (AddPayloadType 111 BundleFilter_new)))"
proof -
  let ?h = "\<lparr>payload_type = 111, seq_num = 5, timestamp = 960, ssrc = 7\<rparr>"
  have s: "SetRtpHeader (replicate 20 0) ?h = Some (True, rtp_wire ?h @ drop 12 (replicate 20 0))"
    by (rule SetRtpHeader_wire) simp_all
  let ?f = "fst (mux_run [MuxOffer True CS_LOCAL, MuxAnswer True CS_REMOTE])" and ?b = "AddPayloadType 111 BundleFilter_new"
  have "\<not> PacketIsRtcp False (rtp_wire ?h @ drop 12 (replicate 20 0)) ?f \<and>
      (WantsPacket (PacketIsRtcp False (rtp_wire ?h @ drop 12 (replicate 20 0)) ?f) (rtp_wire ?h @ drop 12 (replicate 20 0)) ?b
        \<longleftrightarrow> payload_type ?h \<in> payload_types ?b)"
    by (rule rtp_packet_reaches_channel [OF s]) simp_all
  with s show ?thesis unfolding Let_def RtpHeader.simps by blast
qed

end
