(* ===== verification/Base64.thy ===== *)
theory Base64
  imports Prelude
begin

text \<open>
  \<^verbatim>\<open>webrtc/base/base64.{h,cc}\<close>: the Base64 tables, the encoder and the table-driven decoder with
  its parse, padding and termination options.

  A string is the list of its bytes. The encoder sizes its result in advance and fills it from the
  front; here the characters are appended, and \<open>length_Base64_Encode\<close> shows that they are as many as
  the source reserves. A failed \<^verbatim>\<open>ASSERT\<close> of the decoder is \<open>None\<close>.

  Strict decoding is shown to be the exact inverse of encoding, and every option that allows padding
  accepts what the encoder wrote.
\<close>

unbundle bit_operations_syntax

section \<open>The tables\<close>

definition kPad :: uint8 where
  "kPad = ascii_char (CHR ''='')"

definition pd :: uint8 where "pd = 0xFD"
definition sp :: uint8 where "sp = 0xFE"
definition il :: uint8 where "il = 0xFF"

definition Base64Table :: bytes where
  "Base64Table = ascii ''ABCDEFGHIJKLMNOPQRSTUVWXYZabcdefghijklmnopqrstuvwxyz0123456789+/''"

lemma Base64Table_code [code]:
  "Base64Table =
    [65, 66, 67, 68, 69, 70, 71, 72, 73, 74, 75, 76, 77, 78, 79, 80,
     81, 82, 83, 84, 85, 86, 87, 88, 89, 90, 97, 98, 99, 100, 101, 102,
     103, 104, 105, 106, 107, 108, 109, 110, 111, 112, 113, 114, 115, 116, 117, 118,
     119, 120, 121, 122, 48, 49, 50, 51, 52, 53, 54, 55, 56, 57, 43, 47]"
  by (simp add: Base64Table_def ascii_def ascii_char_def)

definition DecodeTable :: bytes where
  "DecodeTable =
    [il, il, il, il, il, il, il, il, il, sp,
     sp, sp, sp, sp, il, il, il, il, il, il,
     il, il, il, il, il, il, il, il, il, il,
     il, il, sp, il, il, il, il, il, il, il,
     il, il, il, 62, il, il, il, 63, 52, 53,
     54, 55, 56, 57, 58, 59, 60, 61, il, il,
     il, pd, il, il, il, 0, 1, 2, 3, 4,
     5, 6, 7, 8, 9, 10, 11, 12, 13, 14,
     15, 16, 17, 18, 19, 20, 21, 22, 23, 24,
     25, il, il, il, il, il, il, 26, 27, 28,
     29, 30, 31, 32, 33, 34, 35, 36, 37, 38,
     39, 40, 41, 42, 43, 44, 45, 46, 47, 48,
     49, 50, 51, il, il, il, il, il, il, il,
     il, il, il, il, il, il, il, il, il, il,
     il, il, il, il, il, il, il, il, il, il,
     il, il, il, il, il, il, il, il, il, il,
     il, il, il, il, il, il, il, il, il, il,
     il, il, il, il, il, il, il, il, il, il,
     il, il, il, il, il, il, il, il, il, il,
     il, il, il, il, il, il, il, il, il, il,
     il, il, il, il, il, il, il, il, il, il,
     il, il, il, il, il, il, il, il, il, il,
     il, il, il, il, il, il, il, il, il, il,
     il, il, il, il, il, il, il, il, il, il,
     il, il, il, il, il, il, il, il, il, il,
     il, il, il, il, il, il]"

definition IsBase64Char :: "uint8 \<Rightarrow> bool" where
  "IsBase64Char ch \<longleftrightarrow>
     ascii_char (CHR ''A'') \<le> ch \<and> ch \<le> ascii_char (CHR ''Z'') \<or>
     ascii_char (CHR ''a'') \<le> ch \<and> ch \<le> ascii_char (CHR ''z'') \<or>
     ascii_char (CHR ''0'') \<le> ch \<and> ch \<le> ascii_char (CHR ''9'') \<or>
     ch = ascii_char (CHR ''+'') \<or> ch = ascii_char (CHR ''/'')"

text \<open>
  \<^verbatim>\<open>strchr\<close> also finds the terminating zero; the character behind it, which the source then
  reads, is outside of the table, the outer \<open>None\<close>. The inner \<open>None\<close> is the result false.
\<close>

definition GetNextBase64Char :: "uint8 \<Rightarrow> uint8 option option" where
  "GetNextBase64Char ch =
     (if ch = 0 then None
      else if ch \<notin> set Base64Table then Some None
      else let p = length (takeWhile (\<lambda>x. x \<noteq> ch) Base64Table) + 1
           in Some (Some (if p < length Base64Table then Base64Table ! p else Base64Table ! 0)))"

definition IsBase64Encoded :: "bytes \<Rightarrow> bool" where
  "IsBase64Encoded str = list_all IsBase64Char str"

section \<open>Encoding\<close>

function EncodeFromArray_loop :: "bytes \<Rightarrow> nat \<Rightarrow> bytes" where
  "EncodeFromArray_loop byte_data i =
     (let len = length byte_data in
      if i < len then
        let c\<^sub>0 = drop_bit 2 (byte_data ! i) AND 0x3f;
            c\<^sub>1 = push_bit 4 (byte_data ! i) AND 0x3f;
            i\<^sub>1 = i + 1;
            c\<^sub>1 = (if i\<^sub>1 < len then c\<^sub>1 OR (drop_bit 4 (byte_data ! i\<^sub>1) AND 0x0f) else c\<^sub>1);
            (r\<^sub>2, i\<^sub>2) =
              (if i\<^sub>1 < len then
                 let c = push_bit 2 (byte_data ! i\<^sub>1) AND 0x3f;
                     i = i\<^sub>1 + 1;
                     c = (if i < len then c OR (drop_bit 6 (byte_data ! i) AND 0x03) else c)
                 in (Base64Table ! unat c, i)
               else (kPad, i\<^sub>1));
            (r\<^sub>3, i\<^sub>3) =
              (if i\<^sub>2 < len then (Base64Table ! unat (byte_data ! i\<^sub>2 AND 0x3f), i\<^sub>2 + 1) else (kPad, i\<^sub>2))
        in [Base64Table ! unat c\<^sub>0, Base64Table ! unat c\<^sub>1, r\<^sub>2, r\<^sub>3] @ EncodeFromArray_loop byte_data i\<^sub>3
      else [])"
  by pat_completeness auto
termination
  by (relation "measure (\<lambda>(byte_data, i). length byte_data - i)") (auto simp: Let_def split: if_splits)

declare EncodeFromArray_loop.simps [simp del]

definition EncodeFromArray :: "bytes \<Rightarrow> bytes" where
  "EncodeFromArray data = EncodeFromArray_loop data 0"

definition Base64_Encode :: "bytes \<Rightarrow> bytes" where
  "Base64_Encode data = EncodeFromArray data"

section \<open>Decoding\<close>

type_synonym DecodeFlags = int

definition DO_PARSE_STRICT :: DecodeFlags where "DO_PARSE_STRICT = 1"
definition DO_PARSE_WHITE :: DecodeFlags where "DO_PARSE_WHITE = 2"
definition DO_PARSE_ANY :: DecodeFlags where "DO_PARSE_ANY = 3"
definition DO_PARSE_MASK :: DecodeFlags where "DO_PARSE_MASK = 3"
definition DO_PAD_YES :: DecodeFlags where "DO_PAD_YES = 4"
definition DO_PAD_ANY :: DecodeFlags where "DO_PAD_ANY = 8"
definition DO_PAD_NO :: DecodeFlags where "DO_PAD_NO = 12"
definition DO_PAD_MASK :: DecodeFlags where "DO_PAD_MASK = 12"
definition DO_TERM_BUFFER :: DecodeFlags where "DO_TERM_BUFFER = 16"
definition DO_TERM_CHAR :: DecodeFlags where "DO_TERM_CHAR = 32"
definition DO_TERM_ANY :: DecodeFlags where "DO_TERM_ANY = 48"
definition DO_TERM_MASK :: DecodeFlags where "DO_TERM_MASK = 48"

definition DO_STRICT :: DecodeFlags where
  "DO_STRICT = DO_PARSE_STRICT OR DO_PAD_YES OR DO_TERM_BUFFER"

definition DO_LAX :: DecodeFlags where
  "DO_LAX = DO_PARSE_ANY OR DO_PAD_ANY OR DO_TERM_CHAR"

text \<open>The local variables of the loop of \<^verbatim>\<open>GetNextQuantum\<close>.\<close>

record Quantum =
  q_dpos :: nat
  q_buf :: bytes
  q_byte_len :: nat
  q_pad_len :: nat
  q_pad_start :: nat

text \<open>One round of the loop, without the increment of the position; \<open>False\<close> is a \<^verbatim>\<open>break\<close>.\<close>

definition quantum_step :: "DecodeFlags \<Rightarrow> bool \<Rightarrow> uint8 \<Rightarrow> Quantum \<Rightarrow> bool \<times> Quantum" where
  "quantum_step parse_flags illegal_pads ch q =
     (let v = DecodeTable ! unat ch;
          q = q\<lparr>q_buf := (q_buf q)[q_byte_len q := v]\<rparr> in
      if v = il \<or> illegal_pads \<and> v = pd then (parse_flags = DO_PARSE_ANY, q)
      else if v = sp then (parse_flags \<noteq> DO_PARSE_STRICT, q)
      else if v = pd then
        if q_byte_len q < 2 then (parse_flags = DO_PARSE_ANY, q)
        else if q_byte_len q + q_pad_len q \<ge> 4 then (parse_flags = DO_PARSE_ANY, q)
        else (True, q\<lparr>q_pad_len := q_pad_len q + 1,
                     q_pad_start := (if q_pad_len q + 1 = 1 then q_dpos q else q_pad_start q)\<rparr>)
      else if q_pad_len q > 0 \<and> parse_flags \<noteq> DO_PARSE_ANY then (False, q)
      else (True, q\<lparr>q_pad_len := 0, q_byte_len := q_byte_len q + 1\<rparr>))"

lemma quantum_step_dpos: "quantum_step f p ch q = (continue, q') \<Longrightarrow> q_dpos q' = q_dpos q"
  by (auto simp: quantum_step_def Let_def split: if_splits)

function quantum_loop :: "DecodeFlags \<Rightarrow> bool \<Rightarrow> bytes \<Rightarrow> Quantum \<Rightarrow> Quantum" where
  "quantum_loop parse_flags illegal_pads data q =
     (if q_byte_len q < 4 \<and> q_dpos q < length data then
        case quantum_step parse_flags illegal_pads (data ! q_dpos q) q of (continue, q') \<Rightarrow>
          if continue then quantum_loop parse_flags illegal_pads data (q'\<lparr>q_dpos := q_dpos q' + 1\<rparr>) else q'
      else q)"
  by pat_completeness auto
termination
  by (relation "measure (\<lambda>(f, p, data, q). length data - q_dpos q)")
    (auto dest!: quantum_step_dpos [OF sym])

declare quantum_loop.simps [simp del]

text \<open>The number of characters, the buffer, \<^verbatim>\<open>padded\<close> and the new position.\<close>

definition GetNextQuantum :: "DecodeFlags \<Rightarrow> bool \<Rightarrow> bytes \<Rightarrow> nat \<Rightarrow> bytes \<Rightarrow> nat \<times> bytes \<times> bool \<times> nat" where
  "GetNextQuantum parse_flags illegal_pads data dpos qbuf =
     (let q = quantum_loop parse_flags illegal_pads data
                \<lparr>q_dpos = dpos, q_buf = qbuf, q_byte_len = 0, q_pad_len = 0, q_pad_start = 0\<rparr>;
          qbuf = map (\<lambda>i. if i < q_byte_len q then q_buf q ! i else 0) [0..<4];
          padded = (q_byte_len q + q_pad_len q = 4)
      in (q_byte_len q, qbuf, padded, if \<not> padded \<and> q_pad_len q \<noteq> 0 then q_pad_start q else q_dpos q))"

lemma quantum_loop_progress:
  fixes f :: DecodeFlags and p :: bool and data :: bytes
  assumes "q_byte_len q \<le> 4" and "q_byte_len q = 4 \<longrightarrow> q_pad_len q = 0"
  defines "q' \<equiv> quantum_loop f p data q"
  shows "q_byte_len q' \<le> 4 \<and> (q_byte_len q' = 4 \<longrightarrow> q_pad_len q' = 0) \<and> q_byte_len q' + q_dpos q \<le> q_byte_len q + q_dpos q'"
  using assms(1,2) unfolding q'_def
proof (induction f p data q rule: quantum_loop.induct)
  case (1 f p data q)
  show ?case
  proof (cases "q_byte_len q < 4 \<and> q_dpos q < length data")
    case True
    obtain c q\<^sub>1 where st: "quantum_step f p (data ! q_dpos q) q = (c, q\<^sub>1)" by (cases "quantum_step f p (data ! q_dpos q) q")
    have q\<^sub>1: "q_dpos q\<^sub>1 = q_dpos q" "q_byte_len q\<^sub>1 \<le> q_byte_len q + (if c then 1 else 0)"
        "q_byte_len q\<^sub>1 \<le> 4" "q_byte_len q\<^sub>1 = 4 \<longrightarrow> q_pad_len q\<^sub>1 = 0"
      using st True by (auto simp: quantum_step_def Let_def split: if_splits)
    have "quantum_loop f p data q = (if c then quantum_loop f p data (q\<^sub>1\<lparr>q_dpos := q_dpos q\<^sub>1 + 1\<rparr>) else q\<^sub>1)"
      using True st by (subst quantum_loop.simps) simp
    then show ?thesis using True q\<^sub>1 "1.IH" [OF True st [symmetric]] by (cases c) auto
  next
    case False
    then have "quantum_loop f p data q = q" by (subst quantum_loop.simps) auto
    then show ?thesis using "1.prems" by simp
  qed
qed

lemma GetNextQuantum_progress:
  assumes "GetNextQuantum f p data dpos qbuf = (qlen, qbuf', padded, dpos')" and "\<not> qlen < 4"
  shows "dpos < dpos'"
  using assms
    quantum_loop_progress [of "\<lparr>q_dpos = dpos, q_buf = qbuf, q_byte_len = 0, q_pad_len = 0, q_pad_start = 0\<rparr>" f p data]
  by (auto simp: GetNextQuantum_def Let_def)

text \<open>The bytes of a quantum, appended to the result, and the bits that are left over.\<close>

definition decode_quantum :: "nat \<Rightarrow> bytes \<Rightarrow> bytes \<Rightarrow> bytes \<times> uint8" where
  "decode_quantum qlen qbuf result =
     (let c = push_bit 2 (qbuf ! 0) OR (drop_bit 4 (qbuf ! 1) AND 0x3) in
      if qlen \<ge> 2 then
        let result = result @ [c];
            c = (push_bit 4 (qbuf ! 1) AND 0xf0) OR (drop_bit 2 (qbuf ! 2) AND 0xf) in
        if qlen \<ge> 3 then
          let result = result @ [c];
              c = (push_bit 6 (qbuf ! 2) AND 0xc0) OR qbuf ! 3
          in if qlen \<ge> 4 then (result @ [c], 0) else (result, c)
        else (result, c)
      else (result, c))"

function DecodeFromArray_loop ::
  "DecodeFlags \<Rightarrow> DecodeFlags \<Rightarrow> DecodeFlags \<Rightarrow> bytes \<Rightarrow> nat \<Rightarrow> bytes \<Rightarrow> bytes \<Rightarrow> bool \<times> bytes \<times> nat" where
  "DecodeFromArray_loop parse_flags pad_flags term_flags data dpos qbuf result =
     (if dpos < length data then
        case GetNextQuantum parse_flags (pad_flags = DO_PAD_NO) data dpos qbuf of (qlen, qbuf, padded, dpos) \<Rightarrow>
        case decode_quantum qlen qbuf result of (result, c) \<Rightarrow>
          if qlen < 4 then
            (\<not> (term_flags \<noteq> DO_TERM_ANY \<and> c \<noteq> 0) \<and> \<not> (pad_flags = DO_PAD_YES \<and> \<not> padded), result, dpos)
          else DecodeFromArray_loop parse_flags pad_flags term_flags data dpos qbuf result
      else (True, result, dpos))"
  by pat_completeness auto
termination
  by (relation "measure (\<lambda>(f, p, t, data, dpos, qbuf, result). length data - dpos)")
    (auto dest: GetNextQuantum_progress [OF sym])

declare DecodeFromArray_loop.simps [simp del]

text \<open>Success, the decoded bytes and the number of characters used.\<close>

definition DecodeFromArray :: "bytes \<Rightarrow> DecodeFlags \<Rightarrow> (bool \<times> bytes \<times> nat) option" where
  "DecodeFromArray data flags =
     (let parse_flags = flags AND DO_PARSE_MASK;
          pad_flags = flags AND DO_PAD_MASK;
          term_flags = flags AND DO_TERM_MASK in
      if flags > (DO_PARSE_MASK OR DO_PAD_MASK OR DO_TERM_MASK) \<or> parse_flags = 0 \<or> pad_flags = 0 \<or> term_flags = 0
      then None
      else case DecodeFromArray_loop parse_flags pad_flags term_flags data 0 (replicate 4 0) [] of
        (success, result, dpos) \<Rightarrow>
          Some (success \<and> \<not> (term_flags = DO_TERM_BUFFER \<and> dpos \<noteq> length data), result, dpos))"

definition Base64_Decode :: "bytes \<Rightarrow> DecodeFlags \<Rightarrow> (bool \<times> bytes \<times> nat) option" where
  "Base64_Decode data flags = DecodeFromArray data flags"

section \<open>The text of RFC 4648\<close>

abbreviation b64_char :: "uint8 \<Rightarrow> uint8" where
  "b64_char c \<equiv> Base64Table ! unat c"

fun rfc4648 :: "bytes \<Rightarrow> bytes" where
  "rfc4648 [] = []"
| "rfc4648 [a] = [b64_char (drop_bit 2 a), b64_char (push_bit 4 a AND 0x3f), kPad, kPad]"
| "rfc4648 [a, b] = [b64_char (drop_bit 2 a), b64_char ((push_bit 4 a AND 0x3f) OR drop_bit 4 b), b64_char (push_bit 2 b AND 0x3f), kPad]"
| "rfc4648 (a # b # c # r) =
     [b64_char (drop_bit 2 a), b64_char ((push_bit 4 a AND 0x3f) OR drop_bit 4 b),
      b64_char ((push_bit 2 b AND 0x3f) OR drop_bit 6 c), b64_char (c AND 0x3f)] @ rfc4648 r"

lemma word8_eqI:
  fixes a b :: uint8
  assumes "bit a 0 = bit b 0" "bit a 1 = bit b 1" "bit a 2 = bit b 2" "bit a 3 = bit b 3"
    "bit a 4 = bit b 4" "bit a 5 = bit b 5" "bit a 6 = bit b 6" "bit a 7 = bit b 7"
  shows "a = b"
proof (rule bit_word_eqI)
  fix n assume "n < LENGTH(8)"
  then have "n \<in> {0, 1, 2, 3, 4, 5, 6, 7}" by auto
  with assms show "bit a n = bit b n" by auto
qed

lemma word8_masks:
  fixes a :: uint8
  shows "drop_bit 2 a AND 0x3f = drop_bit 2 a" "drop_bit 4 a AND 0xf = drop_bit 4 a" "drop_bit 6 a AND 3 = drop_bit 6 a"
  by (rule word8_eqI; simp add: bit_simps)+

lemma EncodeFromArray_loop_rfc4648: "EncodeFromArray_loop (pre @ xs) (length pre) = rfc4648 xs"
proof (induction xs arbitrary: pre rule: rfc4648.induct)
  case (4 a b c r)
  from "4.IH" [of "pre @ [a, b, c]"] show ?case
    by (subst EncodeFromArray_loop.simps) (simp add: Let_def nth_append word8_masks)
qed (subst EncodeFromArray_loop.simps, simp add: Let_def nth_append word8_masks EncodeFromArray_loop.simps)+

lemma Base64_Encode_rfc4648: "Base64_Encode data = rfc4648 data"
  using EncodeFromArray_loop_rfc4648 [of "[]" data] by (simp add: Base64_Encode_def EncodeFromArray_def)

lemma length_Base64_Encode: "length (Base64_Encode data) = (length data + 2) div 3 * 4"
  unfolding Base64_Encode_rfc4648 by (induction data rule: rfc4648.induct) (simp_all, presburger?)

section \<open>The tables are inverse to each other\<close>

definition legal :: "uint8 \<Rightarrow> bool" where
  "legal ch \<longleftrightarrow> DecodeTable ! unat ch < 64"

lemma DecodeTable_Base64Table_all: "list_all (\<lambda>i. DecodeTable ! unat (Base64Table ! i) = of_nat i) [0..<64]"
  by code_simp

lemma length_DecodeTable: "length DecodeTable = 256"
  by (simp add: DecodeTable_def)

lemma DecodeTable_all:
  "list_all2 (\<lambda>ch v.
     if v < 64 then Base64Table ! unat v = ch else if v = pd then ch = kPad else v = il \<or> v = sp)
   (map word_of_int [0..255]) DecodeTable"
  by code_simp

lemma DecodeTable_Base64Table [simp]:
  assumes "v < 64"
  shows "DecodeTable ! unat (b64_char v) = v"
proof -
  have "unat v < 64" using assms by (simp add: word_less_nat_alt)
  with DecodeTable_Base64Table_all have "DecodeTable ! unat (Base64Table ! unat v) = of_nat (unat v)"
    unfolding list_all_iff by simp
  then show ?thesis by simp
qed

lemma legal_b64_char [simp]: "v < 64 \<Longrightarrow> legal (b64_char v)"
  by (simp add: legal_def)

lemma DecodeTable_cases:
  "legal ch \<and> b64_char (DecodeTable ! unat ch) = ch \<or> DecodeTable ! unat ch = pd \<and> ch = kPad \<or>
   DecodeTable ! unat ch = il \<or> DecodeTable ! unat ch = sp"
proof -
  have u: "unat ch < 256" using unsigned_less [where ?'a = nat, of ch] by simp
  then have "[0..255] ! unat ch = int (unat ch)" by (subst nth_upto) linarith+
  with u have "map word_of_int [0..255] ! unat ch = ch" by simp
  with u DecodeTable_all show ?thesis
    by (auto simp: list_all2_conv_all_nth legal_def split: if_splits dest!: spec [of _ "unat ch"])
qed

lemma DecodeTable_kPad [simp]: "DecodeTable ! unat kPad = pd"
  by code_simp

lemma special_values [simp]: "pd \<noteq> il" "sp \<noteq> il" "sp \<noteq> pd" "pd \<noteq> sp" "\<not> pd < 64" "\<not> il < 64" "\<not> sp < 64"
  by (simp_all add: pd_def il_def sp_def)

lemma DecodeTable_pd: "DecodeTable ! unat ch = pd \<Longrightarrow> ch = kPad"
  using DecodeTable_cases [of ch] by (auto simp: legal_def)

section \<open>Reading a quantum\<close>

lemma quantum_loop_end: "q_byte_len q = 4 \<or> q_dpos q = length data \<Longrightarrow> quantum_loop f p data q = q"
  by (subst quantum_loop.simps) auto

lemma quantum_loop_legal:
  assumes "q_dpos q < length data" and "q_byte_len q < 4" and "legal (data ! q_dpos q)" and "q_pad_len q = 0"
  shows "quantum_loop f p data q = quantum_loop f p data
    (q\<lparr>q_dpos := q_dpos q + 1, q_buf := (q_buf q)[q_byte_len q := DecodeTable ! unat (data ! q_dpos q)],
       q_byte_len := q_byte_len q + 1\<rparr>)"
proof -
  let ?v = "DecodeTable ! unat (data ! q_dpos q)"
  have "?v \<noteq> il" "?v \<noteq> pd" "?v \<noteq> sp" using assms(3) by (auto simp: legal_def)
  with assms show ?thesis by (cases q, subst quantum_loop.simps) (simp add: quantum_step_def Let_def)
qed

lemma quantum_loop_pad:
  assumes "q_dpos q < length data" and "2 \<le> q_byte_len q" and "data ! q_dpos q = kPad" and "q_byte_len q + q_pad_len q < 4"
  shows "quantum_loop f False data q = quantum_loop f False data
    (q\<lparr>q_dpos := q_dpos q + 1, q_buf := (q_buf q)[q_byte_len q := pd], q_pad_len := q_pad_len q + 1,
       q_pad_start := (if q_pad_len q = 0 then q_dpos q else q_pad_start q)\<rparr>)"
  using assms by (cases q, subst quantum_loop.simps) (simp add: quantum_step_def Let_def)

lemma upt_0_4: "[0..<4] = [0, 1, 2, 3]"
  by (simp add: upt_rec)

lemma length_4E:
  assumes "length xs = 4" obtains a b c d where "xs = [a, b, c, d]"
  using assms by (auto simp: eval_nat_numeral length_Suc_conv)

lemma GetNextQuantum_4:
  assumes "length qbuf = 4" and "legal x\<^sub>0" "legal x\<^sub>1" "legal x\<^sub>2" "legal x\<^sub>3"
  shows "GetNextQuantum f p (pre @ x\<^sub>0 # x\<^sub>1 # x\<^sub>2 # x\<^sub>3 # rest) (length pre) qbuf
    = (4, map (\<lambda>x. DecodeTable ! unat x) [x\<^sub>0, x\<^sub>1, x\<^sub>2, x\<^sub>3], True, length pre + 4)"
proof -
  obtain a b c d where "qbuf = [a, b, c, d]" using length_4E [OF assms(1)] .
  with assms(2-) show ?thesis
    by (simp add: GetNextQuantum_def Let_def quantum_loop_legal quantum_loop_end nth_append upt_0_4)
qed

lemma GetNextQuantum_3:
  assumes "length qbuf = 4" and "legal x\<^sub>0" "legal x\<^sub>1" "legal x\<^sub>2"
  shows "GetNextQuantum f False (pre @ [x\<^sub>0, x\<^sub>1, x\<^sub>2, kPad]) (length pre) qbuf
    = (3, map (\<lambda>x. DecodeTable ! unat x) [x\<^sub>0, x\<^sub>1, x\<^sub>2] @ [0], True, length pre + 4)"
proof -
  obtain a b c d where "qbuf = [a, b, c, d]" using length_4E [OF assms(1)] .
  with assms(2-) show ?thesis
    by (simp add: GetNextQuantum_def Let_def quantum_loop_legal quantum_loop_pad quantum_loop_end nth_append upt_0_4)
qed

lemma GetNextQuantum_2:
  assumes "length qbuf = 4" and "legal x\<^sub>0" "legal x\<^sub>1"
  shows "GetNextQuantum f False (pre @ [x\<^sub>0, x\<^sub>1, kPad, kPad]) (length pre) qbuf
    = (2, map (\<lambda>x. DecodeTable ! unat x) [x\<^sub>0, x\<^sub>1] @ [0, 0], True, length pre + 4)"
proof -
  obtain a b c d where "qbuf = [a, b, c, d]" using length_4E [OF assms(1)] .
  with assms(2-) show ?thesis
    by (simp add: GetNextQuantum_def Let_def quantum_loop_legal quantum_loop_pad quantum_loop_end nth_append upt_0_4)
qed

section \<open>Decoding what was encoded\<close>

lemma less_64_iff: "v < 64 \<longleftrightarrow> \<not> bit v 6 \<and> \<not> bit (v :: uint8) 7"
proof -
  have "v < 64 \<longleftrightarrow> drop_bit 6 v = 0"
    unfolding word_less_nat_alt unat_eq_zero [symmetric, of "drop_bit 6 v"]
    by (simp add: drop_bit_eq_div unat_div div_eq_0_iff)
  also have "\<dots> \<longleftrightarrow> \<not> bit v 6 \<and> \<not> bit v 7"
    by (auto intro!: word8_eqI simp: bit_simps dest: arg_cong [of _ _ "\<lambda>w. bit w 0"] arg_cong [of _ _ "\<lambda>w. bit w 1"])
  finally show ?thesis .
qed

lemma encoded_values [simp]:
  fixes a b c :: uint8
  shows "drop_bit 2 a < 64" "push_bit 4 a AND 0x3f < 64" "(push_bit 4 a AND 0x3f) OR drop_bit 4 b < 64"
    "push_bit 2 b AND 0x3f < 64" "(push_bit 2 b AND 0x3f) OR drop_bit 6 c < 64" "c AND 0x3f < 64"
  by (simp_all add: less_64_iff bit_simps)

lemma decode_quantum_4:
  fixes a b c :: uint8
  shows "decode_quantum 4 [drop_bit 2 a, (push_bit 4 a AND 0x3f) OR drop_bit 4 b, (push_bit 2 b AND 0x3f) OR drop_bit 6 c, c AND 0x3f] r
    = (r @ [a, b, c], 0)"
  by (simp add: decode_quantum_def Let_def) (intro conjI; rule word8_eqI; simp add: bit_simps)

lemma decode_quantum_3:
  fixes a b :: uint8
  shows "decode_quantum 3 [drop_bit 2 a, (push_bit 4 a AND 0x3f) OR drop_bit 4 b, push_bit 2 b AND 0x3f, 0] r = (r @ [a, b], 0)"
  by (simp add: decode_quantum_def Let_def) (intro conjI; rule word8_eqI; simp add: bit_simps)

lemma decode_quantum_2:
  fixes a :: uint8
  shows "decode_quantum 2 [drop_bit 2 a, push_bit 4 a AND 0x3f, 0, 0] r = (r @ [a], 0)"
  by (simp add: decode_quantum_def Let_def) (rule word8_eqI; simp add: bit_simps)

lemma DecodeFromArray_loop_rfc4648:
  assumes "padf \<noteq> DO_PAD_NO" and "length qbuf = 4"
  shows "DecodeFromArray_loop f padf tf (pre @ rfc4648 data) (length pre) qbuf res
    = (True, res @ data, length pre + length (rfc4648 data))"
  using assms(2)
proof (induction data arbitrary: pre qbuf res rule: rfc4648.induct)
  case 1
  then show ?case by (subst DecodeFromArray_loop.simps) simp
next
  case (2 a)
  with assms(1) show ?case
    by (subst DecodeFromArray_loop.simps) (simp add: GetNextQuantum_2 decode_quantum_2)
next
  case (3 a b)
  with assms(1) show ?case
    by (subst DecodeFromArray_loop.simps) (simp add: GetNextQuantum_3 decode_quantum_3)
next
  case (4 a b c r)
  let ?q = "[b64_char (drop_bit 2 a), b64_char ((push_bit 4 a AND 0x3f) OR drop_bit 4 b),
      b64_char ((push_bit 2 b AND 0x3f) OR drop_bit 6 c), b64_char (c AND 0x3f)]"
  have IH: "DecodeFromArray_loop f padf tf (pre @ ?q @ rfc4648 r) (length pre + 4) v (res @ [a, b, c])
      = (True, res @ a # b # c # r, length pre + 4 + length (rfc4648 r))" if "length v = 4" for v
    using "4.IH" [OF that, of "pre @ ?q" "res @ [a, b, c]"] by (simp add: numeral_eq_Suc)
  from "4.prems" show ?case
    by (subst DecodeFromArray_loop.simps) (simp add: GetNextQuantum_4 decode_quantum_4 IH [simplified])
qed

section \<open>Strict decoding\<close>

text \<open>What strict parsing has read: \<open>q_byte_len\<close> legal characters and then \<open>q_pad_len\<close> pads.\<close>

definition strict_inv :: "bytes \<Rightarrow> nat \<Rightarrow> Quantum \<Rightarrow> bool" where
  "strict_inv data start q \<longleftrightarrow>
     q_dpos q = start + q_byte_len q + q_pad_len q \<and> q_dpos q \<le> length data \<and> q_byte_len q + q_pad_len q \<le> 4 \<and>
     length (q_buf q) = 4 \<and> (q_byte_len q < 2 \<longrightarrow> q_pad_len q = 0) \<and>
     (\<forall>i<q_byte_len q. legal (data ! (start + i)) \<and> q_buf q ! i = DecodeTable ! unat (data ! (start + i))) \<and>
     (\<forall>i<q_pad_len q. data ! (start + q_byte_len q + i) = kPad)"

lemma strict_inv_step:
  assumes "strict_inv data start q" and "q_dpos q < length data" and "q_byte_len q < 4"
    and "quantum_step DO_PARSE_STRICT False (data ! q_dpos q) q = (continue, q')"
  shows "strict_inv data start (if continue then q'\<lparr>q_dpos := q_dpos q' + 1\<rparr> else q')"
  using assms DecodeTable_cases [of "data ! q_dpos q"] DecodeTable_pd [of "data ! q_dpos q"]
  by (auto simp: strict_inv_def quantum_step_def Let_def DO_PARSE_STRICT_def DO_PARSE_ANY_def nth_list_update less_Suc_eq
      split: if_splits)

lemma strict_inv_loop: "strict_inv data start q \<Longrightarrow> strict_inv data start (quantum_loop DO_PARSE_STRICT False data q)"
proof (induction DO_PARSE_STRICT False data q rule: quantum_loop.induct)
  case (1 data q)
  show ?case
  proof (cases "q_byte_len q < 4 \<and> q_dpos q < length data")
    case True
    obtain c q\<^sub>1 where st: "quantum_step DO_PARSE_STRICT False (data ! q_dpos q) q = (c, q\<^sub>1)" by fastforce
    have "quantum_loop DO_PARSE_STRICT False data q
        = (if c then quantum_loop DO_PARSE_STRICT False data (q\<^sub>1\<lparr>q_dpos := q_dpos q\<^sub>1 + 1\<rparr>) else q\<^sub>1)"
      using True st by (subst quantum_loop.simps) simp
    with strict_inv_step [OF "1.prems" _ _ st] True "1.hyps" [OF True st [symmetric]]
    show ?thesis by (cases c) auto
  next
    case False
    then have "quantum_loop DO_PARSE_STRICT False data q = q" by (subst quantum_loop.simps) auto
    then show ?thesis using "1.prems" by simp
  qed
qed

lemma GetNextQuantum_strict:
  assumes "GetNextQuantum DO_PARSE_STRICT False data dpos qbuf = (qlen, qbuf', padded, dpos')"
    and "length qbuf = 4" and "dpos \<le> length data" and "padded \<or> \<not> qlen < 4"
  shows "qlen \<in> {2, 3, 4} \<and> dpos' = dpos + 4 \<and> dpos' \<le> length data \<and>
    qbuf' = map (\<lambda>x. DecodeTable ! unat x) (take qlen (drop dpos data)) @ replicate (4 - qlen) 0 \<and>
    list_all legal (take qlen (drop dpos data)) \<and>
    take 4 (drop dpos data) = take qlen (drop dpos data) @ replicate (4 - qlen) kPad"
proof -
  define q where "q = quantum_loop DO_PARSE_STRICT False data
    \<lparr>q_dpos = dpos, q_buf = qbuf, q_byte_len = 0, q_pad_len = 0, q_pad_start = 0\<rparr>"
  have inv: "strict_inv data dpos q"
    unfolding q_def by (rule strict_inv_loop) (use assms(2,3) in \<open>simp add: strict_inv_def\<close>)
  have 1: "qlen = q_byte_len q" "qbuf' = map (\<lambda>i. if i < qlen then q_buf q ! i else 0) [0..<4]"
      "qlen + q_pad_len q = 4" "dpos' = q_dpos q"
    using assms(1,4) inv unfolding GetNextQuantum_def Let_def q_def [symmetric] by (auto simp: strict_inv_def)
  then have 2: "qlen \<in> {2, 3, 4}" "dpos' = dpos + 4" "dpos' \<le> length data"
    using inv by (auto simp: strict_inv_def)
  have "data ! (dpos + i) = kPad" if "\<not> i < qlen" "i < 4" for i
    using inv 1 that by (auto simp: strict_inv_def dest!: spec [of _ "i - q_byte_len q"])
  with 2 have 3: "qbuf' = map (\<lambda>x. DecodeTable ! unat x) (take qlen (drop dpos data)) @ replicate (4 - qlen) 0"
      "take 4 (drop dpos data) = take qlen (drop dpos data) @ replicate (4 - qlen) kPad"
    using 1 inv by (auto intro!: nth_equalityI simp: strict_inv_def nth_append)
  have "list_all legal (take qlen (drop dpos data))"
    using 1 2 inv by (auto simp: strict_inv_def list_all_length)
  with 2 3 show ?thesis by simp
qed

lemma encode_decoded_4:
  fixes v\<^sub>0 v\<^sub>1 v\<^sub>2 v\<^sub>3 :: uint8
  assumes "v\<^sub>0 < 64" "v\<^sub>1 < 64" "v\<^sub>2 < 64" "v\<^sub>3 < 64"
  obtains a b c where "decode_quantum 4 [v\<^sub>0, v\<^sub>1, v\<^sub>2, v\<^sub>3] r = (r @ [a, b, c], 0)"
    "drop_bit 2 a = v\<^sub>0" "(push_bit 4 a AND 0x3f) OR drop_bit 4 b = v\<^sub>1"
    "(push_bit 2 b AND 0x3f) OR drop_bit 6 c = v\<^sub>2" "c AND 0x3f = v\<^sub>3"
proof
  let ?a = "push_bit 2 v\<^sub>0 OR (drop_bit 4 v\<^sub>1 AND 0x3)" and ?b = "(push_bit 4 v\<^sub>1 AND 0xf0) OR (drop_bit 2 v\<^sub>2 AND 0xf)"
    and ?c = "(push_bit 6 v\<^sub>2 AND 0xc0) OR v\<^sub>3"
  show "decode_quantum 4 [v\<^sub>0, v\<^sub>1, v\<^sub>2, v\<^sub>3] r = (r @ [?a, ?b, ?c], 0)" by (simp add: decode_quantum_def Let_def)
  show "drop_bit 2 ?a = v\<^sub>0" "(push_bit 4 ?a AND 0x3f) OR drop_bit 4 ?b = v\<^sub>1"
      "(push_bit 2 ?b AND 0x3f) OR drop_bit 6 ?c = v\<^sub>2" "?c AND 0x3f = v\<^sub>3"
    using assms by (simp_all add: less_64_iff) (rule word8_eqI; simp add: bit_simps)+
qed

lemma encode_decoded_3:
  fixes v\<^sub>0 v\<^sub>1 v\<^sub>2 :: uint8
  assumes "v\<^sub>0 < 64" "v\<^sub>1 < 64" "v\<^sub>2 < 64" and "decode_quantum 3 [v\<^sub>0, v\<^sub>1, v\<^sub>2, 0] r = (r', 0)"
  obtains a b where "r' = r @ [a, b]" "drop_bit 2 a = v\<^sub>0" "(push_bit 4 a AND 0x3f) OR drop_bit 4 b = v\<^sub>1" "push_bit 2 b AND 0x3f = v\<^sub>2"
proof
  let ?a = "push_bit 2 v\<^sub>0 OR (drop_bit 4 v\<^sub>1 AND 0x3)" and ?b = "(push_bit 4 v\<^sub>1 AND 0xf0) OR (drop_bit 2 v\<^sub>2 AND 0xf)"
  from assms(4) show "r' = r @ [?a, ?b]" by (simp add: decode_quantum_def Let_def)
  from assms(4) have "push_bit 6 v\<^sub>2 AND 0xc0 = 0" by (simp add: decode_quantum_def Let_def)
  then have "\<not> bit (push_bit 6 v\<^sub>2 AND 0xc0) 6" "\<not> bit (push_bit 6 v\<^sub>2 AND 0xc0) 7" by simp_all
  then have "\<not> bit v\<^sub>2 0" "\<not> bit v\<^sub>2 1" by (simp_all add: bit_simps)
  with assms show "drop_bit 2 ?a = v\<^sub>0" "(push_bit 4 ?a AND 0x3f) OR drop_bit 4 ?b = v\<^sub>1" "push_bit 2 ?b AND 0x3f = v\<^sub>2"
    by (simp_all add: less_64_iff) (rule word8_eqI; simp add: bit_simps)+
qed

lemma encode_decoded_2:
  fixes v\<^sub>0 v\<^sub>1 :: uint8
  assumes "v\<^sub>0 < 64" "v\<^sub>1 < 64" and "decode_quantum 2 [v\<^sub>0, v\<^sub>1, 0, 0] r = (r', 0)"
  obtains a where "r' = r @ [a]" "drop_bit 2 a = v\<^sub>0" "push_bit 4 a AND 0x3f = v\<^sub>1"
proof
  let ?a = "push_bit 2 v\<^sub>0 OR (drop_bit 4 v\<^sub>1 AND 0x3)"
  from assms(3) show "r' = r @ [?a]" by (simp add: decode_quantum_def Let_def)
  from assms(3) have "push_bit 4 v\<^sub>1 AND 0xf0 = 0" by (simp add: decode_quantum_def Let_def)
  then have "\<not> bit (push_bit 4 v\<^sub>1 AND 0xf0) 4" "\<not> bit (push_bit 4 v\<^sub>1 AND 0xf0) 5" "\<not> bit (push_bit 4 v\<^sub>1 AND 0xf0) 6"
    "\<not> bit (push_bit 4 v\<^sub>1 AND 0xf0) 7" by simp_all
  then have "\<not> bit v\<^sub>1 0" "\<not> bit v\<^sub>1 1" "\<not> bit v\<^sub>1 2" "\<not> bit v\<^sub>1 3" by (simp_all add: bit_simps)
  with assms show "drop_bit 2 ?a = v\<^sub>0" "push_bit 4 ?a AND 0x3f = v\<^sub>1"
    by (simp_all add: less_64_iff) (rule word8_eqI; simp add: bit_simps)+
qed

lemma legal_values: "legal x \<Longrightarrow> DecodeTable ! unat x < 64" "legal x \<Longrightarrow> b64_char (DecodeTable ! unat x) = x"
  using DecodeTable_cases [of x] by (auto simp: legal_def)

lemma replicate_2: "replicate 2 x = [x, x]"
  by (simp add: numeral_eq_Suc)

text \<open>The last quantum: what is left is the text of the bytes it adds.\<close>

lemma strict_last_quantum:
  assumes "qlen = 2 \<or> qlen = 3" and "length rest = 4" and "list_all legal (take qlen rest)"
    and "rest = take qlen rest @ replicate (4 - qlen) kPad"
    and "decode_quantum qlen (map (\<lambda>x. DecodeTable ! unat x) (take qlen rest) @ replicate (4 - qlen) 0) res = (res', 0)"
  shows "\<exists>d. res' = res @ d \<and> rfc4648 d = rest"
proof -
  obtain w x y z where rest: "rest = [w, x, y, z]" using length_4E [OF assms(2)] .
  from assms(1) show ?thesis
  proof
    assume 2: "qlen = 2"
    have l: "legal w" "legal x" "y = kPad" "z = kPad" using assms(3,4) [unfolded 2 rest] by (simp_all add: replicate_2)
    have "decode_quantum 2 [DecodeTable ! unat w, DecodeTable ! unat x, 0, 0] res = (res', 0)"
      using assms(5) 2 rest by (simp add: replicate_2)
    then obtain a where "res' = res @ [a]" "drop_bit 2 a = DecodeTable ! unat w" "push_bit 4 a AND 0x3f = DecodeTable ! unat x"
      by (rule encode_decoded_2 [OF legal_values(1) [OF l(1)] legal_values(1) [OF l(2)]])
    with l rest have "res' = res @ [a] \<and> rfc4648 [a] = rest" by (simp add: legal_values)
    then show ?thesis ..
  next
    assume 3: "qlen = 3"
    have l: "legal w" "legal x" "legal y" "z = kPad" using assms(3,4) [unfolded 3 rest] by simp_all
    have "decode_quantum 3 [DecodeTable ! unat w, DecodeTable ! unat x, DecodeTable ! unat y, 0] res = (res', 0)"
      using assms(5) 3 rest by simp
    then obtain a b where "res' = res @ [a, b]" "drop_bit 2 a = DecodeTable ! unat w"
        "(push_bit 4 a AND 0x3f) OR drop_bit 4 b = DecodeTable ! unat x" "push_bit 2 b AND 0x3f = DecodeTable ! unat y"
      by (rule encode_decoded_3 [OF legal_values(1) [OF l(1)] legal_values(1) [OF l(2)] legal_values(1) [OF l(3)]])
    with l rest have "res' = res @ [a, b] \<and> rfc4648 [a, b] = rest" by (simp add: legal_values)
    then show ?thesis ..
  qed
qed

lemma DecodeFromArray_loop_strict:
  assumes "DecodeFromArray_loop DO_PARSE_STRICT DO_PAD_YES DO_TERM_BUFFER (pre @ rest) (length pre) qbuf res = (True, res', n)"
    and "n = length (pre @ rest)" and "length qbuf = 4"
  shows "\<exists>d. res' = res @ d \<and> rfc4648 d = rest"
  using assms
proof (induction rest arbitrary: pre qbuf res rule: measure_induct_rule [of length])
  case (less rest)
  let ?data = "pre @ rest"
  obtain qlen qbuf' padded dpos' where q: "GetNextQuantum DO_PARSE_STRICT False ?data (length pre) qbuf = (qlen, qbuf', padded, dpos')"
    by (metis prod_cases4)
  obtain res\<^sub>1 c where d: "decode_quantum qlen qbuf' res = (res\<^sub>1, c)" by fastforce
  note eq = less.prems(1) [unfolded DecodeFromArray_loop.simps [of DO_PARSE_STRICT DO_PAD_YES DO_TERM_BUFFER ?data "length pre" qbuf res]]
  have flags: "DO_PAD_YES \<noteq> DO_PAD_NO" "DO_TERM_BUFFER \<noteq> DO_TERM_ANY"
    by (simp_all add: DO_PAD_YES_def DO_PAD_NO_def DO_TERM_BUFFER_def DO_TERM_ANY_def)
  note st = GetNextQuantum_strict [OF q less.prems(3), simplified]
  consider "rest = []" | "rest \<noteq> []" "qlen < 4" | "rest \<noteq> []" "\<not> qlen < 4" by blast
  then show ?case
  proof cases
    case 1
    with eq show ?thesis by simp
  next
    case 2
    with eq q d flags have e: "c = 0" "padded" "res' = res\<^sub>1" "n = dpos'" by auto
    from st e have qlen: "qlen \<in> {2, 3, 4}" and dpos': "dpos' = length pre + 4" by simp_all
    with e 2 less.prems(2) have len: "length rest = 4" and qlen: "qlen = 2 \<or> qlen = 3" by auto
    from st e have "list_all legal (take qlen rest)" "take 4 rest = take qlen rest @ replicate (4 - qlen) kPad"
      and qbuf': "qbuf' = map (\<lambda>x. DecodeTable ! unat x) (take qlen rest) @ replicate (4 - qlen) 0" by simp_all
    with len have rest: "list_all legal (take qlen rest)" "rest = take qlen rest @ replicate (4 - qlen) kPad" by (simp_all only: take_all order_refl)
    show ?thesis unfolding \<open>res' = res\<^sub>1\<close>
      by (rule strict_last_quantum [OF qlen len rest]) (use d e(1) qbuf' in simp)
  next
    case 3
    from st [OF disjI2 [OF 3(2)]] have "qlen \<in> {2, 3, 4}" and dpos': "dpos' = length pre + 4" "dpos' \<le> length ?data"
      and st': "list_all legal (take qlen rest)" "qbuf' = map (\<lambda>x. DecodeTable ! unat x) (take qlen rest) @ replicate (4 - qlen) 0"
      by (auto simp only: length_append)
    with 3 have 4: "qlen = 4" "4 \<le> length rest" by auto
    have "length (take 4 rest) = 4" using 4 by simp
    then obtain w x y z where wxyz: "take 4 rest = [w, x, y, z]" by (rule length_4E)
    define rest' where "rest' = drop 4 rest"
    have rest: "rest = w # x # y # z # rest'"
      using append_take_drop_id [of 4 rest] unfolding wxyz rest'_def [symmetric] by simp
    from st' have l: "legal w" "legal x" "legal y" "legal z" "qbuf' = map (\<lambda>x. DecodeTable ! unat x) [w, x, y, z]"
      unfolding 4 wxyz by simp_all
    obtain a b c' where abc: "decode_quantum 4 qbuf' res = (res @ [a, b, c'], 0)"
        "drop_bit 2 a = DecodeTable ! unat w" "(push_bit 4 a AND 0x3f) OR drop_bit 4 b = DecodeTable ! unat x"
        "(push_bit 2 b AND 0x3f) OR drop_bit 6 c' = DecodeTable ! unat y" "c' AND 0x3f = DecodeTable ! unat z"
      unfolding l(5) list.map by (rule encode_decoded_4 [OF l(1-4) [THEN legal_values(1)]])
    have "DecodeFromArray_loop DO_PARSE_STRICT DO_PAD_YES DO_TERM_BUFFER ((pre @ [w, x, y, z]) @ rest') (length (pre @ [w, x, y, z])) qbuf'
        (res @ [a, b, c']) = (True, res', n)"
      using eq q flags 3 abc 4(1) dpos'(1) rest by (simp add: numeral_eq_Suc)
    from less.IH [OF _ this] less.prems(2) rest l(5) obtain d where "res' = (res @ [a, b, c']) @ d" "rfc4648 d = rest'" by auto
    with abc l rest have "res' = res @ (a # b # c' # d) \<and> rfc4648 (a # b # c' # d) = rest" by (simp add: legal_values)
    then show ?thesis ..
  qed
qed

lemma DO_STRICT_parts:
  "DO_STRICT AND DO_PARSE_MASK = DO_PARSE_STRICT" "DO_STRICT AND DO_PAD_MASK = DO_PAD_YES"
  "DO_STRICT AND DO_TERM_MASK = DO_TERM_BUFFER" "\<not> DO_STRICT > (DO_PARSE_MASK OR DO_PAD_MASK OR DO_TERM_MASK)"
  "DO_PARSE_STRICT \<noteq> 0" "DO_PAD_YES \<noteq> 0" "DO_TERM_BUFFER \<noteq> 0" "DO_PAD_YES \<noteq> DO_PAD_NO"
  by code_simp+

text \<open>Every combination of options that does not forbid padding accepts what the encoder wrote.\<close>

lemma Base64_Decode_Encode:
  assumes "flags \<le> DO_PARSE_MASK OR DO_PAD_MASK OR DO_TERM_MASK" and "flags AND DO_PARSE_MASK \<noteq> 0"
    and "flags AND DO_PAD_MASK \<noteq> 0" and "flags AND DO_TERM_MASK \<noteq> 0" and "flags AND DO_PAD_MASK \<noteq> DO_PAD_NO"
  shows "Base64_Decode (Base64_Encode data) flags = Some (True, data, length (Base64_Encode data))"
  using assms DecodeFromArray_loop_rfc4648 [OF assms(5), of "replicate 4 0" _ _ "[]" data "[]"]
  by (simp add: Base64_Decode_def DecodeFromArray_def Base64_Encode_rfc4648)

text \<open>C16: strict decoding is the exact inverse of encoding. It accepts a string with a result if and
  only if the string is the encoding of the result, and then it has used all of the string.\<close>

theorem base64_strict_inverse:
  "Base64_Decode s DO_STRICT = Some (True, data, used) \<longleftrightarrow> s = Base64_Encode data \<and> used = length s"
proof
  assume "Base64_Decode s DO_STRICT = Some (True, data, used)"
  then have "DecodeFromArray_loop DO_PARSE_STRICT DO_PAD_YES DO_TERM_BUFFER s 0 (replicate 4 0) [] = (True, data, used)"
      and used: "used = length s"
    by (auto simp: Base64_Decode_def DecodeFromArray_def DO_STRICT_parts Let_def split: prod.splits)
  then have "rfc4648 data = s" using DecodeFromArray_loop_strict [of "[]" s "replicate 4 0" "[]" data used] by auto
  with used show "s = Base64_Encode data \<and> used = length s" by (simp add: Base64_Encode_rfc4648)
next
  assume "s = Base64_Encode data \<and> used = length s"
  then show "Base64_Decode s DO_STRICT = Some (True, data, used)"
    using Base64_Decode_Encode [of DO_STRICT data] DO_STRICT_parts by (simp add: not_less)
qed

end
