(* ===== verification/Srtp_Filter.thy ===== *)
theory Srtp_Filter
  imports Base64 Demux_Filter Time_Utils
begin

text \<open>
  \<^verbatim>\<open>talk/session/media/srtpfilter.{h,cc}\<close>: the negotiation of media encryption (SDES offers and
  answers, or keys from DTLS), the sessions that wrap a context of libsrtp, and the statistics that
  report errors.

  libsrtp is not part of the sources. It is the parameter \<open>lib\<close>: the results of its initialisation
  functions, how it creates a context from a policy, and what its four packet functions do to a
  context and a buffer. A context is a value of an arbitrary type \<open>'ctx\<close>.

  The static flag \<^verbatim>\<open>inited_\<close> is passed through the calls (\<open>inited\<close>), and \<open>now\<close> is the current time.
  Signals are recorded in the statistics that emit them. The list of all sessions and the last
  sequence number, which only serve log messages, and the external authentication, which is not
  compiled in, are left out. A failed \<^verbatim>\<open>ASSERT\<close> is \<open>None\<close>.
\<close>

section \<open>The library\<close>

datatype err_status = err_status_ok | err_status_auth_fail | err_status_replay_fail | err_status_replay_old | err_status_other nat

datatype crypto_policy = aes_cm_128_hmac_sha1_80 | aes_cm_128_hmac_sha1_32

datatype ssrc_type = ssrc_any_inbound | ssrc_any_outbound

record srtp_policy =
  pol_rtp :: crypto_policy
  pol_rtcp :: crypto_policy
  pol_ssrc_type :: ssrc_type
  pol_ssrc_value :: uint32
  pol_key :: bytes
  pol_window_size :: nat
  pol_allow_repeat_tx :: bool

text \<open>A packet function takes a context, the buffer and the length of the packet in it.\<close>

type_synonym 'ctx packet_fun = "'ctx \<Rightarrow> bytes \<Rightarrow> int \<Rightarrow> err_status \<times> 'ctx \<times> bytes \<times> int"

record 'ctx Libsrtp =
  lib_init :: err_status
  lib_install_event_handler :: err_status
  lib_shutdown :: err_status
  lib_create :: "srtp_policy \<Rightarrow> err_status \<times> 'ctx option"
  lib_auth_tag_len :: "crypto_policy \<Rightarrow> int"
  lib_protect :: "'ctx packet_fun"
  lib_unprotect :: "'ctx packet_fun"
  lib_protect_rtcp :: "'ctx packet_fun"
  lib_unprotect_rtcp :: "'ctx packet_fun"
  lib_send_index :: "'ctx \<Rightarrow> bytes \<Rightarrow> uint64 option"

section \<open>Statistics\<close>

datatype Mode = PROTECT | UNPROTECT

datatype Error = ERROR_NONE | ERROR_FAIL | ERROR_AUTH | ERROR_REPLAY

type_synonym FailureKey = "uint32 \<times> Mode \<times> Error"

record SrtpStat =
  failures :: "FailureKey \<rightharpoonup> uint32"
  stat_silent_time :: uint32
  SignalSrtpError :: "FailureKey list"

definition SrtpStat_new :: SrtpStat where
  "SrtpStat_new = \<lparr>failures = Map.empty, stat_silent_time = 1000, SignalSrtpError = []\<rparr>"

definition HandleSrtpResult :: "uint32 \<Rightarrow> FailureKey \<Rightarrow> SrtpStat \<Rightarrow> SrtpStat" where
  "HandleSrtpResult now key st =
     (if snd (snd key) \<noteq> ERROR_NONE then
        let last_signal_time = (case failures st key of None \<Rightarrow> 0 | Some t \<Rightarrow> t) in
        if last_signal_time = 0 \<or> TimeDiff now last_signal_time > sint (stat_silent_time st)
        then st\<lparr>SignalSrtpError := SignalSrtpError st @ [key], failures := (failures st)(key \<mapsto> now)\<rparr>
        else st
      else st)"

definition AddProtectRtpResult :: "uint32 \<Rightarrow> uint32 \<Rightarrow> err_status \<Rightarrow> SrtpStat \<Rightarrow> SrtpStat" where
  "AddProtectRtpResult now s result st =
     HandleSrtpResult now (s, PROTECT,
       (case result of
          err_status_ok \<Rightarrow> ERROR_NONE
        | err_status_auth_fail \<Rightarrow> ERROR_AUTH
        | _ \<Rightarrow> ERROR_FAIL)) st"

definition AddUnprotectRtpResult :: "uint32 \<Rightarrow> uint32 \<Rightarrow> err_status \<Rightarrow> SrtpStat \<Rightarrow> SrtpStat" where
  "AddUnprotectRtpResult now s result st =
     HandleSrtpResult now (s, UNPROTECT,
       (case result of
          err_status_ok \<Rightarrow> ERROR_NONE
        | err_status_auth_fail \<Rightarrow> ERROR_AUTH
        | err_status_replay_fail \<Rightarrow> ERROR_REPLAY
        | err_status_replay_old \<Rightarrow> ERROR_REPLAY
        | _ \<Rightarrow> ERROR_FAIL)) st"

definition AddProtectRtcpResult :: "uint32 \<Rightarrow> err_status \<Rightarrow> SrtpStat \<Rightarrow> SrtpStat" where
  "AddProtectRtcpResult now result st = AddProtectRtpResult now 0 result st"

definition AddUnprotectRtcpResult :: "uint32 \<Rightarrow> err_status \<Rightarrow> SrtpStat \<Rightarrow> SrtpStat" where
  "AddUnprotectRtcpResult now result st = AddUnprotectRtpResult now 0 result st"

text \<open>An error that has been signalled is silent until the time has passed; other errors are not affected.\<close>

lemma HandleSrtpResult_silent:
  assumes "SignalSrtpError (HandleSrtpResult now key st) = SignalSrtpError st @ [key]" and "now \<noteq> 0"
    and "TimeDiff later now \<le> sint (stat_silent_time st)"
  shows "HandleSrtpResult later key (HandleSrtpResult now key st) = HandleSrtpResult now key st"
  using assms by (auto simp: HandleSrtpResult_def Let_def split: if_splits)

lemma HandleSrtpResult_other: "key' \<noteq> key \<Longrightarrow> failures (HandleSrtpResult now key st) key' = failures st key'"
  by (simp add: HandleSrtpResult_def Let_def)

section \<open>Sessions\<close>

definition CS_AES_CM_128_HMAC_SHA1_80 :: bytes where
  "CS_AES_CM_128_HMAC_SHA1_80 = ascii ''AES_CM_128_HMAC_SHA1_80''"

definition CS_AES_CM_128_HMAC_SHA1_32 :: bytes where
  "CS_AES_CM_128_HMAC_SHA1_32 = ascii ''AES_CM_128_HMAC_SHA1_32''"

definition SRTP_MASTER_KEY_LEN :: nat where "SRTP_MASTER_KEY_LEN = 30"

record 'ctx SrtpSession =
  session_ctx :: "'ctx option"
  rtp_auth_tag_len :: int
  rtcp_auth_tag_len :: int
  srtp_stat :: SrtpStat

definition SrtpSession_new :: "'ctx SrtpSession" where
  "SrtpSession_new = \<lparr>session_ctx = None, rtp_auth_tag_len = 0, rtcp_auth_tag_len = 0, srtp_stat = SrtpStat_new\<rparr>"

definition SrtpSession_Init :: "'ctx Libsrtp \<Rightarrow> bool \<Rightarrow> bool \<times> bool" where
  "SrtpSession_Init lib inited =
     (if \<not> inited then
        if lib_init lib \<noteq> err_status_ok then (False, inited)
        else if lib_install_event_handler lib \<noteq> err_status_ok then (False, inited)
        else (True, True)
      else (True, inited))"

definition SrtpSession_Terminate :: "'ctx Libsrtp \<Rightarrow> bool \<Rightarrow> bool" where
  "SrtpSession_Terminate lib inited =
     (if inited then (if lib_shutdown lib \<noteq> err_status_ok then inited else False) else inited)"

definition SetKey :: "'ctx Libsrtp \<Rightarrow> ssrc_type \<Rightarrow> bytes \<Rightarrow> bytes \<Rightarrow> bool \<Rightarrow> 'ctx SrtpSession
    \<Rightarrow> bool \<times> bool \<times> 'ctx SrtpSession" where
  "SetKey lib type cs key inited s =
     (if session_ctx s \<noteq> None then (False, inited, s)
      else case SrtpSession_Init lib inited of (ok, inited) \<Rightarrow>
        if \<not> ok then (False, inited, s)
        else
          let policies =
            (if cs = CS_AES_CM_128_HMAC_SHA1_80 then Some (aes_cm_128_hmac_sha1_80, aes_cm_128_hmac_sha1_80)
             else if cs = CS_AES_CM_128_HMAC_SHA1_32 then Some (aes_cm_128_hmac_sha1_32, aes_cm_128_hmac_sha1_80)
             else None)
          in case policies of
               None \<Rightarrow> (False, inited, s)
             | Some (rtp, rtcp) \<Rightarrow>
                 if length key \<noteq> SRTP_MASTER_KEY_LEN then (False, inited, s)
                 else
                   let policy = \<lparr>pol_rtp = rtp, pol_rtcp = rtcp, pol_ssrc_type = type, pol_ssrc_value = 0, pol_key = key,
                                 pol_window_size = 1024, pol_allow_repeat_tx = True\<rparr>
                   in case lib_create lib policy of (err, ctx) \<Rightarrow>
                        let s = s\<lparr>session_ctx := ctx\<rparr> in
                        if err \<noteq> err_status_ok then (False, inited, s)
                        else (True, inited, s\<lparr>rtp_auth_tag_len := lib_auth_tag_len lib rtp,
                                              rtcp_auth_tag_len := lib_auth_tag_len lib rtcp\<rparr>))"

definition SetSend :: "'ctx Libsrtp \<Rightarrow> bytes \<Rightarrow> bytes \<Rightarrow> bool \<Rightarrow> 'ctx SrtpSession \<Rightarrow> bool \<times> bool \<times> 'ctx SrtpSession" where
  "SetSend lib cs key inited s = SetKey lib ssrc_any_outbound cs key inited s"

definition SetRecv :: "'ctx Libsrtp \<Rightarrow> bytes \<Rightarrow> bytes \<Rightarrow> bool \<Rightarrow> 'ctx SrtpSession \<Rightarrow> bool \<times> bool \<times> 'ctx SrtpSession" where
  "SetRecv lib cs key inited s = SetKey lib ssrc_any_inbound cs key inited s"

text \<open>
  The packet functions return success, the buffer, the length of the packet in it, and the session.
  Where they fail before the library is called the length, which the source leaves unset, is \<open>in_len\<close>.
\<close>

type_synonym 'ctx packet_result = "bool \<times> bytes \<times> int \<times> 'ctx SrtpSession"

definition Session_ProtectRtp :: "'ctx Libsrtp \<Rightarrow> uint32 \<Rightarrow> bytes \<Rightarrow> int \<Rightarrow> int \<Rightarrow> 'ctx SrtpSession \<Rightarrow> 'ctx packet_result" where
  "Session_ProtectRtp lib now p in_len max_len s =
     (case session_ctx s of
        None \<Rightarrow> (False, p, in_len, s)
      | Some ctx \<Rightarrow>
          let need_len = in_len + rtp_auth_tag_len s in
          if max_len < need_len then (False, p, in_len, s)
          else case lib_protect lib ctx p in_len of (err, ctx, p, out_len) \<Rightarrow>
            let st = (case GetRtpSsrc (take (nat in_len) p) of
                        Some r \<Rightarrow> AddProtectRtpResult now r err (srtp_stat s) | None \<Rightarrow> srtp_stat s)
            in (err = err_status_ok, p, out_len, s\<lparr>session_ctx := Some ctx, srtp_stat := st\<rparr>))"

definition Session_ProtectRtcp :: "'ctx Libsrtp \<Rightarrow> uint32 \<Rightarrow> bytes \<Rightarrow> int \<Rightarrow> int \<Rightarrow> 'ctx SrtpSession \<Rightarrow> 'ctx packet_result" where
  "Session_ProtectRtcp lib now p in_len max_len s =
     (case session_ctx s of
        None \<Rightarrow> (False, p, in_len, s)
      | Some ctx \<Rightarrow>
          let need_len = in_len + 4 + rtcp_auth_tag_len s in
          if max_len < need_len then (False, p, in_len, s)
          else case lib_protect_rtcp lib ctx p in_len of (err, ctx, p, out_len) \<Rightarrow>
            (err = err_status_ok, p, out_len,
             s\<lparr>session_ctx := Some ctx, srtp_stat := AddProtectRtcpResult now err (srtp_stat s)\<rparr>))"

definition Session_UnprotectRtp :: "'ctx Libsrtp \<Rightarrow> uint32 \<Rightarrow> bytes \<Rightarrow> int \<Rightarrow> 'ctx SrtpSession \<Rightarrow> 'ctx packet_result" where
  "Session_UnprotectRtp lib now p in_len s =
     (case session_ctx s of
        None \<Rightarrow> (False, p, in_len, s)
      | Some ctx \<Rightarrow>
          (case lib_unprotect lib ctx p in_len of (err, ctx, p, out_len) \<Rightarrow>
            let st = (case GetRtpSsrc (take (nat in_len) p) of
                        Some r \<Rightarrow> AddUnprotectRtpResult now r err (srtp_stat s) | None \<Rightarrow> srtp_stat s)
            in (err = err_status_ok, p, out_len, s\<lparr>session_ctx := Some ctx, srtp_stat := st\<rparr>)))"

definition Session_UnprotectRtcp :: "'ctx Libsrtp \<Rightarrow> uint32 \<Rightarrow> bytes \<Rightarrow> int \<Rightarrow> 'ctx SrtpSession \<Rightarrow> 'ctx packet_result" where
  "Session_UnprotectRtcp lib now p in_len s =
     (case session_ctx s of
        None \<Rightarrow> (False, p, in_len, s)
      | Some ctx \<Rightarrow>
          (case lib_unprotect_rtcp lib ctx p in_len of (err, ctx, p, out_len) \<Rightarrow>
            (err = err_status_ok, p, out_len,
             s\<lparr>session_ctx := Some ctx, srtp_stat := AddUnprotectRtcpResult now err (srtp_stat s)\<rparr>)))"

text \<open>
  The packet index of the stream of a packet, which \<open>lib_send_index\<close> reads from the library,
  shifted and in network byte order, on a host of byte order \<open>h\<close>.
\<close>

definition GetSendStreamPacketIndex :: "'ctx Libsrtp \<Rightarrow> bool \<Rightarrow> bytes \<Rightarrow> 'ctx SrtpSession \<Rightarrow> uint64 option" where
  "GetSendStreamPacketIndex lib h p s =
     (case session_ctx s of
        None \<Rightarrow> None
      | Some ctx \<Rightarrow> (case lib_send_index lib ctx p of None \<Rightarrow> None | Some i \<Rightarrow> Some (NetworkToHost64 h (push_bit 16 i))))"

definition Session_ProtectRtp_index :: "'ctx Libsrtp \<Rightarrow> bool \<Rightarrow> uint32 \<Rightarrow> bytes \<Rightarrow> int \<Rightarrow> int \<Rightarrow> 'ctx SrtpSession
    \<Rightarrow> 'ctx packet_result \<times> uint64 option" where
  "Session_ProtectRtp_index lib h now p in_len max_len s =
     (case Session_ProtectRtp lib now p in_len max_len s of (ok, p, out_len, s) \<Rightarrow>
        if \<not> ok then ((False, p, out_len, s), None)
        else case GetSendStreamPacketIndex lib h p s of
          None \<Rightarrow> ((False, p, out_len, s), None)
        | Some i \<Rightarrow> ((True, p, out_len, s), Some i))"

definition Session_set_signal_silent_time :: "uint32 \<Rightarrow> 'ctx SrtpSession \<Rightarrow> 'ctx SrtpSession" where
  "Session_set_signal_silent_time t s = s\<lparr>srtp_stat := (srtp_stat s)\<lparr>stat_silent_time := t\<rparr>\<rparr>"

section \<open>The filter\<close>

record CryptoParams =
  tag :: int
  cipher_suite :: bytes
  key_params :: bytes
  session_params :: bytes

definition CryptoParams_new :: CryptoParams where
  "CryptoParams_new = \<lparr>tag = 0, cipher_suite = [], key_params = [], session_params = []\<rparr>"

definition CryptoParams_Matches :: "CryptoParams \<Rightarrow> CryptoParams \<Rightarrow> bool" where
  "CryptoParams_Matches c params \<longleftrightarrow> tag c = tag params \<and> cipher_suite c = cipher_suite params"

datatype SrtpState = SF_INIT | SF_SENTOFFER | SF_RECEIVEDOFFER | SF_SENTPRANSWER_NO_CRYPTO | SF_RECEIVEDPRANSWER_NO_CRYPTO
  | SF_ACTIVE | SF_SENTUPDATEDOFFER | SF_RECEIVEDUPDATEDOFFER | SF_SENTPRANSWER | SF_RECEIVEDPRANSWER

record 'ctx SrtpFilter =
  sf_state :: SrtpState
  sf_silent_time :: uint32
  offer_params :: "CryptoParams list"
  send_session :: "'ctx SrtpSession option"
  recv_session :: "'ctx SrtpSession option"
  send_rtcp_session :: "'ctx SrtpSession option"
  recv_rtcp_session :: "'ctx SrtpSession option"
  applied_send_params :: CryptoParams
  applied_recv_params :: CryptoParams

definition SrtpFilter_new :: "'ctx SrtpFilter" where
  "SrtpFilter_new = \<lparr>sf_state = SF_INIT, sf_silent_time = 0, offer_params = [], send_session = None, recv_session = None,
     send_rtcp_session = None, recv_rtcp_session = None, applied_send_params = CryptoParams_new,
     applied_recv_params = CryptoParams_new\<rparr>"

text \<open>The comparison \<^verbatim>\<open>state_ >= ST_ACTIVE\<close> of the enumeration.\<close>

definition Srtp_IsActive :: "'ctx SrtpFilter \<Rightarrow> bool" where
  "Srtp_IsActive f \<longleftrightarrow>
     sf_state f \<in> {SF_ACTIVE, SF_SENTUPDATEDOFFER, SF_RECEIVEDUPDATEDOFFER, SF_SENTPRANSWER, SF_RECEIVEDPRANSWER}"

definition Srtp_ExpectOffer :: "ContentSource \<Rightarrow> 'ctx SrtpFilter \<Rightarrow> bool" where
  "Srtp_ExpectOffer source f \<longleftrightarrow>
     sf_state f = SF_INIT \<or>
     sf_state f = SF_ACTIVE \<or>
     sf_state f = SF_SENTOFFER \<and> source = CS_LOCAL \<or>
     sf_state f = SF_SENTUPDATEDOFFER \<and> source = CS_LOCAL \<or>
     sf_state f = SF_RECEIVEDOFFER \<and> source = CS_REMOTE \<or>
     sf_state f = SF_RECEIVEDUPDATEDOFFER \<and> source = CS_REMOTE"

definition StoreParams :: "CryptoParams list \<Rightarrow> ContentSource \<Rightarrow> 'ctx SrtpFilter \<Rightarrow> bool \<times> 'ctx SrtpFilter" where
  "StoreParams params source f =
     (let f = f\<lparr>offer_params := params\<rparr> in
      (True,
       if sf_state f = SF_INIT then f\<lparr>sf_state := (if source = CS_LOCAL then SF_SENTOFFER else SF_RECEIVEDOFFER)\<rparr>
       else if sf_state f = SF_ACTIVE
       then f\<lparr>sf_state := (if source = CS_LOCAL then SF_SENTUPDATEDOFFER else SF_RECEIVEDUPDATEDOFFER)\<rparr>
       else f))"

definition Srtp_SetOffer :: "CryptoParams list \<Rightarrow> ContentSource \<Rightarrow> 'ctx SrtpFilter \<Rightarrow> bool \<times> 'ctx SrtpFilter" where
  "Srtp_SetOffer params source f = (if \<not> Srtp_ExpectOffer source f then (False, f) else StoreParams params source f)"

definition Srtp_ExpectAnswer :: "ContentSource \<Rightarrow> 'ctx SrtpFilter \<Rightarrow> bool" where
  "Srtp_ExpectAnswer source f \<longleftrightarrow>
     sf_state f = SF_SENTOFFER \<and> source = CS_REMOTE \<or>
     sf_state f = SF_RECEIVEDOFFER \<and> source = CS_LOCAL \<or>
     sf_state f = SF_SENTUPDATEDOFFER \<and> source = CS_REMOTE \<or>
     sf_state f = SF_RECEIVEDUPDATEDOFFER \<and> source = CS_LOCAL \<or>
     sf_state f = SF_SENTPRANSWER_NO_CRYPTO \<and> source = CS_LOCAL \<or>
     sf_state f = SF_SENTPRANSWER \<and> source = CS_LOCAL \<or>
     sf_state f = SF_RECEIVEDPRANSWER_NO_CRYPTO \<and> source = CS_REMOTE \<or>
     sf_state f = SF_RECEIVEDPRANSWER \<and> source = CS_REMOTE"

definition ResetParams :: "'ctx SrtpFilter \<Rightarrow> bool \<times> 'ctx SrtpFilter" where
  "ResetParams f = (True, f\<lparr>offer_params := [], sf_state := SF_INIT\<rparr>)"

definition CreateSrtpSessions :: "'ctx SrtpFilter \<Rightarrow> 'ctx SrtpFilter" where
  "CreateSrtpSessions f =
     (let s = Session_set_signal_silent_time (sf_silent_time f) SrtpSession_new
      in f\<lparr>send_session := Some s, applied_send_params := CryptoParams_new,
           recv_session := Some s, applied_recv_params := CryptoParams_new\<rparr>)"

definition NegotiateParams :: "CryptoParams list \<Rightarrow> 'ctx SrtpFilter \<Rightarrow> CryptoParams option" where
  "NegotiateParams answer_params f =
     (if length answer_params = 1 \<and> offer_params f \<noteq> []
      then find (CryptoParams_Matches (answer_params ! 0)) (offer_params f) else None)"

text \<open>The key, or \<open>None\<close> where \<^verbatim>\<open>ParseKeyParams\<close> returns false.\<close>

definition ParseKeyParams :: "bytes \<Rightarrow> nat \<Rightarrow> bytes option" where
  "ParseKeyParams params len =
     (if take 7 params \<noteq> ascii ''inline:'' then None
      else case Base64_Decode (drop 7 params) DO_STRICT of
        Some (True, key_str, _) \<Rightarrow> if length key_str \<noteq> len then None else Some key_str
      | _ \<Rightarrow> None)"

definition ApplyParams :: "'ctx Libsrtp \<Rightarrow> bool \<Rightarrow> CryptoParams \<Rightarrow> CryptoParams \<Rightarrow> 'ctx SrtpFilter
    \<Rightarrow> bool \<times> bool \<times> 'ctx SrtpFilter" where
  "ApplyParams lib inited send_params recv_params f =
     (if cipher_suite (applied_send_params f) = cipher_suite send_params \<and>
         key_params (applied_send_params f) = key_params send_params \<and>
         cipher_suite (applied_recv_params f) = cipher_suite recv_params \<and>
         key_params (applied_recv_params f) = key_params recv_params
      then (True, inited, f)
      else case (ParseKeyParams (key_params send_params) SRTP_MASTER_KEY_LEN,
                 ParseKeyParams (key_params recv_params) SRTP_MASTER_KEY_LEN) of
        (Some send_key, Some recv_key) \<Rightarrow>
          let f = CreateSrtpSessions f in
          (case SetSend lib (cipher_suite send_params) send_key inited (the (send_session f)) of (ok, inited, s) \<Rightarrow>
            let f = f\<lparr>send_session := Some s\<rparr> in
            if \<not> ok then (False, inited, f)
            else case SetRecv lib (cipher_suite recv_params) recv_key inited (the (recv_session f)) of (ok, inited, r) \<Rightarrow>
              let f = f\<lparr>recv_session := Some r\<rparr> in
              if \<not> ok then (False, inited, f)
              else (True, inited, f\<lparr>applied_send_params := send_params, applied_recv_params := recv_params\<rparr>))
      | _ \<Rightarrow> (False, inited, f))"

definition DoSetAnswer :: "'ctx Libsrtp \<Rightarrow> bool \<Rightarrow> CryptoParams list \<Rightarrow> ContentSource \<Rightarrow> bool \<Rightarrow> 'ctx SrtpFilter
    \<Rightarrow> bool \<times> bool \<times> 'ctx SrtpFilter" where
  "DoSetAnswer lib inited answer_params source final f =
     (if \<not> Srtp_ExpectAnswer source f then (False, inited, f)
      else if answer_params = [] then
        if final then (case ResetParams f of (ok, f) \<Rightarrow> (ok, inited, f))
        else (True, inited,
          f\<lparr>sf_state := (if source = CS_LOCAL then SF_SENTPRANSWER_NO_CRYPTO else SF_RECEIVEDPRANSWER_NO_CRYPTO)\<rparr>)
      else case NegotiateParams answer_params f of
        None \<Rightarrow> (False, inited, f)
      | Some selected_params \<Rightarrow>
          let send_params = (if source = CS_REMOTE then selected_params else answer_params ! 0);
              recv_params = (if source = CS_REMOTE then answer_params ! 0 else selected_params)
          in case ApplyParams lib inited send_params recv_params f of (ok, inited, f) \<Rightarrow>
               if \<not> ok then (False, inited, f)
               else if final then (True, inited, f\<lparr>offer_params := [], sf_state := SF_ACTIVE\<rparr>)
               else (True, inited, f\<lparr>sf_state := (if source = CS_LOCAL then SF_SENTPRANSWER else SF_RECEIVEDPRANSWER)\<rparr>))"

definition Srtp_SetAnswer :: "'ctx Libsrtp \<Rightarrow> bool \<Rightarrow> CryptoParams list \<Rightarrow> ContentSource \<Rightarrow> 'ctx SrtpFilter
    \<Rightarrow> bool \<times> bool \<times> 'ctx SrtpFilter" where
  "Srtp_SetAnswer lib inited answer_params source f = DoSetAnswer lib inited answer_params source True f"

definition Srtp_SetProvisionalAnswer :: "'ctx Libsrtp \<Rightarrow> bool \<Rightarrow> CryptoParams list \<Rightarrow> ContentSource \<Rightarrow> 'ctx SrtpFilter
    \<Rightarrow> bool \<times> bool \<times> 'ctx SrtpFilter" where
  "Srtp_SetProvisionalAnswer lib inited answer_params source f = DoSetAnswer lib inited answer_params source False f"

definition SetRtpParams :: "'ctx Libsrtp \<Rightarrow> bool \<Rightarrow> bytes \<Rightarrow> bytes \<Rightarrow> bytes \<Rightarrow> bytes \<Rightarrow> 'ctx SrtpFilter
    \<Rightarrow> bool \<times> bool \<times> 'ctx SrtpFilter" where
  "SetRtpParams lib inited send_cs send_key recv_cs recv_key f =
     (if Srtp_IsActive f then (False, inited, f)
      else
        let f = CreateSrtpSessions f in
        case SetSend lib send_cs send_key inited (the (send_session f)) of (ok, inited, s) \<Rightarrow>
          let f = f\<lparr>send_session := Some s\<rparr> in
          if \<not> ok then (False, inited, f)
          else case SetRecv lib recv_cs recv_key inited (the (recv_session f)) of (ok, inited, r) \<Rightarrow>
            let f = f\<lparr>recv_session := Some r\<rparr> in
            if \<not> ok then (False, inited, f) else (True, inited, f\<lparr>sf_state := SF_ACTIVE\<rparr>))"

text \<open>Both sessions are keyed with \<^verbatim>\<open>SetRecv\<close>, also the one that sends.\<close>

definition SetRtcpParams :: "'ctx Libsrtp \<Rightarrow> bool \<Rightarrow> bytes \<Rightarrow> bytes \<Rightarrow> bytes \<Rightarrow> bytes \<Rightarrow> 'ctx SrtpFilter
    \<Rightarrow> bool \<times> bool \<times> 'ctx SrtpFilter" where
  "SetRtcpParams lib inited send_cs send_key recv_cs recv_key f =
     (if send_rtcp_session f \<noteq> None \<or> recv_rtcp_session f \<noteq> None then (False, inited, f)
      else
        let s = Session_set_signal_silent_time (sf_silent_time f) SrtpSession_new in
        case SetRecv lib send_cs send_key inited s of (ok, inited, send) \<Rightarrow>
          let f = f\<lparr>send_rtcp_session := Some send\<rparr> in
          if \<not> ok then (False, inited, f)
          else case SetRecv lib recv_cs recv_key inited s of (ok, inited, recv) \<Rightarrow>
            (ok, inited, f\<lparr>recv_rtcp_session := Some recv\<rparr>))"

section \<open>Packets\<close>

type_synonym 'ctx filter_result = "(bool \<times> bytes \<times> int \<times> 'ctx SrtpFilter) option"

definition ProtectRtp :: "'ctx Libsrtp \<Rightarrow> uint32 \<Rightarrow> bytes \<Rightarrow> int \<Rightarrow> int \<Rightarrow> 'ctx SrtpFilter \<Rightarrow> 'ctx filter_result" where
  "ProtectRtp lib now p in_len max_len f =
     (if \<not> Srtp_IsActive f then Some (False, p, in_len, f)
      else case send_session f of
        None \<Rightarrow> None
      | Some s \<Rightarrow> (case Session_ProtectRtp lib now p in_len max_len s of (ok, p, out_len, s) \<Rightarrow>
          Some (ok, p, out_len, f\<lparr>send_session := Some s\<rparr>)))"

definition ProtectRtp_index :: "'ctx Libsrtp \<Rightarrow> bool \<Rightarrow> uint32 \<Rightarrow> bytes \<Rightarrow> int \<Rightarrow> int \<Rightarrow> 'ctx SrtpFilter
    \<Rightarrow> ((bool \<times> bytes \<times> int \<times> 'ctx SrtpFilter) \<times> uint64 option) option" where
  "ProtectRtp_index lib h now p in_len max_len f =
     (if \<not> Srtp_IsActive f then Some ((False, p, in_len, f), None)
      else case send_session f of
        None \<Rightarrow> None
      | Some s \<Rightarrow> (case Session_ProtectRtp_index lib h now p in_len max_len s of ((ok, p, out_len, s), i) \<Rightarrow>
          Some ((ok, p, out_len, f\<lparr>send_session := Some s\<rparr>), i)))"

definition ProtectRtcp :: "'ctx Libsrtp \<Rightarrow> uint32 \<Rightarrow> bytes \<Rightarrow> int \<Rightarrow> int \<Rightarrow> 'ctx SrtpFilter \<Rightarrow> 'ctx filter_result" where
  "ProtectRtcp lib now p in_len max_len f =
     (if \<not> Srtp_IsActive f then Some (False, p, in_len, f)
      else case send_rtcp_session f of
        Some s \<Rightarrow> (case Session_ProtectRtcp lib now p in_len max_len s of (ok, p, out_len, s) \<Rightarrow>
          Some (ok, p, out_len, f\<lparr>send_rtcp_session := Some s\<rparr>))
      | None \<Rightarrow> (case send_session f of
          None \<Rightarrow> None
        | Some s \<Rightarrow> (case Session_ProtectRtcp lib now p in_len max_len s of (ok, p, out_len, s) \<Rightarrow>
            Some (ok, p, out_len, f\<lparr>send_session := Some s\<rparr>))))"

definition UnprotectRtp :: "'ctx Libsrtp \<Rightarrow> uint32 \<Rightarrow> bytes \<Rightarrow> int \<Rightarrow> 'ctx SrtpFilter \<Rightarrow> 'ctx filter_result" where
  "UnprotectRtp lib now p in_len f =
     (if \<not> Srtp_IsActive f then Some (False, p, in_len, f)
      else case recv_session f of
        None \<Rightarrow> None
      | Some s \<Rightarrow> (case Session_UnprotectRtp lib now p in_len s of (ok, p, out_len, s) \<Rightarrow>
          Some (ok, p, out_len, f\<lparr>recv_session := Some s\<rparr>)))"

definition UnprotectRtcp :: "'ctx Libsrtp \<Rightarrow> uint32 \<Rightarrow> bytes \<Rightarrow> int \<Rightarrow> 'ctx SrtpFilter \<Rightarrow> 'ctx filter_result" where
  "UnprotectRtcp lib now p in_len f =
     (if \<not> Srtp_IsActive f then Some (False, p, in_len, f)
      else case recv_rtcp_session f of
        Some s \<Rightarrow> (case Session_UnprotectRtcp lib now p in_len s of (ok, p, out_len, s) \<Rightarrow>
          Some (ok, p, out_len, f\<lparr>recv_rtcp_session := Some s\<rparr>))
      | None \<Rightarrow> (case recv_session f of
          None \<Rightarrow> None
        | Some s \<Rightarrow> (case Session_UnprotectRtcp lib now p in_len s of (ok, p, out_len, s) \<Rightarrow>
            Some (ok, p, out_len, f\<lparr>recv_session := Some s\<rparr>))))"

definition Srtp_set_signal_silent_time :: "uint32 \<Rightarrow> 'ctx SrtpFilter \<Rightarrow> 'ctx SrtpFilter option" where
  "Srtp_set_signal_silent_time t f =
     (let f = f\<lparr>sf_silent_time := t\<rparr> in
      if Srtp_IsActive f then
        (case (send_session f, recv_session f) of
           (Some s, Some r) \<Rightarrow>
             Some (f\<lparr>send_session := Some (Session_set_signal_silent_time t s),
                     recv_session := Some (Session_set_signal_silent_time t r),
                     send_rtcp_session := map_option (Session_set_signal_silent_time t) (send_rtcp_session f),
                     recv_rtcp_session := map_option (Session_set_signal_silent_time t) (recv_rtcp_session f)\<rparr>)
         | _ \<Rightarrow> None)
      else Some f)"

section \<open>No assertion fails\<close>

text \<open>The calls an application makes on a filter.\<close>

datatype SrtpCall =
    CallOffer "CryptoParams list" ContentSource
  | CallAnswer "CryptoParams list" ContentSource bool
  | CallRtpParams bytes bytes bytes bytes
  | CallRtcpParams bytes bytes bytes bytes
  | CallProtect bool bytes int int
  | CallUnprotect bool bytes int
  | CallSilentTime uint32

fun srtp_call :: "'ctx Libsrtp \<Rightarrow> uint32 \<Rightarrow> SrtpCall \<Rightarrow> bool \<times> 'ctx SrtpFilter \<Rightarrow> (bool \<times> 'ctx SrtpFilter) option" where
  "srtp_call lib now (CallOffer ps src) (inited, f) = Some (inited, snd (Srtp_SetOffer ps src f))"
| "srtp_call lib now (CallAnswer ps src final) (inited, f) = Some (snd (DoSetAnswer lib inited ps src final f))"
| "srtp_call lib now (CallRtpParams a b c d) (inited, f) = Some (snd (SetRtpParams lib inited a b c d f))"
| "srtp_call lib now (CallRtcpParams a b c d) (inited, f) = Some (snd (SetRtcpParams lib inited a b c d f))"
| "srtp_call lib now (CallProtect rtcp p n m) (inited, f) =
     map_option (\<lambda>(ok, p, n, f). (inited, f)) (if rtcp then ProtectRtcp lib now p n m f else ProtectRtp lib now p n m f)"
| "srtp_call lib now (CallUnprotect rtcp p n) (inited, f) =
     map_option (\<lambda>(ok, p, n, f). (inited, f)) (if rtcp then UnprotectRtcp lib now p n f else UnprotectRtp lib now p n f)"
| "srtp_call lib now (CallSilentTime t) (inited, f) = map_option (Pair inited) (Srtp_set_signal_silent_time t f)"

fun srtp_run :: "'ctx Libsrtp \<Rightarrow> (uint32 \<times> SrtpCall) list \<Rightarrow> bool \<times> 'ctx SrtpFilter \<Rightarrow> (bool \<times> 'ctx SrtpFilter) option" where
  "srtp_run lib [] s = Some s"
| "srtp_run lib ((now, c) # cs) s = Option.bind (srtp_call lib now c s) (srtp_run lib cs)"

text \<open>Every cipher suite that is signalled has a name.\<close>

fun named_suites :: "SrtpCall \<Rightarrow> bool" where
  "named_suites (CallOffer ps src) = list_all (\<lambda>c. cipher_suite c \<noteq> []) ps"
| "named_suites (CallAnswer ps src final) = list_all (\<lambda>c. cipher_suite c \<noteq> []) ps"
| "named_suites c = True"

text \<open>An active filter has both of its sessions, and so has one that has applied parameters.\<close>

definition srtp_inv :: "'ctx SrtpFilter \<Rightarrow> bool" where
  "srtp_inv f \<longleftrightarrow>
     (Srtp_IsActive f \<or> cipher_suite (applied_send_params f) \<noteq> [] \<longrightarrow> send_session f \<noteq> None \<and> recv_session f \<noteq> None) \<and>
     list_all (\<lambda>c. cipher_suite c \<noteq> []) (offer_params f)"

lemma srtp_inv_new: "srtp_inv SrtpFilter_new"
  by (simp add: srtp_inv_def SrtpFilter_new_def Srtp_IsActive_def CryptoParams_new_def)

lemma srtp_inv_offer: "srtp_inv f \<Longrightarrow> list_all (\<lambda>c. cipher_suite c \<noteq> []) ps \<Longrightarrow> srtp_inv (snd (Srtp_SetOffer ps src f))"
  by (auto simp: srtp_inv_def Srtp_SetOffer_def StoreParams_def Srtp_IsActive_def Let_def split: if_splits)

lemma find_Some: "find P xs = Some x \<Longrightarrow> x \<in> set xs \<and> P x"
  by (induction xs) (auto split: if_splits)

lemma ApplyParams_shape:
  assumes "ApplyParams lib inited sendp recvp f = (ok, inited', f')"
  shows "sf_state f' = sf_state f" and "offer_params f' = offer_params f"
    and "f' = f \<and> (ok \<longrightarrow> cipher_suite (applied_send_params f) = cipher_suite sendp) \<or>
      send_session f' \<noteq> None \<and> recv_session f' \<noteq> None"
  using assms
  by (auto simp: ApplyParams_def CreateSrtpSessions_def Let_def split: if_split_asm prod.split_asm option.split_asm)

lemma srtp_inv_cong:
  assumes "srtp_inv f" and "sf_state f' = sf_state f" and "offer_params f' = offer_params f"
    and "send_session f' \<noteq> None" and "recv_session f' \<noteq> None"
  shows "srtp_inv f'"
  using assms by (simp add: srtp_inv_def)

lemma ApplyParams_inv:
  assumes "srtp_inv f" and "ApplyParams lib inited sendp recvp f = (ok, inited', f')" and "cipher_suite sendp \<noteq> []"
  shows "srtp_inv f'" and "ok \<Longrightarrow> send_session f' \<noteq> None \<and> recv_session f' \<noteq> None"
proof -
  note sh = ApplyParams_shape [OF assms(2)]
  show "srtp_inv f'" using sh(3) srtp_inv_cong [OF assms(1) sh(1,2)] assms(1) by blast
  show "send_session f' \<noteq> None \<and> recv_session f' \<noteq> None" if ok
    using sh(3) assms(1,3) that by (auto simp: srtp_inv_def)
qed

lemma srtp_inv_answer:
  assumes inv: "srtp_inv f" and ps: "list_all (\<lambda>c. cipher_suite c \<noteq> []) ps"
  shows "srtp_inv (snd (snd (DoSetAnswer lib inited ps src final f)))"
proof (cases "Srtp_ExpectAnswer src f \<and> ps \<noteq> [] \<and> NegotiateParams ps f \<noteq> None")
  case True
  then obtain sel where sel: "NegotiateParams ps f = Some sel" by auto
  define sendp where "sendp = (if src = CS_REMOTE then sel else ps ! 0)"
  define recvp where "recvp = (if src = CS_REMOTE then ps ! 0 else sel)"
  have "sel \<in> set (offer_params f)" using sel by (auto simp: NegotiateParams_def dest: find_Some split: if_splits)
  moreover have "ps ! 0 \<in> set ps" using True by (cases ps) auto
  ultimately have "cipher_suite sendp \<noteq> []" using inv ps by (auto simp: sendp_def srtp_inv_def list_all_iff)
  moreover obtain ok inited' f' where a: "ApplyParams lib inited sendp recvp f = (ok, inited', f')" by (metis prod_cases3)
  ultimately have f': "srtp_inv f'" "ok \<Longrightarrow> send_session f' \<noteq> None \<and> recv_session f' \<noteq> None"
    using ApplyParams_inv [OF inv] by blast+
  have "DoSetAnswer lib inited ps src final f = (if \<not> ok then (False, inited', f')
      else if final then (True, inited', f'\<lparr>offer_params := [], sf_state := SF_ACTIVE\<rparr>)
      else (True, inited', f'\<lparr>sf_state := (if src = CS_LOCAL then SF_SENTPRANSWER else SF_RECEIVEDPRANSWER)\<rparr>))"
    using True sel a by (simp add: DoSetAnswer_def sendp_def recvp_def)
  with f' show ?thesis by (auto simp: srtp_inv_def)
next
  case False
  then have "DoSetAnswer lib inited ps src final f =
      (if \<not> Srtp_ExpectAnswer src f \<or> ps \<noteq> [] then (False, inited, f)
       else if final then (True, inited, f\<lparr>offer_params := [], sf_state := SF_INIT\<rparr>)
       else (True, inited, f\<lparr>sf_state := (if src = CS_LOCAL then SF_SENTPRANSWER_NO_CRYPTO else SF_RECEIVEDPRANSWER_NO_CRYPTO)\<rparr>))"
    by (auto simp: DoSetAnswer_def ResetParams_def)
  with inv show ?thesis by (simp add: srtp_inv_def Srtp_IsActive_def)
qed

lemma Srtp_IsActive_cong: "sf_state f' = sf_state f \<Longrightarrow> Srtp_IsActive f' \<longleftrightarrow> Srtp_IsActive f"
  by (simp add: Srtp_IsActive_def)

lemma srtp_inv_rtp_params: "srtp_inv f \<Longrightarrow> srtp_inv (snd (snd (SetRtpParams lib inited a b c d f)))"
  by (auto simp: SetRtpParams_def CreateSrtpSessions_def srtp_inv_def Let_def split: prod.splits)

lemma srtp_inv_rtcp_params: "srtp_inv f \<Longrightarrow> srtp_inv (snd (snd (SetRtcpParams lib inited a b c d f)))"
  by (auto simp: SetRtcpParams_def srtp_inv_def Let_def Srtp_IsActive_def split: prod.splits)

lemma srtp_inv_same:
  assumes "srtp_inv f" and "sf_state f' = sf_state f" and "offer_params f' = offer_params f"
    and "applied_send_params f' = applied_send_params f"
    and "send_session f \<noteq> None \<Longrightarrow> send_session f' \<noteq> None" and "recv_session f \<noteq> None \<Longrightarrow> recv_session f' \<noteq> None"
  shows "srtp_inv f'"
  using assms Srtp_IsActive_cong [OF assms(2)] by (auto simp: srtp_inv_def)

lemma srtp_protect_call:
  assumes "srtp_inv f"
  shows "\<exists>f'. srtp_call lib now (CallProtect rtcp p n m) (inited, f) = Some (inited, f') \<and> srtp_inv f'"
proof (cases "Srtp_IsActive f")
  case True
  with assms obtain s where "send_session f = Some s" by (auto simp: srtp_inv_def)
  with True show ?thesis
    by (auto simp: ProtectRtp_def ProtectRtcp_def split: prod.splits option.splits intro: srtp_inv_same [OF assms])
qed (use assms in \<open>auto simp: ProtectRtp_def ProtectRtcp_def\<close>)

lemma srtp_unprotect_call:
  assumes "srtp_inv f"
  shows "\<exists>f'. srtp_call lib now (CallUnprotect rtcp p n) (inited, f) = Some (inited, f') \<and> srtp_inv f'"
proof (cases "Srtp_IsActive f")
  case True
  with assms obtain s where "recv_session f = Some s" by (auto simp: srtp_inv_def)
  with True show ?thesis
    by (auto simp: UnprotectRtp_def UnprotectRtcp_def split: prod.splits option.splits intro: srtp_inv_same [OF assms])
qed (use assms in \<open>auto simp: UnprotectRtp_def UnprotectRtcp_def\<close>)

lemma srtp_silent_call:
  assumes "srtp_inv f"
  shows "\<exists>f'. srtp_call lib now (CallSilentTime t) (inited, f) = Some (inited, f') \<and> srtp_inv f'"
proof -
  have "Srtp_IsActive (f\<lparr>sf_silent_time := t\<rparr>) \<longleftrightarrow> Srtp_IsActive f" by (rule Srtp_IsActive_cong) simp
  moreover have "\<exists>s r. send_session f = Some s \<and> recv_session f = Some r" if "Srtp_IsActive f"
    using assms that by (auto simp: srtp_inv_def)
  ultimately show ?thesis
    by (cases "Srtp_IsActive f") (auto simp: Srtp_set_signal_silent_time_def Let_def intro!: srtp_inv_same [OF assms])
qed

lemma srtp_call_inv:
  assumes "srtp_inv f" and "named_suites c"
  shows "\<exists>inited' f'. srtp_call lib now c (inited, f) = Some (inited', f') \<and> srtp_inv f'"
proof (cases c)
  case (CallAnswer ps src final)
  with assms srtp_inv_answer [OF assms(1), of ps lib inited src final] show ?thesis
    by (cases "DoSetAnswer lib inited ps src final f") auto
next
  case (CallRtpParams a b c' d)
  with srtp_inv_rtp_params [OF assms(1), of lib inited a b c' d] show ?thesis
    by (cases "SetRtpParams lib inited a b c' d f") auto
next
  case (CallRtcpParams a b c' d)
  with srtp_inv_rtcp_params [OF assms(1), of lib inited a b c' d] show ?thesis
    by (cases "SetRtcpParams lib inited a b c' d f") auto
next
  case (CallProtect rtcp p n m)
  with srtp_protect_call [OF assms(1)] show ?thesis by blast
next
  case (CallUnprotect rtcp p n)
  with srtp_unprotect_call [OF assms(1)] show ?thesis by blast
next
  case (CallSilentTime t)
  with srtp_silent_call [OF assms(1)] show ?thesis by blast
qed (use assms srtp_inv_offer in auto)

lemma srtp_run_inv:
  assumes "list_all (\<lambda>(now, c). named_suites c) calls" and "srtp_inv f"
  shows "\<exists>inited' f'. srtp_run lib calls (inited, f) = Some (inited', f') \<and> srtp_inv f'"
  using assms
proof (induction calls arbitrary: inited f)
  case (Cons call calls)
  obtain now c where call: "call = (now, c)" by (cases call)
  with Cons.prems srtp_call_inv [of f c lib now inited] obtain inited' f'
    where "srtp_call lib now c (inited, f) = Some (inited', f')" "srtp_inv f'" by auto
  with call Cons.IH [of f' inited'] Cons.prems show ?case by simp
qed simp

text \<open>C15: whatever the library does, and whichever calls are made in whatever order, no assertion of the
  filter fails, provided that the signalled cipher suites have names: an active filter always has the
  session that a packet needs.\<close>

theorem srtp_assertions_hold:
  assumes "list_all (\<lambda>(now, c). named_suites c) calls"
  shows "srtp_run lib calls (inited, SrtpFilter_new) \<noteq> None"
  using srtp_run_inv [OF assms srtp_inv_new] by force

text \<open>A library that protects a packet by combining every byte of it with the first byte of the key.\<close>

definition xor_lib :: "bytes Libsrtp" where
  "xor_lib =
     \<lparr>lib_init = err_status_ok, lib_install_event_handler = err_status_ok, lib_shutdown = err_status_ok,
      lib_create = (\<lambda>pol. (err_status_ok, Some (pol_key pol))), lib_auth_tag_len = (\<lambda>_. 0),
      lib_protect = (\<lambda>c p n. (err_status_ok, c, map (\<lambda>x. x XOR c ! 0) p, n)),
      lib_unprotect = (\<lambda>c p n. (err_status_ok, c, map (\<lambda>x. x XOR c ! 0) p, n)),
      lib_protect_rtcp = (\<lambda>c p n. (err_status_ok, c, p, n)), lib_unprotect_rtcp = (\<lambda>c p n. (err_status_ok, c, p, n)),
      lib_send_index = (\<lambda>_ _. None)\<rparr>"

definition sdes_params :: "int \<Rightarrow> bytes \<Rightarrow> CryptoParams" where
  "sdes_params t key = \<lparr>tag = t, cipher_suite = CS_AES_CM_128_HMAC_SHA1_80,
     key_params = ascii ''inline:'' @ Base64_Encode key, session_params = []\<rparr>"

lemma ParseKeyParams_sdes: "length key = n \<Longrightarrow> ParseKeyParams (key_params (sdes_params t key)) n = Some key"
  using Base64_Decode_Encode [of DO_STRICT key] DO_STRICT_parts
  by (simp add: ParseKeyParams_def sdes_params_def ascii_def not_less)

theorem srtp_assertions_hold_witness:
  "list_all (\<lambda>(now, c). named_suites c)
     [(1, CallOffer [sdes_params 1 (replicate 30 7)] CS_LOCAL), (2, CallAnswer [sdes_params 1 (replicate 30 9)] CS_REMOTE True),
      (3, CallProtect False (replicate 14 1) 14 14), (4, CallSilentTime 0)] \<and>
   srtp_run xor_lib
     [(1, CallOffer [sdes_params 1 (replicate 30 7)] CS_LOCAL), (2, CallAnswer [sdes_params 1 (replicate 30 9)] CS_REMOTE True),
      (3, CallProtect False (replicate 14 1) 14 14), (4, CallSilentTime 0)] (False, SrtpFilter_new) \<noteq> None"
  by (rule conjI [OF _ srtp_assertions_hold])
    (simp_all add: sdes_params_def CS_AES_CM_128_HMAC_SHA1_80_def ascii_def)

section \<open>Both ends agree on the keys\<close>

definition key_policy :: "ssrc_type \<Rightarrow> bytes \<Rightarrow> bytes \<Rightarrow> srtp_policy" where
  "key_policy type cs key =
     \<lparr>pol_rtp = (if cs = CS_AES_CM_128_HMAC_SHA1_80 then aes_cm_128_hmac_sha1_80 else aes_cm_128_hmac_sha1_32),
      pol_rtcp = aes_cm_128_hmac_sha1_80, pol_ssrc_type = type, pol_ssrc_value = 0, pol_key = key,
      pol_window_size = 1024, pol_allow_repeat_tx = True\<rparr>"

lemma SetKey_True:
  assumes "SetKey lib type cs key inited s = (True, inited', s')"
  shows "lib_create lib (key_policy type cs key) = (err_status_ok, session_ctx s')"
  using assms
  by (auto simp: SetKey_def key_policy_def Let_def split: if_split_asm prod.split_asm option.split_asm)

lemma ApplyParams_keys:
  assumes "ApplyParams lib inited sendp recvp f = (True, inited', f')" and "cipher_suite (applied_send_params f) \<noteq> cipher_suite sendp"
  obtains sk rk s r where "ParseKeyParams (key_params sendp) SRTP_MASTER_KEY_LEN = Some sk"
    and "ParseKeyParams (key_params recvp) SRTP_MASTER_KEY_LEN = Some rk"
    and "send_session f' = Some s" and "recv_session f' = Some r"
    and "lib_create lib (key_policy ssrc_any_outbound (cipher_suite sendp) sk) = (err_status_ok, session_ctx s)"
    and "lib_create lib (key_policy ssrc_any_inbound (cipher_suite recvp) rk) = (err_status_ok, session_ctx r)"
  using assms
  by (auto simp: ApplyParams_def CreateSrtpSessions_def SetSend_def SetRecv_def Let_def dest!: SetKey_True
      split: if_split_asm prod.split_asm option.split_asm)

text \<open>An offer of one end, and the answer of the other to it, applied by both.\<close>

definition sdes_exchange :: "'ctx Libsrtp \<Rightarrow> bool \<Rightarrow> CryptoParams list \<Rightarrow> CryptoParams \<Rightarrow> 'ctx SrtpFilter \<Rightarrow> 'ctx SrtpFilter
    \<Rightarrow> bool \<times> 'ctx SrtpFilter \<times> 'ctx SrtpFilter" where
  "sdes_exchange lib inited offer answer a b =
     (case Srtp_SetOffer offer CS_LOCAL a of (ok\<^sub>1, a) \<Rightarrow>
      case Srtp_SetOffer offer CS_REMOTE b of (ok\<^sub>2, b) \<Rightarrow>
      case Srtp_SetAnswer lib inited [answer] CS_LOCAL b of (ok\<^sub>3, inited, b) \<Rightarrow>
      case Srtp_SetAnswer lib inited [answer] CS_REMOTE a of (ok\<^sub>4, inited, a) \<Rightarrow>
        (ok\<^sub>1 \<and> ok\<^sub>2 \<and> ok\<^sub>3 \<and> ok\<^sub>4, a, b))"

text \<open>The sending session of one filter and the receiving session of the other have the same key.\<close>

definition keyed_alike :: "'ctx Libsrtp \<Rightarrow> 'ctx SrtpFilter \<Rightarrow> 'ctx SrtpFilter \<Rightarrow> bool" where
  "keyed_alike lib a b \<longleftrightarrow> Srtp_IsActive a \<and> Srtp_IsActive b \<and>
     (\<exists>s r cs key. send_session a = Some s \<and> recv_session b = Some r \<and> length key = SRTP_MASTER_KEY_LEN \<and>
        lib_create lib (key_policy ssrc_any_outbound cs key) = (err_status_ok, session_ctx s) \<and>
        lib_create lib (key_policy ssrc_any_inbound cs key) = (err_status_ok, session_ctx r))"

lemma keyed_alikeI:
  assumes "Srtp_IsActive a" and "Srtp_IsActive b" and "send_session a = Some s" and "recv_session b = Some r"
    and "length key = SRTP_MASTER_KEY_LEN"
    and "lib_create lib (key_policy ssrc_any_outbound cs key) = (err_status_ok, session_ctx s)"
    and "lib_create lib (key_policy ssrc_any_inbound cs key) = (err_status_ok, session_ctx r)"
  shows "keyed_alike lib a b"
  unfolding keyed_alike_def using assms by blast

lemma ParseKeyParams_length: "ParseKeyParams ps n = Some key \<Longrightarrow> length key = n"
  by (auto simp: ParseKeyParams_def split: if_splits option.splits prod.splits bool.splits)

lemma DoSetAnswer_True:
  assumes "DoSetAnswer lib inited [answer] src True f = (True, inited', f')"
  obtains sel f'' where "find (CryptoParams_Matches answer) (offer_params f) = Some sel"
    and "ApplyParams lib inited (if src = CS_REMOTE then sel else answer) (if src = CS_REMOTE then answer else sel) f = (True, inited', f'')"
    and "f' = f''\<lparr>offer_params := [], sf_state := SF_ACTIVE\<rparr>"
  using assms
  by (auto simp: DoSetAnswer_def NegotiateParams_def Let_def split: if_split_asm prod.split_asm option.split_asm)

lemma sdes_exchange_keys:
  assumes "sdes_exchange lib inited offer answer SrtpFilter_new SrtpFilter_new = (True, a, b)"
    and "list_all (\<lambda>c. cipher_suite c \<noteq> []) offer" and "cipher_suite answer \<noteq> []"
  shows "keyed_alike lib a b \<and> keyed_alike lib b a"
proof -
  let ?a = "(SrtpFilter_new :: 'a SrtpFilter)\<lparr>offer_params := offer, sf_state := SF_SENTOFFER\<rparr>"
  let ?b = "(SrtpFilter_new :: 'a SrtpFilter)\<lparr>offer_params := offer, sf_state := SF_RECEIVEDOFFER\<rparr>"
  have new: "Srtp_SetOffer offer CS_LOCAL SrtpFilter_new = (True, ?a)" "Srtp_SetOffer offer CS_REMOTE SrtpFilter_new = (True, ?b)"
    by (simp_all add: Srtp_SetOffer_def Srtp_ExpectOffer_def StoreParams_def SrtpFilter_new_def)
  from assms(1) obtain i\<^sub>1 i\<^sub>2 where ab: "DoSetAnswer lib inited [answer] CS_LOCAL True ?b = (True, i\<^sub>1, b)"
      "DoSetAnswer lib i\<^sub>1 [answer] CS_REMOTE True ?a = (True, i\<^sub>2, a)"
    by (auto simp: sdes_exchange_def new Srtp_SetAnswer_def split: prod.split_asm)
  from DoSetAnswer_True [OF ab(1)] obtain sel b'' where sel: "find (CryptoParams_Matches answer) offer = Some sel"
      and b'': "ApplyParams lib inited answer sel ?b = (True, i\<^sub>1, b'')" "b = b''\<lparr>offer_params := [], sf_state := SF_ACTIVE\<rparr>"
    by auto
  from DoSetAnswer_True [OF ab(2)] sel obtain a''
    where a'': "ApplyParams lib i\<^sub>1 sel answer ?a = (True, i\<^sub>2, a'')" "a = a''\<lparr>offer_params := [], sf_state := SF_ACTIVE\<rparr>"
    by auto
  have cs: "cipher_suite sel = cipher_suite answer" using find_Some [OF sel] by (simp add: CryptoParams_Matches_def)
  have ne: "cipher_suite (applied_send_params ?a) \<noteq> cipher_suite sel" "cipher_suite (applied_send_params ?b) \<noteq> cipher_suite answer"
    using assms(3) cs by (simp_all add: SrtpFilter_new_def CryptoParams_new_def)
  obtain sk rk s r where A: "ParseKeyParams (key_params sel) SRTP_MASTER_KEY_LEN = Some sk"
      "ParseKeyParams (key_params answer) SRTP_MASTER_KEY_LEN = Some rk" "send_session a'' = Some s" "recv_session a'' = Some r"
      "lib_create lib (key_policy ssrc_any_outbound (cipher_suite sel) sk) = (err_status_ok, session_ctx s)"
      "lib_create lib (key_policy ssrc_any_inbound (cipher_suite answer) rk) = (err_status_ok, session_ctx r)"
    by (rule ApplyParams_keys [OF a''(1) ne(1)])
  obtain sk' rk' s' r' where B: "ParseKeyParams (key_params answer) SRTP_MASTER_KEY_LEN = Some sk'"
      "ParseKeyParams (key_params sel) SRTP_MASTER_KEY_LEN = Some rk'" "send_session b'' = Some s'" "recv_session b'' = Some r'"
      "lib_create lib (key_policy ssrc_any_outbound (cipher_suite answer) sk') = (err_status_ok, session_ctx s')"
      "lib_create lib (key_policy ssrc_any_inbound (cipher_suite sel) rk') = (err_status_ok, session_ctx r')"
    by (rule ApplyParams_keys [OF b''(1) ne(2)])
  have "sk' = rk" "rk' = sk" using A(1,2) B(1,2) by simp_all
  note len = ParseKeyParams_length [OF A(1)] ParseKeyParams_length [OF A(2)]
  have "keyed_alike lib a b"
    by (rule keyed_alikeI [OF _ _ _ _ len(1) A(5)]) (use A B \<open>rk' = sk\<close> in \<open>simp_all add: a''(2) b''(2) Srtp_IsActive_def\<close>)
  moreover have "keyed_alike lib b a"
    by (rule keyed_alikeI [OF _ _ _ _ len(2) _ A(6)]) (use A B \<open>sk' = rk\<close> in \<open>simp_all add: a''(2) b''(2) Srtp_IsActive_def\<close>)
  ultimately show ?thesis ..
qed

section \<open>Media that is protected is understood\<close>

text \<open>
  What libsrtp promises of two contexts for the same key, one for sending and one for receiving:
  they are \<open>paired\<close>, what the first protects the second turns back, after which they are paired again,
  and so they are after a packet that the first refuses.
\<close>

definition srtp_pairing :: "'ctx Libsrtp \<Rightarrow> ('ctx \<Rightarrow> 'ctx \<Rightarrow> bool) \<Rightarrow> bool" where
  "srtp_pairing lib paired \<longleftrightarrow>
     (\<forall>pol ctx. lib_create lib pol = (err_status_ok, ctx) \<longrightarrow> ctx \<noteq> None) \<and>
     (\<forall>cs key c c'. length key = SRTP_MASTER_KEY_LEN \<longrightarrow>
        lib_create lib (key_policy ssrc_any_outbound cs key) = (err_status_ok, Some c) \<longrightarrow>
        lib_create lib (key_policy ssrc_any_inbound cs key) = (err_status_ok, Some c') \<longrightarrow> paired c c') \<and>
     (\<forall>c c' p n err c\<^sub>1 q m. paired c c' \<longrightarrow> lib_protect lib c p n = (err, c\<^sub>1, q, m) \<longrightarrow> err \<noteq> err_status_ok \<longrightarrow> paired c\<^sub>1 c') \<and>
     (\<forall>c c' p n c\<^sub>1 q m. paired c c' \<longrightarrow> lib_protect lib c p n = (err_status_ok, c\<^sub>1, q, m) \<longrightarrow>
        (\<exists>c\<^sub>1' r. lib_unprotect lib c' q m = (err_status_ok, c\<^sub>1', r, n) \<and> take (nat n) r = take (nat n) p \<and> paired c\<^sub>1 c\<^sub>1'))"

text \<open>
  Packets \<open>(p, n, max_len)\<close> that one filter protects and another unprotects: the packets that the first
  one took, each with what the second one made of it; \<open>None\<close> where the second one refuses a packet.
\<close>

fun srtp_relay :: "'ctx Libsrtp \<Rightarrow> uint32 \<Rightarrow> (bytes \<times> int \<times> int) list \<Rightarrow> 'ctx SrtpFilter \<Rightarrow> 'ctx SrtpFilter
    \<Rightarrow> (bytes \<times> bytes) list option" where
  "srtp_relay lib now [] a b = Some []"
| "srtp_relay lib now ((p, n, max_len) # ps) a b =
     (case ProtectRtp lib now p n max_len a of
        None \<Rightarrow> None
      | Some (ok, q, m, a') \<Rightarrow>
          if \<not> ok then srtp_relay lib now ps a' b
          else case UnprotectRtp lib now q m b of
            None \<Rightarrow> None
          | Some (ok', r, k, b') \<Rightarrow>
              if \<not> ok' then None
              else map_option (Cons (take (nat n) p, take (nat k) r)) (srtp_relay lib now ps a' b'))"

definition filters_paired :: "('ctx \<Rightarrow> 'ctx \<Rightarrow> bool) \<Rightarrow> 'ctx SrtpFilter \<Rightarrow> 'ctx SrtpFilter \<Rightarrow> bool" where
  "filters_paired paired a b \<longleftrightarrow> Srtp_IsActive a \<and> Srtp_IsActive b \<and>
     (\<exists>s r c c'. send_session a = Some s \<and> recv_session b = Some r \<and> session_ctx s = Some c \<and> session_ctx r = Some c' \<and> paired c c')"

lemma keyed_alike_paired: "srtp_pairing lib paired \<Longrightarrow> keyed_alike lib a b \<Longrightarrow> filters_paired paired a b"
  unfolding srtp_pairing_def keyed_alike_def filters_paired_def by (metis not_None_eq)

lemma srtp_pairing_refused:
  "srtp_pairing lib paired \<Longrightarrow> paired c c' \<Longrightarrow> lib_protect lib c p n = (err, c\<^sub>1, q, m) \<Longrightarrow> err \<noteq> err_status_ok \<Longrightarrow> paired c\<^sub>1 c'"
  unfolding srtp_pairing_def by (elim conjE) metis

lemma srtp_pairing_protect:
  assumes "srtp_pairing lib paired" and "paired c c'" and "lib_protect lib c p n = (err_status_ok, c\<^sub>1, q, m)"
  shows "\<exists>c\<^sub>1' r. lib_unprotect lib c' q m = (err_status_ok, c\<^sub>1', r, n) \<and> take (nat n) r = take (nat n) p \<and> paired c\<^sub>1 c\<^sub>1'"
  using assms unfolding srtp_pairing_def by (elim conjE) metis

lemma relay_step:
  assumes pr: "srtp_pairing lib paired" and ab: "filters_paired paired a b"
  obtains ok q m a' where "ProtectRtp lib now p n max_len a = Some (ok, q, m, a')" and "\<not> ok \<longrightarrow> filters_paired paired a' b"
    and "ok \<longrightarrow> (\<exists>r b'. UnprotectRtp lib now q m b = Some (True, r, n, b') \<and> take (nat n) r = take (nat n) p \<and> filters_paired paired a' b')"
proof -
  from ab obtain s r c c' where act: "Srtp_IsActive a" "Srtp_IsActive b" and sr: "send_session a = Some s" "recv_session b = Some r"
      "session_ctx s = Some c" "session_ctx r = Some c'" "paired c c'" by (auto simp: filters_paired_def)
  obtain ok q m s' where s': "Session_ProtectRtp lib now p n max_len s = (ok, q, m, s')" by (metis prod_cases4)
  have a': "ProtectRtp lib now p n max_len a = Some (ok, q, m, a\<lparr>send_session := Some s'\<rparr>)"
    using act sr s' by (simp add: ProtectRtp_def)
  have active: "Srtp_IsActive (a\<lparr>send_session := Some s'\<rparr>)" "Srtp_IsActive (b\<lparr>recv_session := Some r'\<rparr>)" for r'
    using act by (simp_all add: Srtp_IsActive_def)
  show thesis
  proof (rule that [OF a'], safe)
    assume "\<not> ok"
    then obtain c\<^sub>1 where c\<^sub>1: "session_ctx s' = Some c\<^sub>1"
        "c\<^sub>1 = c \<or> (\<exists>err. lib_protect lib c p n = (err, c\<^sub>1, q, m) \<and> err \<noteq> err_status_ok)"
      using s' sr by (auto simp: Session_ProtectRtp_def Let_def split: if_split_asm prod.split_asm)
    with srtp_pairing_refused [OF pr sr(5)] sr(5) have "paired c\<^sub>1 c'" by auto
    with c\<^sub>1(1) sr(2,4) active act show "filters_paired paired (a\<lparr>send_session := Some s'\<rparr>) b" by (simp add: filters_paired_def)
  next
    assume ok
    then obtain c\<^sub>1 where c\<^sub>1: "lib_protect lib c p n = (err_status_ok, c\<^sub>1, q, m)" "session_ctx s' = Some c\<^sub>1"
      using s' sr by (auto simp: Session_ProtectRtp_def Let_def split: if_split_asm prod.split_asm)
    from srtp_pairing_protect [OF pr sr(5) c\<^sub>1(1)] obtain c\<^sub>1' r\<^sub>1 where u: "lib_unprotect lib c' q m = (err_status_ok, c\<^sub>1', r\<^sub>1, n)" "take (nat n) r\<^sub>1 = take (nat n) p"
        "paired c\<^sub>1 c\<^sub>1'" by blast
    then obtain r' where "Session_UnprotectRtp lib now q m r = (True, r\<^sub>1, n, r')" "session_ctx r' = Some c\<^sub>1'"
      using sr by (simp add: Session_UnprotectRtp_def Let_def)
    then have "UnprotectRtp lib now q m b = Some (True, r\<^sub>1, n, b\<lparr>recv_session := Some r'\<rparr>) \<and>
        filters_paired paired (a\<lparr>send_session := Some s'\<rparr>) (b\<lparr>recv_session := Some r'\<rparr>)"
      using act sr u(3) c\<^sub>1(2) active by (simp add: UnprotectRtp_def filters_paired_def)
    with u(2) show "\<exists>r b'. UnprotectRtp lib now q m b = Some (True, r, n, b') \<and> take (nat n) r = take (nat n) p \<and>
        filters_paired paired (a\<lparr>send_session := Some s'\<rparr>) b'" by blast
  qed
qed

lemma srtp_relay_paired:
  assumes "srtp_pairing lib paired" and "filters_paired paired a b"
  shows "\<exists>rs. srtp_relay lib now packets a b = Some rs \<and> (\<forall>(x, y)\<in>set rs. x = y)"
  using assms(2)
proof (induction packets arbitrary: a b)
  case (Cons packet packets)
  obtain p n max_len where packet: "packet = (p, n, max_len)" by (cases packet)
  from assms(1) Cons.prems obtain ok q m a' where 1: "ProtectRtp lib now p n max_len a = Some (ok, q, m, a')"
      "\<not> ok \<longrightarrow> filters_paired paired a' b"
      "ok \<longrightarrow> (\<exists>r b'. UnprotectRtp lib now q m b = Some (True, r, n, b') \<and> take (nat n) r = take (nat n) p \<and> filters_paired paired a' b')"
    by (rule relay_step [where now = now and p = p and n = n and max_len = max_len])
  show ?case
  proof (cases ok)
    case True
    with 1(3) obtain r b' where u: "UnprotectRtp lib now q m b = Some (True, r, n, b')" "take (nat n) r = take (nat n) p"
        "filters_paired paired a' b'" by blast
    from Cons.IH [OF u(3)] 1(1) True u(1,2) packet show ?thesis by auto
  qed (use Cons.IH 1 packet in auto)
qed simp


lemma xor_lib_pairing: "srtp_pairing xor_lib (=)"
  by (simp add: srtp_pairing_def xor_lib_def key_policy_def map_idI comp_def)

lemma sdes_exchange_example:
  "fst (sdes_exchange xor_lib False [sdes_params 1 (replicate 30 7)] (sdes_params 1 (replicate 30 9)) SrtpFilter_new SrtpFilter_new)"
proof -
  have suite: "cipher_suite (sdes_params t key) = CS_AES_CM_128_HMAC_SHA1_80" "tag (sdes_params t key) = t" for t key
    by (simp_all add: sdes_params_def)
  have applied: "fst (ApplyParams xor_lib i (sdes_params t (replicate 30 x)) (sdes_params t' (replicate 30 y)) f)"
    if "cipher_suite (applied_send_params f) = []" for i t t' x y and f :: "bytes SrtpFilter"
  proof -
    have "CS_AES_CM_128_HMAC_SHA1_80 \<noteq> []" by (simp add: CS_AES_CM_128_HMAC_SHA1_80_def ascii_def)
    with that show ?thesis
      by (simp add: ApplyParams_def suite ParseKeyParams_sdes SRTP_MASTER_KEY_LEN_def CreateSrtpSessions_def SetSend_def
          SetRecv_def SetKey_def SrtpSession_Init_def SrtpSession_new_def Session_set_signal_silent_time_def xor_lib_def Let_def)
  qed
  have answer: "fst (Srtp_SetAnswer xor_lib i [sdes_params 1 (replicate 30 x)] src f)"
    if "Srtp_ExpectAnswer src f" "offer_params f = [sdes_params 1 (replicate 30 y)]" "cipher_suite (applied_send_params f) = []"
    for i x y src and f :: "bytes SrtpFilter"
    using that applied [OF that(3)]
    by (auto simp: Srtp_SetAnswer_def DoSetAnswer_def NegotiateParams_def CryptoParams_Matches_def suite Let_def split: prod.splits)
      (metis fst_conv)+
  have offer: "fst (Srtp_SetOffer ps src SrtpFilter_new)" "cipher_suite (applied_send_params (snd (Srtp_SetOffer ps src SrtpFilter_new))) = []"
      "offer_params (snd (Srtp_SetOffer ps src SrtpFilter_new)) = ps"
      "sf_state (snd (Srtp_SetOffer ps src SrtpFilter_new)) = (if src = CS_LOCAL then SF_SENTOFFER else SF_RECEIVEDOFFER)" for ps src
    by (simp_all add: Srtp_SetOffer_def Srtp_ExpectOffer_def StoreParams_def SrtpFilter_new_def CryptoParams_new_def)
  show ?thesis
    unfolding sdes_exchange_def case_prod_beta fst_conv
    by (intro conjI answer offer(1)) (simp_all add: offer Srtp_ExpectAnswer_def)
qed


end
