(* ===== verification/Sctp_Utils.thy ===== *)
theory Sctp_Utils
  imports Byte_Buffer "HOL-Library.Monad_Syntax"
begin

text \<open>
  \<^verbatim>\<open>talk/app/webrtc/sctputils.{h,cc}\<close>: the OPEN and OPEN_ACK messages of data channels, and the
  channel configuration of \<^verbatim>\<open>datachannelinterface.h\<close> and \<^verbatim>\<open>datachannel.h\<close> that they carry.
  \<open>None\<close> is the result false of a parser.
\<close>

section \<open>Configuration\<close>

record DataChannelInit =
  reliable :: bool
  ordered :: bool
  maxRetransmitTime :: int
  maxRetransmits :: int
  protocol :: bytes
  negotiated :: bool
  chan_id :: int

definition DataChannelInit_new :: DataChannelInit where
  "DataChannelInit_new = \<lparr>reliable = False, ordered = True, maxRetransmitTime = -1, maxRetransmits = -1, protocol = [],
     negotiated = False, chan_id = -1\<rparr>"

datatype OpenHandshakeRole = kOpener | kAcker | kNone

record InternalDataChannelInit = DataChannelInit +
  open_handshake_role :: OpenHandshakeRole

definition InternalDataChannelInit_of :: "DataChannelInit \<Rightarrow> InternalDataChannelInit" where
  "InternalDataChannelInit_of base =
     DataChannelInit.extend base (InternalDataChannelInit.fields (if negotiated base then kNone else kOpener))"

section \<open>Messages\<close>

definition DATA_CHANNEL_OPEN_MESSAGE_TYPE :: uint8 where "DATA_CHANNEL_OPEN_MESSAGE_TYPE = 0x03"
definition DATA_CHANNEL_OPEN_ACK_MESSAGE_TYPE :: uint8 where "DATA_CHANNEL_OPEN_ACK_MESSAGE_TYPE = 0x02"
definition DCOMCT_ORDERED_RELIABLE :: uint8 where "DCOMCT_ORDERED_RELIABLE = 0x00"
definition DCOMCT_ORDERED_PARTIAL_RTXS :: uint8 where "DCOMCT_ORDERED_PARTIAL_RTXS = 0x01"
definition DCOMCT_ORDERED_PARTIAL_TIME :: uint8 where "DCOMCT_ORDERED_PARTIAL_TIME = 0x02"
definition DCOMCT_UNORDERED_RELIABLE :: uint8 where "DCOMCT_UNORDERED_RELIABLE = 0x80"
definition DCOMCT_UNORDERED_PARTIAL_RTXS :: uint8 where "DCOMCT_UNORDERED_PARTIAL_RTXS = 0x81"
definition DCOMCT_UNORDERED_PARTIAL_TIME :: uint8 where "DCOMCT_UNORDERED_PARTIAL_TIME = 0x82"

text \<open>The label and the protocol are appended to the strings that the caller passes.\<close>

definition ParseDataChannelOpenMessage :: "bool \<Rightarrow> bytes \<Rightarrow> bytes \<Rightarrow> 'a DataChannelInit_scheme
    \<Rightarrow> (bytes \<times> 'a DataChannelInit_scheme) option" where
  "ParseDataChannelOpenMessage h payload label config = do {
     (message_type, buffer) \<leftarrow> ReadUInt8 h (ByteBuffer_of payload);
     if message_type \<noteq> DATA_CHANNEL_OPEN_MESSAGE_TYPE then None
     else do {
       (channel_type, buffer) \<leftarrow> ReadUInt8 h buffer;
       (priority, buffer) \<leftarrow> ReadUInt16 h buffer;
       (reliability_param, buffer) \<leftarrow> ReadUInt32 h buffer;
       (label_length, buffer) \<leftarrow> ReadUInt16 h buffer;
       (protocol_length, buffer) \<leftarrow> ReadUInt16 h buffer;
       (label, buffer) \<leftarrow> ReadString label (unat label_length) buffer;
       (proto, buffer) \<leftarrow> ReadString (protocol config) (unat protocol_length) buffer;
       let config = config\<lparr>protocol := proto,
         ordered := \<not> (channel_type = DCOMCT_UNORDERED_RELIABLE \<or> channel_type = DCOMCT_UNORDERED_PARTIAL_RTXS \<or>
                       channel_type = DCOMCT_UNORDERED_PARTIAL_TIME),
         maxRetransmits := -1, maxRetransmitTime := -1\<rparr>;
       Some (label,
         if channel_type = DCOMCT_ORDERED_PARTIAL_RTXS \<or> channel_type = DCOMCT_UNORDERED_PARTIAL_RTXS
         then config\<lparr>maxRetransmits := sint reliability_param\<rparr>
         else if channel_type = DCOMCT_ORDERED_PARTIAL_TIME \<or> channel_type = DCOMCT_UNORDERED_PARTIAL_TIME
         then config\<lparr>maxRetransmitTime := sint reliability_param\<rparr>
         else config) } }"

definition ParseDataChannelOpenAckMessage :: "bool \<Rightarrow> bytes \<Rightarrow> bool" where
  "ParseDataChannelOpenAckMessage h payload =
     (case ReadUInt8 h (ByteBuffer_of payload) of
        None \<Rightarrow> False
      | Some (message_type, buffer) \<Rightarrow> message_type = DATA_CHANNEL_OPEN_ACK_MESSAGE_TYPE)"

text \<open>The channel type and the reliability parameter.\<close>

definition open_channel_type :: "'a DataChannelInit_scheme \<Rightarrow> uint8 \<times> uint32" where
  "open_channel_type config =
     (if ordered config then
        if maxRetransmits config > -1 then (DCOMCT_ORDERED_PARTIAL_RTXS, word_of_int (maxRetransmits config))
        else if maxRetransmitTime config > -1 then (DCOMCT_ORDERED_PARTIAL_TIME, word_of_int (maxRetransmitTime config))
        else (DCOMCT_ORDERED_RELIABLE, 0)
      else
        if maxRetransmits config > -1 then (DCOMCT_UNORDERED_PARTIAL_RTXS, word_of_int (maxRetransmits config))
        else if maxRetransmitTime config > -1 then (DCOMCT_UNORDERED_PARTIAL_TIME, word_of_int (maxRetransmitTime config))
        else (DCOMCT_UNORDERED_RELIABLE, 0))"

definition WriteDataChannelOpenMessage :: "bool \<Rightarrow> bytes \<Rightarrow> 'a DataChannelInit_scheme \<Rightarrow> bytes" where
  "WriteDataChannelOpenMessage h label config =
     (let (channel_type, reliability_param) = open_channel_type config;
          priority = 0;
          buffer = ByteBuffer_Construct None (20 + length label + length (protocol config)) ORDER_NETWORK;
          buffer = WriteUInt8 h DATA_CHANNEL_OPEN_MESSAGE_TYPE buffer;
          buffer = WriteUInt8 h channel_type buffer;
          buffer = WriteUInt16 h priority buffer;
          buffer = WriteUInt32 h reliability_param buffer;
          buffer = WriteUInt16 h (of_nat (length label)) buffer;
          buffer = WriteUInt16 h (of_nat (length (protocol config))) buffer;
          buffer = WriteString label buffer;
          buffer = WriteString (protocol config) buffer
      in take (ByteBuffer_Length buffer) (ByteBuffer_Data buffer))"

definition WriteDataChannelOpenAckMessage :: "bool \<Rightarrow> bytes" where
  "WriteDataChannelOpenAckMessage h =
     (let buffer = WriteUInt8 h DATA_CHANNEL_OPEN_ACK_MESSAGE_TYPE (ByteBuffer_new_order ORDER_NETWORK)
      in take (ByteBuffer_Length buffer) (ByteBuffer_Data buffer))"

section \<open>Correctness\<close>

lemma bb_net_Construct: "bb_net (ByteBuffer_Construct None n ORDER_NETWORK)"
  by (simp add: bb_net_def bb_inv_def ByteBuffer_Construct_def Let_def)

lemma bb_contents_Construct: "bb_contents (ByteBuffer_Construct None n ord) = []"
  by (simp add: ByteBuffer_Construct_def bb_contents_def Let_def)

lemma take_written: "take (ByteBuffer_Length b) (ByteBuffer_Data b) = bb_contents b"
  by (simp add: ByteBuffer_Length_def ByteBuffer_Data_def bb_contents_def)

lemma WriteDataChannelOpenMessage_wire:
  "WriteDataChannelOpenMessage h label config =
     DATA_CHANNEL_OPEN_MESSAGE_TYPE # fst (open_channel_type config) # be_bytes 2 (0 :: uint16) @
     be_bytes 4 (snd (open_channel_type config)) @ be_bytes 2 (of_nat (length label) :: uint16) @
     be_bytes 2 (of_nat (length (protocol config)) :: uint16) @ label @ protocol config"
  unfolding WriteDataChannelOpenMessage_def Let_def case_prod_beta take_written
  by (simp add: buf_simps bb_contents_Construct inv_intros bb_net_Construct)

lemma ParseDataChannelOpenMessage_wire:
  fixes ct :: uint8 and prio ll pl :: uint16 and rp :: uint32 and config :: "'a DataChannelInit_scheme"
  assumes "length l = unat ll" and "length pr = unat pl"
  defines "config' \<equiv> config\<lparr>protocol := protocol config @ pr, ordered := ct \<notin> {0x80, 0x81, 0x82}, maxRetransmits := -1, maxRetransmitTime := -1\<rparr>"
  shows "ParseDataChannelOpenMessage h (DATA_CHANNEL_OPEN_MESSAGE_TYPE # ct # be_bytes 2 prio @ be_bytes 4 rp @ be_bytes 2 ll @ be_bytes 2 pl @ l @ pr)
     label config = Some (label @ l,
       if ct \<in> {0x01, 0x81} then config'\<lparr>maxRetransmits := sint rp\<rparr>
       else if ct \<in> {0x02, 0x82} then config'\<lparr>maxRetransmitTime := sint rp\<rparr> else config')"
proof -
  let ?w = "DATA_CHANNEL_OPEN_MESSAGE_TYPE # ct # be_bytes 2 prio @ be_bytes 4 rp @ be_bytes 2 ll @ be_bytes 2 pl @ l @ pr"
  obtain b\<^sub>1 where 1: "ReadUInt8 h (ByteBuffer_of ?w) = Some (be_word [DATA_CHANNEL_OPEN_MESSAGE_TYPE], b\<^sub>1)" "bb_net b\<^sub>1"
      "bb_contents b\<^sub>1 = tl ?w" by (rule bb_readsD [OF bb_reads_ReadUInt(1) bb_net_of, of _ "[DATA_CHANNEL_OPEN_MESSAGE_TYPE]" "tl ?w"]) simp_all
  obtain b\<^sub>2 where 2: "ReadUInt8 h b\<^sub>1 = Some (be_word [ct], b\<^sub>2)" "bb_net b\<^sub>2" "bb_contents b\<^sub>2 = drop 2 ?w"
    by (rule bb_readsD [OF bb_reads_ReadUInt(1) 1(2), of "[ct]" "drop 2 ?w"]) (simp_all add: 1(3))
  obtain b\<^sub>3 where 3: "ReadUInt16 h b\<^sub>2 = Some (be_word (be_bytes 2 prio), b\<^sub>3)" "bb_net b\<^sub>3" "bb_contents b\<^sub>3 = drop 4 ?w"
    by (rule bb_readsD [OF bb_reads_ReadUInt(2) 2(2), of "be_bytes 2 prio" "drop 4 ?w"]) (simp_all add: 2(3))
  obtain b\<^sub>4 where 4: "ReadUInt32 h b\<^sub>3 = Some (be_word (be_bytes 4 rp), b\<^sub>4)" "bb_net b\<^sub>4" "bb_contents b\<^sub>4 = drop 8 ?w"
    by (rule bb_readsD [OF bb_reads_ReadUInt(3) 3(2), of "be_bytes 4 rp" "drop 8 ?w"]) (simp_all add: 3(3))
  obtain b\<^sub>5 where 5: "ReadUInt16 h b\<^sub>4 = Some (be_word (be_bytes 2 ll), b\<^sub>5)" "bb_net b\<^sub>5" "bb_contents b\<^sub>5 = drop 10 ?w"
    by (rule bb_readsD [OF bb_reads_ReadUInt(2) 4(2), of "be_bytes 2 ll" "drop 10 ?w"]) (simp_all add: 4(3))
  obtain b\<^sub>6 where 6: "ReadUInt16 h b\<^sub>5 = Some (be_word (be_bytes 2 pl), b\<^sub>6)" "bb_net b\<^sub>6" "bb_contents b\<^sub>6 = l @ pr"
    by (rule bb_readsD [OF bb_reads_ReadUInt(2) 5(2), of "be_bytes 2 pl" "l @ pr"]) (simp_all add: 5(3))
  obtain b\<^sub>7 where 7: "ReadString label (unat ll) b\<^sub>6 = Some (label @ l, b\<^sub>7)" "bb_net b\<^sub>7" "bb_contents b\<^sub>7 = pr"
    by (rule bb_readsD [OF bb_reads_ReadString 6(2), of l pr]) (simp_all add: 6(3) assms)
  obtain b\<^sub>8 where 8: "ReadString (protocol config) (unat pl) b\<^sub>7 = Some (protocol config @ pr, b\<^sub>8)"
    by (rule bb_readsD [OF bb_reads_ReadString 7(2), of pr "[]"]) (simp_all add: 7(3) assms)
  show ?thesis
    unfolding ParseDataChannelOpenMessage_def
    by (simp add: 1(1) 2(1) 3(1) 4(1) 5(1) 6(1) 7(1) 8 config'_def DCOMCT_UNORDERED_RELIABLE_def DCOMCT_UNORDERED_PARTIAL_RTXS_def
        DCOMCT_UNORDERED_PARTIAL_TIME_def DCOMCT_ORDERED_PARTIAL_RTXS_def DCOMCT_ORDERED_PARTIAL_TIME_def)
qed

text \<open>C26: the configuration of a channel survives its OPEN message: label, protocol, ordering and reliability
  are read back as they were written, on hosts of either byte order, for every configuration that a
  channel accepts whose strings fit into 16-bit lengths.\<close>

theorem data_channel_open_roundtrip:
  assumes "length label < 65536" and "length (protocol config) < 65536"
    and "-1 \<le> maxRetransmits config" and "maxRetransmits config < 2 ^ 31"
    and "-1 \<le> maxRetransmitTime config" and "maxRetransmitTime config < 2 ^ 31"
    and "maxRetransmits config = -1 \<or> maxRetransmitTime config = -1" and "protocol config\<^sub>0 = []"
  shows "ParseDataChannelOpenMessage h' (WriteDataChannelOpenMessage h label config) [] config\<^sub>0 =
    Some (label, config\<^sub>0\<lparr>protocol := protocol config, ordered := ordered config, maxRetransmits := maxRetransmits config,
      maxRetransmitTime := maxRetransmitTime config\<rparr>)"
proof -
  have len: "unat (of_nat (length label) :: uint16) = length label" "unat (of_nat (length (protocol config)) :: uint16) = length (protocol config)"
    using assms(1,2) by (simp_all add: unat_of_nat_small)
  have sint: "sint (word_of_int v :: uint32) = v" if "0 \<le> v" "v < 2 ^ 31" for v
    using that by (simp add: signed_of_int signed_take_bit_int_eq_self)
  show ?thesis
    unfolding WriteDataChannelOpenMessage_wire
    by (subst ParseDataChannelOpenMessage_wire)
      (use assms len in \<open>auto simp: sint open_channel_type_def DCOMCT_UNORDERED_RELIABLE_def DCOMCT_UNORDERED_PARTIAL_RTXS_def
        DCOMCT_UNORDERED_PARTIAL_TIME_def DCOMCT_ORDERED_PARTIAL_RTXS_def DCOMCT_ORDERED_PARTIAL_TIME_def DCOMCT_ORDERED_RELIABLE_def\<close>)
qed

theorem data_channel_open_roundtrip_witness:
  "ParseDataChannelOpenMessage True (WriteDataChannelOpenMessage False (ascii ''chat'')
      (DataChannelInit_new\<lparr>ordered := False, maxRetransmits := 3, protocol := ascii ''p''\<rparr>)) [] DataChannelInit_new =
    Some (ascii ''chat'', DataChannelInit_new\<lparr>protocol := ascii ''p'', ordered := False, maxRetransmits := 3, maxRetransmitTime := -1\<rparr>)"
  using data_channel_open_roundtrip [of "ascii ''chat''" "DataChannelInit_new\<lparr>ordered := False, maxRetransmits := 3, protocol := ascii ''p''\<rparr>"
      DataChannelInit_new True False] by (simp add: DataChannelInit_new_def ascii_def)

lemma data_channel_open_ack: "ParseDataChannelOpenAckMessage h' (WriteDataChannelOpenAckMessage h)"
proof -
  have "bb_net (ByteBuffer_new_order ORDER_NETWORK)" "bb_contents (ByteBuffer_new_order ORDER_NETWORK) = []"
    by (simp_all add: ByteBuffer_new_order_def bb_net_Construct bb_contents_Construct)
  then have w: "WriteDataChannelOpenAckMessage h = [DATA_CHANNEL_OPEN_ACK_MESSAGE_TYPE]"
    by (simp add: WriteDataChannelOpenAckMessage_def take_written buf_simps)
  obtain b where "ReadUInt8 h' (ByteBuffer_of [DATA_CHANNEL_OPEN_ACK_MESSAGE_TYPE]) = Some (be_word [DATA_CHANNEL_OPEN_ACK_MESSAGE_TYPE], b)"
    by (rule bb_readsD [OF bb_reads_ReadUInt(1) bb_net_of, of _ "[DATA_CHANNEL_OPEN_ACK_MESSAGE_TYPE]" "[]"]) simp_all
  then show ?thesis by (simp add: w ParseDataChannelOpenAckMessage_def)
qed

end
