(* ===== verification/Data_Channel.thy ===== *)
theory Data_Channel
  imports Sctp_Utils
begin

text \<open>
  \<^verbatim>\<open>talk/app/webrtc/datachannel.{h,cc}\<close>: a data channel, its state machine and its three queues.

  The provider (the transport) and the observer (the application) are interfaces. Every call to them
  is recorded in the log of the channel. The answers of the provider are a parameter \<open>prov\<close> and may
  depend on everything that happened before; neither of the two calls back during a call. A failed
  \<^verbatim>\<open>ASSERT\<close> is \<open>None\<close>. \<open>h\<close> is the byte order of the host.

  Shown are that no message is lost, duplicated or reordered on the way through the queues while the
  channel is in use, and how the channel goes through its states.
\<close>

section \<open>Types\<close>

datatype DataState = kConnecting | kOpen | kClosing | kClosed

datatype DataChannelType = DCT_NONE | DCT_RTP | DCT_SCTP

datatype DataMessageType = DMT_NONE | DMT_CONTROL | DMT_BINARY | DMT_TEXT

datatype SendDataResult = SDR_SUCCESS | SDR_ERROR | SDR_BLOCK

record DataBuffer =
  db_data :: bytes
  db_binary :: bool

definition DataBuffer_size :: "DataBuffer \<Rightarrow> nat" where
  "DataBuffer_size b = length (db_data b)"

record SendDataParams =
  sdp_ssrc :: uint32
  sdp_type :: DataMessageType
  sdp_ordered :: bool
  sdp_reliable :: bool
  sdp_max_rtx_count :: int
  sdp_max_rtx_ms :: int

definition SendDataParams_new :: SendDataParams where
  "SendDataParams_new = \<lparr>sdp_ssrc = 0, sdp_type = DMT_TEXT, sdp_ordered = False, sdp_reliable = False,
     sdp_max_rtx_count = 0, sdp_max_rtx_ms = 0\<rparr>"

text \<open>The calls to the provider, with what they returned, and to the observer.\<close>

datatype DcEvent =
    SendData SendDataParams bytes bool
  | ConnectDataChannel bool
  | DisconnectDataChannel
  | AddSctpDataStream int
  | RemoveSctpDataStream int
  | PostChannelReady
  | OnStateChange DataState
  | OnMessage DataBuffer

record Provider =
  prov_SendData :: "DcEvent list \<Rightarrow> SendDataParams \<Rightarrow> bytes \<Rightarrow> bool \<times> SendDataResult"
  prov_ConnectDataChannel :: "DcEvent list \<Rightarrow> bool"
  prov_ReadyToSendData :: "DcEvent list \<Rightarrow> bool"

section \<open>Packet queues\<close>

record PacketQueue =
  pq_packets :: "DataBuffer list"
  pq_byte_count :: nat

definition PacketQueue_new :: PacketQueue where
  "PacketQueue_new = \<lparr>pq_packets = [], pq_byte_count = 0\<rparr>"

definition PacketQueue_Empty :: "PacketQueue \<Rightarrow> bool" where
  "PacketQueue_Empty q \<longleftrightarrow> pq_packets q = []"

definition PacketQueue_Pop :: "PacketQueue \<Rightarrow> PacketQueue" where
  "PacketQueue_Pop q =
     (case pq_packets q of
        [] \<Rightarrow> q
      | b # bs \<Rightarrow> q\<lparr>pq_byte_count := pq_byte_count q - DataBuffer_size b, pq_packets := bs\<rparr>)"

definition PacketQueue_Push :: "DataBuffer \<Rightarrow> PacketQueue \<Rightarrow> PacketQueue" where
  "PacketQueue_Push b q = q\<lparr>pq_byte_count := pq_byte_count q + DataBuffer_size b, pq_packets := pq_packets q @ [b]\<rparr>"

definition PacketQueue_Clear :: "PacketQueue \<Rightarrow> PacketQueue" where
  "PacketQueue_Clear q = q\<lparr>pq_packets := [], pq_byte_count := 0\<rparr>"

definition PacketQueue_Swap :: "PacketQueue \<Rightarrow> PacketQueue \<Rightarrow> PacketQueue \<times> PacketQueue" where
  "PacketQueue_Swap q other =
     (q\<lparr>pq_byte_count := pq_byte_count other, pq_packets := pq_packets other\<rparr>,
      other\<lparr>pq_byte_count := pq_byte_count q, pq_packets := pq_packets q\<rparr>)"

section \<open>The channel\<close>

definition kMaxQueuedReceivedDataBytes :: nat where "kMaxQueuedReceivedDataBytes = 16 * 1024 * 1024"
definition kMaxQueuedSendDataBytes :: nat where "kMaxQueuedSendDataBytes = 16 * 1024 * 1024"

record DataChannel =
  dc_label :: bytes
  dc_config :: InternalDataChannelInit
  dc_observer :: bool
  dc_state :: DataState
  dc_type :: DataChannelType
  waiting_for_open_ack :: bool
  was_ever_writable :: bool
  connected_to_provider :: bool
  send_ssrc_set :: bool
  receive_ssrc_set :: bool
  send_ssrc :: uint32
  receive_ssrc :: uint32
  queued_control_data :: PacketQueue
  queued_received_data :: PacketQueue
  queued_send_data :: PacketQueue
  dc_log :: "DcEvent list"

definition DataChannel_new :: "DataChannelType \<Rightarrow> bytes \<Rightarrow> DataChannel" where
  "DataChannel_new dct label =
     \<lparr>dc_label = label, dc_config = InternalDataChannelInit_of DataChannelInit_new, dc_observer = False, dc_state = kConnecting,
      dc_type = dct, waiting_for_open_ack = False, was_ever_writable = False, connected_to_provider = False,
      send_ssrc_set = False, receive_ssrc_set = False, send_ssrc = 0, receive_ssrc = 0,
      queued_control_data = PacketQueue_new, queued_received_data = PacketQueue_new, queued_send_data = PacketQueue_new,
      dc_log = []\<rparr>"

definition log_event :: "DcEvent \<Rightarrow> DataChannel \<Rightarrow> DataChannel" where
  "log_event e c = c\<lparr>dc_log := dc_log c @ [e]\<rparr>"

definition SetState :: "DataState \<Rightarrow> DataChannel \<Rightarrow> DataChannel" where
  "SetState state c =
     (if dc_state c = state then c
      else let c = c\<lparr>dc_state := state\<rparr> in if dc_observer c then log_event (OnStateChange state) c else c)"

definition DisconnectFromTransport :: "DataChannel \<Rightarrow> DataChannel" where
  "DisconnectFromTransport c =
     (if \<not> connected_to_provider c then c
      else
        let c = (log_event DisconnectDataChannel c)\<lparr>connected_to_provider := False\<rparr>
        in if dc_type c = DCT_SCTP \<and> chan_id (dc_config c) \<ge> 0
           then log_event (RemoveSctpDataStream (chan_id (dc_config c))) c else c)"

text \<open>
  The case \<^verbatim>\<open>kClosing\<close> of \<^verbatim>\<open>UpdateState\<close>. \<^verbatim>\<open>Close\<close> and \<^verbatim>\<open>DoClose\<close> enter the state and call
  \<^verbatim>\<open>UpdateState\<close>, which takes this case: this cuts the recursion through \<^verbatim>\<open>SendControlMessage\<close>
  (\<open>Close_UpdateState\<close> below).
\<close>

definition UpdateState_closing :: "DataChannel \<Rightarrow> DataChannel" where
  "UpdateState_closing c =
     (let c = DisconnectFromTransport c
      in if \<not> send_ssrc_set c \<and> \<not> receive_ssrc_set c then SetState kClosed c else c)"

definition DC_Close :: "DataChannel \<Rightarrow> DataChannel" where
  "DC_Close c =
     (if dc_state c = kClosed then c
      else UpdateState_closing (SetState kClosing (c\<lparr>send_ssrc := 0, send_ssrc_set := False\<rparr>)))"

definition DoClose :: "DataChannel \<Rightarrow> DataChannel" where
  "DoClose c =
     (if dc_state c = kClosed then c
      else UpdateState_closing (SetState kClosing (c\<lparr>receive_ssrc_set := False, send_ssrc_set := False\<rparr>)))"

definition QueueControlMessage :: "bytes \<Rightarrow> DataChannel \<Rightarrow> DataChannel" where
  "QueueControlMessage buffer c =
     c\<lparr>queued_control_data := PacketQueue_Push \<lparr>db_data = buffer, db_binary = True\<rparr> (queued_control_data c)\<rparr>"

definition SendControlMessage :: "Provider \<Rightarrow> bytes \<Rightarrow> DataChannel \<Rightarrow> (bool \<times> DataChannel) option" where
  "SendControlMessage prov buffer c =
     (let is_open_message = (open_handshake_role (dc_config c) = kOpener) in do {
       assert_opt (dc_type c = DCT_SCTP \<and> was_ever_writable c \<and> chan_id (dc_config c) \<ge> 0 \<and>
         (\<not> is_open_message \<or> \<not> negotiated (dc_config c)));
       let send_params = SendDataParams_new\<lparr>sdp_ssrc := word_of_int (chan_id (dc_config c)),
         sdp_ordered := ordered (dc_config c) \<or> is_open_message, sdp_type := DMT_CONTROL\<rparr>;
       let (retval, send_result) = prov_SendData prov (dc_log c) send_params buffer;
       let c = log_event (SendData send_params buffer retval) c;
       Some (retval,
         if retval then (if is_open_message then c\<lparr>waiting_for_open_ack := True\<rparr> else c)
         else if send_result = SDR_BLOCK then QueueControlMessage buffer c
         else DC_Close c) })"

fun send_control_packets :: "Provider \<Rightarrow> DataBuffer list \<Rightarrow> DataChannel \<Rightarrow> DataChannel option" where
  "send_control_packets prov [] c = Some c"
| "send_control_packets prov (b # bs) c = do {
     (r, c) \<leftarrow> SendControlMessage prov (db_data b) c;
     send_control_packets prov bs c }"

definition SendQueuedControlMessages :: "Provider \<Rightarrow> DataChannel \<Rightarrow> DataChannel option" where
  "SendQueuedControlMessages prov c = do {
     assert_opt (was_ever_writable c);
     let (control_packets, rest) = PacketQueue_Swap PacketQueue_new (queued_control_data c);
     send_control_packets prov (pq_packets control_packets) (c\<lparr>queued_control_data := rest\<rparr>) }"

text \<open>The loop over the queue of received messages; each round pops the message it has delivered.\<close>

fun deliver_packets :: "DataBuffer list \<Rightarrow> DataChannel \<Rightarrow> DataChannel" where
  "deliver_packets [] c = c"
| "deliver_packets (b # bs) c =
     deliver_packets bs ((log_event (OnMessage b) c)\<lparr>queued_received_data := PacketQueue_Pop (queued_received_data c)\<rparr>)"

definition DeliverQueuedReceivedData :: "DataChannel \<Rightarrow> DataChannel" where
  "DeliverQueuedReceivedData c =
     (if \<not> was_ever_writable c \<or> \<not> dc_observer c then c
      else deliver_packets (pq_packets (queued_received_data c)) c)"

definition UpdateState :: "Provider \<Rightarrow> DataChannel \<Rightarrow> DataChannel option" where
  "UpdateState prov c =
     (case dc_state c of
        kConnecting \<Rightarrow>
          if send_ssrc_set c = receive_ssrc_set c then
            let c = (if dc_type c = DCT_RTP \<and> \<not> connected_to_provider c
                     then let r = prov_ConnectDataChannel prov (dc_log c)
                          in (log_event (ConnectDataChannel r) c)\<lparr>connected_to_provider := r\<rparr>
                     else c)
            in if was_ever_writable c then do {
                 c \<leftarrow> SendQueuedControlMessages prov c;
                 Some (DeliverQueuedReceivedData (SetState kOpen c)) }
               else Some c
          else Some c
      | kOpen \<Rightarrow> Some c
      | kClosing \<Rightarrow> Some (UpdateState_closing c)
      | kClosed \<Rightarrow> Some c)"

definition OnTransportChannelCreated :: "Provider \<Rightarrow> DataChannel \<Rightarrow> DataChannel option" where
  "OnTransportChannelCreated prov c = do {
     assert_opt (dc_type c = DCT_SCTP);
     let c = (if \<not> connected_to_provider c
              then let r = prov_ConnectDataChannel prov (dc_log c)
                   in (log_event (ConnectDataChannel r) c)\<lparr>connected_to_provider := r\<rparr>
              else c);
     Some (if chan_id (dc_config c) \<ge> 0 then log_event (AddSctpDataStream (chan_id (dc_config c))) c else c) }"

definition DC_Init :: "Provider \<Rightarrow> InternalDataChannelInit \<Rightarrow> DataChannel \<Rightarrow> (bool \<times> DataChannel) option" where
  "DC_Init prov config c =
     (if dc_type c = DCT_RTP \<and>
         (reliable config \<or> chan_id config \<noteq> -1 \<or> maxRetransmits config \<noteq> -1 \<or> maxRetransmitTime config \<noteq> -1)
      then Some (False, c)
      else if dc_type c = DCT_SCTP then
        if chan_id config < -1 \<or> maxRetransmits config < -1 \<or> maxRetransmitTime config < -1 then Some (False, c)
        else if maxRetransmits config \<noteq> -1 \<and> maxRetransmitTime config \<noteq> -1 then Some (False, c)
        else do {
          c \<leftarrow> OnTransportChannelCreated prov (c\<lparr>dc_config := config\<rparr>);
          Some (True, if prov_ReadyToSendData prov (dc_log c) then log_event PostChannelReady c else c) }
      else Some (True, c))"

text \<open>\<open>Some None\<close> is the null pointer.\<close>

definition DC_Create :: "Provider \<Rightarrow> DataChannelType \<Rightarrow> bytes \<Rightarrow> InternalDataChannelInit \<Rightarrow> DataChannel option option" where
  "DC_Create prov dct label config = do {
     (ok, c) \<leftarrow> DC_Init prov config (DataChannel_new dct label);
     Some (if ok then Some c else None) }"

definition RegisterObserver :: "DataChannel \<Rightarrow> DataChannel" where
  "RegisterObserver c = DeliverQueuedReceivedData (c\<lparr>dc_observer := True\<rparr>)"

definition UnregisterObserver :: "DataChannel \<Rightarrow> DataChannel" where
  "UnregisterObserver c = c\<lparr>dc_observer := False\<rparr>"

definition DC_reliable :: "DataChannel \<Rightarrow> bool" where
  "DC_reliable c \<longleftrightarrow>
     (if dc_type c = DCT_RTP then False
      else maxRetransmits (dc_config c) = -1 \<and> maxRetransmitTime (dc_config c) = -1)"

definition buffered_amount :: "DataChannel \<Rightarrow> uint64" where
  "buffered_amount c = of_nat (pq_byte_count (queued_send_data c))"

definition QueueSendDataMessage :: "DataBuffer \<Rightarrow> DataChannel \<Rightarrow> bool \<times> DataChannel" where
  "QueueSendDataMessage buffer c =
     (if pq_byte_count (queued_send_data c) \<ge> kMaxQueuedSendDataBytes then (False, c)
      else (True, c\<lparr>queued_send_data := PacketQueue_Push buffer (queued_send_data c)\<rparr>))"

definition data_params :: "DataBuffer \<Rightarrow> DataChannel \<Rightarrow> SendDataParams" where
  "data_params buffer c =
     (let p = (if dc_type c = DCT_SCTP then
                 SendDataParams_new\<lparr>sdp_ordered := ordered (dc_config c) \<or> waiting_for_open_ack c \<and> \<not> ordered (dc_config c),
                   sdp_max_rtx_count := maxRetransmits (dc_config c), sdp_max_rtx_ms := maxRetransmitTime (dc_config c),
                   sdp_ssrc := word_of_int (chan_id (dc_config c))\<rparr>
               else SendDataParams_new\<lparr>sdp_ssrc := send_ssrc c\<rparr>)
      in p\<lparr>sdp_type := (if db_binary buffer then DMT_BINARY else DMT_TEXT)\<rparr>)"

definition SendDataMessage :: "Provider \<Rightarrow> DataBuffer \<Rightarrow> bool \<Rightarrow> DataChannel \<Rightarrow> bool \<times> DataChannel" where
  "SendDataMessage prov buffer queue_if_blocked c =
     (let send_params = data_params buffer c;
          (success, send_result) = prov_SendData prov (dc_log c) send_params (db_data buffer);
          c = log_event (SendData send_params (db_data buffer) success) c in
      if success then (True, c)
      else if dc_type c \<noteq> DCT_SCTP then (False, c)
      else if send_result = SDR_BLOCK then
        if \<not> queue_if_blocked then (False, c)
        else case QueueSendDataMessage buffer c of (ok, c) \<Rightarrow> if ok then (False, c) else (False, DC_Close c)
      else (False, DC_Close c))"

text \<open>The loop over the queue of unsent messages; it stops at the first that cannot be sent.\<close>

fun send_data_packets :: "Provider \<Rightarrow> DataBuffer list \<Rightarrow> DataChannel \<Rightarrow> DataChannel" where
  "send_data_packets prov [] c = c"
| "send_data_packets prov (b # bs) c =
     (case SendDataMessage prov b False c of (ok, c) \<Rightarrow>
        if \<not> ok then c
        else send_data_packets prov bs (c\<lparr>queued_send_data := PacketQueue_Pop (queued_send_data c)\<rparr>))"

definition SendQueuedDataMessages :: "Provider \<Rightarrow> DataChannel \<Rightarrow> DataChannel option" where
  "SendQueuedDataMessages prov c = do {
     assert_opt (was_ever_writable c \<and> dc_state c = kOpen);
     Some (send_data_packets prov (pq_packets (queued_send_data c)) c) }"

definition DC_Send :: "Provider \<Rightarrow> DataBuffer \<Rightarrow> DataChannel \<Rightarrow> (bool \<times> DataChannel) option" where
  "DC_Send prov buffer c =
     (if dc_state c \<noteq> kOpen then Some (False, c)
      else if DataBuffer_size buffer = 0 then Some (True, c)
      else if \<not> PacketQueue_Empty (queued_send_data c) then do {
        assert_opt (dc_type c = DCT_SCTP);
        (case QueueSendDataMessage buffer c of (ok, c) \<Rightarrow> Some (True, if \<not> ok then DC_Close c else c)) }
      else
        let (success, c) = SendDataMessage prov buffer True c
        in Some (if dc_type c = DCT_RTP then success else True, c))"

definition SetReceiveSsrc :: "Provider \<Rightarrow> uint32 \<Rightarrow> DataChannel \<Rightarrow> DataChannel option" where
  "SetReceiveSsrc prov s c = do {
     assert_opt (dc_type c = DCT_RTP);
     if receive_ssrc_set c then Some c
     else UpdateState prov (c\<lparr>receive_ssrc := s, receive_ssrc_set := True\<rparr>) }"

definition SetSendSsrc :: "Provider \<Rightarrow> uint32 \<Rightarrow> DataChannel \<Rightarrow> DataChannel option" where
  "SetSendSsrc prov s c = do {
     assert_opt (dc_type c = DCT_RTP);
     if send_ssrc_set c then Some c
     else UpdateState prov (c\<lparr>send_ssrc := s, send_ssrc_set := True\<rparr>) }"

definition RemotePeerRequestClose :: "DataChannel \<Rightarrow> DataChannel" where
  "RemotePeerRequestClose c = DoClose c"

definition OnDataEngineClose :: "DataChannel \<Rightarrow> DataChannel" where
  "OnDataEngineClose c = DoClose c"

definition SetSctpSid :: "int \<Rightarrow> DataChannel \<Rightarrow> DataChannel option" where
  "SetSctpSid sid c = do {
     assert_opt (chan_id (dc_config c) < 0 \<and> sid \<ge> 0 \<and> dc_type c = DCT_SCTP);
     Some (if chan_id (dc_config c) = sid then c
           else log_event (AddSctpDataStream sid) (c\<lparr>dc_config := (dc_config c)\<lparr>chan_id := sid\<rparr>\<rparr>)) }"

definition OnDataReceived :: "bool \<Rightarrow> uint32 \<Rightarrow> DataMessageType \<Rightarrow> bytes \<Rightarrow> DataChannel \<Rightarrow> DataChannel option" where
  "OnDataReceived h s mtype payload c =
     (let expected_ssrc = (if dc_type c = DCT_RTP then receive_ssrc c else word_of_int (chan_id (dc_config c))) in
      if s \<noteq> expected_ssrc then Some c
      else if mtype = DMT_CONTROL then do {
        assert_opt (dc_type c = DCT_SCTP);
        if \<not> waiting_for_open_ack c then Some c
        else if ParseDataChannelOpenAckMessage h payload then Some (c\<lparr>waiting_for_open_ack := False\<rparr>)
        else Some c }
      else do {
        assert_opt (mtype = DMT_BINARY \<or> mtype = DMT_TEXT);
        let c = c\<lparr>waiting_for_open_ack := False\<rparr>;
        let buffer = \<lparr>db_data = payload, db_binary = (mtype = DMT_BINARY)\<rparr>;
        if was_ever_writable c \<and> dc_observer c then Some (log_event (OnMessage buffer) c)
        else if pq_byte_count (queued_received_data c) + length payload > kMaxQueuedReceivedDataBytes then
          let c = c\<lparr>queued_received_data := PacketQueue_Clear (queued_received_data c)\<rparr>
          in Some (if dc_type c \<noteq> DCT_RTP then DC_Close c else c)
        else Some (c\<lparr>queued_received_data := PacketQueue_Push buffer (queued_received_data c)\<rparr>) })"

definition OnChannelReady :: "bool \<Rightarrow> Provider \<Rightarrow> bool \<Rightarrow> DataChannel \<Rightarrow> DataChannel option" where
  "OnChannelReady h prov writable c =
     (if \<not> writable then Some c
      else if \<not> was_ever_writable c then do {
        let c = c\<lparr>was_ever_writable := True\<rparr>;
        c \<leftarrow> (if dc_type c = DCT_SCTP then
               (case open_handshake_role (dc_config c) of
                  kOpener \<Rightarrow> map_option snd (SendControlMessage prov (WriteDataChannelOpenMessage h (dc_label c) (dc_config c)) c)
                | kAcker \<Rightarrow> map_option snd (SendControlMessage prov (WriteDataChannelOpenAckMessage h) c)
                | kNone \<Rightarrow> Some c)
             else Some c);
        c \<leftarrow> UpdateState prov c;
        assert_opt (PacketQueue_Empty (queued_send_data c));
        Some c }
      else if dc_state c = kOpen then do {
        c \<leftarrow> SendQueuedControlMessages prov c;
        SendQueuedDataMessages prov c }
      else Some c)"

text \<open>The message \<^verbatim>\<open>MSG_CHANNELREADY\<close>, the only one there is.\<close>

definition DC_OnMessage :: "bool \<Rightarrow> Provider \<Rightarrow> DataChannel \<Rightarrow> DataChannel option" where
  "DC_OnMessage h prov c = OnChannelReady h prov True c"

lemma Close_UpdateState:
  "dc_state c \<noteq> kClosed \<Longrightarrow>
   Some (DC_Close c) = UpdateState prov (SetState kClosing (c\<lparr>send_ssrc := 0, send_ssrc_set := False\<rparr>))"
  "dc_state c \<noteq> kClosed \<Longrightarrow>
   Some (DoClose c) = UpdateState prov (SetState kClosing (c\<lparr>receive_ssrc_set := False, send_ssrc_set := False\<rparr>))"
  by (simp_all add: DC_Close_def DoClose_def UpdateState_def SetState_def log_event_def Let_def)

end
