(* ===== verification/Data_Channel_Correct.thy ===== *)
theory Data_Channel_Correct
  imports Data_Channel
begin

text \<open>
  What a data channel promises: the messages that the application sends and receives pass its queues
  in order, and its states follow each other in order when the transport does not fail.
\<close>

section \<open>Histories of calls\<close>

datatype DcCall =
    CRegister | CUnregister | CClose | CSend DataBuffer | CRemoteClose | CEngineClose | CTransportCreated
  | CReady bool | CReceive uint32 DataMessageType bytes | CSetSid int

text \<open>
  A call on a channel of SCTP, together with the messages accepted so far: those that \<^verbatim>\<open>Send\<close> took and
  those that arrived for this channel.
\<close>

type_synonym dc_history = "DataChannel \<times> DataBuffer list \<times> DataBuffer list"

definition for_channel :: "uint32 \<Rightarrow> DataMessageType \<Rightarrow> DataChannel \<Rightarrow> bool" where
  "for_channel s mtype c \<longleftrightarrow> s = word_of_int (chan_id (dc_config c)) \<and> mtype \<noteq> DMT_CONTROL"

fun dc_call :: "bool \<Rightarrow> Provider \<Rightarrow> DcCall \<Rightarrow> dc_history \<Rightarrow> dc_history option" where
  "dc_call h prov CRegister (c, sent, received) = Some (RegisterObserver c, sent, received)"
| "dc_call h prov CUnregister (c, sent, received) = Some (UnregisterObserver c, sent, received)"
| "dc_call h prov CClose (c, sent, received) = Some (DC_Close c, sent, received)"
| "dc_call h prov (CSend b) (c, sent, received) = do {
     (ok, c') \<leftarrow> DC_Send prov b c;
     Some (c', if ok \<and> DataBuffer_size b \<noteq> 0 then sent @ [b] else sent, received) }"
| "dc_call h prov CRemoteClose (c, sent, received) = Some (RemotePeerRequestClose c, sent, received)"
| "dc_call h prov CEngineClose (c, sent, received) = Some (OnDataEngineClose c, sent, received)"
| "dc_call h prov CTransportCreated (c, sent, received) = do {
     c \<leftarrow> OnTransportChannelCreated prov c;
     Some (c, sent, received) }"
| "dc_call h prov (CReady writable) (c, sent, received) = do {
     c \<leftarrow> OnChannelReady h prov writable c;
     Some (c, sent, received) }"
| "dc_call h prov (CReceive s mtype payload) (c, sent, received) = do {
     c' \<leftarrow> OnDataReceived h s mtype payload c;
     Some (c', sent, if for_channel s mtype c then received @ [\<lparr>db_data = payload, db_binary = (mtype = DMT_BINARY)\<rparr>] else received) }"
| "dc_call h prov (CSetSid sid) (c, sent, received) = do {
     c \<leftarrow> SetSctpSid sid c;
     Some (c, sent, received) }"

fun dc_run :: "bool \<Rightarrow> Provider \<Rightarrow> DcCall list \<Rightarrow> dc_history \<Rightarrow> dc_history option" where
  "dc_run h prov [] s = Some s"
| "dc_run h prov (call # calls) s = do { s \<leftarrow> dc_call h prov call s; dc_run h prov calls s }"

section \<open>Messages in the log\<close>

definition sent_event :: "DcEvent \<Rightarrow> DataBuffer list" where
  "sent_event e = (case e of SendData p d True \<Rightarrow> if sdp_type p = DMT_CONTROL then [] else [\<lparr>db_data = d, db_binary = (sdp_type p = DMT_BINARY)\<rparr>] | _ \<Rightarrow> [])"

definition delivered_event :: "DcEvent \<Rightarrow> DataBuffer list" where
  "delivered_event e = (case e of OnMessage b \<Rightarrow> [b] | _ \<Rightarrow> [])"

text \<open>The data messages that the transport took, and those that the observer got.\<close>

definition sent_data :: "DcEvent list \<Rightarrow> DataBuffer list" where
  "sent_data log = concat (map sent_event log)"

definition delivered :: "DcEvent list \<Rightarrow> DataBuffer list" where
  "delivered log = concat (map delivered_event log)"

text \<open>All messages that went through, or are in, the two queues.\<close>

definition outgoing :: "DataChannel \<Rightarrow> DataBuffer list" where
  "outgoing c = sent_data (dc_log c) @ pq_packets (queued_send_data c)"

definition incoming :: "DataChannel \<Rightarrow> DataBuffer list" where
  "incoming c = delivered (dc_log c) @ pq_packets (queued_received_data c)"

definition pq_ok :: "PacketQueue \<Rightarrow> bool" where
  "pq_ok q \<longleftrightarrow> pq_byte_count q = sum_list (map DataBuffer_size (pq_packets q))"

lemma pq_ok_intros:
  "pq_ok PacketQueue_new" "pq_ok q \<Longrightarrow> pq_ok (PacketQueue_Push b q)" "pq_ok q \<Longrightarrow> pq_ok (PacketQueue_Pop q)" "pq_ok (PacketQueue_Clear q)"
  by (auto simp: pq_ok_def PacketQueue_new_def PacketQueue_Push_def PacketQueue_Pop_def PacketQueue_Clear_def split: list.splits)

text \<open>What a call that moves no message keeps.\<close>

definition same_traffic :: "DataChannel \<Rightarrow> DataChannel \<Rightarrow> bool" where
  "same_traffic c c' \<longleftrightarrow> outgoing c' = outgoing c \<and> incoming c' = incoming c \<and> dc_type c' = dc_type c \<and>
     (pq_ok (queued_send_data c) \<longrightarrow> pq_ok (queued_send_data c')) \<and>
     (pq_ok (queued_received_data c) \<longrightarrow> pq_ok (queued_received_data c'))"

lemma same_traffic_refl: "same_traffic c c"
  by (simp add: same_traffic_def)

lemma same_traffic_trans: "same_traffic a b \<Longrightarrow> same_traffic b c \<Longrightarrow> same_traffic a c"
  by (simp add: same_traffic_def)

lemma same_traffic_log:
  assumes "dc_log c' = dc_log c @ es" and "sent_data es = []" and "delivered es = []" and "dc_type c' = dc_type c"
    and "queued_send_data c' = queued_send_data c" and "queued_received_data c' = queued_received_data c"
  shows "same_traffic c c'"
  using assms by (simp add: same_traffic_def outgoing_def incoming_def sent_data_def delivered_def)

lemma event_simps [simp]:
  "sent_event (SendData p d ok) = (if ok \<and> sdp_type p \<noteq> DMT_CONTROL then [\<lparr>db_data = d, db_binary = (sdp_type p = DMT_BINARY)\<rparr>] else [])"
  "sent_event (ConnectDataChannel r) = []" "sent_event DisconnectDataChannel = []" "sent_event (AddSctpDataStream n) = []"
  "sent_event (RemoveSctpDataStream n) = []" "sent_event PostChannelReady = []" "sent_event (OnStateChange st) = []"
  "sent_event (OnMessage b) = []"
  "delivered_event (SendData p d ok) = []" "delivered_event (ConnectDataChannel r) = []" "delivered_event DisconnectDataChannel = []"
  "delivered_event (AddSctpDataStream n) = []" "delivered_event (RemoveSctpDataStream n) = []" "delivered_event PostChannelReady = []"
  "delivered_event (OnStateChange st) = []" "delivered_event (OnMessage b) = [b]"
  by (simp_all add: sent_event_def delivered_event_def split: bool.splits)

lemma log_simps [simp]:
  "sent_data [] = []" "sent_data (e # es) = sent_event e @ sent_data es" "sent_data (es @ es') = sent_data es @ sent_data es'"
  "delivered [] = []" "delivered (e # es) = delivered_event e @ delivered es" "delivered (es @ es') = delivered es @ delivered es'"
  by (simp_all add: sent_data_def delivered_def)

lemma traffic_silent:
  "same_traffic c (SetState st c)" "same_traffic c (DisconnectFromTransport c)" "same_traffic c (UpdateState_closing c)"
  "same_traffic c (DC_Close c)" "same_traffic c (DoClose c)" "same_traffic c (QueueControlMessage b c)"
proof -
  show 1: "same_traffic c (SetState st c)" for st c
    by (auto simp: SetState_def log_event_def Let_def intro: same_traffic_log [where es = "[]"] same_traffic_log [where es = "[OnStateChange st]"])
  show 2: "same_traffic c (DisconnectFromTransport c)" for c
    by (auto simp: DisconnectFromTransport_def log_event_def Let_def intro: same_traffic_log [where es = "[]"]
        same_traffic_log [where es = "[DisconnectDataChannel]"]
        same_traffic_log [where es = "[DisconnectDataChannel, RemoveSctpDataStream (chan_id (dc_config c))]"])
  show 3: "same_traffic c (UpdateState_closing c)" for c
    by (auto simp: UpdateState_closing_def Let_def intro: 2 same_traffic_trans [OF 2 1])
  have 4: "same_traffic c (c\<lparr>send_ssrc := 0, send_ssrc_set := False\<rparr>)" "same_traffic c (c\<lparr>receive_ssrc_set := False, send_ssrc_set := False\<rparr>)"
    by (auto intro: same_traffic_log [where es = "[]"])
  show "same_traffic c (DC_Close c)"
    by (auto simp: DC_Close_def intro: same_traffic_refl same_traffic_trans [OF 4(1) same_traffic_trans [OF 1 3]])
  show "same_traffic c (DoClose c)"
    by (auto simp: DoClose_def intro: same_traffic_refl same_traffic_trans [OF 4(2) same_traffic_trans [OF 1 3]])
  show "same_traffic c (QueueControlMessage b c)"
    by (auto simp: QueueControlMessage_def intro: same_traffic_log [where es = "[]"])
qed

section \<open>Calls that move no message\<close>

lemma SendControlMessage_traffic:
  assumes "SendControlMessage prov b c = Some (r, c')"
  shows "same_traffic c c'"
proof -
  define p where "p = SendDataParams_new\<lparr>sdp_ssrc := word_of_int (chan_id (dc_config c)),
    sdp_ordered := ordered (dc_config c) \<or> open_handshake_role (dc_config c) = kOpener, sdp_type := DMT_CONTROL\<rparr>"
  have p: "sdp_type p = DMT_CONTROL" by (simp add: p_def)
  obtain ok sr where ps: "prov_SendData prov (dc_log c) p b = (ok, sr)" by fastforce
  have c': "c' = (if ok then (if open_handshake_role (dc_config c) = kOpener then (log_event (SendData p b ok) c)\<lparr>waiting_for_open_ack := True\<rparr>
                             else log_event (SendData p b ok) c)
             else if sr = SDR_BLOCK then QueueControlMessage b (log_event (SendData p b ok) c)
             else DC_Close (log_event (SendData p b ok) c))"
    using assms ps unfolding SendControlMessage_def Let_def p_def [symmetric] by (auto simp: assert_opt_def split: if_split_asm)
  have 1: "same_traffic c (log_event (SendData p b ok) c)"
    using p by (intro same_traffic_log [where es = "[SendData p b ok]"]) (simp_all add: log_event_def)
  have 2: "same_traffic (log_event (SendData p b ok) c) ((log_event (SendData p b ok) c)\<lparr>waiting_for_open_ack := True\<rparr>)"
    by (rule same_traffic_log [where es = "[]"]) simp_all
  show ?thesis
    unfolding c' using 1 same_traffic_trans [OF 1 2] same_traffic_trans [OF 1 traffic_silent(4)] same_traffic_trans [OF 1 traffic_silent(6)]
    by (auto split: if_splits)
qed

lemma send_control_packets_traffic: "send_control_packets prov bs c = Some c' \<Longrightarrow> same_traffic c c'"
proof (induction bs arbitrary: c)
  case (Cons b bs)
  then show ?case
    by (auto split: Option.bind_split_asm intro: same_traffic_trans dest: SendControlMessage_traffic)
qed (simp add: same_traffic_refl)

lemma SendQueuedControlMessages_traffic:
  assumes "SendQueuedControlMessages prov c = Some c'" shows "same_traffic c c'"
proof -
  have "same_traffic c (c\<lparr>queued_control_data := q\<rparr>)" for q by (rule same_traffic_log [where es = "[]"]) simp_all
  with assms show ?thesis
    by (auto simp: SendQueuedControlMessages_def assert_opt_def Let_def split: Option.bind_split_asm if_split_asm prod.split_asm
        intro: same_traffic_trans dest!: send_control_packets_traffic)
qed

lemma deliver_packets_traffic: "pq_packets (queued_received_data c) = bs @ rest \<Longrightarrow> same_traffic c (deliver_packets bs c)"
proof (induction bs arbitrary: c)
  case (Cons b bs)
  let ?c = "(log_event (OnMessage b) c)\<lparr>queued_received_data := PacketQueue_Pop (queued_received_data c)\<rparr>"
  have q: "pq_packets (queued_received_data ?c) = bs @ rest" using Cons.prems by (simp add: PacketQueue_Pop_def)
  have "same_traffic c ?c"
    using Cons.prems pq_ok_intros(3) q by (auto simp: same_traffic_def outgoing_def incoming_def log_event_def)
  with Cons.IH [OF q] show ?case by (auto intro: same_traffic_trans)
qed (simp add: same_traffic_refl)

lemma Deliver_traffic: "same_traffic c (DeliverQueuedReceivedData c)"
  using deliver_packets_traffic [of c _ "[]"] by (simp add: DeliverQueuedReceivedData_def same_traffic_refl)

lemma connect_traffic: "same_traffic c ((log_event (ConnectDataChannel r) c)\<lparr>connected_to_provider := r\<rparr>)"
  by (rule same_traffic_log [where es = "[ConnectDataChannel r]"]) (simp_all add: log_event_def)

lemma UpdateState_traffic:
  assumes "UpdateState prov c = Some c'" shows "same_traffic c c'"
proof (cases "dc_state c = kConnecting \<and> send_ssrc_set c = receive_ssrc_set c")
  case True
  define d where "d = (if dc_type c = DCT_RTP \<and> \<not> connected_to_provider c
    then (log_event (ConnectDataChannel (prov_ConnectDataChannel prov (dc_log c))) c)\<lparr>connected_to_provider := prov_ConnectDataChannel prov (dc_log c)\<rparr> else c)"
  have d: "same_traffic c d" by (simp add: d_def connect_traffic same_traffic_refl)
  have "UpdateState prov c = (if was_ever_writable d
      then SendQueuedControlMessages prov d \<bind> (\<lambda>c. Some (DeliverQueuedReceivedData (SetState kOpen c))) else Some d)"
    using True by (simp add: UpdateState_def d_def Let_def)
  note eq = this [symmetric, unfolded assms]
  have "same_traffic d c'"
  proof (cases "was_ever_writable d")
    case True
    with eq obtain e where e: "SendQueuedControlMessages prov d = Some e" "c' = DeliverQueuedReceivedData (SetState kOpen e)"
      by (auto split: Option.bind_split_asm)
    show ?thesis unfolding e(2)
      by (rule same_traffic_trans [OF SendQueuedControlMessages_traffic [OF e(1)] same_traffic_trans [OF traffic_silent(1) Deliver_traffic]])
  qed (use eq in \<open>simp add: same_traffic_refl\<close>)
  with d show ?thesis by (rule same_traffic_trans)
qed (use assms traffic_silent(3) same_traffic_refl in \<open>auto simp: UpdateState_def split: DataState.split_asm\<close>)

lemma OnTransportChannelCreated_traffic: "OnTransportChannelCreated prov c = Some c' \<Longrightarrow> same_traffic c c'"
proof -
  have 1: "same_traffic c (log_event (AddSctpDataStream n) c)" for c n
    by (rule same_traffic_log [where es = "[AddSctpDataStream n]"]) (simp_all add: log_event_def)
  show "OnTransportChannelCreated prov c = Some c' \<Longrightarrow> same_traffic c c'"
    by (auto simp: OnTransportChannelCreated_def assert_opt_def Let_def 1 connect_traffic same_traffic_refl same_traffic_trans [OF connect_traffic 1]
        split: if_split_asm)
qed

lemma SetSctpSid_traffic: "SetSctpSid sid c = Some c' \<Longrightarrow> same_traffic c c'"
  by (auto simp: SetSctpSid_def assert_opt_def log_event_def split: if_split_asm
      intro: same_traffic_log [where es = "[]"] same_traffic_log [where es = "[AddSctpDataStream sid]"])

lemma observer_traffic: "same_traffic c (RegisterObserver c)" "same_traffic c (UnregisterObserver c)"
proof -
  have "same_traffic c (c\<lparr>dc_observer := b\<rparr>)" for b by (rule same_traffic_log [where es = "[]"]) simp_all
  then show "same_traffic c (RegisterObserver c)" "same_traffic c (UnregisterObserver c)"
    by (auto simp: RegisterObserver_def UnregisterObserver_def intro: same_traffic_trans [OF _ Deliver_traffic])
qed

section \<open>Sending\<close>

lemma SendDataMessage_cases:
  assumes "SendDataMessage prov b queue c = (ok, c')"
  obtains (sent) "ok" and "outgoing c' = sent_data (dc_log c) @ [b] @ pq_packets (queued_send_data c)" and "incoming c' = incoming c"
      and "queued_send_data c' = queued_send_data c" and "queued_received_data c' = queued_received_data c" and "dc_state c' = dc_state c"
      and "dc_type c' = dc_type c" and "dc_log c' = dc_log c @ [SendData (data_params b c) (db_data b) True]"
    | (queued) "\<not> ok" and "queue" and "outgoing c' = outgoing c @ [b]" and "incoming c' = incoming c"
      and "queued_send_data c' = PacketQueue_Push b (queued_send_data c)" and "queued_received_data c' = queued_received_data c"
      and "dc_state c' = dc_state c" and "dc_type c' = dc_type c"
    | (blocked) "\<not> ok" and "same_traffic c c'" and "dc_state c' = dc_state c" and "\<not> queue \<or> dc_type c \<noteq> DCT_SCTP"
    | (closed) "\<not> ok" and "same_traffic c c'" and "c' = DC_Close (log_event (SendData (data_params b c) (db_data b) False) c)"
proof -
  let ?p = "data_params b c"
  obtain success sr where ps: "prov_SendData prov (dc_log c) ?p (db_data b) = (success, sr)" by fastforce
  let ?c = "log_event (SendData ?p (db_data b) success) c"
  have type: "sdp_type ?p = (if db_binary b then DMT_BINARY else DMT_TEXT)" by (simp add: data_params_def Let_def)
  have b: "\<lparr>db_data = db_data b, db_binary = (sdp_type ?p = DMT_BINARY)\<rparr> = b" by (simp add: type)
  have eq: "SendDataMessage prov b queue c = (if success then (True, ?c) else if dc_type c \<noteq> DCT_SCTP then (False, ?c)
      else if sr = SDR_BLOCK then if \<not> queue then (False, ?c)
        else case QueueSendDataMessage b ?c of (ok, d) \<Rightarrow> if ok then (False, d) else (False, DC_Close d)
      else (False, DC_Close ?c))"
    by (simp add: SendDataMessage_def ps log_event_def)
  have silent: "\<not> success \<Longrightarrow> same_traffic c ?c"
    by (rule same_traffic_log [where es = "[SendData ?p (db_data b) success]"]) (simp_all add: log_event_def)
  show thesis
  proof (cases success)
    case True
    with assms [unfolded eq] have "ok" "c' = log_event (SendData ?p (db_data b) True) c" by simp_all
    then show thesis
      using b type by (intro sent) (simp_all add: outgoing_def incoming_def log_event_def split: if_splits)
  next
    case False
    note st = silent [OF False]
    note eq' = assms [unfolded eq, symmetric]
    show thesis
    proof (cases "dc_type c \<noteq> DCT_SCTP \<or> sr = SDR_BLOCK \<and> \<not> queue")
      case True
      have "(ok, c') = (False, ?c)" unfolding eq' using True False by (simp only: if_True if_False simp_thms) simp
      then show thesis using st True by (intro blocked) (auto simp: log_event_def)
    next
      case other: False
      show thesis
      proof (cases "sr = SDR_BLOCK \<and> pq_byte_count (queued_send_data c) < kMaxQueuedSendDataBytes")
        case True
        have "(ok, c') = (False, ?c\<lparr>queued_send_data := PacketQueue_Push b (queued_send_data ?c)\<rparr>)"
          unfolding eq' using True False other by (simp add: QueueSendDataMessage_def log_event_def)
        with True other show thesis using False
          by (intro queued) (simp_all add: outgoing_def incoming_def log_event_def PacketQueue_Push_def)
      next
        case blocked': False
        have "(ok, c') = (False, DC_Close ?c)"
          unfolding eq' using blocked' False other by (auto simp: QueueSendDataMessage_def log_event_def)
        then show thesis using same_traffic_trans [OF st traffic_silent(4)] False by (intro closed) simp_all
      qed
    qed
  qed
qed

lemma send_data_packets_traffic: "pq_packets (queued_send_data c) = bs @ rest \<Longrightarrow> same_traffic c (send_data_packets prov bs c)"
proof (induction bs arbitrary: c)
  case (Cons b bs)
  obtain ok c' where m: "SendDataMessage prov b False c = (ok, c')" by fastforce
  from m show ?case
  proof (cases rule: SendDataMessage_cases)
    case sent
    let ?d = "c'\<lparr>queued_send_data := PacketQueue_Pop (queued_send_data c')\<rparr>"
    have q: "pq_packets (queued_send_data ?d) = bs @ rest" using Cons.prems sent by (simp add: PacketQueue_Pop_def)
    have out: "sent_data (dc_log c') = sent_data (dc_log c) @ [b]" using sent(2,4) Cons.prems by (simp add: outgoing_def)
    have "same_traffic c ?d"
      using Cons.prems sent q out pq_ok_intros(3) by (auto simp: same_traffic_def outgoing_def incoming_def)
    with Cons.IH [OF q] sent(1) m show ?thesis by (auto intro: same_traffic_trans)
  qed (use m in auto)
qed (simp add: same_traffic_refl)

lemma OnChannelReady_traffic:
  assumes "OnChannelReady h prov writable c = Some c'" shows "same_traffic c c'"
proof -
  have w: "same_traffic c (c\<lparr>was_ever_writable := True\<rparr>)" by (rule same_traffic_log [where es = "[]"]) simp_all
  show ?thesis
    using assms
    by (auto simp: OnChannelReady_def assert_opt_def SendQueuedDataMessages_def Let_def same_traffic_refl
        split: if_split_asm Option.bind_split_asm OpenHandshakeRole.split_asm
        dest!: SendControlMessage_traffic UpdateState_traffic SendQueuedControlMessages_traffic
        intro: same_traffic_trans [OF w] same_traffic_trans send_data_packets_traffic [of _ _ "[]"])
qed

section \<open>A closed channel stays closed\<close>

definition dc_closed :: "DataChannel \<Rightarrow> bool" where
  "dc_closed c \<longleftrightarrow> dc_state c = kClosing \<or> dc_state c = kClosed"

lemma state_frames [simp]:
  "dc_state (SetState st c) = st" "dc_state (log_event e c) = dc_state c" "dc_state (DisconnectFromTransport c) = dc_state c"
  "dc_state (QueueControlMessage b c) = dc_state c"
  by (simp_all add: SetState_def log_event_def DisconnectFromTransport_def QueueControlMessage_def Let_def)

lemma dc_closed_Close [simp]: "dc_closed (DC_Close c)" "dc_closed (DoClose c)"
  by (auto simp: dc_closed_def DC_Close_def DoClose_def UpdateState_closing_def Let_def)

lemma dc_closed_Closing: "dc_closed c \<Longrightarrow> dc_closed (UpdateState_closing c)"
  by (auto simp: dc_closed_def UpdateState_closing_def Let_def)

lemma SendControlMessage_state:
  assumes "SendControlMessage prov b c = Some (r, c')"
  shows "dc_state c' = dc_state c \<or> dc_closed c'"
  using assms by (auto simp: SendControlMessage_def Let_def assert_opt_def split: if_split_asm prod.split_asm)

lemma send_control_packets_closed: "send_control_packets prov bs c = Some c' \<Longrightarrow> dc_closed c \<Longrightarrow> dc_closed c'"
proof (induction bs arbitrary: c)
  case (Cons b bs)
  then show ?case by (auto simp: dc_closed_def split: Option.bind_split_asm dest!: SendControlMessage_state)
qed simp

lemma deliver_packets_state [simp]: "dc_state (deliver_packets bs c) = dc_state c"
  by (induction bs arbitrary: c) auto

lemma Deliver_state [simp]: "dc_state (DeliverQueuedReceivedData c) = dc_state c"
  by (simp add: DeliverQueuedReceivedData_def)

lemma UpdateState_closed: "UpdateState prov c = Some c' \<Longrightarrow> dc_closed c \<Longrightarrow> dc_closed c'"
  using dc_closed_Closing [of c] by (auto simp: UpdateState_def dc_closed_def split: DataState.split_asm)

lemma dc_call_closed:
  assumes "dc_call h prov call (c, sent, received) = Some (c', sent', received')" and "dc_closed c"
  shows "dc_closed c'"
proof (cases call)
  case (CReady writable)
  have w: "dc_closed (c\<lparr>was_ever_writable := True\<rparr>)" using assms(2) by (simp add: dc_closed_def)
  have *: "dc_closed d'" if "SendControlMessage prov b d = Some (r, d')" "dc_closed d" for b d r d'
    using SendControlMessage_state [OF that(1)] that(2) by (auto simp: dc_closed_def)
  have "OnChannelReady h prov writable c = Some c'" using assms(1) CReady by (auto split: Option.bind_split_asm)
  then show ?thesis
    using assms(2) w
    by (auto simp: OnChannelReady_def assert_opt_def Let_def split: if_split_asm Option.bind_split_asm OpenHandshakeRole.split_asm
        dest: * UpdateState_closed) (auto simp: dc_closed_def)
qed (use assms in \<open>auto simp: dc_closed_def RegisterObserver_def UnregisterObserver_def DC_Send_def DC_Close_def DoClose_def
    RemotePeerRequestClose_def OnDataEngineClose_def UpdateState_closing_def OnTransportChannelCreated_def OnDataReceived_def
    SetSctpSid_def assert_opt_def Let_def split: Option.bind_split_asm if_split_asm\<close>)

section \<open>Received messages do not overtake each other\<close>

text \<open>
  For SCTP the SSRC flags are never set. As soon as the channel has been writable and has an observer,
  no received message waits in the queue.
\<close>

definition ready_inv :: "DataChannel \<Rightarrow> bool" where
  "ready_inv c \<longleftrightarrow> \<not> send_ssrc_set c \<and> \<not> receive_ssrc_set c \<and> (dc_state c = kOpen \<longrightarrow> was_ever_writable c) \<and>
     (was_ever_writable c \<and> dc_observer c \<and> \<not> dc_closed c \<longrightarrow> pq_packets (queued_received_data c) = [])"

text \<open>What most calls do to these fields: nothing, except that they may close the channel.\<close>

definition keeps :: "DataChannel \<Rightarrow> DataChannel \<Rightarrow> bool" where
  "keeps c c' \<longleftrightarrow> was_ever_writable c' = was_ever_writable c \<and> dc_observer c' = dc_observer c \<and>
     queued_received_data c' = queued_received_data c \<and> (send_ssrc_set c' \<longrightarrow> send_ssrc_set c) \<and>
     (receive_ssrc_set c' \<longrightarrow> receive_ssrc_set c) \<and> (dc_state c' = dc_state c \<or> dc_closed c')"

lemma keeps_refl [simp]: "keeps c c"
  by (simp add: keeps_def)

lemma keeps_trans: "keeps a b \<Longrightarrow> keeps b c \<Longrightarrow> keeps a c"
  by (auto simp: keeps_def dc_closed_def)

lemma ready_inv_keeps: "keeps c c' \<Longrightarrow> ready_inv c \<Longrightarrow> ready_inv c'"
  by (auto simp: keeps_def ready_inv_def dc_closed_def)

lemma keeps_log [simp]: "keeps c (log_event e c)" "keeps c (QueueControlMessage b c)"
  by (simp_all add: keeps_def log_event_def QueueControlMessage_def)

lemma keeps_Close [simp]: "keeps c (DC_Close c)" "keeps c (DoClose c)"
proof -
  have 1: "keeps (SetState kClosing d) (UpdateState_closing (SetState kClosing d))" for d
    by (auto simp: keeps_def UpdateState_closing_def DisconnectFromTransport_def SetState_def log_event_def dc_closed_def Let_def)
  have 2: "keeps d (SetState kClosing d)" for d by (auto simp: keeps_def SetState_def log_event_def dc_closed_def Let_def)
  have 3: "keeps c (c\<lparr>send_ssrc := 0, send_ssrc_set := False\<rparr>)" "keeps c (c\<lparr>receive_ssrc_set := False, send_ssrc_set := False\<rparr>)"
    by (simp_all add: keeps_def)
  show "keeps c (DC_Close c)" "keeps c (DoClose c)"
    using keeps_trans [OF 3(1) keeps_trans [OF 2 1]] keeps_trans [OF 3(2) keeps_trans [OF 2 1]] by (simp_all add: DC_Close_def DoClose_def)
qed

lemma keeps_log_Close: "keeps c (DC_Close (log_event e c))" "keeps c (QueueControlMessage b (log_event e c))"
  by (rule keeps_trans [OF keeps_log(1) keeps_Close(1)], rule keeps_trans [OF keeps_log])

lemma SendControlMessage_keeps: "SendControlMessage prov b c = Some (r, c') \<Longrightarrow> keeps c c'"
proof -
  have "keeps c ((log_event e c)\<lparr>waiting_for_open_ack := True\<rparr>)" for e by (simp add: keeps_def log_event_def)
  then show "SendControlMessage prov b c = Some (r, c') \<Longrightarrow> keeps c c'"
    by (auto simp: SendControlMessage_def Let_def assert_opt_def keeps_log_Close split: if_split_asm prod.split_asm)
qed

lemma send_control_packets_keeps: "send_control_packets prov bs c = Some c' \<Longrightarrow> keeps c c'"
proof (induction bs arbitrary: c)
  case (Cons b bs)
  then show ?case by (auto split: Option.bind_split_asm intro: keeps_trans dest: SendControlMessage_keeps)
qed simp

lemma SendQueuedControlMessages_keeps:
  assumes "SendQueuedControlMessages prov c = Some c'" shows "keeps c c'"
proof -
  have "keeps c (c\<lparr>queued_control_data := q\<rparr>)" for q by (simp add: keeps_def)
  with assms show ?thesis
    by (auto simp: SendQueuedControlMessages_def assert_opt_def Let_def split: Option.bind_split_asm if_split_asm prod.split_asm
        intro: keeps_trans dest!: send_control_packets_keeps)
qed

lemma SendDataMessage_keeps: "SendDataMessage prov b queue c = (ok, c') \<Longrightarrow> keeps c c'"
proof -
  have "keeps c ((log_event e c)\<lparr>queued_send_data := q\<rparr>)" for e q by (simp add: keeps_def log_event_def)
  then show "SendDataMessage prov b queue c = (ok, c') \<Longrightarrow> keeps c c'"
    by (auto simp: SendDataMessage_def QueueSendDataMessage_def Let_def keeps_log_Close split: if_split_asm prod.split_asm)
qed

lemma send_data_packets_keeps: "keeps c (send_data_packets prov bs c)"
proof (induction bs arbitrary: c)
  case (Cons b bs)
  obtain ok d where d: "SendDataMessage prov b False c = (ok, d)" by fastforce
  have "keeps d (d\<lparr>queued_send_data := q\<rparr>)" for q by (simp add: keeps_def)
  from keeps_trans [OF SendDataMessage_keeps [OF d] keeps_trans [OF this Cons.IH]] SendDataMessage_keeps [OF d] show ?case
    by (simp add: d)
qed simp

lemma deliver_packets_empty:
  "pq_packets (queued_received_data c) = bs \<Longrightarrow> pq_packets (queued_received_data (deliver_packets bs c)) = []"
  by (induction bs arbitrary: c) (simp_all add: PacketQueue_Pop_def)

lemma deliver_frames [simp]:
  "was_ever_writable (deliver_packets bs c) = was_ever_writable c" "dc_observer (deliver_packets bs c) = dc_observer c"
  "send_ssrc_set (deliver_packets bs c) = send_ssrc_set c" "receive_ssrc_set (deliver_packets bs c) = receive_ssrc_set c"
  by (induction bs arbitrary: c) (simp_all add: log_event_def)

lemma Deliver_ready:
  assumes "\<not> send_ssrc_set c" and "\<not> receive_ssrc_set c" and "dc_state c = kOpen \<longrightarrow> was_ever_writable c"
  shows "ready_inv (DeliverQueuedReceivedData c)"
  using assms deliver_packets_empty [of c] by (auto simp: ready_inv_def DeliverQueuedReceivedData_def)

lemma UpdateState_ready:
  assumes "UpdateState prov c = Some c'" and "dc_type c = DCT_SCTP" and "\<not> send_ssrc_set c" and "\<not> receive_ssrc_set c"
    and "dc_state c = kConnecting"
  shows "ready_inv c'"
proof (cases "was_ever_writable c")
  case True
  with assms obtain d where d: "SendQueuedControlMessages prov c = Some d" "c' = DeliverQueuedReceivedData (SetState kOpen d)"
    by (auto simp: UpdateState_def Let_def split: Option.bind_split_asm)
  from SendQueuedControlMessages_keeps [OF d(1)] assms True show ?thesis
    unfolding d(2) by (intro Deliver_ready) (auto simp: keeps_def SetState_def log_event_def Let_def)
next
  case False
  with assms show ?thesis by (simp add: UpdateState_def Let_def ready_inv_def)
qed

lemma OnChannelReady_ready:
  assumes "OnChannelReady h prov writable c = Some c'" and "dc_type c = DCT_SCTP" and "ready_inv c"
  shows "ready_inv c'"
proof (cases "writable \<and> \<not> was_ever_writable c")
  case True
  let ?w = "c\<lparr>was_ever_writable := True\<rparr>"
  from assms(1,2) True obtain d where d: "d = ?w \<or> (\<exists>b r. SendControlMessage prov b ?w = Some (r, d))" and u: "UpdateState prov d = Some c'"
    by (auto simp: OnChannelReady_def assert_opt_def Let_def split: Option.bind_split_asm if_split_asm OpenHandshakeRole.split_asm)
  have k: "keeps ?w d" using d SendControlMessage_keeps by auto
  have type: "dc_type d = DCT_SCTP" using d assms(2) SendControlMessage_traffic by (auto simp: same_traffic_def)
  have flags: "\<not> send_ssrc_set d" "\<not> receive_ssrc_set d" using k assms(3) by (auto simp: keeps_def ready_inv_def)
  show ?thesis
  proof (cases "dc_state d = kConnecting")
    case False
    have "dc_state ?w \<noteq> kOpen" using assms(3) True by (auto simp: ready_inv_def)
    with k False have "dc_closed d" by (cases "dc_state c") (auto simp: keeps_def dc_closed_def)
    moreover have "\<not> send_ssrc_set c'" "\<not> receive_ssrc_set c'"
      using u flags False
      by (auto simp: UpdateState_def UpdateState_closing_def DisconnectFromTransport_def SetState_def log_event_def Let_def
          split: DataState.split_asm if_split_asm)
    ultimately show ?thesis using UpdateState_closed [OF u] by (auto simp: ready_inv_def dc_closed_def)
  qed (rule UpdateState_ready [OF u type flags])
next
  case False
  with assms show ?thesis
    by (auto simp: OnChannelReady_def SendQueuedDataMessages_def assert_opt_def split: if_split_asm Option.bind_split_asm
        intro: ready_inv_keeps [OF keeps_trans [OF SendQueuedControlMessages_keeps send_data_packets_keeps]])
qed

lemma OnTransportChannelCreated_keeps: "OnTransportChannelCreated prov c = Some c' \<Longrightarrow> keeps c c'"
  by (auto simp: OnTransportChannelCreated_def assert_opt_def Let_def log_event_def keeps_def split: if_split_asm)

lemma SetSctpSid_keeps: "SetSctpSid sid c = Some c' \<Longrightarrow> keeps c c'"
  by (auto simp: SetSctpSid_def assert_opt_def log_event_def keeps_def split: if_split_asm)

lemma observer_ready: "ready_inv c \<Longrightarrow> ready_inv (RegisterObserver c)" "ready_inv c \<Longrightarrow> ready_inv (UnregisterObserver c)"
  using Deliver_ready [of "c\<lparr>dc_observer := True\<rparr>"]
  by (auto simp: RegisterObserver_def UnregisterObserver_def ready_inv_def dc_closed_def)

lemma dc_call_ready:
  assumes "dc_call h prov call (c, sent, received) = Some (c', sent', received')"
    and "\<not> ((\<exists>b. call = CSend b) \<or> (\<exists>s t p. call = CReceive s t p))" and "dc_type c = DCT_SCTP" and "ready_inv c"
  shows "ready_inv c'"
  using assms
  by (cases call)
    (auto simp: RemotePeerRequestClose_def OnDataEngineClose_def observer_ready split: Option.bind_split_asm
      intro: ready_inv_keeps [OF keeps_Close(1)] ready_inv_keeps [OF keeps_Close(2)]
      dest: OnTransportChannelCreated_keeps SetSctpSid_keeps ready_inv_keeps OnChannelReady_ready)

section \<open>In order, without loss\<close>

fun dc_inv :: "dc_history \<Rightarrow> bool" where
  "dc_inv (c, sent, received) \<longleftrightarrow> dc_type c = DCT_SCTP \<and> ready_inv c \<and> pq_ok (queued_send_data c) \<and> pq_ok (queued_received_data c) \<and>
     (\<not> dc_closed c \<longrightarrow> outgoing c = sent \<and> incoming c = received)"

lemma dc_inv_silent:
  "dc_inv (c, sent, received) \<Longrightarrow> same_traffic c c' \<Longrightarrow> ready_inv c' \<Longrightarrow> (dc_closed c \<Longrightarrow> dc_closed c') \<Longrightarrow> dc_inv (c', sent, received)"
  by (auto simp: same_traffic_def)

lemma dc_inv_closed:
  "dc_inv (c, sent, received) \<Longrightarrow> same_traffic c c' \<Longrightarrow> keeps c c' \<Longrightarrow> dc_closed c' \<Longrightarrow> dc_inv (c', sent', received')"
  by (auto simp: same_traffic_def intro: ready_inv_keeps)

lemma dc_inv_send:
  assumes inv: "dc_inv (c, sent, received)" and s: "DC_Send prov b c = Some (ok, c')"
  shows "dc_inv (c', if ok \<and> DataBuffer_size b \<noteq> 0 then sent @ [b] else sent, received)"
proof (cases "dc_state c = kOpen \<and> DataBuffer_size b \<noteq> 0")
  case True
  show ?thesis
  proof (cases "PacketQueue_Empty (queued_send_data c)")
    case empty: True
    obtain success d where m: "SendDataMessage prov b True c = (success, d)" by fastforce
    from s True empty m have c': "c' = d" "ok = (if dc_type d = DCT_RTP then success else True)" by (auto simp: DC_Send_def)
    have ready: "ready_inv c'" using ready_inv_keeps [OF SendDataMessage_keeps [OF m]] inv c' by simp
    from m show ?thesis
    proof (cases rule: SendDataMessage_cases)
      case sent
      with inv c' True empty ready show ?thesis by (auto simp: dc_closed_def outgoing_def PacketQueue_Empty_def)
    next
      case queued
      with inv c' True ready show ?thesis by (auto simp: dc_closed_def pq_ok_intros)
    next
      case blocked
      with inv show ?thesis by simp
    next
      case closed
      with dc_inv_closed [OF inv closed(2) SendDataMessage_keeps [OF m]] c' show ?thesis by simp
    qed
  next
    case nonempty: False
    obtain ok' d where q: "QueueSendDataMessage b c = (ok', d)" by fastforce
    with s True nonempty inv have c': "ok" "c' = (if \<not> ok' then DC_Close d else d)"
      by (auto simp: DC_Send_def assert_opt_def split: if_split_asm)
    show ?thesis
    proof (cases ok')
      case True
      with q c' inv \<open>dc_state c = kOpen \<and> DataBuffer_size b \<noteq> 0\<close> show ?thesis
        by (auto simp: QueueSendDataMessage_def ready_inv_def dc_closed_def outgoing_def incoming_def PacketQueue_Push_def
            split: if_split_asm intro: pq_ok_intros(2) [unfolded PacketQueue_Push_def])
    next
      case False
      with q have "d = c" by (auto simp: QueueSendDataMessage_def split: if_split_asm)
      with False c' dc_inv_closed [OF inv traffic_silent(4) keeps_Close(1)] show ?thesis by simp
    qed
  qed
qed (use s inv in \<open>auto simp: DC_Send_def split: if_split_asm\<close>)

lemma dc_inv_receive:
  assumes inv: "dc_inv (c, sent, received)" and r: "OnDataReceived h s mtype payload c = Some c'"
  shows "dc_inv (c', sent, if for_channel s mtype c then received @ [\<lparr>db_data = payload, db_binary = (mtype = DMT_BINARY)\<rparr>] else received)"
proof (cases "for_channel s mtype c")
  case True
  let ?b = "\<lparr>db_data = payload, db_binary = (mtype = DMT_BINARY)\<rparr>" and ?c = "c\<lparr>waiting_for_open_ack := False\<rparr>"
  let ?d = "?c\<lparr>queued_received_data := PacketQueue_Clear (queued_received_data c)\<rparr>"
  have sctp: "dc_type c = DCT_SCTP" using inv by simp
  consider (deliver) "was_ever_writable c" "dc_observer c" "c' = log_event (OnMessage ?b) ?c"
    | (full) "c' = DC_Close ?d"
    | (push) "\<not> (was_ever_writable c \<and> dc_observer c)" "c' = ?c\<lparr>queued_received_data := PacketQueue_Push ?b (queued_received_data c)\<rparr>"
    using r True sctp by (auto simp: OnDataReceived_def for_channel_def assert_opt_def Let_def split: if_split_asm)
  then show ?thesis
  proof cases
    case deliver
    with inv True show ?thesis by (auto simp: outgoing_def incoming_def log_event_def dc_closed_def ready_inv_def)
  next
    case full
    have "dc_inv (DC_Close ?d, sent', received')" for sent' received'
    proof -
      have "ready_inv ?d" using inv by (auto simp: ready_inv_def dc_closed_def PacketQueue_Clear_def)
      from ready_inv_keeps [OF keeps_Close(1) this] inv traffic_silent(4) [of ?d] pq_ok_intros(4) show ?thesis
        by (auto simp: same_traffic_def)
    qed
    with full show ?thesis by (simp del: dc_inv.simps)
  next
    case push
    with inv True show ?thesis
      by (auto simp: outgoing_def incoming_def dc_closed_def ready_inv_def PacketQueue_Push_def
          intro: pq_ok_intros(2) [unfolded PacketQueue_Push_def])
  qed
next
  case False
  with r inv have "c' = c \<or> c' = c\<lparr>waiting_for_open_ack := False\<rparr>"
    by (auto simp: OnDataReceived_def for_channel_def assert_opt_def Let_def split: if_split_asm)
  with inv False show ?thesis by (auto simp: outgoing_def incoming_def dc_closed_def ready_inv_def)
qed

lemma dc_call_inv:
  assumes inv: "dc_inv (c, sent, received)" and call: "dc_call h prov call (c, sent, received) = Some (c', sent', received')"
  shows "dc_inv (c', sent', received')"
proof (cases "(\<exists>b. call = CSend b) \<or> (\<exists>s t p. call = CReceive s t p)")
  case True
  then show ?thesis
  proof (elim disjE exE)
    fix b assume b: "call = CSend b"
    with call obtain ok where "DC_Send prov b c = Some (ok, c')"
      "sent' = (if ok \<and> DataBuffer_size b \<noteq> 0 then sent @ [b] else sent)" "received' = received"
      by (auto split: Option.bind_split_asm)
    with dc_inv_send [OF inv this(1)] show ?thesis by (simp del: dc_inv.simps)
  next
    fix s t p assume b: "call = CReceive s t p"
    with call have "OnDataReceived h s t p c = Some c'" "sent' = sent"
      "received' = (if for_channel s t c then received @ [\<lparr>db_data = p, db_binary = (t = DMT_BINARY)\<rparr>] else received)"
      by (auto split: Option.bind_split_asm)
    with dc_inv_receive [OF inv this(1)] show ?thesis by (simp del: dc_inv.simps)
  qed
next
  case False
  have "same_traffic c c' \<and> sent' = sent \<and> received' = received"
    using call False
    by (cases call)
      (auto simp: RemotePeerRequestClose_def OnDataEngineClose_def traffic_silent observer_traffic split: Option.bind_split_asm
        dest: OnTransportChannelCreated_traffic OnChannelReady_traffic SetSctpSid_traffic)
  moreover have "ready_inv c'" using dc_call_ready [OF call False] inv by simp
  ultimately show ?thesis using dc_inv_silent [OF inv] dc_call_closed [OF call] by blast
qed

lemma dc_run_inv: "dc_inv s \<Longrightarrow> dc_run h prov calls s = Some s' \<Longrightarrow> dc_inv s'"
proof (induction calls arbitrary: s)
  case (Cons call calls)
  obtain c sent received where "s = (c, sent, received)" by (cases s)
  with Cons show ?case by (auto split: Option.bind_split_asm simp del: dc_inv.simps intro: dc_call_inv)
qed simp

lemma DC_Create_inv:
  assumes "DC_Create prov DCT_SCTP label config = Some (Some c)"
  shows "dc_inv (c, [], [])"
proof -
  let ?c = "(DataChannel_new DCT_SCTP label)\<lparr>dc_config := config\<rparr>"
  have init: "dc_inv (?c, [], [])"
    by (simp add: DataChannel_new_def ready_inv_def pq_ok_intros outgoing_def incoming_def PacketQueue_new_def) (simp add: pq_ok_def)
  from assms obtain d where d: "OnTransportChannelCreated prov ?c = Some d" and c: "c = d \<or> c = log_event PostChannelReady d"
    by (auto simp: DC_Create_def DC_Init_def DataChannel_new_def split: Option.bind_split_asm if_split_asm)
  have t: "same_traffic d (log_event PostChannelReady d)" by (rule same_traffic_log [of _ _ "[PostChannelReady]"]) (simp_all add: log_event_def)
  have "same_traffic ?c c" "keeps ?c c"
    using OnTransportChannelCreated_traffic [OF d] OnTransportChannelCreated_keeps [OF d] c t keeps_log(1)
    by (auto intro: same_traffic_trans keeps_trans)
  moreover from this(2) have "ready_inv c" using init by (auto intro: ready_inv_keeps)
  ultimately show ?thesis using dc_inv_silent [OF init] by (simp add: dc_closed_def DataChannel_new_def del: dc_inv.simps)
qed


text \<open>A transport that blocks once, and a history in which messages wait on both sides.\<close>

definition wit_provider :: Provider where
  "wit_provider = \<lparr>prov_SendData = (\<lambda>log p d. if length log = 6 then (False, SDR_BLOCK) else (True, SDR_SUCCESS)),
     prov_ConnectDataChannel = (\<lambda>log. True), prov_ReadyToSendData = (\<lambda>log. False)\<rparr>"

definition wit_config :: InternalDataChannelInit where
  "wit_config = \<lparr>reliable = False, ordered = True, maxRetransmitTime = -1, maxRetransmits = -1, protocol = [], negotiated = True,
     chan_id = 1, open_handshake_role = kNone\<rparr>"

definition wit_calls :: "DcCall list" where
  "wit_calls = [CReceive 1 DMT_TEXT [7], CRegister, CReady True, CReceive 1 DMT_BINARY [8],
     CSend \<lparr>db_data = [1], db_binary = True\<rparr>, CSend \<lparr>db_data = [2], db_binary = False\<rparr>, CSend \<lparr>db_data = [3], db_binary = True\<rparr>]"

definition wit_channel :: DataChannel where
  "wit_channel = the (the (DC_Create wit_provider DCT_SCTP [97] wit_config))"


text \<open>The rules that run the channel on a concrete input.\<close>

lemmas dc_eval = DC_Create_def DC_Init_def DataChannel_new_def OnTransportChannelCreated_def assert_opt_def log_event_def
  InternalDataChannelInit_of_def DataChannelInit_new_def PacketQueue_new_def PacketQueue_Push_def PacketQueue_Pop_def PacketQueue_Swap_def
  PacketQueue_Clear_def PacketQueue_Empty_def OnDataReceived_def RegisterObserver_def DeliverQueuedReceivedData_def OnChannelReady_def
  UpdateState_def SendQueuedControlMessages_def SetState_def DC_Send_def SendDataMessage_def data_params_def SendDataParams_new_def
  QueueSendDataMessage_def DataBuffer_size_def kMaxQueuedReceivedDataBytes_def kMaxQueuedSendDataBytes_def for_channel_def DataChannelInit.defs InternalDataChannelInit.defs


end
