(* ===== verification/Data_Channel_States.thy ===== *)
theory Data_Channel_States
  imports Data_Channel_Correct
begin

text \<open>
  The order in which an observer sees the states of a data channel
  (\<^verbatim>\<open>talk/app/webrtc/datachannel.cc\<close>).
\<close>

section \<open>The order of the states\<close>

fun state_rank :: "DataState \<Rightarrow> nat" where
  "state_rank kConnecting = 0"
| "state_rank kOpen = 1"
| "state_rank kClosing = 2"
| "state_rank kClosed = 3"

lemma state_rank_inj: "state_rank a = state_rank b \<longleftrightarrow> a = b"
  by (cases a; cases b) simp_all

instantiation DataState :: linorder
begin

definition less_eq_DataState :: "DataState \<Rightarrow> DataState \<Rightarrow> bool" where
  "less_eq_DataState a b \<longleftrightarrow> state_rank a \<le> state_rank b"

definition less_DataState :: "DataState \<Rightarrow> DataState \<Rightarrow> bool" where
  "less_DataState a b \<longleftrightarrow> state_rank a < state_rank b"

instance
  by standard (auto simp: less_eq_DataState_def less_DataState_def state_rank_inj)

end

lemma state_order [simp]:
  "kConnecting \<le> st" "st \<le> kClosed" "kOpen \<le> kClosing"
  by (cases st; simp add: less_eq_DataState_def)+

section \<open>What the observer sees\<close>

definition state_event :: "DcEvent \<Rightarrow> DataState list" where
  "state_event e = (case e of OnStateChange st \<Rightarrow> [st] | _ \<Rightarrow> [])"

definition states_seen :: "DcEvent list \<Rightarrow> DataState list" where
  "states_seen log = concat (map state_event log)"

text \<open>The states seen so far are in order, and none is later than the state of the channel.\<close>

definition state_inv :: "DataChannel \<Rightarrow> bool" where
  "state_inv c \<longleftrightarrow> sorted_wrt (<) (states_seen (dc_log c)) \<and> (\<forall>st \<in> set (states_seen (dc_log c)). st \<le> dc_state c)"

definition advances :: "DataChannel \<Rightarrow> DataChannel \<Rightarrow> bool" where
  "advances c c' \<longleftrightarrow> dc_state c \<le> dc_state c' \<and> (state_inv c \<longrightarrow> state_inv c')"

lemma advances_refl [simp]: "advances c c"
  by (simp add: advances_def)

lemma advances_trans: "advances a b \<Longrightarrow> advances b c \<Longrightarrow> advances a c"
  by (auto simp: advances_def)

lemma states_seen_simps [simp]:
  "states_seen [] = []" "states_seen (e # es) = state_event e @ states_seen es" "states_seen (es @ es') = states_seen es @ states_seen es'"
  "state_event (SendData p d ok) = []" "state_event (ConnectDataChannel r) = []" "state_event DisconnectDataChannel = []"
  "state_event (AddSctpDataStream n) = []" "state_event (RemoveSctpDataStream n) = []" "state_event PostChannelReady = []"
  "state_event (OnStateChange st) = [st]" "state_event (OnMessage b) = []"
  by (simp_all add: states_seen_def state_event_def)

lemma advances_log:
  assumes "dc_log c' = dc_log c @ es" and "states_seen es = []" and "dc_state c' = dc_state c"
  shows "advances c c'"
  using assms by (simp add: advances_def state_inv_def)

lemma advances_cong: "dc_log c' = dc_log c \<Longrightarrow> dc_state c' = dc_state c \<Longrightarrow> advances c c'"
  by (rule advances_log [of _ _ "[]"]) simp_all

lemma SetState_advances: "dc_state c \<le> st \<Longrightarrow> advances c (SetState st c)"
  by (auto simp: advances_def state_inv_def SetState_def log_event_def Let_def sorted_wrt_append)

lemma DisconnectFromTransport_advances: "advances c (DisconnectFromTransport c)" "dc_state (DisconnectFromTransport c) = dc_state c"
  by (auto simp: DisconnectFromTransport_def log_event_def advances_def state_inv_def Let_def)

lemma UpdateState_closing_advances: "advances c (UpdateState_closing c)"
  using DisconnectFromTransport_advances(1) [of c] SetState_advances [of "DisconnectFromTransport c" kClosed]
  by (auto simp: UpdateState_closing_def Let_def intro: advances_trans)

lemma Close_advances: "advances c (DC_Close c)" "advances c (DoClose c)"
proof -
  have *: "advances c (UpdateState_closing (SetState kClosing d))"
    if "dc_log d = dc_log c" "dc_state d = dc_state c" "dc_state c \<noteq> kClosed" for d
  proof -
    have "dc_state d \<le> kClosing" using that by (cases "dc_state c") (simp_all add: less_eq_DataState_def)
    from advances_trans [OF advances_cong [OF that(1,2)] advances_trans [OF SetState_advances [OF this] UpdateState_closing_advances]]
    show ?thesis .
  qed
  show "advances c (DC_Close c)" "advances c (DoClose c)" by (auto simp: DC_Close_def DoClose_def intro: *)
qed

lemma deliver_advances: "advances c (deliver_packets bs c)"
proof (induction bs arbitrary: c)
  case (Cons b bs)
  let ?d = "(log_event (OnMessage b) c)\<lparr>queued_received_data := PacketQueue_Pop (queued_received_data c)\<rparr>"
  have "advances c ?d" by (rule advances_log [of _ _ "[OnMessage b]"]) (simp_all add: log_event_def)
  then show ?case using Cons [of ?d] by (simp add: advances_trans)
qed simp

lemma Deliver_advances: "advances c (DeliverQueuedReceivedData c)"
  by (simp add: DeliverQueuedReceivedData_def deliver_advances)

section \<open>Sending\<close>

text \<open>A transport that may block but does not fail.\<close>

definition never_fails :: "Provider \<Rightarrow> bool" where
  "never_fails prov \<longleftrightarrow> (\<forall>log p d. fst (prov_SendData prov log p d) \<or> snd (prov_SendData prov log p d) = SDR_BLOCK)"

lemma SendControlMessage_same_state:
  assumes "never_fails prov" and "SendControlMessage prov b c = Some (r, c')"
  shows "dc_state c' = dc_state c \<and> advances c c'"
proof -
  obtain ok res p where p: "prov_SendData prov (dc_log c) p b = (ok, res)" and c: "dc_state c' = dc_state c" "dc_log c' = dc_log c @ [SendData p b ok]"
    using assms
    by (auto simp: never_fails_def SendControlMessage_def Let_def assert_opt_def log_event_def QueueControlMessage_def
        split: if_split_asm prod.split_asm) (metis fst_conv snd_conv)+
  from advances_log [OF c(2) _ c(1)] c(1) show ?thesis by simp
qed

lemma send_control_packets_same_state:
  assumes "never_fails prov" shows "send_control_packets prov bs c = Some c' \<Longrightarrow> dc_state c' = dc_state c \<and> advances c c'"
proof (induction bs arbitrary: c)
  case (Cons b bs)
  from Cons.prems obtain r d where "SendControlMessage prov (db_data b) c = Some (r, d)" "send_control_packets prov bs d = Some c'"
    by (auto split: Option.bind_split_asm)
  with SendControlMessage_same_state [OF assms] Cons.IH show ?case by (metis advances_trans)
qed simp

lemma SendQueuedControlMessages_same_state:
  assumes "never_fails prov" and "SendQueuedControlMessages prov c = Some c'"
  shows "dc_state c' = dc_state c \<and> advances c c'"
proof -
  obtain bs q where "send_control_packets prov bs (c\<lparr>queued_control_data := q\<rparr>) = Some c'"
    using assms(2) by (auto simp: SendQueuedControlMessages_def assert_opt_def split: if_split_asm prod.split_asm)
  from send_control_packets_same_state [OF assms(1) this] advances_cong [of "c\<lparr>queued_control_data := q\<rparr>" c]
  show ?thesis by (auto intro: advances_trans)
qed

lemma UpdateState_advances:
  assumes "never_fails prov" and "UpdateState prov c = Some c'"
  shows "advances c c'"
proof (cases "dc_state c = kConnecting")
  case True
  let ?d = "if dc_type c = DCT_RTP \<and> \<not> connected_to_provider c
     then (log_event (ConnectDataChannel (prov_ConnectDataChannel prov (dc_log c))) c)\<lparr>connected_to_provider := prov_ConnectDataChannel prov (dc_log c)\<rparr>
     else c"
  have d: "advances c ?d" "dc_state ?d = dc_state c"
    by (auto simp: log_event_def intro: advances_log [of _ _ "[ConnectDataChannel (prov_ConnectDataChannel prov (dc_log c))]"])
  from assms(2) True consider "c' = c" | "c' = ?d"
    | e where "SendQueuedControlMessages prov ?d = Some e" "c' = DeliverQueuedReceivedData (SetState kOpen e)"
    by (auto simp: UpdateState_def Let_def split: if_split_asm Option.bind_split_asm)
  then show ?thesis
  proof cases
    case 3
    from SendQueuedControlMessages_same_state [OF assms(1) 3(1)] d(2) True have e: "dc_state e = kConnecting" "advances ?d e" by simp_all
    have "advances e c'" unfolding 3(2) by (rule advances_trans [OF SetState_advances Deliver_advances]) (simp add: e)
    with d e show ?thesis by (blast intro: advances_trans)
  qed (use d in simp_all)
next
  case False
  with assms(2) show ?thesis by (cases "dc_state c") (auto simp: UpdateState_def UpdateState_closing_advances)
qed

lemma SendDataMessage_advances: "SendDataMessage prov b queue c = (ok, c') \<Longrightarrow> advances c c'"
proof -
  have log: "advances c (log_event (SendData p d r) c)" "advances c ((log_event (SendData p d r) c)\<lparr>queued_send_data := q\<rparr>)" for p d r q
    by (rule advances_log [of _ _ "[SendData p d r]"]; simp add: log_event_def)+
  then show "SendDataMessage prov b queue c = (ok, c') \<Longrightarrow> advances c c'"
    by (auto simp: SendDataMessage_def QueueSendDataMessage_def Let_def split: if_split_asm prod.split_asm
        intro: advances_trans [OF log(1) Close_advances(1)])
qed

lemma send_data_packets_advances: "advances c (send_data_packets prov bs c)"
proof (induction bs arbitrary: c)
  case (Cons b bs)
  obtain ok d where d: "SendDataMessage prov b False c = (ok, d)" by fastforce
  have "advances d (d\<lparr>queued_send_data := q\<rparr>)" for q by (simp add: advances_cong)
  from advances_trans [OF SendDataMessage_advances [OF d] advances_trans [OF this Cons.IH]] SendDataMessage_advances [OF d] show ?case
    by (simp add: d)
qed simp

lemma OnChannelReady_advances:
  assumes fair: "never_fails prov" and r: "OnChannelReady h prov writable c = Some c'"
  shows "advances c c'"
proof (cases "writable \<and> \<not> was_ever_writable c")
  case True
  let ?w = "c\<lparr>was_ever_writable := True\<rparr>"
  from r True obtain d where d: "d = ?w \<or> (\<exists>b r. SendControlMessage prov b ?w = Some (r, d))" and u: "UpdateState prov d = Some c'"
    by (auto simp: OnChannelReady_def assert_opt_def Let_def split: Option.bind_split_asm if_split_asm OpenHandshakeRole.split_asm)
  have "advances c ?w" by (simp add: advances_cong)
  moreover have "advances ?w d" using d SendControlMessage_same_state [OF fair] by auto
  ultimately show ?thesis using UpdateState_advances [OF fair u] by (blast intro: advances_trans)
next
  case False
  with r consider "c' = c" | d bs where "SendQueuedControlMessages prov c = Some d" "c' = send_data_packets prov bs d"
    by (auto simp: OnChannelReady_def SendQueuedDataMessages_def assert_opt_def split: if_split_asm Option.bind_split_asm)
  then show ?thesis
  proof cases
    case 2
    then show ?thesis
      using SendQueuedControlMessages_same_state [OF fair 2(1)] send_data_packets_advances by (auto intro: advances_trans)
  qed simp
qed

section \<open>Histories\<close>

lemma DC_Send_advances: "DC_Send prov b c = Some (ok, c') \<Longrightarrow> advances c c'"
proof -
  have "advances c (c\<lparr>queued_send_data := q\<rparr>)" for q by (simp add: advances_cong)
  then show "DC_Send prov b c = Some (ok, c') \<Longrightarrow> advances c c'"
    by (auto simp: DC_Send_def QueueSendDataMessage_def Let_def assert_opt_def Close_advances
        split: if_split_asm prod.split_asm dest: SendDataMessage_advances)
qed

lemma OnDataReceived_advances: "OnDataReceived h s mtype payload c = Some c' \<Longrightarrow> advances c c'"
proof -
  have "advances c (c\<lparr>waiting_for_open_ack := False\<rparr>)" "advances c (c\<lparr>waiting_for_open_ack := False, queued_received_data := q\<rparr>)" for q
    by (simp_all add: advances_cong)
  moreover have "advances c (c\<lparr>waiting_for_open_ack := False, dc_log := dc_log c @ [OnMessage b]\<rparr>)" for b
    by (rule advances_log [of _ _ "[OnMessage b]"]) simp_all
  ultimately show "OnDataReceived h s mtype payload c = Some c' \<Longrightarrow> advances c c'"
    by (auto simp: OnDataReceived_def Let_def assert_opt_def log_event_def split: if_split_asm
        intro: advances_trans [OF _ Close_advances(1)])
qed

lemma observer_advances: "advances c (RegisterObserver c)" "advances c (UnregisterObserver c)"
  using advances_trans [OF advances_cong [of "c\<lparr>dc_observer := True\<rparr>" c] Deliver_advances]
  by (simp_all add: RegisterObserver_def UnregisterObserver_def advances_cong)

lemma OnTransportChannelCreated_advances: "OnTransportChannelCreated prov c = Some c' \<Longrightarrow> advances c c'"
  by (auto simp: OnTransportChannelCreated_def assert_opt_def Let_def log_event_def advances_def state_inv_def split: if_split_asm)

lemma SetSctpSid_advances: "SetSctpSid sid c = Some c' \<Longrightarrow> advances c c'"
  by (auto simp: SetSctpSid_def assert_opt_def log_event_def advances_def state_inv_def split: if_split_asm)

lemma dc_call_advances:
  assumes "never_fails prov" and "dc_call h prov call (c, sent, received) = Some (c', sent', received')"
  shows "advances c c'"
  using assms(2)
  by (cases call)
    (auto simp: RemotePeerRequestClose_def OnDataEngineClose_def Close_advances observer_advances split: Option.bind_split_asm
      dest: OnTransportChannelCreated_advances SetSctpSid_advances DC_Send_advances OnDataReceived_advances
        OnChannelReady_advances [OF assms(1)])

lemma dc_run_advances:
  assumes "never_fails prov" shows "dc_run h prov calls (c, sent, received) = Some (c', sent', received') \<Longrightarrow> advances c c'"
proof (induction calls arbitrary: c sent received)
  case (Cons call calls)
  from Cons.prems obtain d s r where "dc_call h prov call (c, sent, received) = Some (d, s, r)" "dc_run h prov calls (d, s, r) = Some (c', sent', received')"
    by (auto split: Option.bind_split_asm)
  with dc_call_advances [OF assms] Cons.IH show ?case by (blast intro: advances_trans)
qed simp

lemma DC_Create_state_inv: "DC_Create prov dct label config = Some (Some c) \<Longrightarrow> state_inv c"
  by (auto simp: DC_Create_def DC_Init_def DataChannel_new_def OnTransportChannelCreated_def assert_opt_def Let_def log_event_def state_inv_def
      split: if_split_asm Option.bind_split_asm)

text \<open>C14: over a transport that may block but does not fail, an observer sees the states of a data channel
  in the order connecting, open, closing, closed, none of them twice, and the channel is never in an
  earlier state than the last one announced.
\<close>

theorem data_channel_states_in_order:
  assumes "DC_Create prov dct label config = Some (Some c\<^sub>0)" and "never_fails prov"
    and "dc_run h prov calls (c\<^sub>0, [], []) = Some (c, sent, received)"
  shows "sorted_wrt (<) (states_seen (dc_log c)) \<and> (\<forall>st \<in> set (states_seen (dc_log c)). st \<le> dc_state c)"
  using dc_run_advances [OF assms(2,3)] DC_Create_state_inv [OF assms(1)] by (simp add: advances_def state_inv_def)

definition wit_life :: "DcCall list" where
  "wit_life = [CRegister, CReady True, CSend \<lparr>db_data = [1], db_binary = True\<rparr>, CClose]"

theorem data_channel_states_in_order_witness:
  "case dc_run False wit_provider wit_life (wit_channel, [], []) of
     None \<Rightarrow> False
   | Some (c, sent, received) \<Rightarrow>
       states_seen (dc_log c) = [kOpen, kClosing, kClosed] \<and> sorted_wrt (<) (states_seen (dc_log c)) \<and> dc_state c = kClosed"
proof -
  have 1: "DC_Create wit_provider DCT_SCTP [97] wit_config = Some (Some wit_channel)"
    by (simp add: wit_channel_def wit_provider_def wit_config_def dc_eval)
  have 2: "never_fails wit_provider" by (simp add: never_fails_def wit_provider_def)
  have 3: "case dc_run False wit_provider wit_life (wit_channel, [], []) of None \<Rightarrow> False
     | Some (c, sent, received) \<Rightarrow> states_seen (dc_log c) = [kOpen, kClosing, kClosed] \<and> dc_state c = kClosed"
    by (simp add: wit_channel_def wit_provider_def wit_config_def wit_life_def dc_eval DC_Close_def UpdateState_closing_def DisconnectFromTransport_def)
  then obtain c sent received where r: "dc_run False wit_provider wit_life (wit_channel, [], []) = Some (c, sent, received)"
    by (auto split: option.split_asm)
  from data_channel_states_in_order [OF 1 2 r] 3 r show ?thesis by simp
qed

section \<open>A transport that fails\<close>

text \<open>
  The hypothesis is needed. When the open message is blocked and its second attempt fails, \<^verbatim>\<open>UpdateState\<close>
  closes the channel on the way and opens it again: the observer sees closing, closed, open.
\<close>

definition failing_provider :: Provider where
  "failing_provider = \<lparr>prov_SendData = (\<lambda>log p d. (False, if length log = 2 then SDR_BLOCK else SDR_ERROR)),
     prov_ConnectDataChannel = (\<lambda>log. True), prov_ReadyToSendData = (\<lambda>log. False)\<rparr>"

definition opener_config :: InternalDataChannelInit where
  "opener_config = wit_config\<lparr>negotiated := False, open_handshake_role := kOpener\<rparr>"

lemma data_channel_reopened:
  "case dc_run False failing_provider [CRegister, CReady True] (the (the (DC_Create failing_provider DCT_SCTP [97] opener_config)), [], []) of
     None \<Rightarrow> False
   | Some (c, sent, received) \<Rightarrow> states_seen (dc_log c) = [kClosing, kClosed, kOpen] \<and> dc_state c = kOpen \<and> \<not> connected_to_provider c"
  by (simp add: failing_provider_def opener_config_def wit_config_def dc_eval DC_Close_def UpdateState_closing_def DisconnectFromTransport_def
      SendControlMessage_def QueueControlMessage_def)

end
