(* ===== verification/Spec2Isabelle.thy ===== *)
theory Spec2Isabelle
  imports String_Markup Fifo_Correct Time_Utils Pseudo_Tcp_Progress Ip_Prefix Stun_Correct Stun_Request
    Stream_Params Demux_Filter Srtp_Filter Data_Channel_States
begin

text \<open>
  A verification library for libwebrtc: the wire formats, protocols and filters between an
  application and the network, from byte buffers to media packets.

  \<^bold>\<open>The program.\<close> libwebrtc connects two peers. The parts modelled here build on each other:

  \<^item> Bytes: integers in memory (\<^verbatim>\<open>byteorder.h\<close>), a growable buffer (\<^verbatim>\<open>bytebuffer.cc\<close>), a ring buffer
    (\<^verbatim>\<open>FifoBuffer\<close> of \<^verbatim>\<open>stream.cc\<close>), text encodings (\<^verbatim>\<open>stringencode.cc\<close>, \<^verbatim>\<open>base64.cc\<close>), the 32-bit clock
    (\<^verbatim>\<open>timeutils.cc\<close>), addresses (\<^verbatim>\<open>ipaddress.cc\<close>).
  \<^item> Checksums: CRC-32, MD5, SHA-1, HMAC (\<^verbatim>\<open>crc32.cc\<close>, \<^verbatim>\<open>md5.cc\<close>, \<^verbatim>\<open>sha1.cc\<close>, \<^verbatim>\<open>messagedigest.cc\<close>).
  \<^item> Finding a path: STUN messages and requests (\<^verbatim>\<open>p2p/base/stun.cc\<close>, \<^verbatim>\<open>stunrequest.cc\<close>), built on byte buffers,
    addresses and checksums.
  \<^item> A reliable byte stream over packets: \<^verbatim>\<open>PseudoTcp\<close> (\<^verbatim>\<open>p2p/base/pseudotcp.cc\<close>), built on two ring
    buffers and the clock.
  \<^item> Media: streams (\<^verbatim>\<open>streamparams.cc\<close>), RTP headers (\<^verbatim>\<open>rtputils.cc\<close>), the filters that decide which
    channel gets a packet (\<^verbatim>\<open>rtcpmuxfilter.cc\<close>, \<^verbatim>\<open>bundlefilter.cc\<close>, two functions of \<^verbatim>\<open>channel.cc\<close>) and the
    filter that encrypts it (\<^verbatim>\<open>srtpfilter.cc\<close>), whose keys travel in Base64.
  \<^item> Data: the messages that open a data channel (\<^verbatim>\<open>sctputils.cc\<close>) and the channel itself
    (\<^verbatim>\<open>datachannel.cc\<close>).

  Sources without a directory are in \<^verbatim>\<open>src/webrtc/base\<close>, \<^verbatim>\<open>src/talk/media/base\<close>,
  \<^verbatim>\<open>src/talk/session/media\<close> or \<^verbatim>\<open>src/talk/app/webrtc\<close>.

  \<^bold>\<open>Conventions.\<close> A class is a record with the members of the class, a method a function of the same
  name that takes the object last and returns it changed; a prefix such as \<open>DC_\<close> or \<open>Srtp_\<close> tells
  methods of the same name apart. An enumeration is a datatype. \<^verbatim>\<open>uint8\<close> to \<^verbatim>\<open>uint64\<close> are words of
  that width and wrap around; \<^verbatim>\<open>size_t\<close> is \<open>nat\<close>; \<^verbatim>\<open>int\<close> is \<open>int\<close> where it does not overflow. Memory is
  a list of bytes, fresh memory is zero. A failed \<^verbatim>\<open>ASSERT\<close>, an access outside of a buffer and undefined
  arithmetic are \<open>None\<close>; where the code returns \<^verbatim>\<open>false\<close>, the result is a Boolean or a second option
  next to the object. \<open>h\<close> is the byte order of the host (true for big endian), \<open>now\<close> or \<open>clk\<close> the time
  of the call. Calls to the outside (notify objects, observers, transports, posted events) are
  recorded in a log of the object; what they return is a parameter that may depend on everything that
  happened before, and they do not call back during the call.

  \<^bold>\<open>The theories.\<close>

  \<^descr>[\<open>Prelude\<close>] Words and their bytes, lists with a copied-in part, the named collections, the
    assertion of the option monad.
  \<^descr>[\<open>Byte_Order\<close>, \<open>Byte_Buffer\<close>] Every accessor and every method of \<^verbatim>\<open>ByteBuffer\<close>. The locale \<open>byte_queue\<close>
    is the contract of a queue of bytes, interpreted by \<^verbatim>\<open>WriteBytes\<close> and \<^verbatim>\<open>ReadBytes\<close>: what is read is
    what was written, and integers survive the trip between hosts of any byte order.
  \<^descr>[\<open>Fifo_Buffer\<close>, \<open>Fifo_Correct\<close>] The ring buffer with reads and writes at an offset. The locale
    \<open>bounded_fifo\<close> is its contract. Shown are that it is a bounded queue, that pieces written ahead
    arrive in order, and that no wake-up is lost.
  \<^descr>[\<open>String_Encode\<close>, \<open>String_Correct\<close>, \<open>String_Markup\<close>] The encoders and decoders of \<^verbatim>\<open>stringencode.cc\<close>. The
    locale \<open>bounded_codec\<close>, with four interpretations, gives the round trips and the bounds on the output
    buffer once for all.
  \<^descr>[\<open>Base64\<close>] Tables, encoder and decoder for all flags. Strict decoding is the inverse of encoding.
  \<^descr>[\<open>Time_Utils\<close>] Comparison of 32-bit time stamps, and the recovery of the 64-bit time line.
  \<^descr>[\<open>Ip_Address\<close>, \<open>Ip_Prefix\<close>] Addresses, their order, masks and prefixes, bit by bit.
  \<^descr>[\<open>Crc32\<close>] The table-driven CRC is the bitwise one, can be continued, and detects a damaged byte.
  \<^descr>[\<open>Block_Hash\<close>, \<open>Md5\<close>, \<open>Sha1\<close>, \<open>Message_Digest\<close>, \<open>Digests\<close>] The digests. What the streaming code has in
    common is in \<open>Block_Hash\<close>; the virtual interface is the locale \<open>message_digest\<close>, interpreted by both
    digests, in which the HMAC is proved to be the one of RFC 2104.
  \<^descr>[\<open>Stun\<close>, \<open>Stun_Wire\<close>, \<open>Stun_Integrity\<close>, \<open>Stun_Correct\<close>] All attributes and messages. Reading inverts
    writing, accepted messages are well typed and account for every byte, protected messages are
    accepted and damaged ones rejected, and exactly when the integrity check reads outside the packet.
  \<^descr>[\<open>Stun_Request\<close>] The manager of outstanding STUN requests, with its thread and the network as an inductive
    predicate of reachable states. Requests are repeated on schedule, every one of them ends, and a
    response reaches the request it answers.
  \<^descr>[\<open>Pseudo_Tcp_Out\<close>, \<open>Pseudo_Tcp\<close>] The whole protocol in the order of the code.
  \<^descr>[\<open>Pseudo_Tcp_State\<close>] The states, the timer, the packets on the wire.
  \<^descr>[\<open>Pseudo_Tcp_Recv\<close>, \<open>Pseudo_Tcp_Delivery\<close>] The receiver delivers the stream of the peer in order and, once
    every byte has arrived, completely.
  \<^descr>[\<open>Pseudo_Tcp_Send\<close>, \<open>Pseudo_Tcp_Progress\<close>] The sender sends the stream of its application. Both sides
    over a network that loses, repeats and reorders packets implement a byte stream. The send loop ends
    without a failed assertion; an acknowledgement inside a segment is the exception.
  \<^descr>[\<open>Rtp_Utils\<close>, \<open>Stream_Params\<close>, \<open>Demux_Filter\<close>] Headers, streams and filters. The locale \<open>stream_store\<close>
    is interpreted by a list of streams and by the three lists of \<^verbatim>\<open>MediaStreams\<close>. A header is read back
    as written, the mux filter follows its negotiation, and a packet reaches the channel that wants its
    payload type.
  \<^descr>[\<open>Srtp_Filter\<close>] Negotiation and sessions over libsrtp as a parameter. No assertion fails, and after an
    offer and an answer the two sides understand each other.
  \<^descr>[\<open>Sctp_Utils\<close>, \<open>Data_Channel\<close>, \<open>Data_Channel_Correct\<close>, \<open>Data_Channel_States\<close>] The data channel. Its
    messages pass in order without loss, and its states follow each other in order.

  \<^bold>\<open>Bounds.\<close> There is no fuel: every loop is a total function with a proof of termination. Statements
  about the stream of a \<^verbatim>\<open>PseudoTcp\<close> connection assume that it has less than \<open>2 ^ 32\<close> bytes, because the
  code compares sequence numbers without regard to wrap-around; those about labels and protocols of
  data channels assume lengths below \<open>2 ^ 16\<close>, the width of the length fields. The hypotheses on
  libsrtp say that contexts made from the same key are a pair; those on the transport of a data
  channel say that it may block but does not fail. Both have a concrete instance.

  \<^bold>\<open>Not modelled.\<close> Threads, sockets and files (\<^verbatim>\<open>thread.cc\<close>, \<^verbatim>\<open>physicalsocketserver.cc\<close>, \<^verbatim>\<open>fileutils.cc\<close>) are
  calls to the operating system. TLS and certificates call OpenSSL or NSS; codecs and engines are not
  part of the sources, and the media engine code only forwards to them. Ports, transports and sessions
  are event-driven code over those threads and sockets; what they exchange (STUN messages, PseudoTcp
  segments) and what they set up (the filters above) is modelled. The XML and XMPP code is built around
  expat, which is not part of the sources. HTTP and proxies, the session descriptions and the interfaces
  for applications keep their state in large graphs of objects with callbacks. Locks are left out: every
  operation is one step. Log messages, statistics that only feed them, and functions that only print are
  left out.
\<close>

end
